(* ===== verification/Prelude.thy ===== *)
theory Prelude
  imports Main "HOL-Library.Word"
begin

text \<open>
  Shared vocabulary of the development.

  \<^item> Machine integers: \<open>u8\<close>, \<open>u16\<close>, \<open>u32\<close> are words; \<open>usize\<close> quantities (lengths, offsets)
    and the \<open>u64\<close> message counter are natural numbers.  Subtractions and indexing that
    would fail in Rust are guarded in the model and give \<open>Panic\<close>.
  \<^item> Results: \<open>('e, 'a) result\<close> has the two constructors of Rust's \<open>Result\<close> and a third one,
    \<open>Panic\<close>, for a slice index out of range, an arithmetic overflow (overflow checks on),
    an \<open>unwrap\<close> of an error, or a \<open>panic!\<close>.  \<open>rbind\<close> is the \<open>?\<close> operator.
  \<^item> Strings: a Rust \<open>&str\<close> is its UTF-8 byte list; \<open>utf8_valid\<close> is \<open>core::str::from_utf8\<close>'s
    acceptance test.
  \<^item> Byte lists: \<open>slice\<close> (a sub-slice) and \<open>splice\<close> (\<open>copy_from_slice\<close> into a sub-slice), with
    the lemmas every buffer proof uses, and the big-endian conversions of
    \<open>to_be_bytes\<close> and \<open>from_be_bytes\<close>.
\<close>

unbundle bit_operations_syntax

named_theorems byte_simps \<open>byte masks, big-endian conversions and buffer slices\<close>

section \<open>Machine types and results\<close>

type_synonym u8 = "8 word"
type_synonym u16 = "16 word"
type_synonym u32 = "32 word"
type_synonym bytes = "u8 list"
type_synonym str = "u8 list"

datatype ('e, 'a) result = Ok 'a | Err 'e | Panic

fun rbind :: "('e, 'a) result \<Rightarrow> ('a \<Rightarrow> ('e, 'b) result) \<Rightarrow> ('e, 'b) result" where
  "rbind (Ok x) f = f x"
| "rbind (Err e) f = Err e"
| "rbind Panic f = Panic"

fun map_err :: "('e \<Rightarrow> 'f) \<Rightarrow> ('e, 'a) result \<Rightarrow> ('f, 'a) result" where
  "map_err f (Ok x) = Ok x"
| "map_err f (Err e) = Err (f e)"
| "map_err f Panic = Panic"

fun map_ok :: "('a \<Rightarrow> 'b) \<Rightarrow> ('e, 'a) result \<Rightarrow> ('e, 'b) result" where
  "map_ok f (Ok x) = Ok (f x)"
| "map_ok f (Err e) = Err e"
| "map_ok f Panic = Panic"

fun is_ok :: "('e, 'a) result \<Rightarrow> bool" where
  "is_ok (Ok x) = True"
| "is_ok (Err e) = False"
| "is_ok Panic = False"

lemma rbind_Ok_iff: "rbind r f = Ok y \<longleftrightarrow> (\<exists>x. r = Ok x \<and> f x = Ok y)"
  by (cases r) auto

lemma rbind_Panic_iff: "rbind r f = Panic \<longleftrightarrow> r = Panic \<or> (\<exists>x. r = Ok x \<and> f x = Panic)"
  by (cases r) auto

lemma rbind_assoc: "rbind (rbind r f) g = rbind r (\<lambda>x. rbind (f x) g)"
  by (cases r) auto

lemma map_err_Ok_iff [simp]: "map_err f r = Ok y \<longleftrightarrow> r = Ok y"
  by (cases r) auto

lemma map_err_Panic_iff [simp]: "map_err f r = Panic \<longleftrightarrow> r = Panic"
  by (cases r) auto

lemma is_ok_iff: "is_ok r \<longleftrightarrow> (\<exists>x. r = Ok x)"
  by (cases r) auto

section \<open>Slices of byte buffers\<close>

definition slice :: "'a list \<Rightarrow> nat \<Rightarrow> nat \<Rightarrow> 'a list" where
  "slice xs i n = take n (drop i xs)"

definition splice :: "'a list \<Rightarrow> nat \<Rightarrow> 'a list \<Rightarrow> 'a list" where
  "splice xs i v = take i xs @ v @ drop (i + length v) xs"

lemma length_slice [simp]: "length (slice xs i n) = min n (length xs - i)"
  by (simp add: slice_def)

lemma slice_append_middle [byte_simps]:
  "i = length pre \<Longrightarrow> n = length v \<Longrightarrow> slice (pre @ v @ post) i n = v"
  by (simp add: slice_def)

lemma length_splice [simp]: "i + length v \<le> length xs \<Longrightarrow> length (splice xs i v) = length xs"
  by (simp add: splice_def)

lemma splice_Nil [simp]: "splice xs i [] = xs"
  by (simp add: splice_def)

lemma splice_append:
  "i + length v + length w \<le> length xs \<Longrightarrow> splice (splice xs i v) (i + length v) w = splice xs i (v @ w)"
  by (simp add: splice_def ac_simps)

lemma take_splice_end: "i + length v \<le> length xs \<Longrightarrow> take (i + length v) (splice xs i v) = take i xs @ v"
  by (simp add: splice_def)

lemma slice_splice_same [byte_simps]:
  "i + length v \<le> length xs \<Longrightarrow> slice (splice xs i v) i (length v) = v"
  by (simp add: splice_def slice_def)

lemma nth_splice:
  "i + length v \<le> length xs \<Longrightarrow> k < length xs \<Longrightarrow>
   splice xs i v ! k = (if i \<le> k \<and> k < i + length v then v ! (k - i) else xs ! k)"
  by (auto simp: splice_def nth_append min_def)

lemma slice_splice_disjoint:
  assumes "i + length v \<le> length xs" and "j + n \<le> i \<or> i + length v \<le> j"
  shows "slice (splice xs i v) j n = slice xs j n"
proof (cases "j + n \<le> i")
  case True
  with assms(1) show ?thesis
    by (intro nth_equalityI) (auto simp: slice_def nth_splice)
next
  case False
  with assms show ?thesis
    by (intro nth_equalityI) (auto simp: slice_def nth_splice)
qed

lemma list_update_splice: "i < length xs \<Longrightarrow> xs[i := v] = splice xs i [v]"
  by (simp add: splice_def upd_conv_take_nth_drop)

section \<open>Big-endian integers\<close>

definition u16_to_be :: "u16 \<Rightarrow> bytes" where
  "u16_to_be v = [ucast (drop_bit 8 v), ucast v]"

definition u16_from_be :: "u8 \<Rightarrow> u8 \<Rightarrow> u16" where
  "u16_from_be a b = push_bit 8 (ucast a) OR ucast b"

definition u32_to_be :: "u32 \<Rightarrow> bytes" where
  "u32_to_be v = [ucast (drop_bit 24 v), ucast (drop_bit 16 v), ucast (drop_bit 8 v), ucast v]"

definition u32_from_be :: "u8 \<Rightarrow> u8 \<Rightarrow> u8 \<Rightarrow> u8 \<Rightarrow> u32" where
  "u32_from_be a b c d =
     push_bit 24 (ucast a) OR push_bit 16 (ucast b) OR push_bit 8 (ucast c) OR ucast d"

lemma u16_be_roundtrip [byte_simps]: "u16_from_be (ucast (drop_bit 8 v)) (ucast v) = v"
  unfolding u16_from_be_def by (rule bit_word_eqI) (auto simp: bit_simps)

lemma u32_be_roundtrip [byte_simps]:
  "u32_from_be (ucast (drop_bit 24 v)) (ucast (drop_bit 16 v)) (ucast (drop_bit 8 v)) (ucast v) = v"
  unfolding u32_from_be_def
proof (rule bit_word_eqI, goal_cases)
  case (1 n)
  then consider "n < 8" | "8 \<le> n" "n < 16" | "16 \<le> n" "n < 24" | "24 \<le> n" "n < 32" by force
  then show ?case
    by cases (auto simp: bit_simps)
qed

lemma length_u16_to_be [simp]: "length (u16_to_be v) = 2"
  by (simp add: u16_to_be_def)

lemma length_u32_to_be [simp]: "length (u32_to_be v) = 4"
  by (simp add: u32_to_be_def)

section \<open>Bit facts about single bytes\<close>

lemma byte_cont_bit: "(b::u8) AND 128 = 0 \<longleftrightarrow> \<not> bit b 7"
  using and_exp_eq_0_iff_not_bit [of b 7] by simp

lemma unat_byte_less: "unat (b::u8) < 256"
  using unsigned_less [of b, where 'a = nat] by simp

lemma unat_u16_less: "unat (v::u16) < 65536"
  using unsigned_less [of v, where 'a = nat] by simp

lemma unat_u32_less: "unat (v::u32) < 4294967296"
  using unsigned_less [of v, where 'a = nat] by simp

lemma unat_ucast_byte: "unat (ucast (w::u32) :: u8) = unat w mod 256"
  by (simp add: unsigned_ucast_eq take_bit_eq_mod)

lemma byte_bit7_iff: "bit (b::u8) 7 \<longleftrightarrow> 128 \<le> unat b"
proof -
  have "bit b 7 \<longleftrightarrow> odd (unat b div 2 ^ 7)"
    using bit_unsigned_iff [of b 7, where 'a = nat] bit_iff_odd [of "unat b" 7] by simp
  moreover have "unat b div 128 < 2"
    using unat_byte_less [of b] by linarith
  ultimately show ?thesis by (auto simp: less_2_cases_iff div_eq_0_iff)
qed

lemma byte_mask7: "(b::u8) AND 127 = take_bit 7 b"
  by (simp add: take_bit_eq_mask mask_eq_exp_minus_1)

lemma byte_low7: "unat ((b::u8) AND 127) = unat b mod 128"
proof -
  have "unat (take_bit 7 b) = take_bit 7 (unat b)"
    by (simp add: unsigned_take_bit_eq)
  then show ?thesis by (simp add: byte_mask7 take_bit_eq_mod)
qed

lemma byte_or_128_bits: "bit ((b::u8) OR 128) n \<longleftrightarrow> bit b n \<or> n = 7"
proof -
  have "bit (128::u8) n \<longleftrightarrow> n = 7"
    using bit_exp_iff [of 7 n, where 'a = u8] by auto
  then show ?thesis by (simp add: bit_or_iff)
qed

lemma byte_or_128_bit7 [simp]: "bit ((b::u8) OR 128) 7"
  by (simp add: byte_or_128_bits)

lemma byte_or_128:
  assumes "unat (b::u8) < 128"
  shows "unat (b OR 128) = unat b + 128"
proof -
  have "(b OR 128) AND 127 = b AND 127"
    unfolding byte_mask7 by (rule bit_word_eqI) (auto simp: bit_take_bit_iff byte_or_128_bits)
  then have "unat (b OR 128) mod 128 = unat b"
    using assms byte_low7 [of "b OR 128"] byte_low7 [of b] by simp
  moreover have "128 \<le> unat (b OR 128)"
    using byte_bit7_iff [of "b OR 128"] by simp
  ultimately show ?thesis
    using unat_byte_less [of "b OR 128"] by (simp add: le_mod_geq)
qed

section \<open>UTF-8 validation\<close>

definition utf8_cont :: "u8 \<Rightarrow> bool" where
  "utf8_cont b \<longleftrightarrow> 0x80 \<le> b \<and> b \<le> 0xBF"

fun utf8_valid :: "bytes \<Rightarrow> bool" where
  "utf8_valid [] = True"
| "utf8_valid (b # bs) =
     (if b < 0x80 then utf8_valid bs
      else if 0xC2 \<le> b \<and> b \<le> 0xDF then
        (case bs of c1 # r \<Rightarrow> utf8_cont c1 \<and> utf8_valid r | _ \<Rightarrow> False)
      else if 0xE0 \<le> b \<and> b \<le> 0xEF then
        (case bs of c1 # c2 # r \<Rightarrow>
           (if b = 0xE0 then 0xA0 \<le> c1 \<and> c1 \<le> 0xBF
            else if b = 0xED then 0x80 \<le> c1 \<and> c1 \<le> 0x9F
            else utf8_cont c1) \<and> utf8_cont c2 \<and> utf8_valid r
         | _ \<Rightarrow> False)
      else if 0xF0 \<le> b \<and> b \<le> 0xF4 then
        (case bs of c1 # c2 # c3 # r \<Rightarrow>
           (if b = 0xF0 then 0x90 \<le> c1 \<and> c1 \<le> 0xBF
            else if b = 0xF4 then 0x80 \<le> c1 \<and> c1 \<le> 0x8F
            else utf8_cont c1) \<and> utf8_cont c2 \<and> utf8_cont c3 \<and> utf8_valid r
         | _ \<Rightarrow> False)
      else False)"

lemma utf8_valid_ascii: "\<forall>b \<in> set bs. b < 0x80 \<Longrightarrow> utf8_valid bs"
  by (induction bs) auto

definition ascii :: "string \<Rightarrow> str" where
  "ascii s = map (\<lambda>c. of_nat (of_char c)) s"

section \<open>Generic facts on numbers and lists\<close>

lemma mod_once: "n \<le> m \<Longrightarrow> m < 2 * n \<Longrightarrow> m mod n = m - (n::nat)"
  by (simp add: le_mod_geq)

lemma sum_list_map_filter_le: "(\<Sum>x \<leftarrow> filter P xs. f x) \<le> (\<Sum>x \<leftarrow> xs. (f x :: nat))"
  by (induction xs) auto

lemma nth_take_drop_slice: "k < n \<Longrightarrow> i + k < length xs \<Longrightarrow> slice xs i n ! k = xs ! (i + k)"
  by (simp add: slice_def)

section \<open>First position\<close>

text \<open>\<open>Iterator::position\<close> and \<open>str::find\<close>.\<close>

fun position :: "('a \<Rightarrow> bool) \<Rightarrow> 'a list \<Rightarrow> nat option" where
  "position p [] = None"
| "position p (x # xs) = (if p x then Some 0 else map_option Suc (position p xs))"

lemma position_None_iff: "position p xs = None \<longleftrightarrow> (\<forall>x \<in> set xs. \<not> p x)"
  by (induction xs) auto

lemma position_Some_iff: "position p xs = Some i \<longleftrightarrow> i < length xs \<and> p (xs ! i) \<and> (\<forall>j < i. \<not> p (xs ! j))"
proof (induction xs arbitrary: i)
  case (Cons x xs)
  show ?case
  proof (cases i)
    case (Suc n)
    have "(\<forall>j < Suc n. \<not> p ((x # xs) ! j)) \<longleftrightarrow> \<not> p x \<and> (\<forall>j < n. \<not> p (xs ! j))"
      by (simp add: All_less_Suc2)
    with Suc Cons.IH [of n] show ?thesis by auto
  qed auto
qed simp

end
