(* ===== verification/Codec_Types.thy ===== *)
theory Codec_Types
  imports Prelude
begin

text \<open>
  The vocabulary of \<open>src/encoding\<close>: error types (\<open>error.rs\<close>), packet identifiers and QoS levels
  (\<open>utils.rs\<close>), packet types (\<open>packets/mod.rs\<close>) and \<open>varint_len\<close> (\<open>mod.rs\<close>).

  The build configuration modelled throughout is \<open>mqttv5\<close> with \<open>qos2\<close>.  A \<open>Pid\<close> wraps a
  \<open>NonZeroU16\<close>; the model keeps the raw word and the predicate \<open>pid_ok\<close>, and every place where the
  code unwraps \<open>NonZeroU16::new\<close> is a \<open>Panic\<close> branch, so that \<open>pid_add_ok\<close> and \<open>pid_sub_ok\<close> show
  the unwraps never fire.
\<close>

section \<open>Errors\<close>

datatype EncodingError =
    ProvidedClientIdTooLong | UnexpectedPacket | InsufficientBytes | InvalidProperty u8
  | MalformedPacket | BufferSize | BadIdentifier u16 | Unacknowledged | WrongQos u8
  | UnsupportedPacket | NoTopic | AuthAlreadySpecified | WillAlreadySpecified
  | InvalidProtocol str u8 | InvalidHeader | InvalidLength | InvalidString | PidMissing

text \<open>The kinds of \<open>embedded_io_async::ErrorKind\<close> the crate names, and any other kind.\<close>

datatype ErrorKind = NotConnected | InvalidData | BrokenPipe | OtherKind nat

datatype StateError =
    Io ErrorKind | InvalidState | Unsolicited u16 | AwaitPingResp | WrongPacket
  | CollisionTimeout | EmptySubscription | Deserialization EncodingError
  | Serialization EncodingError | OutgoingPacketTooLarge nat nat

text \<open>The crate's error type (\<open>src/error.rs\<close>); \<open>Encoding\<close> is also its \<open>From<EncodingError>\<close>.\<close>

datatype Error =
    EOF | StateMismatch | CrateMalformedPacket | Read | Write | TooManyClients | BadTopicFilter
  | MaxInflight | Timeout | Overflow | Encoding EncodingError

datatype ConnectionError =
    MqttState StateError | NetworkTimeout | FlushTimeout | InvalidAddress | ConnIo ErrorKind
  | ConnectionRefused | NotConnAck | RequestsDone

section \<open>Packet identifiers\<close>

datatype Pid = Pid u16

fun pid_get :: "Pid \<Rightarrow> u16" where
  "pid_get (Pid n) = n"

definition pid_ok :: "Pid \<Rightarrow> bool" where
  "pid_ok p \<longleftrightarrow> pid_get p \<noteq> 0"

text \<open>\<open>Pid(NonZeroU16::new(n).unwrap())\<close>\<close>

definition nonzero_unwrap :: "u16 \<Rightarrow> ('e, Pid) result" where
  "nonzero_unwrap n = (if n = 0 then Panic else Ok (Pid n))"

definition pid_new :: Pid where
  "pid_new = Pid 1"

definition pid_add :: "Pid \<Rightarrow> u16 \<Rightarrow> ('e, Pid) result" where
  "pid_add p u =
     nonzero_unwrap (if unat (pid_get p) + unat u < 2 ^ 16 then pid_get p + u else pid_get p + u + 1)"

definition pid_sub :: "Pid \<Rightarrow> u16 \<Rightarrow> ('e, Pid) result" where
  "pid_sub p u =
     nonzero_unwrap
       (if pid_get p - u = 0 then 65535
        else if unat u \<le> unat (pid_get p) then pid_get p - u
        else pid_get p - u - 1)"

definition pid_try_from :: "u16 \<Rightarrow> (EncodingError, Pid) result" where
  "pid_try_from u = (if u = 0 then Err (BadIdentifier u) else Ok (Pid u))"

section \<open>Quality of service\<close>

datatype QoS = AtMostOnce | AtLeastOnce | ExactlyOnce

fun qos_to_u8 :: "QoS \<Rightarrow> u8" where
  "qos_to_u8 AtMostOnce = 0"
| "qos_to_u8 AtLeastOnce = 1"
| "qos_to_u8 ExactlyOnce = 2"

definition qos_try_from :: "u8 \<Rightarrow> QoS option" where
  "qos_try_from b =
     (if b = 0 then Some AtMostOnce else if b = 1 then Some AtLeastOnce
      else if b = 2 then Some ExactlyOnce else None)"

text \<open>The derived order of the enum is the order of its variants.\<close>

instantiation QoS :: linorder
begin

definition less_eq_QoS :: "QoS \<Rightarrow> QoS \<Rightarrow> bool" where
  "less_eq_QoS a b \<longleftrightarrow> unat (qos_to_u8 a) \<le> unat (qos_to_u8 b)"

definition less_QoS :: "QoS \<Rightarrow> QoS \<Rightarrow> bool" where
  "less_QoS a b \<longleftrightarrow> unat (qos_to_u8 a) < unat (qos_to_u8 b)"

instance
proof
  fix x y z :: QoS
  show "x < y \<longleftrightarrow> x \<le> y \<and> \<not> y \<le> x" by (auto simp: less_eq_QoS_def less_QoS_def)
  show "x \<le> x" by (simp add: less_eq_QoS_def)
  show "x \<le> y \<Longrightarrow> y \<le> z \<Longrightarrow> x \<le> z" by (simp add: less_eq_QoS_def)
  show "x \<le> y \<Longrightarrow> y \<le> x \<Longrightarrow> x = y" by (cases x; cases y; simp add: less_eq_QoS_def)
  show "x \<le> y \<or> y \<le> x" by (auto simp: less_eq_QoS_def)
qed

end

datatype QosPid = QP_AtMostOnce | QP_AtLeastOnce Pid | QP_ExactlyOnce Pid

fun qospid_pid :: "QosPid \<Rightarrow> Pid option" where
  "qospid_pid QP_AtMostOnce = None"
| "qospid_pid (QP_AtLeastOnce p) = Some p"
| "qospid_pid (QP_ExactlyOnce p) = Some p"

fun qospid_qos :: "QosPid \<Rightarrow> QoS" where
  "qospid_qos QP_AtMostOnce = AtMostOnce"
| "qospid_qos (QP_AtLeastOnce p) = AtLeastOnce"
| "qospid_qos (QP_ExactlyOnce p) = ExactlyOnce"

section \<open>Packet types\<close>

datatype PacketType =
    PT_Connect | PT_ConnAck | PT_Publish | PT_PubAck | PT_PubRec | PT_PubRel | PT_PubComp
  | PT_Subscribe | PT_SubAck | PT_Unsubscribe | PT_UnsubAck | PT_PingReq | PT_PingResp
  | PT_Disconnect | PT_Auth

fun packet_type_to_u8 :: "PacketType \<Rightarrow> u8" where
  "packet_type_to_u8 PT_Connect = 0x10"
| "packet_type_to_u8 PT_ConnAck = 0x20"
| "packet_type_to_u8 PT_Publish = 0x30"
| "packet_type_to_u8 PT_PubAck = 0x40"
| "packet_type_to_u8 PT_PubRec = 0x50"
| "packet_type_to_u8 PT_PubRel = 0x60"
| "packet_type_to_u8 PT_PubComp = 0x70"
| "packet_type_to_u8 PT_Subscribe = 0x80"
| "packet_type_to_u8 PT_SubAck = 0x90"
| "packet_type_to_u8 PT_Unsubscribe = 0xA0"
| "packet_type_to_u8 PT_UnsubAck = 0xB0"
| "packet_type_to_u8 PT_PingReq = 0xC0"
| "packet_type_to_u8 PT_PingResp = 0xD0"
| "packet_type_to_u8 PT_Disconnect = 0xE0"
| "packet_type_to_u8 PT_Auth = 0xF0"

definition all_packet_types :: "PacketType list" where
  "all_packet_types =
     [PT_Connect, PT_ConnAck, PT_Publish, PT_PubAck, PT_PubRec, PT_PubRel, PT_PubComp,
      PT_Subscribe, PT_SubAck, PT_Unsubscribe, PT_UnsubAck, PT_PingReq, PT_PingResp,
      PT_Disconnect, PT_Auth]"

definition packet_type_try_from :: "u8 \<Rightarrow> PacketType option" where
  "packet_type_try_from b = find (\<lambda>t. packet_type_to_u8 t = b) all_packet_types"

section \<open>Variable length integers\<close>

definition varint_len :: "nat \<Rightarrow> ('e, nat) result" where
  "varint_len len =
     (if len \<le> 127 then Ok 1
      else if len \<le> 16383 then Ok 2
      else if len \<le> 2097151 then Ok 3
      else if len \<le> 268435455 then Ok 4
      else Panic)"

section \<open>Facts\<close>

lemma packet_type_roundtrip [simp]: "packet_type_try_from (packet_type_to_u8 t) = Some t"
  by (cases t) (simp_all add: packet_type_try_from_def all_packet_types_def)

lemma qos_roundtrip [simp]: "qos_try_from (qos_to_u8 q) = Some q"
  by (cases q) (simp_all add: qos_try_from_def)

lemma pid_try_from_ok [simp]: "pid_ok p \<Longrightarrow> pid_try_from (pid_get p) = Ok p"
  by (cases p) (simp add: pid_ok_def pid_try_from_def)

lemma pid_try_from_Ok_iff: "pid_try_from u = Ok p \<longleftrightarrow> u \<noteq> 0 \<and> p = Pid u"
  by (auto simp: pid_try_from_def)

lemma pid_try_from_not_Panic [simp]: "pid_try_from u \<noteq> Panic"
  by (simp add: pid_try_from_def)

lemma varint_len_Ok: "n < 268435456 \<Longrightarrow> \<exists>k. varint_len n = Ok k \<and> 1 \<le> k \<and> k \<le> 4"
  by (auto simp: varint_len_def)

lemma u16_eq_0_iff: "(w::u16) = 0 \<longleftrightarrow> unat w = 0"
  by (simp add: unat_eq_0)

lemma pid_add_unat:
  assumes "pid_ok p"
  shows "\<exists>q. pid_add p u = Ok q \<and> pid_ok q \<and>
    unat (pid_get q) = (unat (pid_get p) - 1 + unat u) mod 65535 + 1"
proof -
  let ?a = "unat (pid_get p)" and ?u = "unat u"
  from assms have a: "1 \<le> ?a" "?a < 65536" "?u < 65536"
    using u16_eq_0_iff [of "pid_get p"] unat_u16_less [of "pid_get p"] unat_u16_less [of u]
    by (auto simp: pid_ok_def)
  show ?thesis
  proof (cases "?a + ?u < 65536")
    case True
    then have s: "unat (pid_get p + u) = ?a + ?u" by (simp add: unat_word_ariths)
    with a have "pid_get p + u \<noteq> 0" by (auto simp: u16_eq_0_iff)
    moreover have "(?a - 1 + ?u) mod 65535 = ?a - 1 + ?u" using True a by simp
    ultimately show ?thesis
      using s True a by (simp add: pid_add_def nonzero_unwrap_def pid_ok_def)
  next
    case False
    then have s: "unat (pid_get p + u) = ?a + ?u - 65536"
      using a by (simp add: unat_word_ariths mod_once)
    then have s1: "unat (pid_get p + u + 1) = ?a + ?u - 65536 + 1"
      using a False by (subst unat_word_ariths) simp
    then have "pid_get p + u + 1 \<noteq> 0" by (auto simp: u16_eq_0_iff)
    moreover have "(?a - 1 + ?u) mod 65535 = ?a - 1 + ?u - 65535" using False a by (simp add: mod_once)
    ultimately show ?thesis
      using s1 False a by (simp add: pid_add_def nonzero_unwrap_def pid_ok_def)
  qed
qed

lemma pid_sub_unat:
  assumes "pid_ok p"
  shows "\<exists>q. pid_sub p u = Ok q \<and> pid_ok q \<and>
    unat (pid_get q) = (unat (pid_get p) + 65534 - unat u) mod 65535 + 1"
proof -
  let ?a = "unat (pid_get p)" and ?u = "unat u"
  from assms have a: "1 \<le> ?a" "?a < 65536" "?u < 65536"
    using u16_eq_0_iff [of "pid_get p"] unat_u16_less [of "pid_get p"] unat_u16_less [of u]
    by (auto simp: pid_ok_def)
  consider "?a = ?u" | "?u < ?a" | "?a < ?u" by linarith
  then show ?thesis
  proof cases
    case 1
    then have "pid_get p = u" by (simp add: unsigned_word_eqI)
    with a show ?thesis
      by (auto simp: pid_sub_def nonzero_unwrap_def pid_ok_def mod_once)
  next
    case 2
    then have s: "unat (pid_get p - u) = ?a - ?u" by (simp add: unat_sub_if')
    with 2 have "pid_get p - u \<noteq> 0" by (auto simp: u16_eq_0_iff)
    then show ?thesis
      using s 2 a by (auto simp: pid_sub_def nonzero_unwrap_def pid_ok_def mod_once)
  next
    case 3
    then have s: "unat (pid_get p - u) = ?a + 65536 - ?u" by (simp add: unat_sub_if')
    with 3 a have nz: "pid_get p - u \<noteq> 0" by (auto simp: u16_eq_0_iff)
    then have s1: "unat (pid_get p - u - 1) = ?a + 65535 - ?u"
      using s a 3 by (simp add: unat_minus_one)
    with 3 a have "pid_get p - u - 1 \<noteq> 0" by (auto simp: u16_eq_0_iff)
    then show ?thesis
      using s1 nz 3 a by (auto simp: pid_sub_def nonzero_unwrap_def pid_ok_def mod_once)
  qed
qed

end
