(* ===== verification/Encoder.thy ===== *)
theory Encoder
  imports Codec_Types
begin

text \<open>
  \<open>MqttEncoder\<close> of \<open>src/encoding/encoder.rs\<close>.  The encoder leaves \<open>MAX_MQTT_HEADER_LEN\<close> bytes free
  at the front of its buffer, appends the packet body behind them and, in
  \<open>finalize_fixed_header\<close>, writes the fixed header right before the body and rotates the buffer.

  An operation is a function from the encoder to a result holding the new encoder.  The encoder's
  state after an error is not represented: every caller drops the encoder then.

  The abstract view of an operation is the byte list it appends: \<open>writes f bs\<close> says that \<open>f\<close>
  succeeds exactly when \<open>bs\<close> fits and then appends exactly \<open>bs\<close>.  \<open>writes\<close> is closed under \<open>?\<close>, so
  each packet's encoder gets its specification by composition.
\<close>

named_theorems writes_intros \<open>introduction rules for the specification of encoder operations\<close>

section \<open>The encoder\<close>

definition MAX_MQTT_HEADER_LEN :: nat where
  "MAX_MQTT_HEADER_LEN = 5"

record MqttEncoder =
  enc_buf :: bytes
  enc_offset :: nat
  enc_header_start :: nat

type_synonym enc_op = "MqttEncoder \<Rightarrow> (EncodingError, MqttEncoder) result"

definition encoder_new :: "bytes \<Rightarrow> MqttEncoder" where
  "encoder_new buf =
     \<lparr>enc_buf = buf, enc_offset = MAX_MQTT_HEADER_LEN, enc_header_start = MAX_MQTT_HEADER_LEN\<rparr>"

definition packet_bytes :: "MqttEncoder \<Rightarrow> (EncodingError, bytes) result" where
  "packet_bytes e =
     (if enc_header_start e \<le> enc_offset e \<and> enc_offset e \<le> length (enc_buf e)
      then Ok (slice (enc_buf e) (enc_header_start e) (enc_offset e - enc_header_start e))
      else Panic)"

definition used_size :: "MqttEncoder \<Rightarrow> nat" where
  "used_size e = enc_offset e"

text \<open>\<open>self.buf[offset..offset + n].copy_from_slice(bs)\<close> and the advance of the offset\<close>

definition put :: "bytes \<Rightarrow> MqttEncoder \<Rightarrow> MqttEncoder" where
  "put bs e = e\<lparr>enc_buf := splice (enc_buf e) (enc_offset e) bs, enc_offset := enc_offset e + length bs\<rparr>"

definition put_checked :: "bytes \<Rightarrow> enc_op" where
  "put_checked bs e =
     (if enc_offset e + length bs \<le> length (enc_buf e) then Ok (put bs e) else Panic)"

definition enc_check_remaining :: "u32 \<Rightarrow> MqttEncoder \<Rightarrow> (EncodingError, unit) result" where
  "enc_check_remaining len e =
     (if length (enc_buf e) < enc_offset e then Panic
      else if (of_nat (length (enc_buf e) - enc_offset e) :: u32) < len then Err BufferSize
      else Ok ())"

definition write_u8 :: "u8 \<Rightarrow> enc_op" where
  "write_u8 v e =
     (if enc_offset e < length (enc_buf e)
      then Ok (e\<lparr>enc_buf := (enc_buf e)[enc_offset e := v], enc_offset := enc_offset e + 1\<rparr>)
      else Panic)"

definition write_u16 :: "u16 \<Rightarrow> enc_op" where
  "write_u16 v e = rbind (enc_check_remaining 2 e) (\<lambda>_. put_checked (u16_to_be v) e)"

definition write_u32 :: "u32 \<Rightarrow> enc_op" where
  "write_u32 v e = rbind (enc_check_remaining 4 e) (\<lambda>_. put_checked (u32_to_be v) e)"

definition write_slice :: "bytes \<Rightarrow> enc_op" where
  "write_slice v e =
     (if unat (of_nat (length v) :: u32) + 2 < 2 ^ 32 then
        rbind (enc_check_remaining (2 + of_nat (length v)) e) (\<lambda>_.
        rbind (put_checked (u16_to_be (of_nat (length v))) e) (\<lambda>e1.
        put_checked v e1))
      else Panic)"

definition write_str :: "str \<Rightarrow> enc_op" where
  "write_str v e = write_slice v e"

fun write_varint_loop :: "nat \<Rightarrow> u32 \<Rightarrow> enc_op" where
  "write_varint_loop 0 len e = Ok e"
| "write_varint_loop (Suc n) len e =
     (let byte = (ucast (len mod 128) :: u8);
          len' = len div 128;
          byte' = (if len' > 0 then byte OR 128 else byte)
      in rbind (write_u8 byte' e) (\<lambda>e1. if len' = 0 then Ok e1 else write_varint_loop n len' e1))"

definition write_varint :: "u32 \<Rightarrow> enc_op" where
  "write_varint len e = write_varint_loop 4 len e"

definition finalize_fixed_header :: "u8 \<Rightarrow> u8 \<Rightarrow> enc_op" where
  "finalize_fixed_header packet_type flags e =
     (if enc_offset e < MAX_MQTT_HEADER_LEN then Panic
      else
        let remaining_len = enc_offset e - MAX_MQTT_HEADER_LEN in
        rbind (varint_len remaining_len) (\<lambda>vl.
        if enc_header_start e < vl + 1 then Panic
        else
          let hs = enc_header_start e - vl - 1 in
          rbind (write_u8 (packet_type OR flags) (e\<lparr>enc_offset := hs, enc_header_start := hs\<rparr>)) (\<lambda>e1.
          rbind (write_varint (of_nat remaining_len) e1) (\<lambda>e2.
          let off = enc_offset e2 + remaining_len in
          if length (enc_buf e2) < off \<or> off < hs then Panic
          else Ok (e2\<lparr>enc_buf := rotate hs (take off (enc_buf e2)) @ drop off (enc_buf e2),
                      enc_offset := off - hs, enc_header_start := 0\<rparr>)))))"

section \<open>The bytes of a variable length integer\<close>

fun varint_bytes_loop :: "nat \<Rightarrow> u32 \<Rightarrow> bytes" where
  "varint_bytes_loop 0 len = []"
| "varint_bytes_loop (Suc n) len =
     (if len div 128 = 0 then [ucast len]
      else (ucast (len mod 128) OR 128) # varint_bytes_loop n (len div 128))"

definition varint_bytes :: "u32 \<Rightarrow> bytes" where
  "varint_bytes len = varint_bytes_loop 4 len"

definition fixed_header_bytes :: "u8 \<Rightarrow> u8 \<Rightarrow> nat \<Rightarrow> bytes" where
  "fixed_header_bytes packet_type flags n = (packet_type OR flags) # varint_bytes (of_nat n)"

section \<open>What an operation writes\<close>

definition wf_enc :: "MqttEncoder \<Rightarrow> bool" where
  "wf_enc e \<longleftrightarrow> enc_offset e \<le> length (enc_buf e) \<and> length (enc_buf e) < 2 ^ 32"

definition writes :: "enc_op \<Rightarrow> bytes \<Rightarrow> bool" where
  "writes f bs \<longleftrightarrow>
     (\<forall>e e'. wf_enc e \<longrightarrow>
        (f e = Ok e' \<longleftrightarrow> enc_offset e + length bs \<le> length (enc_buf e) \<and> e' = put bs e))"

lemma writesI:
  "(\<And>e e'. wf_enc e \<Longrightarrow>
      f e = Ok e' \<longleftrightarrow> enc_offset e + length bs \<le> length (enc_buf e) \<and> e' = put bs e) \<Longrightarrow> writes f bs"
  by (simp add: writes_def)

lemma writesD:
  "writes f bs \<Longrightarrow> wf_enc e \<Longrightarrow> enc_offset e + length bs \<le> length (enc_buf e) \<Longrightarrow> f e = Ok (put bs e)"
  by (simp add: writes_def)

lemma writes_not_Ok:
  "writes f bs \<Longrightarrow> wf_enc e \<Longrightarrow> length (enc_buf e) < enc_offset e + length bs \<Longrightarrow> \<not> is_ok (f e)"
  by (auto simp: writes_def is_ok_iff)

lemma put_sel [simp]:
  "enc_offset (put bs e) = enc_offset e + length bs"
  "enc_header_start (put bs e) = enc_header_start e"
  "enc_buf (put bs e) = splice (enc_buf e) (enc_offset e) bs"
  by (simp_all add: put_def)

lemma put_Nil [simp]: "put [] e = e"
  by (simp add: put_def)

lemma put_put:
  "enc_offset e + length as + length bs \<le> length (enc_buf e) \<Longrightarrow> put bs (put as e) = put (as @ bs) e"
  by (simp add: put_def splice_append add.assoc)

lemma wf_enc_put: "wf_enc e \<Longrightarrow> enc_offset e + length bs \<le> length (enc_buf e) \<Longrightarrow> wf_enc (put bs e)"
  by (simp add: wf_enc_def)

lemma writes_Ok [writes_intros]: "writes Ok []"
  by (auto simp: writes_def wf_enc_def)

lemma writes_bind [writes_intros]:
  assumes f: "writes f as" and g: "writes g bs"
  shows "writes (\<lambda>e. rbind (f e) g) (as @ bs)"
proof (rule writesI)
  fix e e' assume wf: "wf_enc e"
  show "rbind (f e) g = Ok e' \<longleftrightarrow>
      enc_offset e + length (as @ bs) \<le> length (enc_buf e) \<and> e' = put (as @ bs) e" (is "?l = ?r")
  proof
    assume ?l
    then obtain e1 where 1: "f e = Ok e1" and 2: "g e1 = Ok e'" by (auto simp: rbind_Ok_iff)
    from 1 f wf have a: "enc_offset e + length as \<le> length (enc_buf e)" "e1 = put as e"
      by (auto simp: writes_def)
    from wf a(1) have "wf_enc (put as e)" by (rule wf_enc_put)
    with 2 a g have "enc_offset (put as e) + length bs \<le> length (enc_buf (put as e))" "e' = put bs (put as e)"
      by (auto simp: writes_def)
    with a show ?r by (auto simp: put_put)
  next
    assume r: ?r
    then have a: "enc_offset e + length as \<le> length (enc_buf e)" by simp
    from wf a have wf1: "wf_enc (put as e)" by (rule wf_enc_put)
    from writesD [OF f wf a] writesD [OF g wf1] r a
    show ?l by (simp add: put_put add.assoc)
  qed
qed

lemma writes_eq: "writes f bs \<Longrightarrow> bs = cs \<Longrightarrow> writes f cs"
  by simp

lemma writes_u8 [writes_intros]: "writes (write_u8 v) [v]"
  by (auto simp: writes_def write_u8_def put_def list_update_splice)

lemma enc_check_remaining_wf:
  assumes "wf_enc e"
  shows "enc_check_remaining len e =
    (if length (enc_buf e) - enc_offset e < unat len then Err BufferSize else Ok ())"
proof -
  have "unat (of_nat (length (enc_buf e) - enc_offset e) :: u32) = length (enc_buf e) - enc_offset e"
    using assms unfolding wf_enc_def by (subst unat_of_nat, intro mod_less) auto
  with assms show ?thesis
    by (auto simp: enc_check_remaining_def wf_enc_def word_less_nat_alt simp del: of_nat_diff)
qed

lemma writes_u16 [writes_intros]: "writes (write_u16 v) (u16_to_be v)"
  by (auto simp: writes_def write_u16_def enc_check_remaining_wf put_checked_def wf_enc_def)

lemma writes_u32 [writes_intros]: "writes (write_u32 v) (u32_to_be v)"
  by (auto simp: writes_def write_u32_def enc_check_remaining_wf put_checked_def wf_enc_def)

definition slice_bytes :: "bytes \<Rightarrow> bytes" where
  "slice_bytes v = u16_to_be (of_nat (length v)) @ v"

lemma length_slice_bytes [simp]: "length (slice_bytes v) = 2 + length v"
  by (simp add: slice_bytes_def)

lemma writes_put_checked: "writes (put_checked bs) bs"
  by (auto simp: writes_def put_checked_def)

lemma writes_slice [writes_intros]: "writes (write_slice v) (slice_bytes v)"
proof (rule writesI)
  fix e e' assume wf: "wf_enc e"
  let ?l = "of_nat (length v) :: u32"
  have two: "writes (\<lambda>e. rbind (put_checked (u16_to_be (of_nat (length v))) e) (put_checked v)) (slice_bytes v)"
    unfolding slice_bytes_def by (intro writes_bind writes_put_checked)
  then have iff: "rbind (put_checked (u16_to_be (of_nat (length v))) e) (put_checked v) = Ok e' \<longleftrightarrow>
      enc_offset e + length (slice_bytes v) \<le> length (enc_buf e) \<and> e' = put (slice_bytes v) e"
    using wf by (simp add: writes_def)
  show "write_slice v e = Ok e' \<longleftrightarrow>
      enc_offset e + length (slice_bytes v) \<le> length (enc_buf e) \<and> e' = put (slice_bytes v) e"
  proof (cases "enc_offset e + length (slice_bytes v) \<le> length (enc_buf e)")
    case True
    with wf have l: "length v + 2 < 2 ^ 32" by (simp add: wf_enc_def)
    then have ul: "unat ?l = length v" by (simp add: unat_of_nat)
    then have "unat (2 + ?l) = 2 + length v" using l by (simp add: unat_word_ariths)
    then have "enc_check_remaining (2 + ?l) e = Ok ()"
      using True wf by (simp add: enc_check_remaining_wf)
    with ul l iff show ?thesis by (simp add: write_slice_def)
  next
    case False
    with iff have "rbind (put_checked (u16_to_be (of_nat (length v))) e) (put_checked v) \<noteq> Ok e'" by simp
    with False show ?thesis by (auto simp: write_slice_def rbind_Ok_iff split: if_splits)
  qed
qed

lemma writes_str [writes_intros]: "writes (write_str v) (slice_bytes v)"
  using writes_slice [of v] by (simp add: writes_def write_str_def)

lemma writes_varint_loop: "writes (write_varint_loop n len) (varint_bytes_loop n len)"
proof (induction n arbitrary: len)
  case 0
  then show ?case by (auto simp: writes_def wf_enc_def)
next
  case (Suc n)
  show ?case
  proof (cases "len div 128 = 0")
    case True
    then have "len mod 128 = len"
      using div_mult_mod_eq [of len 128] by simp
    with True writes_u8 [of "ucast len"] show ?thesis
      by (auto simp: writes_def Let_def rbind_Ok_iff)
  next
    case False
    then have pos: "0 < len div 128" by (simp add: word_gt_0)
    from False have "write_varint_loop (Suc n) len =
        (\<lambda>e. rbind (write_u8 (ucast (len mod 128) OR 128) e) (write_varint_loop n (len div 128)))"
      using pos by (intro ext) (simp add: Let_def)
    moreover have "writes (\<lambda>e. rbind (write_u8 (ucast (len mod 128) OR 128) e) (write_varint_loop n (len div 128)))
        ([ucast (len mod 128) OR 128] @ varint_bytes_loop n (len div 128))"
      by (intro writes_bind writes_u8 Suc.IH)
    ultimately show ?thesis using False by simp
  qed
qed

lemma writes_varint [writes_intros]: "writes (write_varint len) (varint_bytes len)"
  using writes_varint_loop [of 4 len] by (simp add: writes_def write_varint_def varint_bytes_def)

section \<open>The fixed header\<close>

lemma u32_div_128_eq_0 [simp]: "(len::u32) div 128 = 0 \<longleftrightarrow> unat len < 128"
  using unat_eq_0 [of "len div 128"] by (simp add: unat_div div_eq_0_iff)

lemma four_Suc: "(4::nat) = Suc (Suc (Suc (Suc 0)))"
  by simp

lemma length_varint_bytes:
  "length (varint_bytes len) =
     (if unat len < 128 then 1 else if unat len < 16384 then 2 else if unat len < 2097152 then 3 else 4)"
  unfolding varint_bytes_def four_Suc
  by (simp add: unat_div div_less_iff_less_mult)

lemma varint_len_bytes:
  "n < 268435456 \<Longrightarrow> varint_len n = Ok (length (varint_bytes (of_nat n)))"
  by (auto simp: varint_len_def length_varint_bytes unat_of_nat)

lemma length_fixed_header_bytes:
  "2 \<le> length (fixed_header_bytes pt fl n)" "length (fixed_header_bytes pt fl n) \<le> 5"
  by (simp_all add: fixed_header_bytes_def length_varint_bytes)

lemma finalize_after_body:
  assumes fits: "MAX_MQTT_HEADER_LEN + length body \<le> length buf" and small: "length buf < 2 ^ 32"
    and len: "length body < 268435456"
  shows "\<exists>e. finalize_fixed_header pt fl (put body (encoder_new buf)) = Ok e \<and>
    packet_bytes e = Ok (fixed_header_bytes pt fl (length body) @ body) \<and>
    used_size e = length (fixed_header_bytes pt fl (length body)) + length body \<and>
    enc_header_start e = 0 \<and> length (enc_buf e) = length buf \<and>
    take (used_size e) (enc_buf e) = fixed_header_bytes pt fl (length body) @ body"
proof -
  let ?vb = "varint_bytes (of_nat (length body))" and ?h = "fixed_header_bytes pt fl (length body)"
  define e0 where "e0 = put body (encoder_new buf)"
  define hs where "hs = 5 - length ?vb - 1"
  define e1 where "e1 = e0\<lparr>enc_offset := hs, enc_header_start := hs\<rparr>"
  have vl: "varint_len (length body) = (Ok (length ?vb) :: (EncodingError, nat) result)" by (rule varint_len_bytes [OF len])
  have vb: "length ?vb \<le> 4" by (simp add: length_varint_bytes)
  have b0: "enc_buf e0 = take 5 buf @ body @ drop (5 + length body) buf"
    using fits by (simp add: e0_def encoder_new_def put_def splice_def MAX_MQTT_HEADER_LEN_def)
  have hs5: "hs + length ?h = 5" using vb by (simp add: hs_def fixed_header_bytes_def)
  have len0: "length (enc_buf e0) = length buf" using b0 fits by (simp add: MAX_MQTT_HEADER_LEN_def)
  have wf1: "wf_enc e1"
    using len0 fits small by (simp add: wf_enc_def e1_def hs_def MAX_MQTT_HEADER_LEN_def)
  have "writes (\<lambda>e. rbind (write_u8 (pt OR fl) e) (write_varint (of_nat (length body)))) ([pt OR fl] @ ?vb)"
    by (intro writes_intros)
  then have hdr: "rbind (write_u8 (pt OR fl) e1) (write_varint (of_nat (length body))) = Ok (put ?h e1)"
    using wf1 hs5 len0 fits
    by (simp add: writes_def e1_def fixed_header_bytes_def MAX_MQTT_HEADER_LEN_def)
  have buf2: "enc_buf (put ?h e1) = take hs buf @ ?h @ body @ drop (5 + length body) buf"
    using hs5 b0 fits by (simp add: e1_def splice_def MAX_MQTT_HEADER_LEN_def min_def)
  have tk: "take (5 + length body) (enc_buf (put ?h e1)) = take hs buf @ ?h @ body"
    unfolding buf2 using hs5 fits length_fixed_header_bytes(1) [of pt fl "length body"]
    by (auto simp: MAX_MQTT_HEADER_LEN_def min_def)
  have ltk: "length (take hs buf) = hs" using hs5 fits by (simp add: MAX_MQTT_HEADER_LEN_def)
  define e where "e = (put ?h e1)\<lparr>enc_buf := (?h @ body) @ take hs buf @ drop (5 + length body) buf,
     enc_offset := length (?h @ body), enc_header_start := 0\<rparr>"
  have "rotate hs (take (5 + length body) (enc_buf (put ?h e1))) = (?h @ body) @ take hs buf"
    unfolding tk using rotate_append [of "take hs buf" "?h @ body"] ltk by simp
  then have rot: "rotate hs (take (hs + length ?h + length body) (enc_buf (put ?h e1))) = (?h @ body) @ take hs buf"
    using hs5 by simp
  have off0: "enc_offset e0 = 5 + length body" "enc_header_start e0 = 5"
    by (simp_all add: e0_def encoder_new_def MAX_MQTT_HEADER_LEN_def)
  have "finalize_fixed_header pt fl e0 =
      rbind (rbind (write_u8 (pt OR fl) e1) (write_varint (of_nat (length body)))) (\<lambda>e2.
        let off = enc_offset e2 + length body in
        if length (enc_buf e2) < off \<or> off < hs then Panic
        else Ok (e2\<lparr>enc_buf := rotate hs (take off (enc_buf e2)) @ drop off (enc_buf e2),
                    enc_offset := off - hs, enc_header_start := 0\<rparr>))"
    using vl vb off0
    by (simp add: finalize_fixed_header_def MAX_MQTT_HEADER_LEN_def rbind_assoc e1_def hs_def Let_def
        cong: if_cong)
  moreover have "enc_offset (put ?h e1) = hs + length ?h" by (simp add: e1_def)
  moreover have "drop (hs + length ?h + length body) (enc_buf (put ?h e1)) = drop (5 + length body) buf"
    unfolding buf2 using hs5 fits by (simp add: MAX_MQTT_HEADER_LEN_def)
  moreover have "length (enc_buf (put ?h e1)) = length buf"
    unfolding buf2 using hs5 fits by (simp add: MAX_MQTT_HEADER_LEN_def)
  ultimately have fin: "finalize_fixed_header pt fl e0 = Ok e"
    using hs5 fits rot by (simp add: hdr e_def MAX_MQTT_HEADER_LEN_def Let_def del: put_sel)
  have "length (enc_buf e) = length buf"
    using hs5 fits by (simp add: e_def MAX_MQTT_HEADER_LEN_def)
  then show ?thesis
    using fin by (intro exI [of _ e]) (auto simp: e0_def e_def packet_bytes_def used_size_def slice_def)
qed

end
