(* ===== verification/Decoder.thy ===== *)
theory Decoder
  imports Encoder
begin

text \<open>
  \<open>MqttDecoder\<close> of \<open>src/encoding/decoder.rs\<close>: a cursor over a byte slice that holds one packet.

  Two notions carry the proofs: \<open>reads f bs v\<close> (at a position where the buffer holds \<open>bs\<close>, \<open>f\<close>
  returns \<open>v\<close> and moves past \<open>bs\<close>), the mirror image of \<open>writes\<close>; and \<open>dec_safe f\<close> (on any decoder
  whose cursor is inside the packet, \<open>f\<close> never panics and keeps the cursor inside).
\<close>

named_theorems reads_intros \<open>introduction rules for what a decoder operation reads\<close>
named_theorems dec_safe_intros \<open>introduction rules for panic freedom of decoder operations\<close>

section \<open>The decoder\<close>

record FixedHeader =
  fh_typ :: PacketType
  fh_dup :: bool
  fh_qos :: QoS
  fh_retain :: bool
  fh_remaining_len :: nat

record MqttDecoder =
  dec_buf :: bytes
  dec_offset :: nat
  dec_header_len :: nat
  dec_fixed_header :: FixedHeader

type_synonym 'a dec_op = "MqttDecoder \<Rightarrow> (EncodingError, 'a \<times> MqttDecoder) result"

text \<open>
  The loop \<open>for (i, byte) in \<dots>.take(4).enumerate()\<close> shared by \<open>read_len\<close>, \<open>read_varint\<close> and the
  property iterator: the value and the number of bytes, or the error for a missing byte.
\<close>

fun varint_loop :: "EncodingError \<Rightarrow> nat \<Rightarrow> bytes \<Rightarrow> nat \<Rightarrow> (EncodingError, nat \<times> nat) result" where
  "varint_loop short i [] integer = Err short"
| "varint_loop short i (byte # bs) integer =
     (let integer' = integer + unat (byte AND NOT 128) * 2 ^ (7 * i) in
      if byte AND 128 = 0 then Ok (integer', i + 1)
      else if i = 3 then Err MalformedPacket
      else varint_loop short (i + 1) bs integer')"

definition read_len :: "bytes \<Rightarrow> (EncodingError, nat \<times> nat) result" where
  "read_len buf =
     rbind (varint_loop InsufficientBytes 0 (take 4 buf) 0) (\<lambda>(integer, n). Ok (integer, n + 1))"

definition decoder_try_new :: "bytes \<Rightarrow> (EncodingError, MqttDecoder) result" where
  "decoder_try_new buf =
     (if length buf < 2 then Err InsufficientBytes
      else
        let hd = buf ! 0 in
        case packet_type_try_from (hd AND 0xF0) of
          None \<Rightarrow> Err InvalidHeader
        | Some typ \<Rightarrow>
            rbind (read_len (drop 1 buf)) (\<lambda>(remaining_len, header_len).
            case qos_try_from (drop_bit 1 (hd AND 0x06)) of
              None \<Rightarrow> Err (WrongQos (hd AND 0x06))
            | Some qos \<Rightarrow>
                Ok \<lparr>dec_buf = buf, dec_offset = header_len, dec_header_len = header_len,
                    dec_fixed_header =
                      \<lparr>fh_typ = typ, fh_dup = (hd AND 0x08 = 0x08), fh_qos = qos,
                       fh_retain = (hd AND 0x01 = 0x01), fh_remaining_len = remaining_len\<rparr>\<rparr>))"

definition packet_len :: "MqttDecoder \<Rightarrow> nat" where
  "packet_len d = dec_header_len d + fh_remaining_len (dec_fixed_header d)"

definition dec_check_remaining :: "nat \<Rightarrow> MqttDecoder \<Rightarrow> (EncodingError, unit) result" where
  "dec_check_remaining len d =
     (if length (dec_buf d) < dec_offset d then Panic
      else if length (dec_buf d) - dec_offset d < len then Err InsufficientBytes
      else Ok ())"

text \<open>\<open>&self.buf[self.offset..self.offset + len]\<close> and the advance of the offset\<close>

definition take_slice :: "nat \<Rightarrow> bytes dec_op" where
  "take_slice len d =
     (if dec_offset d + len \<le> length (dec_buf d)
      then Ok (slice (dec_buf d) (dec_offset d) len, d\<lparr>dec_offset := dec_offset d + len\<rparr>)
      else Panic)"

definition read_varint :: "u32 dec_op" where
  "read_varint d =
     (if length (dec_buf d) < dec_offset d then Panic
      else
        rbind (varint_loop InsufficientBytes 0 (take 4 (drop (dec_offset d) (dec_buf d))) 0)
          (\<lambda>(integer, n). Ok (of_nat integer, d\<lparr>dec_offset := dec_offset d + n\<rparr>)))"

definition read_u8 :: "u8 dec_op" where
  "read_u8 d =
     rbind (dec_check_remaining 1 d) (\<lambda>_.
       Ok (dec_buf d ! dec_offset d, d\<lparr>dec_offset := dec_offset d + 1\<rparr>))"

definition read_u16 :: "u16 dec_op" where
  "read_u16 d =
     rbind (dec_check_remaining 2 d) (\<lambda>_.
       Ok (u16_from_be (dec_buf d ! dec_offset d) (dec_buf d ! (dec_offset d + 1)),
           d\<lparr>dec_offset := dec_offset d + 2\<rparr>))"

definition read_slice :: "bytes dec_op" where
  "read_slice d =
     rbind (read_u16 d) (\<lambda>(len, d1).
     rbind (dec_check_remaining (unat len) d1) (\<lambda>_. take_slice (unat len) d1))"

definition read_str :: "str dec_op" where
  "read_str d =
     rbind (read_slice d) (\<lambda>(bs, d1). if utf8_valid bs then Ok (bs, d1) else Err InvalidString)"

definition read_payload :: "bytes dec_op" where
  "read_payload d =
     (if packet_len d < dec_offset d then Panic
      else
        let len = packet_len d - dec_offset d in
        rbind (dec_check_remaining len d) (\<lambda>_. take_slice len d))"

section \<open>What an operation reads\<close>

definition reads :: "'a dec_op \<Rightarrow> bytes \<Rightarrow> 'a \<Rightarrow> bool" where
  "reads f bs v \<longleftrightarrow>
     (\<forall>d pre post. dec_buf d = pre @ bs @ post \<longrightarrow> dec_offset d = length pre \<longrightarrow>
        f d = Ok (v, d\<lparr>dec_offset := length pre + length bs\<rparr>))"

lemma readsD:
  "reads f bs v \<Longrightarrow> dec_buf d = pre @ bs @ post \<Longrightarrow> dec_offset d = length pre \<Longrightarrow>
   f d = Ok (v, d\<lparr>dec_offset := length pre + length bs\<rparr>)"
  by (simp add: reads_def)

lemma reads_return [reads_intros]: "reads (\<lambda>d. Ok (v, d)) [] v"
  by (auto simp: reads_def intro: MqttDecoder.equality)

lemma reads_bind [reads_intros]:
  assumes f: "reads f as x" and g: "reads (g x) bs y"
  shows "reads (\<lambda>d. rbind (f d) (\<lambda>(x, d). g x d)) (as @ bs) y"
  unfolding reads_def
proof (intro allI impI)
  fix d :: MqttDecoder and pre post
  assume b: "dec_buf d = pre @ (as @ bs) @ post" and o: "dec_offset d = length pre"
  from b o have "f d = Ok (x, d\<lparr>dec_offset := length pre + length as\<rparr>)"
    by (intro readsD [OF f]) simp_all
  moreover have "g x (d\<lparr>dec_offset := length pre + length as\<rparr>) =
      Ok (y, d\<lparr>dec_offset := length pre + length as, dec_offset := length (pre @ as) + length bs\<rparr>)"
    by (rule readsD [OF g, of _ "pre @ as" post]) (simp_all add: b)
  ultimately show "rbind (f d) (\<lambda>(x, d). g x d) = Ok (y, d\<lparr>dec_offset := length pre + length (as @ bs)\<rparr>)"
    by (simp add: add.assoc)
qed

lemma reads_eq: "reads f bs v \<Longrightarrow> bs = cs \<Longrightarrow> v = w \<Longrightarrow> reads f cs w"
  by simp

lemma reads_u8 [reads_intros]: "reads read_u8 [v] v"
  by (auto simp: reads_def read_u8_def dec_check_remaining_def)

lemma reads_u16 [reads_intros]: "reads read_u16 (u16_to_be v) v"
  by (auto simp: reads_def read_u16_def dec_check_remaining_def u16_to_be_def nth_append byte_simps)

lemma reads_slice [reads_intros]:
  assumes "length v < 65536"
  shows "reads read_slice (slice_bytes v) v"
proof -
  have "unat (of_nat (length v) :: u16) = length v" using assms by (simp add: unat_of_nat)
  then have "reads (\<lambda>d1. rbind (dec_check_remaining (unat (of_nat (length v) :: u16)) d1)
      (\<lambda>_. take_slice (unat (of_nat (length v) :: u16)) d1)) v v"
    by (auto simp: reads_def dec_check_remaining_def take_slice_def slice_def)
  then show ?thesis
    using reads_bind [OF reads_u16 [of "of_nat (length v)"]]
    by (simp add: slice_bytes_def read_slice_def [abs_def])
qed

lemma reads_str [reads_intros]:
  assumes "length v < 65536" and "utf8_valid v"
  shows "reads read_str (slice_bytes v) v"
  using reads_slice [OF assms(1)] assms(2) by (auto simp: reads_def read_str_def)

section \<open>Variable length integers\<close>

lemma NOT_128 [simp]: "NOT (128::u8) = 127"
  by simp

lemma and_minus_129 [simp]: "(b::u8) AND - 129 = b AND 127"
proof -
  have "(- 129 :: u8) = 127" by simp
  then show ?thesis by metis
qed

lemma varint_loop_bytes:
  assumes "0 < n" and "n \<le> 4" and "unat len < 128 ^ n"
  shows "varint_loop short (4 - n) (take n (varint_bytes_loop n len @ post)) acc =
    Ok (acc + unat len * 128 ^ (4 - n), 4 - n + length (varint_bytes_loop n len))"
  using assms
proof (induction n arbitrary: len acc)
  case 0
  then show ?case by simp
next
  case (Suc n)
  have pow: "(2::nat) ^ (7 * i) = 128 ^ i" for i by (simp add: power_mult)
  show ?case
  proof (cases "unat len < 128")
    case True
    then have u: "unat (ucast len :: u8) = unat len" by (simp add: unat_ucast_byte)
    then have "(ucast len :: u8) AND 128 = 0" using True by (simp add: byte_cont_bit byte_bit7_iff)
    with True u show ?thesis by (simp add: byte_low7 pow Let_def)
  next
    case False
    let ?b = "ucast (len mod 128) OR 128 :: u8"
    have u: "unat (ucast (len mod 128) :: u8) = unat len mod 128"
      by (simp add: unat_ucast_byte unat_mod mod_mod_trivial)
    then have ub: "unat ?b = unat len mod 128 + 128"
      using byte_or_128 [of "ucast (len mod 128)"] by simp
    have c: "?b AND 128 \<noteq> 0" by (simp add: byte_cont_bit)
    have low: "unat (?b AND 127) = unat len mod 128" by (simp add: byte_low7 ub)
    have n: "n \<noteq> 0" using Suc.prems(3) False by (cases n) auto
    have d: "unat (len div 128) < 128 ^ n"
      using Suc.prems(3) by (simp add: unat_div div_less_iff_less_mult mult.commute)
    have i: "4 - n = Suc (4 - Suc n)" using Suc.prems(2) by simp
    have "varint_loop short (4 - Suc n) (take (Suc n) (varint_bytes_loop (Suc n) len @ post)) acc =
        varint_loop short (4 - n) (take n (varint_bytes_loop n (len div 128) @ post))
          (acc + (unat len mod 128) * 128 ^ (4 - Suc n))"
      using False c n i Suc.prems(2) by (auto simp: low pow Let_def)
    also have "\<dots> = Ok (acc + (unat len mod 128) * 128 ^ (4 - Suc n) + unat (len div 128) * 128 ^ (4 - n),
        4 - n + length (varint_bytes_loop n (len div 128)))"
      using n Suc.prems(2) d by (intro Suc.IH) auto
    also have "acc + (unat len mod 128) * 128 ^ (4 - Suc n) + unat (len div 128) * 128 ^ (4 - n) =
        acc + unat len * 128 ^ (4 - Suc n)"
    proof -
      have "unat (len div 128) * 128 ^ (4 - n) = (128 * (unat len div 128)) * 128 ^ (4 - Suc n)"
        by (simp add: i unat_div)
      then show ?thesis
        by (simp add: add.assoc flip: distrib_right)
    qed
    finally show ?thesis using False i by simp
  qed
qed

lemma varint_loop_varint_bytes:
  assumes "unat len < 268435456"
  shows "varint_loop short 0 (take 4 (varint_bytes len @ post)) 0 = Ok (unat len, length (varint_bytes len))"
  using varint_loop_bytes [of 4 len short post 0] assms by (simp add: varint_bytes_def)

lemma reads_varint [reads_intros]:
  assumes "unat len < 268435456"
  shows "reads read_varint (varint_bytes len) len"
  using varint_loop_varint_bytes [OF assms]
  by (auto simp: reads_def read_varint_def)

lemma varint_loop_not_Panic [simp]: "varint_loop short i bs acc \<noteq> Panic"
  by (induction short i bs acc rule: varint_loop.induct) (simp_all add: Let_def)

lemma varint_loop_count:
  "varint_loop short i bs acc = Ok (v, n) \<Longrightarrow> i < n \<and> n \<le> i + length bs"
proof (induction short i bs acc rule: varint_loop.induct)
  case (2 short i byte bs integer)
  then show ?case by (fastforce simp: Let_def split: if_splits)
qed simp

lemma varint_loop_value:
  "varint_loop short i bs acc = Ok (v, n) \<Longrightarrow> i \<le> 3 \<Longrightarrow> acc < 128 ^ i \<Longrightarrow> v < 268435456"
proof (induction short i bs acc rule: varint_loop.induct)
  case (2 short i byte bs acc)
  have pow: "(2::nat) ^ (7 * i) = 128 ^ i" by (simp add: power_mult)
  define acc' where "acc' = acc + unat (byte AND NOT 128) * 2 ^ (7 * i)"
  have "unat (byte AND 127) \<le> 127" by (simp add: byte_low7)
  then have "unat (byte AND 127) * 128 ^ i \<le> 127 * 128 ^ i" by (rule mult_right_mono) simp
  then have acc': "acc' < 128 ^ Suc i"
    using "2.prems"(3) unfolding acc'_def pow NOT_128 power_Suc by linarith
  have top: "(128::nat) ^ Suc i \<le> 268435456"
    using power_increasing [of "Suc i" 4 "128::nat"] "2.prems"(2) by simp
  show ?case
  proof (cases "byte AND 128 = 0")
    case True
    with "2.prems"(1) have "v = acc'" by (simp add: acc'_def Let_def)
    with acc' top show ?thesis by linarith
  next
    case False
    with "2.prems"(1) have "i \<noteq> 3" and rec: "varint_loop short (i + 1) bs acc' = Ok (v, n)"
      by (auto simp: acc'_def Let_def split: if_splits)
    from "2.IH" [OF acc'_def False \<open>i \<noteq> 3\<close> rec] \<open>i \<noteq> 3\<close> "2.prems"(2) acc'
    show ?thesis by simp
  qed
qed simp

section \<open>Panic freedom of the primitive reads\<close>

definition wf_dec :: "MqttDecoder \<Rightarrow> bool" where
  "wf_dec d \<longleftrightarrow> dec_offset d \<le> length (dec_buf d) \<and> length (dec_buf d) \<le> packet_len d"

definition dec_frame :: "MqttDecoder \<Rightarrow> MqttDecoder \<Rightarrow> bool" where
  "dec_frame d d' \<longleftrightarrow> dec_buf d' = dec_buf d \<and> dec_header_len d' = dec_header_len d \<and>
     dec_fixed_header d' = dec_fixed_header d \<and> dec_offset d \<le> dec_offset d' \<and>
     dec_offset d' \<le> length (dec_buf d)"

definition dec_safe :: "'a dec_op \<Rightarrow> bool" where
  "dec_safe f \<longleftrightarrow>
     (\<forall>d. wf_dec d \<longrightarrow> f d \<noteq> Panic \<and> (\<forall>v d'. f d = Ok (v, d') \<longrightarrow> dec_frame d d'))"

lemma dec_frame_wf: "dec_frame d d' \<Longrightarrow> wf_dec d \<Longrightarrow> wf_dec d'"
  by (simp add: dec_frame_def wf_dec_def packet_len_def)

lemma dec_frame_trans: "dec_frame d d' \<Longrightarrow> dec_frame d' d'' \<Longrightarrow> dec_frame d d''"
  by (simp add: dec_frame_def)

lemma dec_safeI:
  "(\<And>d. wf_dec d \<Longrightarrow> f d \<noteq> Panic) \<Longrightarrow> (\<And>d v d'. wf_dec d \<Longrightarrow> f d = Ok (v, d') \<Longrightarrow> dec_frame d d') \<Longrightarrow>
   dec_safe f"
  by (auto simp: dec_safe_def)

lemma dec_safe_return [dec_safe_intros]: "dec_safe (\<lambda>d. Ok (v, d))"
  by (auto simp: dec_safe_def dec_frame_def wf_dec_def)

lemma dec_safe_err [dec_safe_intros]: "dec_safe (\<lambda>d. Err e)"
  by (auto simp: dec_safe_def)

lemma dec_safe_bind [dec_safe_intros]:
  assumes f: "dec_safe f" and g: "\<And>x. dec_safe (g x)"
  shows "dec_safe (\<lambda>d. rbind (f d) (\<lambda>(x, d). g x d))"
proof (rule dec_safeI)
  fix d assume wf: "wf_dec d"
  show "rbind (f d) (\<lambda>(x, d). g x d) \<noteq> Panic"
  proof
    assume "rbind (f d) (\<lambda>(x, d). g x d) = Panic"
    moreover have "f d \<noteq> Panic" using f wf by (simp add: dec_safe_def)
    ultimately obtain x d1 where 1: "f d = Ok (x, d1)" "g x d1 = Panic"
      by (auto simp: rbind_Panic_iff)
    with f wf have "wf_dec d1" by (auto simp: dec_safe_def intro: dec_frame_wf)
    with g [of x] 1(2) show False by (simp add: dec_safe_def)
  qed
next
  fix d v d' assume wf: "wf_dec d" and "rbind (f d) (\<lambda>(x, d). g x d) = Ok (v, d')"
  then obtain x d1 where 1: "f d = Ok (x, d1)" "g x d1 = Ok (v, d')" by (auto simp: rbind_Ok_iff)
  with f wf have "dec_frame d d1" by (simp add: dec_safe_def)
  moreover have "dec_frame d1 d'"
    using 1(2) g [of x] dec_frame_wf [OF \<open>dec_frame d d1\<close> wf] by (simp add: dec_safe_def)
  ultimately show "dec_frame d d'" by (rule dec_frame_trans)
qed

lemma dec_safe_if [dec_safe_intros]:
  "(\<And>d. b \<Longrightarrow> dec_safe f) \<Longrightarrow> (\<And>d. \<not> b \<Longrightarrow> dec_safe g) \<Longrightarrow> dec_safe (\<lambda>d. if b then f d else g d)"
  by (cases b) auto

lemma dec_safe_lift [dec_safe_intros]:
  assumes "r \<noteq> Panic" and "\<And>x. dec_safe (g x)"
  shows "dec_safe (\<lambda>d. rbind r (\<lambda>x. g x d))"
  using assms by (cases r) (auto simp: dec_safe_def)

lemmas dec_read_defs = dec_check_remaining_def take_slice_def wf_dec_def dec_frame_def rbind_Ok_iff
  rbind_Panic_iff

lemma dec_safe_u8 [dec_safe_intros]: "dec_safe read_u8"
  by (rule dec_safeI) (auto simp: read_u8_def dec_read_defs split: if_splits)

lemma dec_safe_u16 [dec_safe_intros]: "dec_safe read_u16"
  by (rule dec_safeI) (auto simp: read_u16_def dec_read_defs split: if_splits)

lemma dec_safe_slice [dec_safe_intros]: "dec_safe read_slice"
proof -
  have "dec_safe (\<lambda>d. rbind (dec_check_remaining n d) (\<lambda>_. take_slice n d))" for n
    by (rule dec_safeI) (auto simp: dec_read_defs split: if_splits)
  then show ?thesis
    unfolding read_slice_def [abs_def] by (intro dec_safe_bind dec_safe_u16)
qed

lemma dec_safe_str [dec_safe_intros]: "dec_safe read_str"
  unfolding read_str_def [abs_def] by (intro dec_safe_intros)

lemma dec_safe_payload [dec_safe_intros]: "dec_safe read_payload"
  by (rule dec_safeI) (auto simp: read_payload_def dec_read_defs Let_def split: if_splits)

lemma dec_safe_varint [dec_safe_intros]: "dec_safe read_varint"
proof (rule dec_safeI)
  fix d assume "wf_dec d"
  then show "read_varint d \<noteq> Panic"
    by (auto simp: read_varint_def rbind_Panic_iff wf_dec_def split: if_splits)
next
  fix d v d' assume "wf_dec d" and "read_varint d = Ok (v, d')"
  then show "dec_frame d d'"
    by (auto simp: read_varint_def rbind_Ok_iff wf_dec_def dec_frame_def split: if_splits
        dest!: varint_loop_count)
qed

section \<open>The fixed header\<close>

lemma read_len_varint_bytes:
  assumes "n < 268435456"
  shows "read_len (varint_bytes (of_nat n) @ post) = Ok (n, length (varint_bytes (of_nat n)) + 1)"
proof -
  have "unat (of_nat n :: u32) = n" using assms by (simp add: unat_of_nat)
  with assms show ?thesis
    using varint_loop_varint_bytes [of "of_nat n" InsufficientBytes post] by (simp add: read_len_def)
qed

definition header_of :: "u8 \<Rightarrow> PacketType \<Rightarrow> QoS \<Rightarrow> nat \<Rightarrow> FixedHeader" where
  "header_of b t q n =
     \<lparr>fh_typ = t, fh_dup = (b AND 0x08 = 0x08), fh_qos = q, fh_retain = (b AND 0x01 = 0x01),
      fh_remaining_len = n\<rparr>"

definition decoder_at :: "bytes \<Rightarrow> nat \<Rightarrow> FixedHeader \<Rightarrow> MqttDecoder" where
  "decoder_at buf h fh = \<lparr>dec_buf = buf, dec_offset = h, dec_header_len = h, dec_fixed_header = fh\<rparr>"

lemma decoder_at_sel [simp]:
  "dec_buf (decoder_at buf h fh) = buf" "dec_offset (decoder_at buf h fh) = h"
  "dec_header_len (decoder_at buf h fh) = h" "dec_fixed_header (decoder_at buf h fh) = fh"
  by (simp_all add: decoder_at_def)

lemma decoder_try_new_header:
  assumes "n < 268435456"
    and "packet_type_try_from ((pt OR fl) AND 0xF0) = Some t"
    and "qos_try_from (drop_bit 1 ((pt OR fl) AND 0x06)) = Some q"
  shows "decoder_try_new (fixed_header_bytes pt fl n @ rest) =
    Ok (decoder_at (fixed_header_bytes pt fl n @ rest) (length (fixed_header_bytes pt fl n))
         (header_of (pt OR fl) t q n))"
proof -
  have "2 \<le> length (fixed_header_bytes pt fl n)" by (rule length_fixed_header_bytes)
  moreover have "read_len (drop 1 (fixed_header_bytes pt fl n @ rest)) =
      Ok (n, length (fixed_header_bytes pt fl n))"
    using read_len_varint_bytes [OF assms(1), of rest] by (simp add: fixed_header_bytes_def)
  ultimately show ?thesis
    using assms(2,3)
    by (auto simp: decoder_try_new_def Let_def header_of_def decoder_at_def fixed_header_bytes_def)
qed

lemma decoder_try_new_wf:
  assumes "decoder_try_new buf = Ok d"
  shows "dec_buf d = buf" and "dec_offset d = dec_header_len d" and "dec_offset d \<le> length buf"
    and "2 \<le> dec_header_len d" and "dec_header_len d \<le> 5"
proof -
  from assms obtain rem h where len: "2 \<le> length buf" and rl: "read_len (drop 1 buf) = Ok (rem, h)"
    and d: "dec_buf d = buf" "dec_offset d = h" "dec_header_len d = h"
    by (auto simp: decoder_try_new_def Let_def rbind_Ok_iff split: if_splits option.splits)
  from rl obtain n where "varint_loop InsufficientBytes 0 (take 4 (drop 1 buf)) 0 = Ok (rem, n)" "h = n + 1"
    by (auto simp: read_len_def rbind_Ok_iff)
  then have "0 < n" "n \<le> length (take 4 (drop 1 buf))" "h = n + 1"
    using varint_loop_count by fastforce+
  with d len show "dec_buf d = buf" "dec_offset d = dec_header_len d" "dec_offset d \<le> length buf"
    "2 \<le> dec_header_len d" "dec_header_len d \<le> 5" by auto
qed

lemma decoder_try_new_not_Panic [simp]: "decoder_try_new buf \<noteq> Panic"
  by (auto simp: decoder_try_new_def read_len_def Let_def rbind_Panic_iff split: option.splits)

end
