(* ===== verification/Properties.thy ===== *)
theory Properties
  imports Decoder
begin

text \<open>
  MQTT 5 properties: \<open>src/encoding/properties.rs\<close> and the property writers and readers of
  \<open>encoder.rs\<close> and \<open>decoder.rs\<close>.

  Outgoing properties are a list (\<open>Slice\<close>), incoming ones an undecoded block (\<open>DataBlock\<close>) that an
  iterator decodes on demand.  An iterator operation returns its result together with the iterator,
  because iteration continues after an error from wherever the failed read left the index.
\<close>

named_theorems ireads_intros \<open>introduction rules for what an iterator operation reads\<close>

section \<open>Property identifiers and properties\<close>

datatype PropertyIdentifier =
    PI_PayloadFormatIndicator
  | PI_MessageExpiryInterval
  | PI_ContentType
  | PI_ResponseTopic
  | PI_CorrelationData
  | PI_SubscriptionIdentifier
  | PI_SessionExpiryInterval
  | PI_AssignedClientIdentifier
  | PI_ServerKeepAlive
  | PI_AuthenticationMethod
  | PI_AuthenticationData
  | PI_RequestProblemInformation
  | PI_WillDelayInterval
  | PI_RequestResponseInformation
  | PI_ResponseInformation
  | PI_ServerReference
  | PI_ReasonString
  | PI_ReceiveMaximum
  | PI_TopicAliasMaximum
  | PI_TopicAlias
  | PI_MaximumQoS
  | PI_RetainAvailable
  | PI_UserProperty
  | PI_MaximumPacketSize
  | PI_WildcardSubscriptionAvailable
  | PI_SubscriptionIdentifierAvailable
  | PI_SharedSubscriptionAvailable

fun property_identifier_to_u8 :: "PropertyIdentifier \<Rightarrow> u8" where
  "property_identifier_to_u8 PI_PayloadFormatIndicator = 0x01"
| "property_identifier_to_u8 PI_MessageExpiryInterval = 0x02"
| "property_identifier_to_u8 PI_ContentType = 0x03"
| "property_identifier_to_u8 PI_ResponseTopic = 0x08"
| "property_identifier_to_u8 PI_CorrelationData = 0x09"
| "property_identifier_to_u8 PI_SubscriptionIdentifier = 0x0B"
| "property_identifier_to_u8 PI_SessionExpiryInterval = 0x11"
| "property_identifier_to_u8 PI_AssignedClientIdentifier = 0x12"
| "property_identifier_to_u8 PI_ServerKeepAlive = 0x13"
| "property_identifier_to_u8 PI_AuthenticationMethod = 0x15"
| "property_identifier_to_u8 PI_AuthenticationData = 0x16"
| "property_identifier_to_u8 PI_RequestProblemInformation = 0x17"
| "property_identifier_to_u8 PI_WillDelayInterval = 0x18"
| "property_identifier_to_u8 PI_RequestResponseInformation = 0x19"
| "property_identifier_to_u8 PI_ResponseInformation = 0x1A"
| "property_identifier_to_u8 PI_ServerReference = 0x1C"
| "property_identifier_to_u8 PI_ReasonString = 0x1F"
| "property_identifier_to_u8 PI_ReceiveMaximum = 0x21"
| "property_identifier_to_u8 PI_TopicAliasMaximum = 0x22"
| "property_identifier_to_u8 PI_TopicAlias = 0x23"
| "property_identifier_to_u8 PI_MaximumQoS = 0x24"
| "property_identifier_to_u8 PI_RetainAvailable = 0x25"
| "property_identifier_to_u8 PI_UserProperty = 0x26"
| "property_identifier_to_u8 PI_MaximumPacketSize = 0x27"
| "property_identifier_to_u8 PI_WildcardSubscriptionAvailable = 0x28"
| "property_identifier_to_u8 PI_SubscriptionIdentifierAvailable = 0x29"
| "property_identifier_to_u8 PI_SharedSubscriptionAvailable = 0x2A"

definition all_property_identifiers :: "PropertyIdentifier list" where
  "all_property_identifiers =
     [PI_PayloadFormatIndicator, PI_MessageExpiryInterval, PI_ContentType, PI_ResponseTopic, PI_CorrelationData,
      PI_SubscriptionIdentifier, PI_SessionExpiryInterval, PI_AssignedClientIdentifier, PI_ServerKeepAlive,
      PI_AuthenticationMethod, PI_AuthenticationData, PI_RequestProblemInformation, PI_WillDelayInterval,
      PI_RequestResponseInformation, PI_ResponseInformation, PI_ServerReference, PI_ReasonString,
      PI_ReceiveMaximum, PI_TopicAliasMaximum, PI_TopicAlias, PI_MaximumQoS, PI_RetainAvailable,
      PI_UserProperty, PI_MaximumPacketSize, PI_WildcardSubscriptionAvailable,
      PI_SubscriptionIdentifierAvailable, PI_SharedSubscriptionAvailable]"

definition property_identifier_try_from :: "u8 \<Rightarrow> PropertyIdentifier option" where
  "property_identifier_try_from b =
     find (\<lambda>i. property_identifier_to_u8 i = b) all_property_identifiers"

datatype Property =
    PayloadFormatIndicator u8
  | MessageExpiryInterval u32
  | ContentType str
  | ResponseTopic str
  | CorrelationData bytes
  | SubscriptionIdentifier u32
  | SessionExpiryInterval u32
  | AssignedClientIdentifier str
  | ServerKeepAlive u16
  | AuthenticationMethod str
  | AuthenticationData bytes
  | RequestProblemInformation u8
  | WillDelayInterval u32
  | RequestResponseInformation u8
  | ResponseInformation str
  | ServerReference str
  | ReasonString str
  | ReceiveMaximum u16
  | TopicAliasMaximum u16
  | TopicAlias u16
  | MaximumQoS u8
  | RetainAvailable u8
  | UserProperty str str
  | MaximumPacketSize u32
  | WildcardSubscriptionAvailable u8
  | SubscriptionIdentifierAvailable u8
  | SharedSubscriptionAvailable u8

fun property_identifier :: "Property \<Rightarrow> PropertyIdentifier" where
  "property_identifier (PayloadFormatIndicator v) = PI_PayloadFormatIndicator"
| "property_identifier (MessageExpiryInterval v) = PI_MessageExpiryInterval"
| "property_identifier (ContentType v) = PI_ContentType"
| "property_identifier (ResponseTopic v) = PI_ResponseTopic"
| "property_identifier (CorrelationData v) = PI_CorrelationData"
| "property_identifier (SubscriptionIdentifier v) = PI_SubscriptionIdentifier"
| "property_identifier (SessionExpiryInterval v) = PI_SessionExpiryInterval"
| "property_identifier (AssignedClientIdentifier v) = PI_AssignedClientIdentifier"
| "property_identifier (ServerKeepAlive v) = PI_ServerKeepAlive"
| "property_identifier (AuthenticationMethod v) = PI_AuthenticationMethod"
| "property_identifier (AuthenticationData v) = PI_AuthenticationData"
| "property_identifier (RequestProblemInformation v) = PI_RequestProblemInformation"
| "property_identifier (WillDelayInterval v) = PI_WillDelayInterval"
| "property_identifier (RequestResponseInformation v) = PI_RequestResponseInformation"
| "property_identifier (ResponseInformation v) = PI_ResponseInformation"
| "property_identifier (ServerReference v) = PI_ServerReference"
| "property_identifier (ReasonString v) = PI_ReasonString"
| "property_identifier (ReceiveMaximum v) = PI_ReceiveMaximum"
| "property_identifier (TopicAliasMaximum v) = PI_TopicAliasMaximum"
| "property_identifier (TopicAlias v) = PI_TopicAlias"
| "property_identifier (MaximumQoS v) = PI_MaximumQoS"
| "property_identifier (RetainAvailable v) = PI_RetainAvailable"
| "property_identifier (UserProperty k v) = PI_UserProperty"
| "property_identifier (MaximumPacketSize v) = PI_MaximumPacketSize"
| "property_identifier (WildcardSubscriptionAvailable v) = PI_WildcardSubscriptionAvailable"
| "property_identifier (SubscriptionIdentifierAvailable v) = PI_SubscriptionIdentifierAvailable"
| "property_identifier (SharedSubscriptionAvailable v) = PI_SharedSubscriptionAvailable"

definition property_id :: "Property \<Rightarrow> u8" where
  "property_id p = property_identifier_to_u8 (property_identifier p)"

fun property_size :: "Property \<Rightarrow> ('e, nat) result" where
  "property_size (PayloadFormatIndicator v) = Ok (1 + 1)"
| "property_size (MessageExpiryInterval v) = Ok (4 + 1)"
| "property_size (ContentType data) = Ok (length data + 2 + 1)"
| "property_size (ResponseTopic data) = Ok (length data + 2 + 1)"
| "property_size (CorrelationData data) = Ok (length data + 2 + 1)"
| "property_size (SubscriptionIdentifier i) =
     rbind (varint_len (unat i)) (\<lambda>n. Ok (n + unat i + 1))"
| "property_size (SessionExpiryInterval v) = Ok (4 + 1)"
| "property_size (AssignedClientIdentifier data) = Ok (length data + 2 + 1)"
| "property_size (ServerKeepAlive v) = Ok (2 + 1)"
| "property_size (AuthenticationMethod data) = Ok (length data + 2 + 1)"
| "property_size (AuthenticationData data) = Ok (length data + 2 + 1)"
| "property_size (RequestProblemInformation v) = Ok (1 + 1)"
| "property_size (WillDelayInterval v) = Ok (4 + 1)"
| "property_size (RequestResponseInformation v) = Ok (1 + 1)"
| "property_size (ResponseInformation data) = Ok (length data + 2 + 1)"
| "property_size (ServerReference data) = Ok (length data + 2 + 1)"
| "property_size (ReasonString data) = Ok (length data + 2 + 1)"
| "property_size (ReceiveMaximum v) = Ok (2 + 1)"
| "property_size (TopicAliasMaximum v) = Ok (2 + 1)"
| "property_size (TopicAlias v) = Ok (2 + 1)"
| "property_size (MaximumQoS v) = Ok (1 + 1)"
| "property_size (RetainAvailable v) = Ok (1 + 1)"
| "property_size (UserProperty key v) = Ok ((length v + 2) + (length key + 2) + 1)"
| "property_size (MaximumPacketSize v) = Ok (4 + 1)"
| "property_size (WildcardSubscriptionAvailable v) = Ok (1 + 1)"
| "property_size (SubscriptionIdentifierAvailable v) = Ok (1 + 1)"
| "property_size (SharedSubscriptionAvailable v) = Ok (1 + 1)"

datatype Properties =
    Slice "Property list"
  | DataBlock bytes
  | CorrelatedSlice Property "Property list"

fun sum_sizes :: "Property list \<Rightarrow> ('e, nat) result" where
  "sum_sizes [] = Ok 0"
| "sum_sizes (p # ps) = rbind (property_size p) (\<lambda>a. rbind (sum_sizes ps) (\<lambda>b. Ok (a + b)))"

fun properties_size :: "Properties \<Rightarrow> ('e, nat) result" where
  "properties_size (Slice ps) = sum_sizes ps"
| "properties_size (CorrelatedSlice correlation ps) = sum_sizes (ps @ [correlation])"
| "properties_size (DataBlock block) = Ok (length block)"

definition properties_default :: Properties where
  "properties_default = Slice []"

section \<open>Writing\<close>

fun write_property_value :: "Property \<Rightarrow> enc_op" where
  "write_property_value (PayloadFormatIndicator v) e = write_u8 v e"
| "write_property_value (MessageExpiryInterval v) e = write_u32 v e"
| "write_property_value (ContentType v) e = write_str v e"
| "write_property_value (ResponseTopic v) e = write_str v e"
| "write_property_value (CorrelationData v) e = write_slice v e"
| "write_property_value (SubscriptionIdentifier v) e = write_varint v e"
| "write_property_value (SessionExpiryInterval v) e = write_u32 v e"
| "write_property_value (AssignedClientIdentifier v) e = write_str v e"
| "write_property_value (ServerKeepAlive v) e = write_u16 v e"
| "write_property_value (AuthenticationMethod v) e = write_str v e"
| "write_property_value (AuthenticationData v) e = write_slice v e"
| "write_property_value (RequestProblemInformation v) e = write_u8 v e"
| "write_property_value (WillDelayInterval v) e = write_u32 v e"
| "write_property_value (RequestResponseInformation v) e = write_u8 v e"
| "write_property_value (ResponseInformation v) e = write_str v e"
| "write_property_value (ServerReference v) e = write_str v e"
| "write_property_value (ReasonString v) e = write_str v e"
| "write_property_value (ReceiveMaximum v) e = write_u16 v e"
| "write_property_value (TopicAliasMaximum v) e = write_u16 v e"
| "write_property_value (TopicAlias v) e = write_u16 v e"
| "write_property_value (MaximumQoS v) e = write_u8 v e"
| "write_property_value (RetainAvailable v) e = write_u8 v e"
| "write_property_value (UserProperty k v) e = rbind (write_str k e) (write_str v)"
| "write_property_value (MaximumPacketSize v) e = write_u32 v e"
| "write_property_value (WildcardSubscriptionAvailable v) e = write_u8 v e"
| "write_property_value (SubscriptionIdentifierAvailable v) e = write_u8 v e"
| "write_property_value (SharedSubscriptionAvailable v) e = write_u8 v e"

definition write_property :: "Property \<Rightarrow> enc_op" where
  "write_property p e = rbind (write_u8 (property_id p) e) (write_property_value p)"

fun write_property_list :: "Property list \<Rightarrow> enc_op" where
  "write_property_list [] e = Ok e"
| "write_property_list (p # ps) e = rbind (write_property p e) (write_property_list ps)"

definition write_properties :: "Properties \<Rightarrow> enc_op" where
  "write_properties v e =
     rbind (properties_size v) (\<lambda>n.
     rbind (write_varint (of_nat n) e) (\<lambda>e1.
     case v of
       Slice ps \<Rightarrow> write_property_list ps e1
     | DataBlock data \<Rightarrow> write_slice data e1
     | CorrelatedSlice correlation ps \<Rightarrow>
         rbind (write_property correlation e1) (write_property_list ps)))"

section \<open>Reading a property block\<close>

text \<open>
  The loop of \<open>read_properties\<close> that logs every property changes nothing; that it ends is
  \<open>props_collect\<close>'s termination.
\<close>

definition read_properties :: "Properties dec_op" where
  "read_properties d =
     rbind (read_varint d) (\<lambda>(len, d1).
     rbind (dec_check_remaining (unat len) d1) (\<lambda>_.
     rbind (take_slice (unat len) d1) (\<lambda>(v, d2). Ok (DataBlock v, d2))))"

section \<open>The property iterator\<close>

datatype PropsData = Encoded bytes | Decoded "Property list"

fun props_len :: "PropsData \<Rightarrow> nat" where
  "props_len (Encoded data) = length data"
| "props_len (Decoded data) = length data"

record PropertiesIter =
  pi_data :: PropsData
  pi_index :: nat

type_synonym 'a iter_op = "PropertiesIter \<Rightarrow> (EncodingError, 'a) result \<times> PropertiesIter"

definition ibind :: "'a iter_op \<Rightarrow> ('a \<Rightarrow> 'b iter_op) \<Rightarrow> 'b iter_op" where
  "ibind m f it =
     (case m it of
        (Ok x, it1) \<Rightarrow> f x it1
      | (Err e, it1) \<Rightarrow> (Err e, it1)
      | (Panic, it1) \<Rightarrow> (Panic, it1))"

definition ireturn :: "'a \<Rightarrow> 'a iter_op" where
  "ireturn x it = (Ok x, it)"

fun properties_iter :: "Properties \<Rightarrow> ('e, PropertiesIter) result" where
  "properties_iter (Slice data) = Ok \<lparr>pi_data = Decoded data, pi_index = 0\<rparr>"
| "properties_iter (DataBlock data) = Ok \<lparr>pi_data = Encoded data, pi_index = 0\<rparr>"
| "properties_iter (CorrelatedSlice correlation ps) = Panic"

definition iter_check_remaining :: "nat \<Rightarrow> unit iter_op" where
  "iter_check_remaining len it =
     (case pi_data it of
        Encoded data \<Rightarrow>
          (if length data < pi_index it then (Panic, it)
           else if length data - pi_index it < len then (Err InvalidLength, it)
           else (Ok (), it))
      | Decoded _ \<Rightarrow> (Panic, it))"

text \<open>\<open>let PropsData::Encoded(data) = self.data else { return Err(MalformedPacket) }\<close>\<close>

definition with_encoded :: "(bytes \<Rightarrow> 'a iter_op) \<Rightarrow> 'a iter_op" where
  "with_encoded f it =
     (case pi_data it of Encoded data \<Rightarrow> f data it | Decoded _ \<Rightarrow> (Err MalformedPacket, it))"

definition iter_take :: "nat \<Rightarrow> bytes iter_op" where
  "iter_take n =
     with_encoded (\<lambda>data it.
       if pi_index it + n \<le> length data
       then (Ok (slice data (pi_index it) n), it\<lparr>pi_index := pi_index it + n\<rparr>)
       else (Panic, it))"

definition iter_read_varint :: "u32 iter_op" where
  "iter_read_varint =
     with_encoded (\<lambda>data it.
       if length data < pi_index it then (Panic, it)
       else
         (case varint_loop InvalidLength 0 (take 4 (drop (pi_index it) data)) 0 of
            Ok (integer, n) \<Rightarrow> (Ok (of_nat integer), it\<lparr>pi_index := pi_index it + n\<rparr>)
          | Err e \<Rightarrow> (Err e, it)
          | Panic \<Rightarrow> (Panic, it)))"

definition iter_read_u8 :: "u8 iter_op" where
  "iter_read_u8 =
     with_encoded (\<lambda>data. ibind (iter_check_remaining 1) (\<lambda>_. ibind (iter_take 1) (\<lambda>b. ireturn (b ! 0))))"

definition iter_read_u16 :: "u16 iter_op" where
  "iter_read_u16 =
     with_encoded (\<lambda>data. ibind (iter_check_remaining 2) (\<lambda>_.
       ibind (iter_take 2) (\<lambda>b. ireturn (u16_from_be (b ! 0) (b ! 1)))))"

definition iter_read_u32 :: "u32 iter_op" where
  "iter_read_u32 =
     with_encoded (\<lambda>data. ibind (iter_check_remaining 4) (\<lambda>_.
       ibind (iter_take 4) (\<lambda>b. ireturn (u32_from_be (b ! 0) (b ! 1) (b ! 2) (b ! 3)))))"

definition iter_read_slice :: "bytes iter_op" where
  "iter_read_slice =
     with_encoded (\<lambda>data. ibind iter_read_u16 (\<lambda>len.
       ibind (iter_check_remaining (unat len)) (\<lambda>_. iter_take (unat len))))"

definition iter_read_str :: "str iter_op" where
  "iter_read_str =
     ibind iter_read_slice (\<lambda>bs. if utf8_valid bs then ireturn bs else (\<lambda>it. (Err InvalidString, it)))"

fun read_property_value :: "PropertyIdentifier \<Rightarrow> Property iter_op" where
  "read_property_value PI_PayloadFormatIndicator =
     ibind iter_read_u8 (\<lambda>v. ireturn (PayloadFormatIndicator v))"
| "read_property_value PI_MessageExpiryInterval =
     ibind iter_read_u32 (\<lambda>v. ireturn (MessageExpiryInterval v))"
| "read_property_value PI_ContentType =
     ibind iter_read_str (\<lambda>v. ireturn (ContentType v))"
| "read_property_value PI_ResponseTopic =
     ibind iter_read_str (\<lambda>v. ireturn (ResponseTopic v))"
| "read_property_value PI_CorrelationData =
     ibind iter_read_slice (\<lambda>v. ireturn (CorrelationData v))"
| "read_property_value PI_SubscriptionIdentifier =
     ibind iter_read_varint (\<lambda>v. ireturn (SubscriptionIdentifier v))"
| "read_property_value PI_SessionExpiryInterval =
     ibind iter_read_u32 (\<lambda>v. ireturn (SessionExpiryInterval v))"
| "read_property_value PI_AssignedClientIdentifier =
     ibind iter_read_str (\<lambda>v. ireturn (AssignedClientIdentifier v))"
| "read_property_value PI_ServerKeepAlive =
     ibind iter_read_u16 (\<lambda>v. ireturn (ServerKeepAlive v))"
| "read_property_value PI_AuthenticationMethod =
     ibind iter_read_str (\<lambda>v. ireturn (AuthenticationMethod v))"
| "read_property_value PI_AuthenticationData =
     ibind iter_read_slice (\<lambda>v. ireturn (AuthenticationData v))"
| "read_property_value PI_RequestProblemInformation =
     ibind iter_read_u8 (\<lambda>v. ireturn (RequestProblemInformation v))"
| "read_property_value PI_WillDelayInterval =
     ibind iter_read_u32 (\<lambda>v. ireturn (WillDelayInterval v))"
| "read_property_value PI_RequestResponseInformation =
     ibind iter_read_u8 (\<lambda>v. ireturn (RequestResponseInformation v))"
| "read_property_value PI_ResponseInformation =
     ibind iter_read_str (\<lambda>v. ireturn (ResponseInformation v))"
| "read_property_value PI_ServerReference =
     ibind iter_read_str (\<lambda>v. ireturn (ServerReference v))"
| "read_property_value PI_ReasonString =
     ibind iter_read_str (\<lambda>v. ireturn (ReasonString v))"
| "read_property_value PI_ReceiveMaximum =
     ibind iter_read_u16 (\<lambda>v. ireturn (ReceiveMaximum v))"
| "read_property_value PI_TopicAliasMaximum =
     ibind iter_read_u16 (\<lambda>v. ireturn (TopicAliasMaximum v))"
| "read_property_value PI_TopicAlias =
     ibind iter_read_u16 (\<lambda>v. ireturn (TopicAlias v))"
| "read_property_value PI_MaximumQoS =
     ibind iter_read_u8 (\<lambda>v. ireturn (MaximumQoS v))"
| "read_property_value PI_RetainAvailable =
     ibind iter_read_u8 (\<lambda>v. ireturn (RetainAvailable v))"
| "read_property_value PI_UserProperty =
     ibind iter_read_str (\<lambda>k. ibind iter_read_str (\<lambda>v. ireturn (UserProperty k v)))"
| "read_property_value PI_MaximumPacketSize =
     ibind iter_read_u32 (\<lambda>v. ireturn (MaximumPacketSize v))"
| "read_property_value PI_WildcardSubscriptionAvailable =
     ibind iter_read_u8 (\<lambda>v. ireturn (WildcardSubscriptionAvailable v))"
| "read_property_value PI_SubscriptionIdentifierAvailable =
     ibind iter_read_u8 (\<lambda>v. ireturn (SubscriptionIdentifierAvailable v))"
| "read_property_value PI_SharedSubscriptionAvailable =
     ibind iter_read_u8 (\<lambda>v. ireturn (SharedSubscriptionAvailable v))"

definition read_property :: "Property iter_op" where
  "read_property it =
     (case pi_data it of
        Decoded data \<Rightarrow>
          (if pi_index it < length data
           then (Ok (data ! pi_index it), it\<lparr>pi_index := pi_index it + 1\<rparr>)
           else (Panic, it))
      | Encoded _ \<Rightarrow>
          ibind iter_read_u8 (\<lambda>property_v.
            case property_identifier_try_from property_v of
              None \<Rightarrow> (\<lambda>it. (Err (InvalidProperty property_v), it))
            | Some i \<Rightarrow> read_property_value i) it)"

text \<open>\<open>Iterator::next\<close>: \<open>None\<close> at the end, otherwise the item and the advanced iterator.\<close>

definition props_next :: "PropertiesIter \<Rightarrow> ((Error, Property) result \<times> PropertiesIter) option" where
  "props_next it =
     (if props_len (pi_data it) \<le> pi_index it then None
      else (case read_property it of (r, it1) \<Rightarrow> Some (map_err Encoding r, it1)))"

section \<open>The bytes of a property\<close>

definition str_ok :: "str \<Rightarrow> bool" where
  "str_ok v \<longleftrightarrow> length v < 65536 \<and> utf8_valid v"

text \<open>The values an encoder can represent: a string or binary field has a 16-bit length, a
  variable length integer 28 bits.\<close>

fun prop_ok :: "Property \<Rightarrow> bool" where
  "prop_ok (ContentType v) \<longleftrightarrow> str_ok v"
| "prop_ok (ResponseTopic v) \<longleftrightarrow> str_ok v"
| "prop_ok (CorrelationData v) \<longleftrightarrow> length v < 65536"
| "prop_ok (SubscriptionIdentifier v) \<longleftrightarrow> unat v < 268435456"
| "prop_ok (AssignedClientIdentifier v) \<longleftrightarrow> str_ok v"
| "prop_ok (AuthenticationMethod v) \<longleftrightarrow> str_ok v"
| "prop_ok (AuthenticationData v) \<longleftrightarrow> length v < 65536"
| "prop_ok (ResponseInformation v) \<longleftrightarrow> str_ok v"
| "prop_ok (ServerReference v) \<longleftrightarrow> str_ok v"
| "prop_ok (ReasonString v) \<longleftrightarrow> str_ok v"
| "prop_ok (UserProperty k v) \<longleftrightarrow> str_ok k \<and> str_ok v"
| "prop_ok _ \<longleftrightarrow> True"

fun prop_value_bytes :: "Property \<Rightarrow> bytes" where
  "prop_value_bytes (PayloadFormatIndicator v) = [v]"
| "prop_value_bytes (MessageExpiryInterval v) = u32_to_be v"
| "prop_value_bytes (ContentType v) = slice_bytes v"
| "prop_value_bytes (ResponseTopic v) = slice_bytes v"
| "prop_value_bytes (CorrelationData v) = slice_bytes v"
| "prop_value_bytes (SubscriptionIdentifier v) = varint_bytes v"
| "prop_value_bytes (SessionExpiryInterval v) = u32_to_be v"
| "prop_value_bytes (AssignedClientIdentifier v) = slice_bytes v"
| "prop_value_bytes (ServerKeepAlive v) = u16_to_be v"
| "prop_value_bytes (AuthenticationMethod v) = slice_bytes v"
| "prop_value_bytes (AuthenticationData v) = slice_bytes v"
| "prop_value_bytes (RequestProblemInformation v) = [v]"
| "prop_value_bytes (WillDelayInterval v) = u32_to_be v"
| "prop_value_bytes (RequestResponseInformation v) = [v]"
| "prop_value_bytes (ResponseInformation v) = slice_bytes v"
| "prop_value_bytes (ServerReference v) = slice_bytes v"
| "prop_value_bytes (ReasonString v) = slice_bytes v"
| "prop_value_bytes (ReceiveMaximum v) = u16_to_be v"
| "prop_value_bytes (TopicAliasMaximum v) = u16_to_be v"
| "prop_value_bytes (TopicAlias v) = u16_to_be v"
| "prop_value_bytes (MaximumQoS v) = [v]"
| "prop_value_bytes (RetainAvailable v) = [v]"
| "prop_value_bytes (UserProperty k v) = slice_bytes k @ slice_bytes v"
| "prop_value_bytes (MaximumPacketSize v) = u32_to_be v"
| "prop_value_bytes (WildcardSubscriptionAvailable v) = [v]"
| "prop_value_bytes (SubscriptionIdentifierAvailable v) = [v]"
| "prop_value_bytes (SharedSubscriptionAvailable v) = [v]"

definition property_bytes :: "Property \<Rightarrow> bytes" where
  "property_bytes p = property_id p # prop_value_bytes p"

definition block_bytes :: "Property list \<Rightarrow> bytes" where
  "block_bytes ps = concat (map property_bytes ps)"

fun is_subscription_identifier :: "Property \<Rightarrow> bool" where
  "is_subscription_identifier (SubscriptionIdentifier v) = True"
| "is_subscription_identifier _ = False"

lemma block_bytes_simps [simp]:
  "block_bytes [] = []" "block_bytes (p # ps) = property_bytes p @ block_bytes ps"
  by (simp_all add: block_bytes_def)

lemma writes_property_value: "writes (write_property_value p) (prop_value_bytes p)"
proof (cases p)
  case (UserProperty k v)
  have "writes (\<lambda>e. rbind (write_str k e) (write_str v)) (slice_bytes k @ slice_bytes v)"
    by (intro writes_intros)
  then show ?thesis by (simp add: UserProperty writes_def)
qed (simp_all add: writes_intros [unfolded writes_def] writes_def)

lemma writes_property [writes_intros]: "writes (write_property p) (property_bytes p)"
proof -
  have "writes (\<lambda>e. rbind (write_u8 (property_id p) e) (write_property_value p))
      ([property_id p] @ prop_value_bytes p)"
    by (intro writes_bind writes_u8 writes_property_value)
  then show ?thesis by (simp add: property_bytes_def writes_def write_property_def)
qed

lemma writes_property_list [writes_intros]: "writes (write_property_list ps) (block_bytes ps)"
proof (induction ps)
  case Nil
  then show ?case by (auto simp: writes_def wf_enc_def)
next
  case (Cons p ps)
  have "writes (\<lambda>e. rbind (write_property p e) (write_property_list ps)) (property_bytes p @ block_bytes ps)"
    by (intro writes_bind writes_property Cons.IH)
  then show ?case by (simp add: writes_def)
qed

lemma property_size_bytes:
  "\<not> is_subscription_identifier p \<Longrightarrow> property_size p = Ok (length (property_bytes p))"
  by (cases p) (simp_all add: property_bytes_def)

lemma sum_sizes_bytes:
  "\<forall>p \<in> set ps. \<not> is_subscription_identifier p \<Longrightarrow> sum_sizes ps = Ok (length (block_bytes ps))"
  by (induction ps) (simp_all add: property_size_bytes)

text \<open>The byte block a property value occupies on the wire, and its length prefix.\<close>

fun wire_block :: "Properties \<Rightarrow> bytes" where
  "wire_block (Slice ps) = block_bytes ps"
| "wire_block (CorrelatedSlice c ps) = property_bytes c @ block_bytes ps"
| "wire_block (DataBlock data) = data"

fun sendable :: "Properties \<Rightarrow> bool" where
  "sendable (Slice ps) \<longleftrightarrow> (\<forall>p \<in> set ps. \<not> is_subscription_identifier p)"
| "sendable (CorrelatedSlice c ps) \<longleftrightarrow> (\<forall>p \<in> set (c # ps). \<not> is_subscription_identifier p)"
| "sendable (DataBlock data) \<longleftrightarrow> False"

definition properties_bytes :: "Properties \<Rightarrow> bytes" where
  "properties_bytes v = varint_bytes (of_nat (length (wire_block v))) @ wire_block v"

lemma length_block_bytes_append [simp]:
  "length (block_bytes (ps @ qs)) = length (block_bytes ps) + length (block_bytes qs)"
  by (simp add: block_bytes_def)

lemma properties_size_wire: "sendable v \<Longrightarrow> properties_size v = Ok (length (wire_block v))"
  by (cases v) (auto simp: sum_sizes_bytes)

lemma writes_properties [writes_intros]:
  assumes "sendable v"
  shows "writes (write_properties v) (properties_bytes v)"
proof (cases v)
  case (Slice ps)
  have "writes (\<lambda>e. rbind (write_varint (of_nat (length (block_bytes ps))) e) (write_property_list ps))
      (properties_bytes v)"
    unfolding properties_bytes_def Slice wire_block.simps by (intro writes_intros)
  then show ?thesis using assms
    by (simp add: writes_def write_properties_def Slice sum_sizes_bytes)
next
  case (CorrelatedSlice c ps)
  have "writes (\<lambda>e. rbind (write_varint (of_nat (length (wire_block v))) e)
       (\<lambda>e. rbind (write_property c e) (write_property_list ps))) (properties_bytes v)"
    unfolding properties_bytes_def CorrelatedSlice wire_block.simps by (intro writes_intros)
  then show ?thesis using assms
    by (simp add: writes_def write_properties_def CorrelatedSlice sum_sizes_bytes add.commute)
next
  case (DataBlock data)
  with assms show ?thesis by simp
qed

lemma properties_bytes_empty: "wire_block v = [] \<Longrightarrow> properties_bytes v = [0]"
  by (simp add: properties_bytes_def varint_bytes_def four_Suc del: u32_div_128_eq_0)

lemma reads_properties [reads_intros]:
  assumes "length blk < 268435456"
  shows "reads read_properties (varint_bytes (of_nat (length blk)) @ blk) (DataBlock blk)"
proof -
  have u: "unat (of_nat (length blk) :: u32) = length blk" using assms by (simp add: unat_of_nat)
  let ?len = "of_nat (length blk) :: u32"
  have "reads (\<lambda>d1. rbind (dec_check_remaining (unat ?len) d1) (\<lambda>_.
      rbind (take_slice (unat ?len) d1) (\<lambda>(v, d2). Ok (DataBlock v, d2)))) blk (DataBlock blk)"
    by (auto simp: u reads_def dec_check_remaining_def take_slice_def slice_def)
  then show ?thesis
    unfolding read_properties_def [abs_def] using assms u by (intro reads_bind [OF reads_varint]) simp_all
qed

lemma dec_safe_properties [dec_safe_intros]: "dec_safe read_properties"
proof -
  have "dec_safe (\<lambda>d. rbind (dec_check_remaining n d) (\<lambda>_.
      rbind (take_slice n d) (\<lambda>(v, d2). Ok (DataBlock v, d2))))" for n
    by (rule dec_safeI) (auto simp: dec_read_defs split: if_splits)
  then show ?thesis
    unfolding read_properties_def [abs_def] by (intro dec_safe_bind dec_safe_varint)
qed

end
