(* ===== verification/Reason_Codes.thy ===== *)
theory Reason_Codes
  imports Codec_Types
begin

text \<open>
  The reason codes of \<open>src/encoding/reason_code.rs\<close>.  Each enum has the discriminants of the source
  (\<open>IntoPrimitive\<close>) and the total conversion that \<open>num_enum::FromPrimitive\<close> derives: the variant with
  that discriminant, or the variant marked as default.  The locale \<open>num_enum\<close> states what the two
  conversions promise and is interpreted for every enum.
\<close>

section \<open>The derived conversion\<close>

definition from_primitive :: "('a \<Rightarrow> u8) \<Rightarrow> 'a list \<Rightarrow> 'a \<Rightarrow> u8 \<Rightarrow> 'a" where
  "from_primitive to_u8 variants dflt b =
     (case find (\<lambda>c. to_u8 c = b) variants of None \<Rightarrow> dflt | Some c \<Rightarrow> c)"

locale num_enum =
  fixes to_u8 :: "'a \<Rightarrow> u8" and variants :: "'a list" and dflt :: 'a and from_u8 :: "u8 \<Rightarrow> 'a"
  assumes complete: "c \<in> set variants"
    and distinct_codes: "distinct (map to_u8 variants)"
    and from_u8: "from_u8 = from_primitive to_u8 variants dflt"
begin

lemma to_u8_inj: "to_u8 c = to_u8 c' \<longleftrightarrow> c = c'"
  using distinct_codes complete [of c] complete [of c'] by (auto simp: distinct_map inj_on_def)

lemma from_to [simp]: "from_u8 (to_u8 c) = c"
  using complete [of c]
  by (auto simp: from_u8 from_primitive_def to_u8_inj find_None_iff find_Some_iff split: option.splits)

lemma from_cases: "to_u8 (from_u8 b) = b \<or> from_u8 b = dflt"
  by (auto simp: from_u8 from_primitive_def find_Some_iff split: option.splits)

lemma from_default: "(\<forall>c. to_u8 c \<noteq> b) \<Longrightarrow> from_u8 b = dflt"
  using from_cases by blast

end

section \<open>The enums\<close>

datatype ConnAckReasonCode =
    CA_Success | CA_UnspecifiedError | CA_MalformedPacket | CA_ProtocolError |
    CA_ImplementationError | CA_UnsupportedProtocol | CA_ClientIdentifierInvalid |
    CA_BadUsernameOrPassword | CA_NotAuthorized | CA_ServerUnavailable | CA_ServerBusy |
    CA_Banned | CA_BadAuthMethod | CA_TopicNameInvalid | CA_PacketTooLarge |
    CA_MessageRateTooHigh | CA_QuotaExceeded | CA_PayloadFormatInvalid |
    CA_RetainNotSupported | CA_QosNotSupported | CA_UseAnotherServer | CA_ServerMoved |
    CA_ConnectionRateExceeded | CA_Unknown

fun connack_reason_to_u8 :: "ConnAckReasonCode \<Rightarrow> u8" where
  "connack_reason_to_u8 CA_Success = 0x00"
| "connack_reason_to_u8 CA_UnspecifiedError = 0x80"
| "connack_reason_to_u8 CA_MalformedPacket = 0x81"
| "connack_reason_to_u8 CA_ProtocolError = 0x82"
| "connack_reason_to_u8 CA_ImplementationError = 0x83"
| "connack_reason_to_u8 CA_UnsupportedProtocol = 0x84"
| "connack_reason_to_u8 CA_ClientIdentifierInvalid = 0x85"
| "connack_reason_to_u8 CA_BadUsernameOrPassword = 0x86"
| "connack_reason_to_u8 CA_NotAuthorized = 0x87"
| "connack_reason_to_u8 CA_ServerUnavailable = 0x88"
| "connack_reason_to_u8 CA_ServerBusy = 0x89"
| "connack_reason_to_u8 CA_Banned = 0x8a"
| "connack_reason_to_u8 CA_BadAuthMethod = 0x8c"
| "connack_reason_to_u8 CA_TopicNameInvalid = 0x90"
| "connack_reason_to_u8 CA_PacketTooLarge = 0x95"
| "connack_reason_to_u8 CA_MessageRateTooHigh = 0x96"
| "connack_reason_to_u8 CA_QuotaExceeded = 0x97"
| "connack_reason_to_u8 CA_PayloadFormatInvalid = 0x99"
| "connack_reason_to_u8 CA_RetainNotSupported = 0x9A"
| "connack_reason_to_u8 CA_QosNotSupported = 0x9b"
| "connack_reason_to_u8 CA_UseAnotherServer = 0x9c"
| "connack_reason_to_u8 CA_ServerMoved = 0x9d"
| "connack_reason_to_u8 CA_ConnectionRateExceeded = 0x9f"
| "connack_reason_to_u8 CA_Unknown = 0xFF"

definition connack_reason_variants :: "ConnAckReasonCode list" where
  "connack_reason_variants =
     [CA_Success, CA_UnspecifiedError, CA_MalformedPacket, CA_ProtocolError,
      CA_ImplementationError, CA_UnsupportedProtocol, CA_ClientIdentifierInvalid,
      CA_BadUsernameOrPassword, CA_NotAuthorized, CA_ServerUnavailable, CA_ServerBusy,
      CA_Banned, CA_BadAuthMethod, CA_TopicNameInvalid, CA_PacketTooLarge,
      CA_MessageRateTooHigh, CA_QuotaExceeded, CA_PayloadFormatInvalid, CA_RetainNotSupported,
      CA_QosNotSupported, CA_UseAnotherServer, CA_ServerMoved, CA_ConnectionRateExceeded,
      CA_Unknown]"

definition connack_reason_from :: "u8 \<Rightarrow> ConnAckReasonCode" where
  "connack_reason_from = from_primitive connack_reason_to_u8 connack_reason_variants CA_Unknown"

datatype PubAckReasonCode =
    PA_Success | PA_NoMatchingSubscribers | PA_UnspecifiedError | PA_ImplementationError |
    PA_NotAuthorized | PA_TopicNameInvalid | PA_PacketIdInUse | PA_QuotaExceeded |
    PA_PayloadFormatInvalid | PA_Unknown

fun puback_reason_to_u8 :: "PubAckReasonCode \<Rightarrow> u8" where
  "puback_reason_to_u8 PA_Success = 0x00"
| "puback_reason_to_u8 PA_NoMatchingSubscribers = 0x10"
| "puback_reason_to_u8 PA_UnspecifiedError = 0x80"
| "puback_reason_to_u8 PA_ImplementationError = 0x83"
| "puback_reason_to_u8 PA_NotAuthorized = 0x87"
| "puback_reason_to_u8 PA_TopicNameInvalid = 0x90"
| "puback_reason_to_u8 PA_PacketIdInUse = 0x91"
| "puback_reason_to_u8 PA_QuotaExceeded = 0x97"
| "puback_reason_to_u8 PA_PayloadFormatInvalid = 0x99"
| "puback_reason_to_u8 PA_Unknown = 0xFF"

definition puback_reason_variants :: "PubAckReasonCode list" where
  "puback_reason_variants =
     [PA_Success, PA_NoMatchingSubscribers, PA_UnspecifiedError, PA_ImplementationError,
      PA_NotAuthorized, PA_TopicNameInvalid, PA_PacketIdInUse, PA_QuotaExceeded,
      PA_PayloadFormatInvalid, PA_Unknown]"

definition puback_reason_from :: "u8 \<Rightarrow> PubAckReasonCode" where
  "puback_reason_from = from_primitive puback_reason_to_u8 puback_reason_variants PA_Unknown"

datatype PubRecReasonCode =
    PR_Success | PR_NoMatchingSubscribers | PR_UnspecifiedError | PR_ImplementationError |
    PR_NotAuthorized | PR_TopicNameInvalid | PR_PacketIdInUse | PR_QuotaExceeded |
    PR_PayloadFormatInvalid | PR_Unknown

fun pubrec_reason_to_u8 :: "PubRecReasonCode \<Rightarrow> u8" where
  "pubrec_reason_to_u8 PR_Success = 0x00"
| "pubrec_reason_to_u8 PR_NoMatchingSubscribers = 0x10"
| "pubrec_reason_to_u8 PR_UnspecifiedError = 0x80"
| "pubrec_reason_to_u8 PR_ImplementationError = 0x83"
| "pubrec_reason_to_u8 PR_NotAuthorized = 0x87"
| "pubrec_reason_to_u8 PR_TopicNameInvalid = 0x90"
| "pubrec_reason_to_u8 PR_PacketIdInUse = 0x91"
| "pubrec_reason_to_u8 PR_QuotaExceeded = 0x97"
| "pubrec_reason_to_u8 PR_PayloadFormatInvalid = 0x99"
| "pubrec_reason_to_u8 PR_Unknown = 0xFF"

definition pubrec_reason_variants :: "PubRecReasonCode list" where
  "pubrec_reason_variants =
     [PR_Success, PR_NoMatchingSubscribers, PR_UnspecifiedError, PR_ImplementationError,
      PR_NotAuthorized, PR_TopicNameInvalid, PR_PacketIdInUse, PR_QuotaExceeded,
      PR_PayloadFormatInvalid, PR_Unknown]"

definition pubrec_reason_from :: "u8 \<Rightarrow> PubRecReasonCode" where
  "pubrec_reason_from = from_primitive pubrec_reason_to_u8 pubrec_reason_variants PR_Unknown"

datatype PubRelReasonCode =
    PL_Success | PL_PacketIdNotFound | PL_Unknown

fun pubrel_reason_to_u8 :: "PubRelReasonCode \<Rightarrow> u8" where
  "pubrel_reason_to_u8 PL_Success = 0x00"
| "pubrel_reason_to_u8 PL_PacketIdNotFound = 0x92"
| "pubrel_reason_to_u8 PL_Unknown = 0xFF"

definition pubrel_reason_variants :: "PubRelReasonCode list" where
  "pubrel_reason_variants =
     [PL_Success, PL_PacketIdNotFound, PL_Unknown]"

definition pubrel_reason_from :: "u8 \<Rightarrow> PubRelReasonCode" where
  "pubrel_reason_from = from_primitive pubrel_reason_to_u8 pubrel_reason_variants PL_Unknown"

datatype PubCompReasonCode =
    PC_Success | PC_PacketIdNotFound | PC_Unknown

fun pubcomp_reason_to_u8 :: "PubCompReasonCode \<Rightarrow> u8" where
  "pubcomp_reason_to_u8 PC_Success = 0x00"
| "pubcomp_reason_to_u8 PC_PacketIdNotFound = 0x92"
| "pubcomp_reason_to_u8 PC_Unknown = 0xFF"

definition pubcomp_reason_variants :: "PubCompReasonCode list" where
  "pubcomp_reason_variants =
     [PC_Success, PC_PacketIdNotFound, PC_Unknown]"

definition pubcomp_reason_from :: "u8 \<Rightarrow> PubCompReasonCode" where
  "pubcomp_reason_from = from_primitive pubcomp_reason_to_u8 pubcomp_reason_variants PC_Unknown"

datatype SubAckReasonCode =
    SA_GrantedQoS0 | SA_GrantedQoS1 | SA_GrantedQoS2 | SA_UnspecifiedError |
    SA_ImplementationSpecificError | SA_NotAuthorized | SA_TopicFilterInvalid |
    SA_PacketIdentifierInUse | SA_QuotaExceeded | SA_SharedSubscriptionsNotSupported |
    SA_SubscriptionIdentifiersNotSupported | SA_WildcardSubscriptionsNotSupported | SA_Unknown

fun suback_reason_to_u8 :: "SubAckReasonCode \<Rightarrow> u8" where
  "suback_reason_to_u8 SA_GrantedQoS0 = 0x00"
| "suback_reason_to_u8 SA_GrantedQoS1 = 0x01"
| "suback_reason_to_u8 SA_GrantedQoS2 = 0x02"
| "suback_reason_to_u8 SA_UnspecifiedError = 0x80"
| "suback_reason_to_u8 SA_ImplementationSpecificError = 0x83"
| "suback_reason_to_u8 SA_NotAuthorized = 0x87"
| "suback_reason_to_u8 SA_TopicFilterInvalid = 0x8F"
| "suback_reason_to_u8 SA_PacketIdentifierInUse = 0x91"
| "suback_reason_to_u8 SA_QuotaExceeded = 0x97"
| "suback_reason_to_u8 SA_SharedSubscriptionsNotSupported = 0x9E"
| "suback_reason_to_u8 SA_SubscriptionIdentifiersNotSupported = 0xA1"
| "suback_reason_to_u8 SA_WildcardSubscriptionsNotSupported = 0xA2"
| "suback_reason_to_u8 SA_Unknown = 0xFF"

definition suback_reason_variants :: "SubAckReasonCode list" where
  "suback_reason_variants =
     [SA_GrantedQoS0, SA_GrantedQoS1, SA_GrantedQoS2, SA_UnspecifiedError,
      SA_ImplementationSpecificError, SA_NotAuthorized, SA_TopicFilterInvalid,
      SA_PacketIdentifierInUse, SA_QuotaExceeded, SA_SharedSubscriptionsNotSupported,
      SA_SubscriptionIdentifiersNotSupported, SA_WildcardSubscriptionsNotSupported, SA_Unknown]"

definition suback_reason_from :: "u8 \<Rightarrow> SubAckReasonCode" where
  "suback_reason_from = from_primitive suback_reason_to_u8 suback_reason_variants SA_Unknown"

datatype UnsubAckReasonCode =
    UA_Success | UA_NoSubscriptionExisted | UA_UnspecifiedError |
    UA_ImplementationSpecificError | UA_NotAuthorized | UA_TopicFilterInvalid |
    UA_PacketIdentifierInUse | UA_Unknown

fun unsuback_reason_to_u8 :: "UnsubAckReasonCode \<Rightarrow> u8" where
  "unsuback_reason_to_u8 UA_Success = 0x00"
| "unsuback_reason_to_u8 UA_NoSubscriptionExisted = 0x11"
| "unsuback_reason_to_u8 UA_UnspecifiedError = 0x80"
| "unsuback_reason_to_u8 UA_ImplementationSpecificError = 0x83"
| "unsuback_reason_to_u8 UA_NotAuthorized = 0x87"
| "unsuback_reason_to_u8 UA_TopicFilterInvalid = 0x8F"
| "unsuback_reason_to_u8 UA_PacketIdentifierInUse = 0x91"
| "unsuback_reason_to_u8 UA_Unknown = 0xFF"

definition unsuback_reason_variants :: "UnsubAckReasonCode list" where
  "unsuback_reason_variants =
     [UA_Success, UA_NoSubscriptionExisted, UA_UnspecifiedError,
      UA_ImplementationSpecificError, UA_NotAuthorized, UA_TopicFilterInvalid,
      UA_PacketIdentifierInUse, UA_Unknown]"

definition unsuback_reason_from :: "u8 \<Rightarrow> UnsubAckReasonCode" where
  "unsuback_reason_from = from_primitive unsuback_reason_to_u8 unsuback_reason_variants UA_Unknown"

datatype DisconnectReasonCode =
    DR_Normal | DR_DisconnectWithWillMessage | DR_UnspecifiedError | DR_MalformedPacket |
    DR_ProtocolError | DR_ImplementationSpecificError | DR_NotAuthorized | DR_ServerBusy |
    DR_ServerShuttingDown | DR_KeepAliveTimeout | DR_SessionTakenOver | DR_TopicFilterInvalid |
    DR_TopicNameInvalid | DR_ReceiveMaximumExceeded | DR_TopicAliasInvalid |
    DR_PacketTooLarge | DR_MessageRateTooHigh | DR_QuotaExceeded | DR_AdministrativeAction |
    DR_PayloadFormatInvalid | DR_RetainNotSupported | DR_QoSNotSupported |
    DR_UseAnotherServer | DR_ServerMoved | DR_SharedSubscriptionsNotSupported |
    DR_ConnectionRateExceeded | DR_MaximumConnectTime |
    DR_SubscriptionIdentifiersNotSupported | DR_WildcardSubscriptionsNotSupported

fun disconnect_reason_to_u8 :: "DisconnectReasonCode \<Rightarrow> u8" where
  "disconnect_reason_to_u8 DR_Normal = 0x00"
| "disconnect_reason_to_u8 DR_DisconnectWithWillMessage = 0x04"
| "disconnect_reason_to_u8 DR_UnspecifiedError = 0x80"
| "disconnect_reason_to_u8 DR_MalformedPacket = 0x81"
| "disconnect_reason_to_u8 DR_ProtocolError = 0x82"
| "disconnect_reason_to_u8 DR_ImplementationSpecificError = 0x83"
| "disconnect_reason_to_u8 DR_NotAuthorized = 0x87"
| "disconnect_reason_to_u8 DR_ServerBusy = 0x89"
| "disconnect_reason_to_u8 DR_ServerShuttingDown = 0x8B"
| "disconnect_reason_to_u8 DR_KeepAliveTimeout = 0x8D"
| "disconnect_reason_to_u8 DR_SessionTakenOver = 0x8E"
| "disconnect_reason_to_u8 DR_TopicFilterInvalid = 0x8F"
| "disconnect_reason_to_u8 DR_TopicNameInvalid = 0x90"
| "disconnect_reason_to_u8 DR_ReceiveMaximumExceeded = 0x93"
| "disconnect_reason_to_u8 DR_TopicAliasInvalid = 0x94"
| "disconnect_reason_to_u8 DR_PacketTooLarge = 0x95"
| "disconnect_reason_to_u8 DR_MessageRateTooHigh = 0x96"
| "disconnect_reason_to_u8 DR_QuotaExceeded = 0x97"
| "disconnect_reason_to_u8 DR_AdministrativeAction = 0x98"
| "disconnect_reason_to_u8 DR_PayloadFormatInvalid = 0x99"
| "disconnect_reason_to_u8 DR_RetainNotSupported = 0x9A"
| "disconnect_reason_to_u8 DR_QoSNotSupported = 0x9B"
| "disconnect_reason_to_u8 DR_UseAnotherServer = 0x9C"
| "disconnect_reason_to_u8 DR_ServerMoved = 0x9D"
| "disconnect_reason_to_u8 DR_SharedSubscriptionsNotSupported = 0x9E"
| "disconnect_reason_to_u8 DR_ConnectionRateExceeded = 0x9F"
| "disconnect_reason_to_u8 DR_MaximumConnectTime = 0xA0"
| "disconnect_reason_to_u8 DR_SubscriptionIdentifiersNotSupported = 0xA1"
| "disconnect_reason_to_u8 DR_WildcardSubscriptionsNotSupported = 0xA2"

definition disconnect_reason_variants :: "DisconnectReasonCode list" where
  "disconnect_reason_variants =
     [DR_Normal, DR_DisconnectWithWillMessage, DR_UnspecifiedError, DR_MalformedPacket,
      DR_ProtocolError, DR_ImplementationSpecificError, DR_NotAuthorized, DR_ServerBusy,
      DR_ServerShuttingDown, DR_KeepAliveTimeout, DR_SessionTakenOver, DR_TopicFilterInvalid,
      DR_TopicNameInvalid, DR_ReceiveMaximumExceeded, DR_TopicAliasInvalid, DR_PacketTooLarge,
      DR_MessageRateTooHigh, DR_QuotaExceeded, DR_AdministrativeAction,
      DR_PayloadFormatInvalid, DR_RetainNotSupported, DR_QoSNotSupported, DR_UseAnotherServer,
      DR_ServerMoved, DR_SharedSubscriptionsNotSupported, DR_ConnectionRateExceeded,
      DR_MaximumConnectTime, DR_SubscriptionIdentifiersNotSupported,
      DR_WildcardSubscriptionsNotSupported]"

definition disconnect_reason_from :: "u8 \<Rightarrow> DisconnectReasonCode" where
  "disconnect_reason_from = from_primitive disconnect_reason_to_u8 disconnect_reason_variants DR_Normal"

section \<open>Success codes\<close>

definition connack_reason_success :: "ConnAckReasonCode \<Rightarrow> bool" where
  "connack_reason_success c \<longleftrightarrow> connack_reason_to_u8 c < 0x80"

definition suback_reason_success :: "SubAckReasonCode \<Rightarrow> bool" where
  "suback_reason_success c \<longleftrightarrow> suback_reason_to_u8 c < 0x80"

definition unsuback_reason_success :: "UnsubAckReasonCode \<Rightarrow> bool" where
  "unsuback_reason_success c \<longleftrightarrow> unsuback_reason_to_u8 c < 0x80"

section \<open>The conversions keep their promise\<close>

interpretation connack_rc: num_enum connack_reason_to_u8 connack_reason_variants CA_Unknown connack_reason_from
  by unfold_locales (rule ConnAckReasonCode.exhaust, auto simp: connack_reason_variants_def connack_reason_from_def)

interpretation puback_rc: num_enum puback_reason_to_u8 puback_reason_variants PA_Unknown puback_reason_from
  by unfold_locales (rule PubAckReasonCode.exhaust, auto simp: puback_reason_variants_def puback_reason_from_def)

interpretation pubrec_rc: num_enum pubrec_reason_to_u8 pubrec_reason_variants PR_Unknown pubrec_reason_from
  by unfold_locales (rule PubRecReasonCode.exhaust, auto simp: pubrec_reason_variants_def pubrec_reason_from_def)

interpretation pubrel_rc: num_enum pubrel_reason_to_u8 pubrel_reason_variants PL_Unknown pubrel_reason_from
  by unfold_locales (rule PubRelReasonCode.exhaust, auto simp: pubrel_reason_variants_def pubrel_reason_from_def)

interpretation pubcomp_rc: num_enum pubcomp_reason_to_u8 pubcomp_reason_variants PC_Unknown pubcomp_reason_from
  by unfold_locales (rule PubCompReasonCode.exhaust, auto simp: pubcomp_reason_variants_def pubcomp_reason_from_def)

interpretation suback_rc: num_enum suback_reason_to_u8 suback_reason_variants SA_Unknown suback_reason_from
  by unfold_locales (rule SubAckReasonCode.exhaust, auto simp: suback_reason_variants_def suback_reason_from_def)

interpretation unsuback_rc: num_enum unsuback_reason_to_u8 unsuback_reason_variants UA_Unknown unsuback_reason_from
  by unfold_locales (rule UnsubAckReasonCode.exhaust, auto simp: unsuback_reason_variants_def unsuback_reason_from_def)

interpretation disconnect_rc: num_enum disconnect_reason_to_u8 disconnect_reason_variants DR_Normal disconnect_reason_from
  by unfold_locales (rule DisconnectReasonCode.exhaust, auto simp: disconnect_reason_variants_def disconnect_reason_from_def)

end
