(* ===== verification/Packet_Codec.thy ===== *)
theory Packet_Codec
  imports Properties Reason_Codes
begin

text \<open>
  The traits \<open>FixedHeader\<close>, \<open>MqttEncode\<close> and \<open>MqttDecode\<close> (\<open>src/encoding/mod.rs\<close>, \<open>encoder.rs\<close>,
  \<open>decoder.rs\<close>) as locales.  \<open>packet_encoder\<close> is the contract of \<open>to_buffer\<close>: it writes the packet's
  body and then finalizes the fixed header, so that it succeeds exactly when header and body fit.
  \<open>packet_codec\<close> adds the contract of \<open>from_decoder\<close> and derives the round trip once for all packets.
\<close>

section \<open>Defaults of the traits\<close>

definition default_flags :: u8 where
  "default_flags = 0"

definition packet_type_byte :: "PacketType \<Rightarrow> u8" where
  "packet_type_byte t = packet_type_to_u8 t"

section \<open>Composition rules for conditional writes\<close>

lemma writes_if [writes_intros]:
  "(b \<Longrightarrow> writes f as) \<Longrightarrow> (\<not> b \<Longrightarrow> writes g bs) \<Longrightarrow>
   writes (\<lambda>e. if b then f e else g e) (if b then as else bs)"
  by simp

lemma writes_lift:
  "r = Ok x \<Longrightarrow> writes (g x) bs \<Longrightarrow> writes (\<lambda>e. rbind r (\<lambda>x. g x e)) bs"
  by simp

lemma writes_case_option [writes_intros]:
  "(x = None \<Longrightarrow> writes f as) \<Longrightarrow> (\<And>y. x = Some y \<Longrightarrow> writes (g y) (h y)) \<Longrightarrow>
   writes (\<lambda>e. case x of None \<Rightarrow> f e | Some y \<Rightarrow> g y e) (case x of None \<Rightarrow> as | Some y \<Rightarrow> h y)"
  by (cases x) simp_all

text \<open>A \<open>for\<close> loop that writes every element of a slice.\<close>

fun write_each :: "('a \<Rightarrow> enc_op) \<Rightarrow> 'a list \<Rightarrow> enc_op" where
  "write_each f [] e = Ok e"
| "write_each f (x # xs) e = rbind (f x e) (write_each f xs)"

lemma writes_each [writes_intros]:
  "(\<And>x. x \<in> set xs \<Longrightarrow> writes (f x) (h x)) \<Longrightarrow> writes (write_each f xs) (concat (map h xs))"
proof (induction xs)
  case Nil
  then show ?case by (auto simp: writes_def wf_enc_def)
next
  case (Cons x xs)
  then have "writes (\<lambda>e. rbind (f x e) (write_each f xs)) (h x @ concat (map h xs))"
    by (intro writes_bind) auto
  then show ?case by (simp add: writes_def)
qed

section \<open>Encodable packets\<close>

lemma wf_enc_new: "MAX_MQTT_HEADER_LEN \<le> length buf \<Longrightarrow> length buf < 2 ^ 32 \<Longrightarrow> wf_enc (encoder_new buf)"
  by (simp add: wf_enc_def encoder_new_def)

lemma encoder_new_sel [simp]:
  "enc_offset (encoder_new buf) = MAX_MQTT_HEADER_LEN" "enc_buf (encoder_new buf) = buf"
  "enc_header_start (encoder_new buf) = MAX_MQTT_HEADER_LEN"
  by (simp_all add: encoder_new_def)

locale packet_encoder =
  fixes to_buffer :: "'p \<Rightarrow> enc_op"
    and ok :: "'p \<Rightarrow> bool"
    and body :: "'p \<Rightarrow> bytes"
    and ptype :: PacketType
    and flags :: "'p \<Rightarrow> u8"
  assumes to_buffer_writes:
    "ok p \<Longrightarrow> \<exists>w. writes w (body p) \<and>
       to_buffer p = (\<lambda>e. rbind (w e) (finalize_fixed_header (packet_type_byte ptype) (flags p)))"
begin

lemma to_buffer_fits:
  assumes "ok p" and "MAX_MQTT_HEADER_LEN + length (body p) \<le> length buf" and "length buf < 2 ^ 32"
    and "length (body p) < 268435456"
  shows "\<exists>e. to_buffer p (encoder_new buf) = Ok e \<and>
    packet_bytes e = Ok (fixed_header_bytes (packet_type_byte ptype) (flags p) (length (body p)) @ body p) \<and>
    used_size e \<le> length buf \<and> enc_header_start e = 0 \<and> length (enc_buf e) = length buf \<and>
    take (used_size e) (enc_buf e) =
      fixed_header_bytes (packet_type_byte ptype) (flags p) (length (body p)) @ body p"
proof -
  obtain w where w: "writes w (body p)"
    and tb: "to_buffer p = (\<lambda>e. rbind (w e) (finalize_fixed_header (packet_type_byte ptype) (flags p)))"
    using to_buffer_writes [OF assms(1)] by blast
  have "w (encoder_new buf) = Ok (put (body p) (encoder_new buf))"
    using assms(2,3) by (intro writesD [OF w] wf_enc_new) simp_all
  with tb finalize_after_body [OF assms(2-4), of "packet_type_byte ptype" "flags p"]
    length_fixed_header_bytes(2) [of "packet_type_byte ptype" "flags p" "length (body p)"] assms(2)
  show ?thesis by (auto simp: MAX_MQTT_HEADER_LEN_def)
qed

lemma to_buffer_Ok_fits:
  assumes "ok p" and "to_buffer p (encoder_new buf) = Ok e"
    and "MAX_MQTT_HEADER_LEN \<le> length buf" and "length buf < 2 ^ 32"
  shows "MAX_MQTT_HEADER_LEN + length (body p) \<le> length buf"
proof -
  obtain w where w: "writes w (body p)"
    and tb: "to_buffer p = (\<lambda>e. rbind (w e) (finalize_fixed_header (packet_type_byte ptype) (flags p)))"
    using to_buffer_writes [OF assms(1)] by blast
  from assms(2) tb have "is_ok (w (encoder_new buf))" by (auto simp: rbind_Ok_iff)
  with writes_not_Ok [OF w wf_enc_new [OF assms(3,4)]] show ?thesis
    by (simp add: linorder_not_less [symmetric]) blast
qed

end

section \<open>Packets that are also decoded\<close>

locale packet_codec = packet_encoder to_buffer ok body ptype flags
  for to_buffer :: "'p \<Rightarrow> enc_op" and ok body ptype and flags :: "'p \<Rightarrow> u8" +
  fixes from_decoder :: "'p dec_op" and view :: "'p \<Rightarrow> 'p"
  assumes flags_zero: "flags p = 0"
    and from_decoder_body:
      "ok p \<Longrightarrow> length (body p) < 268435456 \<Longrightarrow> dec_buf d = pre @ body p \<Longrightarrow> dec_offset d = length pre \<Longrightarrow>
       packet_len d = length pre + length (body p) \<Longrightarrow>
       fh_remaining_len (dec_fixed_header d) = length (body p) \<Longrightarrow>
       \<exists>d'. from_decoder d = Ok (view p, d')"
begin

lemma ptype_header:
  "packet_type_try_from ((packet_type_byte ptype OR 0) AND 0xF0) = Some ptype"
  "qos_try_from (drop_bit 1 ((packet_type_byte ptype OR 0) AND 0x06)) = Some AtMostOnce"
  by (cases ptype; simp add: packet_type_byte_def packet_type_try_from_def all_packet_types_def qos_try_from_def)+

lemma decode_encoded:
  assumes "ok p" and "length (body p) < 268435456"
  defines "bs \<equiv> fixed_header_bytes (packet_type_byte ptype) (flags p) (length (body p)) @ body p"
  shows "\<exists>d d'. decoder_try_new bs = Ok d \<and> fh_typ (dec_fixed_header d) = ptype \<and>
    packet_len d = length bs \<and> from_decoder d = Ok (view p, d')"
proof -
  let ?h = "fixed_header_bytes (packet_type_byte ptype) 0 (length (body p))"
  let ?d = "decoder_at (?h @ body p) (length ?h) (header_of (packet_type_byte ptype OR 0) ptype AtMostOnce (length (body p)))"
  have "decoder_try_new bs = Ok ?d"
    unfolding bs_def flags_zero by (rule decoder_try_new_header [OF assms(2) ptype_header])
  moreover have "\<exists>d'. from_decoder ?d = Ok (view p, d')"
    by (rule from_decoder_body [OF assms(1,2)]) (simp_all add: packet_len_def header_of_def)
  ultimately show ?thesis
    by (auto simp: packet_len_def header_of_def bs_def flags_zero)
qed

lemma roundtrip:
  assumes "ok p" and "to_buffer p (encoder_new buf) = Ok e"
    and "MAX_MQTT_HEADER_LEN \<le> length buf" and "length buf < 2 ^ 32" and "length (body p) < 268435456"
  shows "\<exists>bs d d'. packet_bytes e = Ok bs \<and> decoder_try_new bs = Ok d \<and>
    fh_typ (dec_fixed_header d) = ptype \<and> from_decoder d = Ok (view p, d')"
proof -
  from to_buffer_fits [OF assms(1) to_buffer_Ok_fits [OF assms(1-4)] assms(4,5)] assms(2)
  have "packet_bytes e = Ok (fixed_header_bytes (packet_type_byte ptype) (flags p) (length (body p)) @ body p)"
    by auto
  with decode_encoded [OF assms(1,5)] show ?thesis by blast
qed

end

end
