(* ===== verification/Packets_Acks.thy ===== *)
theory Packets_Acks
  imports Packet_Codec
begin

text \<open>
  The packets a broker answers with and the client decodes, each also encodable:
  \<open>connack.rs\<close>, \<open>disconnect.rs\<close>, \<open>pingreq.rs\<close>, \<open>pingresp.rs\<close>, \<open>puback.rs\<close>, \<open>pubrec.rs\<close>, \<open>pubrel.rs\<close>,
  \<open>pubcomp.rs\<close>, \<open>suback.rs\<close> and \<open>unsuback.rs\<close> of \<open>src/encoding/packets\<close>.  Each packet type is a
  record; \<open>X_to_buffer\<close>, \<open>X_max_packet_size\<close> and \<open>X_from_decoder\<close> are its trait methods.

  Decoding never interprets properties: it returns the undecoded block, so the decoded packet is the
  encoded one with its properties in wire form (\<open>X_view\<close>).
\<close>

section \<open>CONNACK\<close>

record ConnAck =
  ca_session_present :: bool
  ca_reason_code :: ConnAckReasonCode
  ca_properties :: Properties

definition connack_to_buffer :: "ConnAck \<Rightarrow> enc_op" where
  "connack_to_buffer p e =
     rbind (write_u8 (if ca_session_present p then 1 else 0) e) (\<lambda>e.
     rbind (write_u8 (connack_reason_to_u8 (ca_reason_code p)) e) (\<lambda>e.
     rbind (write_properties (ca_properties p) e) (\<lambda>e.
     finalize_fixed_header (packet_type_byte PT_ConnAck) default_flags e)))"

definition connack_max_packet_size :: "ConnAck \<Rightarrow> (EncodingError, nat) result" where
  "connack_max_packet_size p =
     rbind (properties_size (ca_properties p)) (\<lambda>sz.
     rbind (varint_len sz) (\<lambda>n. Ok (2 + MAX_MQTT_HEADER_LEN + n)))"

definition connack_from_decoder :: "ConnAck dec_op" where
  "connack_from_decoder d =
     rbind (read_u8 d) (\<lambda>(conn_ack_flags, d).
     if conn_ack_flags AND 0xFE \<noteq> 0 then Err MalformedPacket
     else
       rbind (read_u8 d) (\<lambda>(code, d).
       rbind (read_properties d) (\<lambda>(props, d).
       Ok (\<lparr>ca_session_present = (conn_ack_flags AND 1 = 1),
            ca_reason_code = connack_reason_from code, ca_properties = props\<rparr>, d))))"

section \<open>DISCONNECT\<close>

record Disconnect =
  dc_reason_code :: DisconnectReasonCode
  dc_properties :: Properties

definition disconnect_default :: Disconnect where
  "disconnect_default = \<lparr>dc_reason_code = DR_Normal, dc_properties = Slice []\<rparr>"

definition disconnect_to_buffer :: "Disconnect \<Rightarrow> enc_op" where
  "disconnect_to_buffer p e =
     rbind (if dc_reason_code p \<noteq> DR_Normal
            then write_u8 (disconnect_reason_to_u8 (dc_reason_code p)) e else Ok e) (\<lambda>e.
     rbind (properties_size (dc_properties p)) (\<lambda>sz.
     rbind (if sz \<noteq> 0 \<and> dc_reason_code p = DR_Normal
            then write_u8 (disconnect_reason_to_u8 (dc_reason_code p)) e else Ok e) (\<lambda>e.
     rbind (write_properties (dc_properties p) e) (\<lambda>e.
     finalize_fixed_header (packet_type_byte PT_Disconnect) default_flags e))))"

definition disconnect_max_packet_size :: "Disconnect \<Rightarrow> (EncodingError, nat) result" where
  "disconnect_max_packet_size p =
     rbind (properties_size (dc_properties p)) (\<lambda>sz.
     rbind (varint_len sz) (\<lambda>n.
     Ok ((if dc_reason_code p \<noteq> DR_Normal then 1 else 0)
         + (if sz \<noteq> 0 \<and> dc_reason_code p = DR_Normal then 1 else 0) + n + sz + MAX_MQTT_HEADER_LEN)))"

definition disconnect_from_decoder :: "Disconnect dec_op" where
  "disconnect_from_decoder d =
     (if fh_remaining_len (dec_fixed_header d) < 2 then Ok (disconnect_default, d)
      else
        rbind (read_u8 d) (\<lambda>(code, d).
        rbind (read_properties d) (\<lambda>(props, d).
        Ok (\<lparr>dc_reason_code = disconnect_reason_from code, dc_properties = props\<rparr>, d))))"

section \<open>PINGREQ and PINGRESP\<close>

datatype PingReq = PingReq

definition pingreq_to_buffer :: "PingReq \<Rightarrow> enc_op" where
  "pingreq_to_buffer p e = finalize_fixed_header (packet_type_byte PT_PingReq) default_flags e"

definition pingreq_max_packet_size :: "PingReq \<Rightarrow> (EncodingError, nat) result" where
  "pingreq_max_packet_size p = Ok MAX_MQTT_HEADER_LEN"

definition pingreq_from_decoder :: "PingReq dec_op" where
  "pingreq_from_decoder d = Ok (PingReq, d)"

datatype PingResp = PingResp

definition pingresp_to_buffer :: "PingResp \<Rightarrow> enc_op" where
  "pingresp_to_buffer p e = finalize_fixed_header (packet_type_byte PT_PingResp) default_flags e"

definition pingresp_max_packet_size :: "PingResp \<Rightarrow> (EncodingError, nat) result" where
  "pingresp_max_packet_size p = Ok MAX_MQTT_HEADER_LEN"

definition pingresp_from_decoder :: "PingResp dec_op" where
  "pingresp_from_decoder d = Ok (PingResp, d)"

section \<open>PUBACK, PUBREC, PUBREL and PUBCOMP\<close>

text \<open>The condition \<open>reason_code != Success || properties.size() != 0\<close>.\<close>

definition has_reason :: "bool \<Rightarrow> Properties \<Rightarrow> ('e, bool) result" where
  "has_reason failed props =
     (if failed then Ok True else map_ok (\<lambda>sz. sz \<noteq> 0) (properties_size props))"

record PubAck =
  pa_pid :: Pid
  pa_reason_code :: PubAckReasonCode
  pa_properties :: Properties

definition puback_to_buffer :: "PubAck \<Rightarrow> enc_op" where
  "puback_to_buffer p e =
     rbind (write_u16 (pid_get (pa_pid p)) e) (\<lambda>e.
     rbind (has_reason (pa_reason_code p \<noteq> PA_Success) (pa_properties p)) (\<lambda>b.
     rbind (if b then rbind (write_u8 (puback_reason_to_u8 (pa_reason_code p)) e) (write_properties (pa_properties p))
            else Ok e) (\<lambda>e.
     finalize_fixed_header (packet_type_byte PT_PubAck) default_flags e)))"

definition puback_max_packet_size :: "PubAck \<Rightarrow> (EncodingError, nat) result" where
  "puback_max_packet_size p =
     rbind (has_reason (pa_reason_code p \<noteq> PA_Success) (pa_properties p)) (\<lambda>b.
     if b then
       rbind (properties_size (pa_properties p)) (\<lambda>sz.
       rbind (varint_len sz) (\<lambda>n. Ok (2 + MAX_MQTT_HEADER_LEN + 1 + n)))
     else Ok (2 + MAX_MQTT_HEADER_LEN))"

definition puback_from_decoder :: "PubAck dec_op" where
  "puback_from_decoder d =
     (if fh_remaining_len (dec_fixed_header d) = 2 \<or> fh_remaining_len (dec_fixed_header d) = 3 then
        rbind (read_u16 d) (\<lambda>(n, d).
        rbind (pid_try_from n) (\<lambda>pid.
        Ok (\<lparr>pa_pid = pid, pa_reason_code = PA_Success, pa_properties = DataBlock []\<rparr>, d)))
      else
        rbind (read_u16 d) (\<lambda>(n, d).
        rbind (pid_try_from n) (\<lambda>pid.
        rbind (read_u8 d) (\<lambda>(code, d).
        rbind (read_properties d) (\<lambda>(props, d).
        Ok (\<lparr>pa_pid = pid, pa_reason_code = puback_reason_from code, pa_properties = props\<rparr>, d))))))"

record PubRec =
  pr_pid :: Pid
  pr_reason_code :: PubRecReasonCode
  pr_properties :: Properties

definition pubrec_to_buffer :: "PubRec \<Rightarrow> enc_op" where
  "pubrec_to_buffer p e =
     rbind (write_u16 (pid_get (pr_pid p)) e) (\<lambda>e.
     rbind (has_reason (pr_reason_code p \<noteq> PR_Success) (pr_properties p)) (\<lambda>b.
     rbind (if b then rbind (write_u8 (pubrec_reason_to_u8 (pr_reason_code p)) e) (write_properties (pr_properties p))
            else Ok e) (\<lambda>e.
     finalize_fixed_header (packet_type_byte PT_PubRec) default_flags e)))"

definition pubrec_max_packet_size :: "PubRec \<Rightarrow> (EncodingError, nat) result" where
  "pubrec_max_packet_size p =
     rbind (has_reason (pr_reason_code p \<noteq> PR_Success) (pr_properties p)) (\<lambda>b.
     if b then
       rbind (properties_size (pr_properties p)) (\<lambda>sz.
       rbind (varint_len sz) (\<lambda>n. Ok (2 + MAX_MQTT_HEADER_LEN + 1 + n)))
     else Ok (2 + MAX_MQTT_HEADER_LEN))"

definition pubrec_from_decoder :: "PubRec dec_op" where
  "pubrec_from_decoder d =
     (if fh_remaining_len (dec_fixed_header d) = 2 \<or> fh_remaining_len (dec_fixed_header d) = 3 then
        rbind (read_u16 d) (\<lambda>(n, d).
        rbind (pid_try_from n) (\<lambda>pid.
        Ok (\<lparr>pr_pid = pid, pr_reason_code = PR_Success, pr_properties = DataBlock []\<rparr>, d)))
      else
        rbind (read_u16 d) (\<lambda>(n, d).
        rbind (pid_try_from n) (\<lambda>pid.
        rbind (read_u8 d) (\<lambda>(code, d).
        rbind (read_properties d) (\<lambda>(props, d).
        Ok (\<lparr>pr_pid = pid, pr_reason_code = pubrec_reason_from code, pr_properties = props\<rparr>, d))))))"

record PubRel =
  pl_pid :: Pid
  pl_reason_code :: PubRelReasonCode
  pl_properties :: Properties

definition pubrel_to_buffer :: "PubRel \<Rightarrow> enc_op" where
  "pubrel_to_buffer p e =
     rbind (write_u16 (pid_get (pl_pid p)) e) (\<lambda>e.
     rbind (has_reason (pl_reason_code p \<noteq> PL_Success) (pl_properties p)) (\<lambda>b.
     rbind (if b then rbind (write_u8 (pubrel_reason_to_u8 (pl_reason_code p)) e) (write_properties (pl_properties p))
            else Ok e) (\<lambda>e.
     finalize_fixed_header (packet_type_byte PT_PubRel) default_flags e)))"

definition pubrel_max_packet_size :: "PubRel \<Rightarrow> (EncodingError, nat) result" where
  "pubrel_max_packet_size p =
     rbind (has_reason (pl_reason_code p \<noteq> PL_Success) (pl_properties p)) (\<lambda>b.
     if b then
       rbind (properties_size (pl_properties p)) (\<lambda>sz.
       rbind (varint_len sz) (\<lambda>n. Ok (2 + MAX_MQTT_HEADER_LEN + 1 + n)))
     else Ok (2 + MAX_MQTT_HEADER_LEN))"

definition pubrel_from_decoder :: "PubRel dec_op" where
  "pubrel_from_decoder d =
     (if fh_remaining_len (dec_fixed_header d) = 2 \<or> fh_remaining_len (dec_fixed_header d) = 3 then
        rbind (read_u16 d) (\<lambda>(n, d).
        rbind (pid_try_from n) (\<lambda>pid.
        Ok (\<lparr>pl_pid = pid, pl_reason_code = PL_Success, pl_properties = DataBlock []\<rparr>, d)))
      else
        rbind (read_u16 d) (\<lambda>(n, d).
        rbind (pid_try_from n) (\<lambda>pid.
        rbind (read_u8 d) (\<lambda>(code, d).
        rbind (read_properties d) (\<lambda>(props, d).
        Ok (\<lparr>pl_pid = pid, pl_reason_code = pubrel_reason_from code, pl_properties = props\<rparr>, d))))))"

record PubComp =
  pc_pid :: Pid
  pc_reason_code :: PubCompReasonCode
  pc_properties :: Properties

definition pubcomp_to_buffer :: "PubComp \<Rightarrow> enc_op" where
  "pubcomp_to_buffer p e =
     rbind (write_u16 (pid_get (pc_pid p)) e) (\<lambda>e.
     rbind (has_reason (pc_reason_code p \<noteq> PC_Success) (pc_properties p)) (\<lambda>b.
     rbind (if b then rbind (write_u8 (pubcomp_reason_to_u8 (pc_reason_code p)) e) (write_properties (pc_properties p))
            else Ok e) (\<lambda>e.
     finalize_fixed_header (packet_type_byte PT_PubComp) default_flags e)))"

definition pubcomp_max_packet_size :: "PubComp \<Rightarrow> (EncodingError, nat) result" where
  "pubcomp_max_packet_size p =
     rbind (has_reason (pc_reason_code p \<noteq> PC_Success) (pc_properties p)) (\<lambda>b.
     if b then
       rbind (properties_size (pc_properties p)) (\<lambda>sz.
       rbind (varint_len sz) (\<lambda>n. Ok (2 + MAX_MQTT_HEADER_LEN + 1 + n)))
     else Ok (2 + MAX_MQTT_HEADER_LEN))"

definition pubcomp_from_decoder :: "PubComp dec_op" where
  "pubcomp_from_decoder d =
     (if fh_remaining_len (dec_fixed_header d) = 2 \<or> fh_remaining_len (dec_fixed_header d) = 3 then
        rbind (read_u16 d) (\<lambda>(n, d).
        rbind (pid_try_from n) (\<lambda>pid.
        Ok (\<lparr>pc_pid = pid, pc_reason_code = PC_Success, pc_properties = DataBlock []\<rparr>, d)))
      else
        rbind (read_u16 d) (\<lambda>(n, d).
        rbind (pid_try_from n) (\<lambda>pid.
        rbind (read_u8 d) (\<lambda>(code, d).
        rbind (read_properties d) (\<lambda>(props, d).
        Ok (\<lparr>pc_pid = pid, pc_reason_code = pubcomp_reason_from code, pc_properties = props\<rparr>, d))))))"

section \<open>SUBACK and UNSUBACK\<close>

text \<open>\<open>crate_config::MAX_SUB_TOPICS_PER_MSG\<close> at its default value.\<close>

definition MAX_SUB_TOPICS_PER_MSG :: nat where
  "MAX_SUB_TOPICS_PER_MSG = 8"

text \<open>Collecting an iterator into a \<open>heapless::Vec\<close> panics when the vector overflows.\<close>

definition collect_vec :: "nat \<Rightarrow> 'a list \<Rightarrow> ('e, 'a list) result" where
  "collect_vec cap xs = (if length xs \<le> cap then Ok xs else Panic)"

record SubAck =
  sa_pid :: Pid
  sa_properties :: Properties
  sa_codes :: "SubAckReasonCode list"

definition suback_to_buffer :: "SubAck \<Rightarrow> enc_op" where
  "suback_to_buffer p e =
     rbind (write_u16 (pid_get (sa_pid p)) e) (\<lambda>e.
     rbind (write_properties (sa_properties p) e) (\<lambda>e.
     rbind (write_each (\<lambda>code. write_u8 (suback_reason_to_u8 code)) (sa_codes p) e) (\<lambda>e.
     finalize_fixed_header (packet_type_byte PT_SubAck) default_flags e)))"

definition suback_max_packet_size :: "SubAck \<Rightarrow> (EncodingError, nat) result" where
  "suback_max_packet_size p =
     rbind (properties_size (sa_properties p)) (\<lambda>sz.
     rbind (varint_len sz) (\<lambda>n. Ok (2 + MAX_MQTT_HEADER_LEN + n + length (sa_codes p))))"

definition suback_from_decoder :: "SubAck dec_op" where
  "suback_from_decoder d =
     rbind (read_u16 d) (\<lambda>(n, d).
     rbind (pid_try_from n) (\<lambda>pid.
     rbind (read_properties d) (\<lambda>(props, d).
     rbind (read_payload d) (\<lambda>(payload, d).
     rbind (collect_vec MAX_SUB_TOPICS_PER_MSG (map suback_reason_from payload)) (\<lambda>codes.
     Ok (\<lparr>sa_pid = pid, sa_properties = props, sa_codes = codes\<rparr>, d))))))"

record UnsubAck =
  ua_pid :: Pid
  ua_properties :: Properties
  ua_codes :: "UnsubAckReasonCode list"

definition unsuback_to_buffer :: "UnsubAck \<Rightarrow> enc_op" where
  "unsuback_to_buffer p e =
     rbind (write_u16 (pid_get (ua_pid p)) e) (\<lambda>e.
     rbind (write_properties (ua_properties p) e) (\<lambda>e.
     rbind (write_each (\<lambda>code. write_u8 (unsuback_reason_to_u8 code)) (ua_codes p) e) (\<lambda>e.
     finalize_fixed_header (packet_type_byte PT_UnsubAck) default_flags e)))"

definition unsuback_max_packet_size :: "UnsubAck \<Rightarrow> (EncodingError, nat) result" where
  "unsuback_max_packet_size p =
     rbind (properties_size (ua_properties p)) (\<lambda>sz.
     rbind (varint_len sz) (\<lambda>n. Ok (2 + MAX_MQTT_HEADER_LEN + n + length (ua_codes p))))"

definition unsuback_from_decoder :: "UnsubAck dec_op" where
  "unsuback_from_decoder d =
     rbind (read_u16 d) (\<lambda>(n, d).
     rbind (pid_try_from n) (\<lambda>pid.
     rbind (read_properties d) (\<lambda>(props, d).
     rbind (read_payload d) (\<lambda>(payload, d).
     rbind (collect_vec MAX_SUB_TOPICS_PER_MSG (map unsuback_reason_from payload)) (\<lambda>codes.
     Ok (\<lparr>ua_pid = pid, ua_properties = props, ua_codes = codes\<rparr>, d))))))"

section \<open>Bodies and decoded views\<close>

definition connack_body :: "ConnAck \<Rightarrow> bytes" where
  "connack_body p = (if ca_session_present p then 1 else 0)
     # connack_reason_to_u8 (ca_reason_code p) # properties_bytes (ca_properties p)"

definition props_ok :: "Properties \<Rightarrow> bool" where
  "props_ok v \<longleftrightarrow> sendable v \<and> length (wire_block v) < 268435456"

definition connack_view :: "ConnAck \<Rightarrow> ConnAck" where
  "connack_view p = p\<lparr>ca_properties := DataBlock (wire_block (ca_properties p))\<rparr>"

definition disconnect_body :: "Disconnect \<Rightarrow> bytes" where
  "disconnect_body p =
     (if dc_reason_code p \<noteq> DR_Normal \<or> wire_block (dc_properties p) \<noteq> []
      then [disconnect_reason_to_u8 (dc_reason_code p)] else []) @ properties_bytes (dc_properties p)"

definition disconnect_view :: "Disconnect \<Rightarrow> Disconnect" where
  "disconnect_view p =
     (if dc_reason_code p = DR_Normal \<and> wire_block (dc_properties p) = [] then disconnect_default
      else p\<lparr>dc_properties := DataBlock (wire_block (dc_properties p))\<rparr>)"

definition ack_body :: "Pid \<Rightarrow> bool \<Rightarrow> u8 \<Rightarrow> Properties \<Rightarrow> bytes" where
  "ack_body pid failed code props =
     u16_to_be (pid_get pid)
     @ (if failed \<or> wire_block props \<noteq> [] then code # properties_bytes props else [])"

definition puback_body :: "PubAck \<Rightarrow> bytes" where
  "puback_body p = ack_body (pa_pid p) (pa_reason_code p \<noteq> PA_Success)
     (puback_reason_to_u8 (pa_reason_code p)) (pa_properties p)"

definition puback_view :: "PubAck \<Rightarrow> PubAck" where
  "puback_view p = p\<lparr>pa_properties := DataBlock (wire_block (pa_properties p))\<rparr>"

definition pubrec_body :: "PubRec \<Rightarrow> bytes" where
  "pubrec_body p = ack_body (pr_pid p) (pr_reason_code p \<noteq> PR_Success)
     (pubrec_reason_to_u8 (pr_reason_code p)) (pr_properties p)"

definition pubrec_view :: "PubRec \<Rightarrow> PubRec" where
  "pubrec_view p = p\<lparr>pr_properties := DataBlock (wire_block (pr_properties p))\<rparr>"

definition pubrel_body :: "PubRel \<Rightarrow> bytes" where
  "pubrel_body p = ack_body (pl_pid p) (pl_reason_code p \<noteq> PL_Success)
     (pubrel_reason_to_u8 (pl_reason_code p)) (pl_properties p)"

definition pubrel_view :: "PubRel \<Rightarrow> PubRel" where
  "pubrel_view p = p\<lparr>pl_properties := DataBlock (wire_block (pl_properties p))\<rparr>"

definition pubcomp_body :: "PubComp \<Rightarrow> bytes" where
  "pubcomp_body p = ack_body (pc_pid p) (pc_reason_code p \<noteq> PC_Success)
     (pubcomp_reason_to_u8 (pc_reason_code p)) (pc_properties p)"

definition pubcomp_view :: "PubComp \<Rightarrow> PubComp" where
  "pubcomp_view p = p\<lparr>pc_properties := DataBlock (wire_block (pc_properties p))\<rparr>"

definition suback_body :: "SubAck \<Rightarrow> bytes" where
  "suback_body p = u16_to_be (pid_get (sa_pid p)) @ properties_bytes (sa_properties p)
     @ map suback_reason_to_u8 (sa_codes p)"

definition suback_view :: "SubAck \<Rightarrow> SubAck" where
  "suback_view p = p\<lparr>sa_properties := DataBlock (wire_block (sa_properties p))\<rparr>"

definition unsuback_body :: "UnsubAck \<Rightarrow> bytes" where
  "unsuback_body p = u16_to_be (pid_get (ua_pid p)) @ properties_bytes (ua_properties p)
     @ map unsuback_reason_to_u8 (ua_codes p)"

definition unsuback_view :: "UnsubAck \<Rightarrow> UnsubAck" where
  "unsuback_view p = p\<lparr>ua_properties := DataBlock (wire_block (ua_properties p))\<rparr>"

section \<open>Encoding\<close>

lemma props_okD: "props_ok v \<Longrightarrow> sendable v" "props_ok v \<Longrightarrow> properties_size v = Ok (length (wire_block v))"
  "props_ok v \<Longrightarrow> writes (write_properties v) (properties_bytes v)"
  by (simp_all add: props_ok_def properties_size_wire writes_properties)

lemma has_reason_ok: "props_ok v \<Longrightarrow> has_reason failed v = Ok (failed \<or> wire_block v \<noteq> [])"
  by (simp add: has_reason_def props_okD)

lemma writes_ack:
  assumes "props_ok props"
  shows "writes (\<lambda>e. rbind (write_u16 (pid_get pid) e) (\<lambda>e.
      rbind (has_reason failed props) (\<lambda>b.
      if b then rbind (write_u8 code e) (write_properties props) else Ok e)))
    (ack_body pid failed code props)"
proof -
  have "writes (\<lambda>e. rbind (write_u8 code e) (write_properties props)) ([code] @ properties_bytes props)"
    by (intro writes_intros props_okD assms)
  then have "writes (\<lambda>e. if b then rbind (write_u8 code e) (write_properties props) else Ok e)
      (if b then code # properties_bytes props else [])" for b
    using writes_Ok by simp
  then show ?thesis
    unfolding ack_body_def has_reason_ok [OF assms] rbind.simps by (intro writes_bind writes_u16)
qed

lemma reads_ack:
  assumes "pid_ok pid" and "props_ok props"
  shows "reads (\<lambda>d. rbind (read_u16 d) (\<lambda>(n, d). rbind (pid_try_from n) (\<lambda>pid.
      rbind (read_u8 d) (\<lambda>(code, d). rbind (read_properties d) (\<lambda>(props, d). Ok (mk pid code props, d))))))
    (u16_to_be (pid_get pid) @ code # properties_bytes props) (mk pid code (DataBlock (wire_block props)))"
proof -
  have "reads (\<lambda>d. rbind (read_u8 d) (\<lambda>(code, d). rbind (read_properties d) (\<lambda>(props, d). Ok (mk pid code props, d))))
      ([code] @ properties_bytes props @ []) (mk pid code (DataBlock (wire_block props)))"
    unfolding properties_bytes_def using assms(2)
    by (intro reads_bind [OF reads_u8] reads_bind [OF reads_properties] reads_return) (simp add: props_ok_def)
  then have "reads (\<lambda>d. rbind (pid_try_from (pid_get pid)) (\<lambda>pid. rbind (read_u8 d) (\<lambda>(code, d).
        rbind (read_properties d) (\<lambda>(props, d). Ok (mk pid code props, d)))))
      ([code] @ properties_bytes props @ []) (mk pid code (DataBlock (wire_block props)))"
    using assms(1) by simp
  then show ?thesis by (intro reads_bind [OF reads_u16]) simp
qed

lemma ack_body_length:
  "length (ack_body pid failed code props) =
     (if failed \<or> wire_block props \<noteq> [] then 3 + length (properties_bytes props) else 2)"
  by (simp add: ack_body_def)

lemma properties_bytes_not_Nil [simp]: "properties_bytes props \<noteq> []"
proof -
  have "0 < length (properties_bytes props)" by (simp add: properties_bytes_def length_varint_bytes)
  then show ?thesis by simp
qed

lemma ack_decode:
  assumes "pid_ok pid" and "props_ok props" and "failed \<longleftrightarrow> code \<noteq> success"
    and "dec_buf d = pre @ ack_body pid failed code props" and "dec_offset d = length pre"
    and "fh_remaining_len (dec_fixed_header d) = length (ack_body pid failed code props)"
  shows "\<exists>d'. (if fh_remaining_len (dec_fixed_header d) = 2 \<or> fh_remaining_len (dec_fixed_header d) = 3
      then rbind (read_u16 d) (\<lambda>(n, d). rbind (pid_try_from n) (\<lambda>pid. Ok (mk pid success (DataBlock []), d)))
      else rbind (read_u16 d) (\<lambda>(n, d). rbind (pid_try_from n) (\<lambda>pid.
        rbind (read_u8 d) (\<lambda>(code, d). rbind (read_properties d) (\<lambda>(props, d). Ok (mk pid code props, d))))))
    = Ok (mk pid code (DataBlock (wire_block props)), d')"
proof (cases "failed \<or> wire_block props \<noteq> []")
  case True
  then have buf: "dec_buf d = pre @ (u16_to_be (pid_get pid) @ code # properties_bytes props) @ []"
    using assms(4) by (simp add: ack_body_def)
  have "\<not> (fh_remaining_len (dec_fixed_header d) = 2 \<or> fh_remaining_len (dec_fixed_header d) = 3)"
    using True assms(6) by (simp add: ack_body_length)
  with readsD [OF reads_ack [OF assms(1,2)] buf assms(5)] show ?thesis by auto
next
  case False
  have buf: "dec_buf d = pre @ u16_to_be (pid_get pid) @ []" using assms(4) False by (simp add: ack_body_def)
  from readsD [OF reads_u16 buf assms(5)] False assms(1,3,6) show ?thesis by (simp add: ack_body_length)
qed

section \<open>Every packet meets the codec contract\<close>

lemma flags_default [simp]: "default_flags = 0"
  by (simp add: default_flags_def)

definition puback_ok :: "PubAck \<Rightarrow> bool" where
  "puback_ok p \<longleftrightarrow> pid_ok (pa_pid p) \<and> props_ok (pa_properties p)"

lemma puback_view_eq:
  "puback_view p = \<lparr>pa_pid = pa_pid p, pa_reason_code = pa_reason_code p,
     pa_properties = DataBlock (wire_block (pa_properties p))\<rparr>"
  by (cases p) (simp add: puback_view_def)

interpretation puback: packet_codec puback_to_buffer puback_ok puback_body PT_PubAck "\<lambda>_. default_flags"
  puback_from_decoder puback_view
proof (unfold_locales, goal_cases)
  case (1 p)
  then have "writes (\<lambda>e. rbind (write_u16 (pid_get (pa_pid p)) e) (\<lambda>e.
      rbind (has_reason (pa_reason_code p \<noteq> PA_Success) (pa_properties p)) (\<lambda>b.
      if b then rbind (write_u8 (puback_reason_to_u8 (pa_reason_code p)) e) (write_properties (pa_properties p))
      else Ok e))) (puback_body p)"
    unfolding puback_body_def by (intro writes_ack) (simp add: puback_ok_def)
  then show ?case
    by (intro exI conjI, assumption) (simp add: fun_eq_iff puback_to_buffer_def rbind_assoc)
next
  case (3 p d pre)
  have code: "(pa_reason_code p \<noteq> PA_Success) = (puback_reason_to_u8 (pa_reason_code p) \<noteq> puback_reason_to_u8 PA_Success)"
    by (simp only: puback_rc.to_u8_inj)
  have "pid_ok (pa_pid p)" "props_ok (pa_properties p)" using 3(1) by (simp_all add: puback_ok_def)
  from ack_decode [OF this code 3(3) [unfolded puback_body_def] 3(4) 3(6) [unfolded puback_body_def],
      of "\<lambda>pid code props. \<lparr>pa_pid = pid, pa_reason_code = puback_reason_from code, pa_properties = props\<rparr>"]
  show ?case unfolding puback_rc.from_to puback_from_decoder_def puback_view_eq .
qed simp

definition pubrec_ok :: "PubRec \<Rightarrow> bool" where
  "pubrec_ok p \<longleftrightarrow> pid_ok (pr_pid p) \<and> props_ok (pr_properties p)"

lemma pubrec_view_eq:
  "pubrec_view p = \<lparr>pr_pid = pr_pid p, pr_reason_code = pr_reason_code p,
     pr_properties = DataBlock (wire_block (pr_properties p))\<rparr>"
  by (cases p) (simp add: pubrec_view_def)

interpretation pubrec: packet_codec pubrec_to_buffer pubrec_ok pubrec_body PT_PubRec "\<lambda>_. default_flags"
  pubrec_from_decoder pubrec_view
proof (unfold_locales, goal_cases)
  case (1 p)
  then have "writes (\<lambda>e. rbind (write_u16 (pid_get (pr_pid p)) e) (\<lambda>e.
      rbind (has_reason (pr_reason_code p \<noteq> PR_Success) (pr_properties p)) (\<lambda>b.
      if b then rbind (write_u8 (pubrec_reason_to_u8 (pr_reason_code p)) e) (write_properties (pr_properties p))
      else Ok e))) (pubrec_body p)"
    unfolding pubrec_body_def by (intro writes_ack) (simp add: pubrec_ok_def)
  then show ?case
    by (intro exI conjI, assumption) (simp add: fun_eq_iff pubrec_to_buffer_def rbind_assoc)
next
  case (3 p d pre)
  have code: "(pr_reason_code p \<noteq> PR_Success) = (pubrec_reason_to_u8 (pr_reason_code p) \<noteq> pubrec_reason_to_u8 PR_Success)"
    by (simp only: pubrec_rc.to_u8_inj)
  have "pid_ok (pr_pid p)" "props_ok (pr_properties p)" using 3(1) by (simp_all add: pubrec_ok_def)
  from ack_decode [OF this code 3(3) [unfolded pubrec_body_def] 3(4) 3(6) [unfolded pubrec_body_def],
      of "\<lambda>pid code props. \<lparr>pr_pid = pid, pr_reason_code = pubrec_reason_from code, pr_properties = props\<rparr>"]
  show ?case unfolding pubrec_rc.from_to pubrec_from_decoder_def pubrec_view_eq .
qed simp

definition pubrel_ok :: "PubRel \<Rightarrow> bool" where
  "pubrel_ok p \<longleftrightarrow> pid_ok (pl_pid p) \<and> props_ok (pl_properties p)"

lemma pubrel_view_eq:
  "pubrel_view p = \<lparr>pl_pid = pl_pid p, pl_reason_code = pl_reason_code p,
     pl_properties = DataBlock (wire_block (pl_properties p))\<rparr>"
  by (cases p) (simp add: pubrel_view_def)

interpretation pubrel: packet_codec pubrel_to_buffer pubrel_ok pubrel_body PT_PubRel "\<lambda>_. default_flags"
  pubrel_from_decoder pubrel_view
proof (unfold_locales, goal_cases)
  case (1 p)
  then have "writes (\<lambda>e. rbind (write_u16 (pid_get (pl_pid p)) e) (\<lambda>e.
      rbind (has_reason (pl_reason_code p \<noteq> PL_Success) (pl_properties p)) (\<lambda>b.
      if b then rbind (write_u8 (pubrel_reason_to_u8 (pl_reason_code p)) e) (write_properties (pl_properties p))
      else Ok e))) (pubrel_body p)"
    unfolding pubrel_body_def by (intro writes_ack) (simp add: pubrel_ok_def)
  then show ?case
    by (intro exI conjI, assumption) (simp add: fun_eq_iff pubrel_to_buffer_def rbind_assoc)
next
  case (3 p d pre)
  have code: "(pl_reason_code p \<noteq> PL_Success) = (pubrel_reason_to_u8 (pl_reason_code p) \<noteq> pubrel_reason_to_u8 PL_Success)"
    by (simp only: pubrel_rc.to_u8_inj)
  have "pid_ok (pl_pid p)" "props_ok (pl_properties p)" using 3(1) by (simp_all add: pubrel_ok_def)
  from ack_decode [OF this code 3(3) [unfolded pubrel_body_def] 3(4) 3(6) [unfolded pubrel_body_def],
      of "\<lambda>pid code props. \<lparr>pl_pid = pid, pl_reason_code = pubrel_reason_from code, pl_properties = props\<rparr>"]
  show ?case unfolding pubrel_rc.from_to pubrel_from_decoder_def pubrel_view_eq .
qed simp

definition pubcomp_ok :: "PubComp \<Rightarrow> bool" where
  "pubcomp_ok p \<longleftrightarrow> pid_ok (pc_pid p) \<and> props_ok (pc_properties p)"

lemma pubcomp_view_eq:
  "pubcomp_view p = \<lparr>pc_pid = pc_pid p, pc_reason_code = pc_reason_code p,
     pc_properties = DataBlock (wire_block (pc_properties p))\<rparr>"
  by (cases p) (simp add: pubcomp_view_def)

interpretation pubcomp: packet_codec pubcomp_to_buffer pubcomp_ok pubcomp_body PT_PubComp "\<lambda>_. default_flags"
  pubcomp_from_decoder pubcomp_view
proof (unfold_locales, goal_cases)
  case (1 p)
  then have "writes (\<lambda>e. rbind (write_u16 (pid_get (pc_pid p)) e) (\<lambda>e.
      rbind (has_reason (pc_reason_code p \<noteq> PC_Success) (pc_properties p)) (\<lambda>b.
      if b then rbind (write_u8 (pubcomp_reason_to_u8 (pc_reason_code p)) e) (write_properties (pc_properties p))
      else Ok e))) (pubcomp_body p)"
    unfolding pubcomp_body_def by (intro writes_ack) (simp add: pubcomp_ok_def)
  then show ?case
    by (intro exI conjI, assumption) (simp add: fun_eq_iff pubcomp_to_buffer_def rbind_assoc)
next
  case (3 p d pre)
  have code: "(pc_reason_code p \<noteq> PC_Success) = (pubcomp_reason_to_u8 (pc_reason_code p) \<noteq> pubcomp_reason_to_u8 PC_Success)"
    by (simp only: pubcomp_rc.to_u8_inj)
  have "pid_ok (pc_pid p)" "props_ok (pc_properties p)" using 3(1) by (simp_all add: pubcomp_ok_def)
  from ack_decode [OF this code 3(3) [unfolded pubcomp_body_def] 3(4) 3(6) [unfolded pubcomp_body_def],
      of "\<lambda>pid code props. \<lparr>pc_pid = pid, pc_reason_code = pubcomp_reason_from code, pc_properties = props\<rparr>"]
  show ?case unfolding pubcomp_rc.from_to pubcomp_from_decoder_def pubcomp_view_eq .
qed simp

lemma read_payload_rest:
  "dec_buf d = pre @ bs \<Longrightarrow> dec_offset d = length pre \<Longrightarrow> packet_len d = length (pre @ bs) \<Longrightarrow>
   read_payload d = Ok (bs, d\<lparr>dec_offset := length pre + length bs\<rparr>)"
  by (simp add: read_payload_def dec_check_remaining_def take_slice_def slice_def Let_def)

lemma reads_props:
  "props_ok v \<Longrightarrow> reads read_properties (properties_bytes v) (DataBlock (wire_block v))"
  unfolding properties_bytes_def by (intro reads_properties) (simp add: props_ok_def)

lemma reads_propsD:
  "props_ok v \<Longrightarrow> dec_buf d = pre @ properties_bytes v @ post \<Longrightarrow> dec_offset d = length pre \<Longrightarrow>
   \<exists>d'. read_properties d = Ok (DataBlock (wire_block v), d')"
  using readsD [OF reads_props] by blast

lemma codes_decode:
  assumes "pid_ok pid" and "props_ok props" and "length codes \<le> MAX_SUB_TOPICS_PER_MSG"
    and buf: "dec_buf d = pre @ u16_to_be (pid_get pid) @ properties_bytes props @ map to_code codes"
    and off: "dec_offset d = length pre" and len: "packet_len d = length (dec_buf d)"
    and "\<And>c. from_code (to_code c) = c"
  shows "\<exists>d'. rbind (read_u16 d) (\<lambda>(n, d). rbind (pid_try_from n) (\<lambda>pid.
      rbind (read_properties d) (\<lambda>(props, d). rbind (read_payload d) (\<lambda>(payload, d).
      rbind (collect_vec MAX_SUB_TOPICS_PER_MSG (map from_code payload)) (\<lambda>codes. Ok (mk pid props codes, d))))))
    = Ok (mk pid (DataBlock (wire_block props)) codes, d')"
proof -
  let ?a = "u16_to_be (pid_get pid)" and ?b = "properties_bytes props" and ?c = "map to_code codes"
  let ?d1 = "d\<lparr>dec_offset := length pre + length ?a\<rparr>"
  let ?d2 = "?d1\<lparr>dec_offset := length (pre @ ?a) + length ?b\<rparr>"
  have 1: "read_u16 d = Ok (pid_get pid, ?d1)" by (rule readsD [OF reads_u16 buf off])
  have 2: "read_properties ?d1 = Ok (DataBlock (wire_block props), ?d2)"
    by (rule readsD [OF reads_props [OF assms(2)], of _ _ ?c]) (simp_all add: buf)
  have "packet_len ?d2 = length ((pre @ ?a @ ?b) @ ?c)" using len buf by (simp add: packet_len_def)
  then have 3: "\<exists>d3. read_payload ?d2 = Ok (?c, d3)"
    using buf read_payload_rest [of ?d2 "pre @ ?a @ ?b" ?c] by (simp add: add.assoc)
  have "map from_code ?c = codes" using assms(7) by (simp add: map_idI)
  with 1 2 3 assms(1,3) show ?thesis by (auto simp: collect_vec_def)
qed

definition suback_ok :: "SubAck \<Rightarrow> bool" where
  "suback_ok p \<longleftrightarrow> pid_ok (sa_pid p) \<and> props_ok (sa_properties p) \<and> length (sa_codes p) \<le> MAX_SUB_TOPICS_PER_MSG"

lemma suback_view_eq:
  "suback_view p = \<lparr>sa_pid = sa_pid p, sa_properties = DataBlock (wire_block (sa_properties p)),
     sa_codes = sa_codes p\<rparr>"
  by (cases p) (simp add: suback_view_def)

interpretation suback: packet_codec suback_to_buffer suback_ok suback_body PT_SubAck "\<lambda>_. default_flags"
  suback_from_decoder suback_view
proof (unfold_locales, goal_cases)
  case (1 p)
  then have "writes (\<lambda>e. rbind (write_u16 (pid_get (sa_pid p)) e) (\<lambda>e.
      rbind (write_properties (sa_properties p) e)
        (write_each (\<lambda>code. write_u8 (suback_reason_to_u8 code)) (sa_codes p)))) (u16_to_be (pid_get (sa_pid p))
      @ properties_bytes (sa_properties p) @ concat (map (\<lambda>code. [suback_reason_to_u8 code]) (sa_codes p)))"
    by (intro writes_intros props_okD) (simp add: suback_ok_def)
  moreover have "concat (map (\<lambda>code. [suback_reason_to_u8 code]) cs) = map suback_reason_to_u8 cs" for cs
    by (induction cs) simp_all
  ultimately show ?case unfolding suback_body_def
    by (intro exI conjI) (auto simp: fun_eq_iff suback_to_buffer_def rbind_assoc)
next
  case (3 p d pre)
  then have "pid_ok (sa_pid p)" "props_ok (sa_properties p)" "length (sa_codes p) \<le> MAX_SUB_TOPICS_PER_MSG"
    by (simp_all add: suback_ok_def)
  moreover have "packet_len d = length (dec_buf d)" using 3 by simp
  ultimately show ?case
    using codes_decode [where mk = "\<lambda>pid props codes. \<lparr>sa_pid = pid, sa_properties = props, sa_codes = codes\<rparr>"
        and from_code = suback_reason_from, OF _ _ _ 3(3) [unfolded suback_body_def] 3(4)]
    unfolding suback_from_decoder_def suback_view_eq by simp
qed simp

definition unsuback_ok :: "UnsubAck \<Rightarrow> bool" where
  "unsuback_ok p \<longleftrightarrow> pid_ok (ua_pid p) \<and> props_ok (ua_properties p) \<and> length (ua_codes p) \<le> MAX_SUB_TOPICS_PER_MSG"

lemma unsuback_view_eq:
  "unsuback_view p = \<lparr>ua_pid = ua_pid p, ua_properties = DataBlock (wire_block (ua_properties p)),
     ua_codes = ua_codes p\<rparr>"
  by (cases p) (simp add: unsuback_view_def)

interpretation unsuback: packet_codec unsuback_to_buffer unsuback_ok unsuback_body PT_UnsubAck "\<lambda>_. default_flags"
  unsuback_from_decoder unsuback_view
proof (unfold_locales, goal_cases)
  case (1 p)
  then have "writes (\<lambda>e. rbind (write_u16 (pid_get (ua_pid p)) e) (\<lambda>e.
      rbind (write_properties (ua_properties p) e)
        (write_each (\<lambda>code. write_u8 (unsuback_reason_to_u8 code)) (ua_codes p)))) (u16_to_be (pid_get (ua_pid p))
      @ properties_bytes (ua_properties p) @ concat (map (\<lambda>code. [unsuback_reason_to_u8 code]) (ua_codes p)))"
    by (intro writes_intros props_okD) (simp add: unsuback_ok_def)
  moreover have "concat (map (\<lambda>code. [unsuback_reason_to_u8 code]) cs) = map unsuback_reason_to_u8 cs" for cs
    by (induction cs) simp_all
  ultimately show ?case unfolding unsuback_body_def
    by (intro exI conjI) (auto simp: fun_eq_iff unsuback_to_buffer_def rbind_assoc)
next
  case (3 p d pre)
  then have "pid_ok (ua_pid p)" "props_ok (ua_properties p)" "length (ua_codes p) \<le> MAX_SUB_TOPICS_PER_MSG"
    by (simp_all add: unsuback_ok_def)
  moreover have "packet_len d = length (dec_buf d)" using 3 by simp
  ultimately show ?case
    using codes_decode [where mk = "\<lambda>pid props codes. \<lparr>ua_pid = pid, ua_properties = props, ua_codes = codes\<rparr>"
        and from_code = unsuback_reason_from, OF _ _ _ 3(3) [unfolded unsuback_body_def] 3(4)]
    unfolding unsuback_from_decoder_def unsuback_view_eq by simp
qed simp

definition connack_ok :: "ConnAck \<Rightarrow> bool" where
  "connack_ok p \<longleftrightarrow> props_ok (ca_properties p)"

interpretation connack: packet_codec connack_to_buffer connack_ok connack_body PT_ConnAck "\<lambda>_. default_flags"
  connack_from_decoder connack_view
proof (unfold_locales, goal_cases)
  case (1 p)
  then have "writes (\<lambda>e. rbind (write_u8 (if ca_session_present p then 1 else 0) e) (\<lambda>e.
      rbind (write_u8 (connack_reason_to_u8 (ca_reason_code p)) e) (write_properties (ca_properties p))))
    ([if ca_session_present p then 1 else 0] @ [connack_reason_to_u8 (ca_reason_code p)] @
      properties_bytes (ca_properties p))"
    by (intro writes_bind writes_u8 props_okD) (simp add: connack_ok_def)
  then show ?case unfolding connack_body_def
    by (intro exI conjI) (auto simp: fun_eq_iff connack_to_buffer_def rbind_assoc)
next
  case (3 p d pre)
  let ?f = "if ca_session_present p then 1 else (0::u8)"
  let ?code = "connack_reason_to_u8 (ca_reason_code p)"
  let ?d1 = "d\<lparr>dec_offset := length pre + length [?f]\<rparr>"
  let ?d2 = "?d1\<lparr>dec_offset := length (pre @ [?f]) + length [?code]\<rparr>"
  have "read_u8 d = Ok (?f, ?d1)"
    using 3 by (intro readsD [OF reads_u8, of _ _ _ "?code # properties_bytes (ca_properties p)"])
      (simp_all add: connack_body_def)
  moreover have "read_u8 ?d1 = Ok (?code, ?d2)"
    using 3 by (intro readsD [OF reads_u8, of _ _ _ "properties_bytes (ca_properties p)"])
      (simp_all add: connack_body_def)
  moreover have "\<exists>d3. read_properties ?d2 = Ok (DataBlock (wire_block (ca_properties p)), d3)"
    using 3 by (intro reads_propsD [of _ _ "pre @ [?f, ?code]" "[]"])
      (simp_all add: connack_body_def connack_ok_def)
  moreover have "connack_view p = \<lparr>ca_session_present = ca_session_present p,
      ca_reason_code = ca_reason_code p, ca_properties = DataBlock (wire_block (ca_properties p))\<rparr>"
    by (cases p) (simp add: connack_view_def)
  ultimately show ?case by (auto simp: connack_from_decoder_def)
qed simp

definition disconnect_ok :: "Disconnect \<Rightarrow> bool" where
  "disconnect_ok p \<longleftrightarrow> props_ok (dc_properties p)"

lemma writes_disconnect:
  assumes "props_ok (dc_properties p)"
  shows "writes (\<lambda>e. rbind (if dc_reason_code p \<noteq> DR_Normal
            then write_u8 (disconnect_reason_to_u8 (dc_reason_code p)) e else Ok e) (\<lambda>e.
     rbind (if wire_block (dc_properties p) \<noteq> [] \<and> dc_reason_code p = DR_Normal
            then write_u8 (disconnect_reason_to_u8 (dc_reason_code p)) e else Ok e)
     (write_properties (dc_properties p)))) (disconnect_body p)"
proof -
  let ?c = "[disconnect_reason_to_u8 (dc_reason_code p)]"
  have "writes (\<lambda>e. rbind (if dc_reason_code p \<noteq> DR_Normal
            then write_u8 (disconnect_reason_to_u8 (dc_reason_code p)) e else Ok e) (\<lambda>e.
     rbind (if wire_block (dc_properties p) \<noteq> [] \<and> dc_reason_code p = DR_Normal
            then write_u8 (disconnect_reason_to_u8 (dc_reason_code p)) e else Ok e)
     (write_properties (dc_properties p))))
    ((if dc_reason_code p \<noteq> DR_Normal then ?c else []) @
     (if wire_block (dc_properties p) \<noteq> [] \<and> dc_reason_code p = DR_Normal then ?c else []) @
     properties_bytes (dc_properties p))"
    by (intro writes_bind writes_if writes_u8 writes_Ok props_okD assms)
  then show ?thesis by (rule writes_eq) (auto simp: disconnect_body_def)
qed

lemma disconnect_decode:
  assumes "disconnect_ok p" and "dec_buf d = pre @ disconnect_body p" and "dec_offset d = length pre"
    and "fh_remaining_len (dec_fixed_header d) = length (disconnect_body p)"
  shows "\<exists>d'. disconnect_from_decoder d = Ok (disconnect_view p, d')"
proof (cases "dc_reason_code p = DR_Normal \<and> wire_block (dc_properties p) = []")
  case True
  then have "disconnect_body p = [0]" by (simp add: disconnect_body_def properties_bytes_empty)
  with True assms(4) show ?thesis by (simp add: disconnect_from_decoder_def disconnect_view_def)
next
  case False
  let ?c = "disconnect_reason_to_u8 (dc_reason_code p)"
  let ?d1 = "d\<lparr>dec_offset := length pre + length [?c]\<rparr>"
  have body: "disconnect_body p = ?c # properties_bytes (dc_properties p)"
    using False by (auto simp: disconnect_body_def)
  have "read_u8 d = Ok (?c, ?d1)"
    using assms(2,3) body by (intro readsD [OF reads_u8, of _ _ _ "properties_bytes (dc_properties p)"]) simp_all
  moreover have "\<exists>d2. read_properties ?d1 = Ok (DataBlock (wire_block (dc_properties p)), d2)"
    using assms(1,2) body
    by (intro reads_propsD [of _ _ "pre @ [?c]" "[]"]) (simp_all add: disconnect_ok_def)
  moreover have "disconnect_view p =
      \<lparr>dc_reason_code = dc_reason_code p, dc_properties = DataBlock (wire_block (dc_properties p))\<rparr>"
    using False by (cases p) (auto simp: disconnect_view_def)
  moreover have "\<not> length (disconnect_body p) < 2"
    using body properties_bytes_not_Nil [of "dc_properties p"] by (cases "properties_bytes (dc_properties p)") auto
  ultimately show ?thesis using assms(4) by (auto simp: disconnect_from_decoder_def)
qed

interpretation disconnect: packet_codec disconnect_to_buffer disconnect_ok disconnect_body PT_Disconnect
  "\<lambda>_. default_flags" disconnect_from_decoder disconnect_view
proof (unfold_locales, goal_cases)
  case (1 p)
  then have ok: "props_ok (dc_properties p)" by (simp add: disconnect_ok_def)
  show ?case
    using writes_disconnect [OF ok]
    by (intro exI conjI) (auto simp: fun_eq_iff disconnect_to_buffer_def rbind_assoc props_okD(2) [OF ok])
next
  case (3 p d pre)
  then show ?case by (intro disconnect_decode) simp_all
qed simp

interpretation pingreq: packet_codec pingreq_to_buffer "\<lambda>_. True" "\<lambda>_. []" PT_PingReq "\<lambda>_. default_flags"
  pingreq_from_decoder "\<lambda>p. p"
proof (unfold_locales, goal_cases)
  case (1 p)
  show ?case using writes_Ok by (intro exI conjI) (auto simp: fun_eq_iff pingreq_to_buffer_def)
next
  case (3 p d pre)
  then show ?case by (cases p) (simp add: pingreq_from_decoder_def)
qed simp

interpretation pingresp: packet_codec pingresp_to_buffer "\<lambda>_. True" "\<lambda>_. []" PT_PingResp "\<lambda>_. default_flags"
  pingresp_from_decoder "\<lambda>p. p"
proof (unfold_locales, goal_cases)
  case (1 p)
  show ?case using writes_Ok by (intro exI conjI) (auto simp: fun_eq_iff pingresp_to_buffer_def)
next
  case (3 p d pre)
  then show ?case by (cases p) (simp add: pingresp_from_decoder_def)
qed simp

section \<open>Decoding never panics\<close>

lemma dec_safe_cond:
  "dec_safe f \<Longrightarrow> dec_safe g \<Longrightarrow> dec_safe (\<lambda>d. if b d then f d else g d)"
  by (auto simp: dec_safe_def)

lemma dec_safe_connack: "dec_safe connack_from_decoder"
  unfolding connack_from_decoder_def [abs_def] by (intro dec_safe_intros)

lemma dec_safe_disconnect: "dec_safe disconnect_from_decoder"
  unfolding disconnect_from_decoder_def [abs_def] by (intro dec_safe_cond dec_safe_intros)

lemma dec_safe_puback: "dec_safe puback_from_decoder"
  unfolding puback_from_decoder_def [abs_def] by (intro dec_safe_cond dec_safe_intros pid_try_from_not_Panic)

lemma dec_safe_pubrec: "dec_safe pubrec_from_decoder"
  unfolding pubrec_from_decoder_def [abs_def] by (intro dec_safe_cond dec_safe_intros pid_try_from_not_Panic)

lemma dec_safe_pubrel: "dec_safe pubrel_from_decoder"
  unfolding pubrel_from_decoder_def [abs_def] by (intro dec_safe_cond dec_safe_intros pid_try_from_not_Panic)

lemma dec_safe_pubcomp: "dec_safe pubcomp_from_decoder"
  unfolding pubcomp_from_decoder_def [abs_def] by (intro dec_safe_cond dec_safe_intros pid_try_from_not_Panic)

text \<open>
  Collecting the reason codes of a SUBACK or UNSUBACK is the one place where decoding can panic:
  when the packet carries more than \<open>MAX_SUB_TOPICS_PER_MSG\<close> codes.
\<close>

definition codes_prefix :: "(Pid \<times> Properties \<times> bytes) dec_op" where
  "codes_prefix d =
     rbind (read_u16 d) (\<lambda>(n, d).
     rbind (pid_try_from n) (\<lambda>pid.
     rbind (read_properties d) (\<lambda>(props, d).
     rbind (read_payload d) (\<lambda>(payload, d). Ok ((pid, props, payload), d)))))"

lemma dec_safe_codes_prefix: "dec_safe codes_prefix"
  unfolding codes_prefix_def [abs_def] by (intro dec_safe_intros pid_try_from_not_Panic)

lemma suback_from_decoder_prefix:
  "suback_from_decoder d = rbind (codes_prefix d) (\<lambda>((pid, props, payload), d).
     rbind (collect_vec MAX_SUB_TOPICS_PER_MSG (map suback_reason_from payload)) (\<lambda>codes.
     Ok (\<lparr>sa_pid = pid, sa_properties = props, sa_codes = codes\<rparr>, d)))"
  by (simp add: suback_from_decoder_def codes_prefix_def rbind_assoc split_def)

lemma unsuback_from_decoder_prefix:
  "unsuback_from_decoder d = rbind (codes_prefix d) (\<lambda>((pid, props, payload), d).
     rbind (collect_vec MAX_SUB_TOPICS_PER_MSG (map unsuback_reason_from payload)) (\<lambda>codes.
     Ok (\<lparr>ua_pid = pid, ua_properties = props, ua_codes = codes\<rparr>, d)))"
  by (simp add: unsuback_from_decoder_def codes_prefix_def rbind_assoc split_def)

lemma collect_panic:
  assumes "r \<noteq> Panic"
  shows "rbind r (\<lambda>((a, b, xs), d). rbind (collect_vec n (map f xs)) (\<lambda>ys. Ok (mk a b ys, d))) = Panic \<longleftrightarrow>
    (\<exists>a b xs d. r = Ok ((a, b, xs), d) \<and> n < length xs)"
proof (cases r)
  case (Ok x)
  obtain a b xs d where "x = ((a, b, xs), d)" by (metis prod.exhaust)
  with Ok show ?thesis by (simp add: collect_vec_def)
qed (use assms in simp_all)

lemma codes_panic:
  assumes "wf_dec d"
  shows "suback_from_decoder d = Panic \<longleftrightarrow>
      (\<exists>pid props payload d'. codes_prefix d = Ok ((pid, props, payload), d') \<and>
         MAX_SUB_TOPICS_PER_MSG < length payload)"
    and "unsuback_from_decoder d = Panic \<longleftrightarrow>
      (\<exists>pid props payload d'. codes_prefix d = Ok ((pid, props, payload), d') \<and>
         MAX_SUB_TOPICS_PER_MSG < length payload)"
proof -
  have np: "codes_prefix d \<noteq> Panic" using dec_safe_codes_prefix assms by (simp add: dec_safe_def)
  show "suback_from_decoder d = Panic \<longleftrightarrow>
      (\<exists>pid props payload d'. codes_prefix d = Ok ((pid, props, payload), d') \<and>
         MAX_SUB_TOPICS_PER_MSG < length payload)"
    unfolding suback_from_decoder_prefix by (rule collect_panic [OF np])
  show "unsuback_from_decoder d = Panic \<longleftrightarrow>
      (\<exists>pid props payload d'. codes_prefix d = Ok ((pid, props, payload), d') \<and>
         MAX_SUB_TOPICS_PER_MSG < length payload)"
    unfolding unsuback_from_decoder_prefix by (rule collect_panic [OF np])
qed

end
