(* ===== verification/Packets_Out.thy ===== *)
theory Packets_Out
  imports Packets_Acks
begin

text \<open>
  The packets the client sends: \<open>connect.rs\<close>, \<open>publish.rs\<close>, \<open>subscribe.rs\<close> and \<open>unsubscribe.rs\<close> of
  \<open>src/encoding/packets\<close>.  A payload (\<open>ToPayload\<close>) is a byte slice or a \<open>DeferredPayload\<close>, whose
  closure belongs to the caller and is an argument of the model: it maps the buffer it is given to
  the number of bytes it wrote and the new contents of that buffer.
\<close>

section \<open>CONNECT\<close>

datatype Protocol = MQIsdp | MQTT311 | MQTT5

fun protocol_to_u8 :: "Protocol \<Rightarrow> u8" where
  "protocol_to_u8 MQIsdp = 3"
| "protocol_to_u8 MQTT311 = 4"
| "protocol_to_u8 MQTT5 = 5"

fun protocol_name :: "Protocol \<Rightarrow> str" where
  "protocol_name MQTT311 = ascii ''MQTT''"
| "protocol_name MQTT5 = ascii ''MQTT''"
| "protocol_name MQIsdp = ascii ''MQIsdp''"

record LastWill =
  lw_topic :: str
  lw_data :: bytes
  lw_qos :: QoS
  lw_retained :: bool
  lw_properties :: Properties

record Connect =
  cn_protocol :: Protocol
  cn_properties :: Properties
  cn_keep_alive :: u16
  cn_client_id :: str
  cn_username :: "str option"
  cn_password :: "bytes option"
  cn_last_will :: "LastWill option"
  cn_clean_start :: bool

definition bool_to_u8 :: "bool \<Rightarrow> u8" where
  "bool_to_u8 b = (if b then 1 else 0)"

definition connect_flags :: "Connect \<Rightarrow> u8" where
  "connect_flags p =
     (let f = push_bit 1 (bool_to_u8 (cn_clean_start p));
          f = f OR push_bit 7 (bool_to_u8 (cn_username p \<noteq> None));
          f = f OR push_bit 6 (bool_to_u8 (cn_password p \<noteq> None))
      in case cn_last_will p of
           None \<Rightarrow> f
         | Some w \<Rightarrow> f OR 4 OR push_bit 3 (qos_to_u8 (lw_qos w)) OR push_bit 5 (bool_to_u8 (lw_retained w)))"

definition write_last_will :: "LastWill \<Rightarrow> enc_op" where
  "write_last_will w e =
     rbind (write_properties (lw_properties w) e) (\<lambda>e.
     rbind (write_str (lw_topic w) e) (\<lambda>e.
     write_slice (lw_data w) e))"

definition connect_to_buffer :: "Connect \<Rightarrow> enc_op" where
  "connect_to_buffer p e =
     rbind (write_str (protocol_name (cn_protocol p)) e) (\<lambda>e.
     rbind (write_u8 (protocol_to_u8 (cn_protocol p)) e) (\<lambda>e.
     rbind (write_u8 (connect_flags p) e) (\<lambda>e.
     rbind (write_u16 (cn_keep_alive p) e) (\<lambda>e.
     rbind (write_properties (cn_properties p) e) (\<lambda>e.
     rbind (write_str (cn_client_id p) e) (\<lambda>e.
     rbind (case cn_last_will p of None \<Rightarrow> Ok e | Some w \<Rightarrow> write_last_will w e) (\<lambda>e.
     rbind (case cn_username p of None \<Rightarrow> Ok e | Some u \<Rightarrow> write_str u e) (\<lambda>e.
     rbind (case cn_password p of None \<Rightarrow> Ok e | Some w \<Rightarrow> write_slice w e) (\<lambda>e.
     finalize_fixed_header (packet_type_byte PT_Connect) default_flags e)))))))))"

definition sized_properties :: "Properties \<Rightarrow> ('e, nat) result" where
  "sized_properties v = rbind (properties_size v) (\<lambda>sz. rbind (varint_len sz) (\<lambda>n. Ok (n + sz)))"

definition connect_max_packet_size :: "Connect \<Rightarrow> (EncodingError, nat) result" where
  "connect_max_packet_size p =
     rbind (sized_properties (cn_properties p)) (\<lambda>np.
     rbind (case cn_last_will p of
              None \<Rightarrow> Ok 0
            | Some w \<Rightarrow> rbind (sized_properties (lw_properties w)) (\<lambda>nw.
                Ok (nw + (2 + length (lw_topic w)) + (2 + length (lw_data w))))) (\<lambda>nw.
     Ok ((2 + length (protocol_name (cn_protocol p)) + 1 + 1) + 2 + np + (2 + length (cn_client_id p)) + nw
         + (case cn_username p of None \<Rightarrow> 0 | Some u \<Rightarrow> 2 + length u)
         + (case cn_password p of None \<Rightarrow> 0 | Some w \<Rightarrow> 2 + length w) + MAX_MQTT_HEADER_LEN)))"

text \<open>\<open>todo!()\<close>\<close>

definition connect_from_decoder :: "Connect dec_op" where
  "connect_from_decoder d = Panic"

section \<open>PUBLISH\<close>

datatype Payload =
    PayloadBytes bytes
  | DeferredPayload "bytes \<Rightarrow> (EncodingError, nat \<times> bytes) result" nat

fun payload_serialize :: "Payload \<Rightarrow> bytes \<Rightarrow> (EncodingError, nat \<times> bytes) result" where
  "payload_serialize (PayloadBytes v) buffer =
     (if length buffer < length v then Err BufferSize else Ok (length v, splice buffer 0 v))"
| "payload_serialize (DeferredPayload func max_len) buffer =
     (if length buffer < max_len then Err BufferSize else func buffer)"

fun payload_max_size :: "Payload \<Rightarrow> nat" where
  "payload_max_size (PayloadBytes v) = length v"
| "payload_max_size (DeferredPayload func max_len) = max_len"

definition write_payload :: "Payload \<Rightarrow> enc_op" where
  "write_payload payload e =
     (if length (enc_buf e) < enc_offset e then Panic
      else
        rbind (payload_serialize payload (drop (enc_offset e) (enc_buf e))) (\<lambda>(n, tail).
        Ok (e\<lparr>enc_buf := take (enc_offset e) (enc_buf e) @ tail, enc_offset := enc_offset e + n\<rparr>)))"

record Publish =
  pub_dup :: bool
  pub_qos :: QoS
  pub_retain :: bool
  pub_pid :: "Pid option"
  pub_topic_name :: str
  pub_payload :: Payload
  pub_properties :: Properties

definition publish_flags :: "Publish \<Rightarrow> u8" where
  "publish_flags p =
     (let flags = push_bit 1 (qos_to_u8 (pub_qos p));
          flags = (if pub_dup p then flags OR 8 else flags);
          flags = (if pub_retain p then flags OR 1 else flags)
      in flags)"

definition ok_or :: "'a option \<Rightarrow> 'e \<Rightarrow> ('e, 'a) result" where
  "ok_or x err = (case x of None \<Rightarrow> Err err | Some v \<Rightarrow> Ok v)"

definition publish_to_buffer :: "Publish \<Rightarrow> enc_op" where
  "publish_to_buffer p e =
     rbind (write_str (pub_topic_name p) e) (\<lambda>e.
     rbind (case pub_qos p of
              AtMostOnce \<Rightarrow> Ok e
            | AtLeastOnce \<Rightarrow> rbind (ok_or (pub_pid p) PidMissing) (\<lambda>pid. write_u16 (pid_get pid) e)
            | ExactlyOnce \<Rightarrow> rbind (ok_or (pub_pid p) PidMissing) (\<lambda>pid. write_u16 (pid_get pid) e)) (\<lambda>e.
     rbind (write_properties (pub_properties p) e) (\<lambda>e.
     rbind (write_payload (pub_payload p) e) (\<lambda>e.
     finalize_fixed_header (packet_type_byte PT_Publish) (publish_flags p) e))))"

definition publish_set_pid :: "Pid \<Rightarrow> Publish \<Rightarrow> Publish" where
  "publish_set_pid pid p = p\<lparr>pub_pid := Some pid\<rparr>"

definition publish_get_qos :: "Publish \<Rightarrow> QoS option" where
  "publish_get_qos p = Some (pub_qos p)"

definition publish_max_packet_size :: "Publish \<Rightarrow> (EncodingError, nat) result" where
  "publish_max_packet_size p =
     rbind (properties_size (pub_properties p)) (\<lambda>sz.
     rbind (varint_len sz) (\<lambda>n.
     Ok (2 + length (pub_topic_name p) + (if pub_qos p = AtMostOnce then 0 else 2) + MAX_MQTT_HEADER_LEN
         + n + payload_max_size (pub_payload p))))"

section \<open>SUBSCRIBE\<close>

datatype RetainHandling = SendAtSubscribeTime | SendAtSubscribeTimeIfNonexistent | DoNotSend

fun retain_handling_to_u8 :: "RetainHandling \<Rightarrow> u8" where
  "retain_handling_to_u8 SendAtSubscribeTime = 0"
| "retain_handling_to_u8 SendAtSubscribeTimeIfNonexistent = 1"
| "retain_handling_to_u8 DoNotSend = 2"

record SubscribeTopic =
  st_topic_path :: str
  st_maximum_qos :: QoS
  st_no_local :: bool
  st_retain_as_published :: bool
  st_retain_handling :: RetainHandling

definition subscribe_topic_from :: "str \<Rightarrow> SubscribeTopic" where
  "subscribe_topic_from v =
     \<lparr>st_topic_path = v, st_maximum_qos = AtLeastOnce, st_no_local = False,
      st_retain_as_published = False, st_retain_handling = SendAtSubscribeTime\<rparr>"

record Subscribe =
  sub_pid :: "Pid option"
  sub_properties :: Properties
  sub_topics :: "SubscribeTopic list"

definition subscribe_flags :: "Subscribe \<Rightarrow> u8" where
  "subscribe_flags p = 2"

definition subscribe_options :: "SubscribeTopic \<Rightarrow> u8" where
  "subscribe_options t =
     (let options = push_bit 4 (retain_handling_to_u8 (st_retain_handling t));
          options = options OR push_bit 3 (bool_to_u8 (st_retain_as_published t));
          options = options OR push_bit 2 (bool_to_u8 (st_no_local t))
      in options OR (qos_to_u8 (st_maximum_qos t) AND 3))"

definition write_subscribe_topic :: "SubscribeTopic \<Rightarrow> enc_op" where
  "write_subscribe_topic t e =
     rbind (write_str (st_topic_path t) e) (\<lambda>e. write_u8 (subscribe_options t) e)"

text \<open>\<open>Option::unwrap_or_default\<close>; the default \<open>Pid\<close> is \<open>Pid::new()\<close>.\<close>

definition pid_or_default :: "Pid option \<Rightarrow> Pid" where
  "pid_or_default x = (case x of None \<Rightarrow> pid_new | Some p \<Rightarrow> p)"

definition subscribe_to_buffer :: "Subscribe \<Rightarrow> enc_op" where
  "subscribe_to_buffer p e =
     rbind (write_u16 (pid_get (pid_or_default (sub_pid p))) e) (\<lambda>e.
     rbind (write_properties (sub_properties p) e) (\<lambda>e.
     rbind (write_each write_subscribe_topic (sub_topics p) e) (\<lambda>e.
     finalize_fixed_header (packet_type_byte PT_Subscribe) (subscribe_flags p) e)))"

definition subscribe_set_pid :: "Pid \<Rightarrow> Subscribe \<Rightarrow> Subscribe" where
  "subscribe_set_pid pid p = p\<lparr>sub_pid := Some pid\<rparr>"

definition subscribe_max_packet_size :: "Subscribe \<Rightarrow> (EncodingError, nat) result" where
  "subscribe_max_packet_size p =
     rbind (properties_size (sub_properties p)) (\<lambda>sz.
     rbind (varint_len sz) (\<lambda>n.
     Ok (2 + MAX_MQTT_HEADER_LEN + n
         + sum_list (map (\<lambda>t. 2 + length (st_topic_path t) + 1) (sub_topics p)))))"

section \<open>UNSUBSCRIBE\<close>

record Unsubscribe =
  uns_pid :: "Pid option"
  uns_properties :: Properties
  uns_topics :: "str list"

definition unsubscribe_new :: "str list \<Rightarrow> Unsubscribe" where
  "unsubscribe_new topics = \<lparr>uns_pid = None, uns_properties = Slice [], uns_topics = topics\<rparr>"

definition unsubscribe_flags :: "Unsubscribe \<Rightarrow> u8" where
  "unsubscribe_flags p = 2"

definition unsubscribe_to_buffer :: "Unsubscribe \<Rightarrow> enc_op" where
  "unsubscribe_to_buffer p e =
     rbind (write_u16 (pid_get (pid_or_default (uns_pid p))) e) (\<lambda>e.
     rbind (write_properties (uns_properties p) e) (\<lambda>e.
     rbind (write_each write_str (uns_topics p) e) (\<lambda>e.
     finalize_fixed_header (packet_type_byte PT_Unsubscribe) (unsubscribe_flags p) e)))"

definition unsubscribe_set_pid :: "Pid \<Rightarrow> Unsubscribe \<Rightarrow> Unsubscribe" where
  "unsubscribe_set_pid pid p = p\<lparr>uns_pid := Some pid\<rparr>"

definition unsubscribe_max_packet_size :: "Unsubscribe \<Rightarrow> (EncodingError, nat) result" where
  "unsubscribe_max_packet_size p =
     rbind (properties_size (uns_properties p)) (\<lambda>sz.
     rbind (varint_len sz) (\<lambda>n.
     Ok (2 + MAX_MQTT_HEADER_LEN + n + sum_list (map (\<lambda>t. length t + 2) (uns_topics p)))))"

section \<open>Bodies\<close>

definition last_will_bytes :: "LastWill \<Rightarrow> bytes" where
  "last_will_bytes w = properties_bytes (lw_properties w) @ slice_bytes (lw_topic w) @ slice_bytes (lw_data w)"

definition connect_body :: "Connect \<Rightarrow> bytes" where
  "connect_body p =
     slice_bytes (protocol_name (cn_protocol p)) @ [protocol_to_u8 (cn_protocol p)] @ [connect_flags p]
     @ u16_to_be (cn_keep_alive p) @ properties_bytes (cn_properties p) @ slice_bytes (cn_client_id p)
     @ (case cn_last_will p of None \<Rightarrow> [] | Some w \<Rightarrow> last_will_bytes w)
     @ (case cn_username p of None \<Rightarrow> [] | Some u \<Rightarrow> slice_bytes u)
     @ (case cn_password p of None \<Rightarrow> [] | Some w \<Rightarrow> slice_bytes w)"

definition connect_ok :: "Connect \<Rightarrow> bool" where
  "connect_ok p \<longleftrightarrow> props_ok (cn_properties p) \<and>
     (case cn_last_will p of None \<Rightarrow> True | Some w \<Rightarrow> props_ok (lw_properties w))"

text \<open>
  A deferred payload is exact when its closure fills the length it announced with bytes that do not
  depend on the buffer.
\<close>

fun payload_bytes :: "Payload \<Rightarrow> bytes" where
  "payload_bytes (PayloadBytes v) = v"
| "payload_bytes (DeferredPayload func max_len) =
     (case func (replicate max_len 0) of Ok (n, tail) \<Rightarrow> take n tail | _ \<Rightarrow> [])"

declare payload_bytes.simps(2) [simp del]

fun payload_exact :: "Payload \<Rightarrow> bool" where
  "payload_exact (PayloadBytes v) \<longleftrightarrow> True"
| "payload_exact (DeferredPayload func max_len) \<longleftrightarrow>
     length (payload_bytes (DeferredPayload func max_len)) = max_len \<and>
     (\<forall>buffer. max_len \<le> length buffer \<longrightarrow>
        func buffer = Ok (max_len, splice buffer 0 (payload_bytes (DeferredPayload func max_len))))"

definition qos_pid_bytes :: "QoS \<Rightarrow> Pid option \<Rightarrow> bytes" where
  "qos_pid_bytes q pid = (if q = AtMostOnce then [] else u16_to_be (pid_get (pid_or_default pid)))"

definition publish_body :: "Publish \<Rightarrow> bytes" where
  "publish_body p =
     slice_bytes (pub_topic_name p) @ qos_pid_bytes (pub_qos p) (pub_pid p)
     @ properties_bytes (pub_properties p) @ payload_bytes (pub_payload p)"

definition publish_ok :: "Publish \<Rightarrow> bool" where
  "publish_ok p \<longleftrightarrow> str_ok (pub_topic_name p) \<and> props_ok (pub_properties p) \<and> payload_exact (pub_payload p) \<and>
     (pub_qos p \<noteq> AtMostOnce \<longrightarrow> (\<exists>pid. pub_pid p = Some pid \<and> pid_ok pid))"

definition subscribe_body :: "Subscribe \<Rightarrow> bytes" where
  "subscribe_body p =
     u16_to_be (pid_get (pid_or_default (sub_pid p))) @ properties_bytes (sub_properties p)
     @ concat (map (\<lambda>t. slice_bytes (st_topic_path t) @ [subscribe_options t]) (sub_topics p))"

definition subscribe_ok :: "Subscribe \<Rightarrow> bool" where
  "subscribe_ok p \<longleftrightarrow> props_ok (sub_properties p)"

definition unsubscribe_body :: "Unsubscribe \<Rightarrow> bytes" where
  "unsubscribe_body p =
     u16_to_be (pid_get (pid_or_default (uns_pid p))) @ properties_bytes (uns_properties p)
     @ concat (map slice_bytes (uns_topics p))"

definition unsubscribe_ok :: "Unsubscribe \<Rightarrow> bool" where
  "unsubscribe_ok p \<longleftrightarrow> props_ok (uns_properties p)"

section \<open>Every packet meets the encoder contract\<close>

lemma writes_last_will:
  assumes "props_ok (lw_properties w)"
  shows "writes (write_last_will w) (last_will_bytes w)"
  unfolding write_last_will_def [abs_def] last_will_bytes_def
  by (intro writes_bind props_okD assms writes_str writes_slice)

interpretation connect: packet_encoder connect_to_buffer connect_ok connect_body PT_Connect "\<lambda>_. default_flags"
proof (unfold_locales, goal_cases)
  case (1 p)
  have w: "writes (\<lambda>e.
     rbind (write_str (protocol_name (cn_protocol p)) e) (\<lambda>e.
     rbind (write_u8 (protocol_to_u8 (cn_protocol p)) e) (\<lambda>e.
     rbind (write_u8 (connect_flags p) e) (\<lambda>e.
     rbind (write_u16 (cn_keep_alive p) e) (\<lambda>e.
     rbind (write_properties (cn_properties p) e) (\<lambda>e.
     rbind (write_str (cn_client_id p) e) (\<lambda>e.
     rbind (case cn_last_will p of None \<Rightarrow> Ok e | Some w \<Rightarrow> write_last_will w e) (\<lambda>e.
     rbind (case cn_username p of None \<Rightarrow> Ok e | Some u \<Rightarrow> write_str u e) (\<lambda>e.
     case cn_password p of None \<Rightarrow> Ok e | Some w \<Rightarrow> write_slice w e))))))))) (connect_body p)"
    unfolding connect_body_def using 1
    by (intro writes_bind writes_str writes_u8 writes_u16 writes_case_option writes_slice writes_Ok
        writes_last_will props_okD) (auto simp: connect_ok_def)
  show ?case by (intro exI conjI, rule w) (simp add: fun_eq_iff connect_to_buffer_def rbind_assoc)
qed

lemma payload_exact_max_size: "payload_exact pl \<Longrightarrow> payload_max_size pl = length (payload_bytes pl)"
  by (cases pl) simp_all

lemma writes_payload:
  assumes "payload_exact pl"
  shows "writes (write_payload pl) (payload_bytes pl)"
proof (rule writesI)
  fix e e' assume wf: "wf_enc e"
  have ser: "payload_serialize pl buffer = (if length buffer < length (payload_bytes pl) then Err BufferSize
      else Ok (length (payload_bytes pl), splice buffer 0 (payload_bytes pl)))" for buffer
    using assms by (cases pl) auto
  have "take (enc_offset e) (enc_buf e) @ splice (drop (enc_offset e) (enc_buf e)) 0 (payload_bytes pl) =
      splice (enc_buf e) (enc_offset e) (payload_bytes pl)"
    by (simp add: splice_def add.commute)
  with wf show "write_payload pl e = Ok e' \<longleftrightarrow>
      enc_offset e + length (payload_bytes pl) \<le> length (enc_buf e) \<and> e' = put (payload_bytes pl) e"
    by (auto simp: write_payload_def ser put_def wf_enc_def)
qed

lemma writes_qos_pid:
  assumes "q \<noteq> AtMostOnce \<longrightarrow> (\<exists>pid. x = Some pid)"
  shows "writes (\<lambda>e. case q of
              AtMostOnce \<Rightarrow> Ok e
            | AtLeastOnce \<Rightarrow> rbind (ok_or x PidMissing) (\<lambda>pid. write_u16 (pid_get pid) e)
            | ExactlyOnce \<Rightarrow> rbind (ok_or x PidMissing) (\<lambda>pid. write_u16 (pid_get pid) e)) (qos_pid_bytes q x)"
  using assms writes_Ok writes_u16
  by (cases q) (auto simp: qos_pid_bytes_def ok_or_def pid_or_default_def)

interpretation publish: packet_encoder publish_to_buffer publish_ok publish_body PT_Publish publish_flags
proof (unfold_locales, goal_cases)
  case (1 p)
  have w: "writes (\<lambda>e.
     rbind (write_str (pub_topic_name p) e) (\<lambda>e.
     rbind (case pub_qos p of
              AtMostOnce \<Rightarrow> Ok e
            | AtLeastOnce \<Rightarrow> rbind (ok_or (pub_pid p) PidMissing) (\<lambda>pid. write_u16 (pid_get pid) e)
            | ExactlyOnce \<Rightarrow> rbind (ok_or (pub_pid p) PidMissing) (\<lambda>pid. write_u16 (pid_get pid) e)) (\<lambda>e.
     rbind (write_properties (pub_properties p) e) (write_payload (pub_payload p))))) (publish_body p)"
    unfolding publish_body_def using 1
    by (intro writes_bind writes_str writes_qos_pid writes_payload props_okD) (auto simp: publish_ok_def)
  show ?case by (intro exI conjI, rule w) (simp add: fun_eq_iff publish_to_buffer_def rbind_assoc)
qed

interpretation subscribe: packet_encoder subscribe_to_buffer subscribe_ok subscribe_body PT_Subscribe subscribe_flags
proof (unfold_locales, goal_cases)
  case (1 p)
  have t: "writes (write_subscribe_topic t) (slice_bytes (st_topic_path t) @ [subscribe_options t])" for t
    unfolding write_subscribe_topic_def [abs_def] by (intro writes_bind writes_str writes_u8)
  have w: "writes (\<lambda>e. rbind (write_u16 (pid_get (pid_or_default (sub_pid p))) e) (\<lambda>e.
     rbind (write_properties (sub_properties p) e) (write_each write_subscribe_topic (sub_topics p)))) (subscribe_body p)"
    unfolding subscribe_body_def using 1
    by (intro writes_bind writes_u16 writes_each t props_okD) (simp add: subscribe_ok_def)
  show ?case by (intro exI conjI, rule w) (simp add: fun_eq_iff subscribe_to_buffer_def rbind_assoc)
qed

interpretation unsubscribe: packet_encoder unsubscribe_to_buffer unsubscribe_ok unsubscribe_body PT_Unsubscribe
  unsubscribe_flags
proof (unfold_locales, goal_cases)
  case (1 p)
  have w: "writes (\<lambda>e. rbind (write_u16 (pid_get (pid_or_default (uns_pid p))) e) (\<lambda>e.
     rbind (write_properties (uns_properties p) e) (write_each write_str (uns_topics p)))) (unsubscribe_body p)"
    unfolding unsubscribe_body_def using 1
    by (intro writes_bind writes_u16 writes_each writes_str props_okD) (simp add: unsubscribe_ok_def)
  show ?case by (intro exI conjI, rule w) (simp add: fun_eq_iff unsubscribe_to_buffer_def rbind_assoc)
qed

section \<open>Announced packet sizes\<close>

lemma sized_properties_ok: "props_ok v \<Longrightarrow> sized_properties v = Ok (length (properties_bytes v))"
  by (simp add: sized_properties_def props_okD properties_bytes_def varint_len_bytes props_ok_def)

lemma connect_max_packet_size_exact:
  assumes "connect_ok p"
  shows "connect_max_packet_size p = Ok (MAX_MQTT_HEADER_LEN + length (connect_body p))"
  using assms
  by (auto simp: connect_max_packet_size_def connect_ok_def sized_properties_ok connect_body_def
      last_will_bytes_def split: option.splits)

lemma length_topics: "length (concat (map (\<lambda>t. slice_bytes (st_topic_path t) @ [subscribe_options t]) ts)) =
    sum_list (map (\<lambda>t. 2 + length (st_topic_path t) + 1) ts)"
  by (induction ts) simp_all

lemma length_filters: "length (concat (map slice_bytes ts)) = sum_list (map (\<lambda>t. length t + 2) ts)"
  by (induction ts) simp_all

lemma length_properties_bytes:
  "length (properties_bytes v) =
     length (varint_bytes (of_nat (length (wire_block v)))) + length (wire_block v)"
  by (simp add: properties_bytes_def)

lemma publish_max_packet_size_ok:
  assumes "publish_ok p"
  shows "publish_max_packet_size p =
    Ok (MAX_MQTT_HEADER_LEN + length (publish_body p) - length (wire_block (pub_properties p)))"
proof -
  have "props_ok (pub_properties p)" "payload_max_size (pub_payload p) = length (payload_bytes (pub_payload p))"
    using assms by (simp_all add: publish_ok_def payload_exact_max_size)
  then show ?thesis
    by (auto simp: publish_max_packet_size_def props_okD varint_len_bytes props_ok_def publish_body_def
        qos_pid_bytes_def length_properties_bytes)
qed

lemma subscribe_max_packet_size_ok:
  assumes "subscribe_ok p"
  shows "subscribe_max_packet_size p =
    Ok (MAX_MQTT_HEADER_LEN + length (subscribe_body p) - length (wire_block (sub_properties p)))"
  using assms
  by (simp add: subscribe_ok_def subscribe_max_packet_size_def props_okD varint_len_bytes props_ok_def
      subscribe_body_def length_properties_bytes length_topics)

lemma unsubscribe_max_packet_size_ok:
  assumes "unsubscribe_ok p"
  shows "unsubscribe_max_packet_size p =
    Ok (MAX_MQTT_HEADER_LEN + length (unsubscribe_body p) - length (wire_block (uns_properties p)))"
  using assms
  by (simp add: unsubscribe_ok_def unsubscribe_max_packet_size_def props_okD varint_len_bytes props_ok_def
      unsubscribe_body_def length_properties_bytes length_filters)

lemma disconnect_max_packet_size_exact:
  assumes "disconnect_ok p"
  shows "disconnect_max_packet_size p = Ok (MAX_MQTT_HEADER_LEN + length (disconnect_body p))"
  using assms
  by (auto simp: disconnect_max_packet_size_def disconnect_ok_def props_okD varint_len_bytes props_ok_def
      disconnect_body_def length_properties_bytes)

end
