(* ===== verification/Received_Packet.thy ===== *)
theory Received_Packet
  imports Packets_Out
begin

text \<open>
  \<open>ReceivedPacket\<close> (\<open>src/encoding/received_packet.rs\<close>) and \<open>PartialPublish\<close> (\<open>packets/publish.rs\<close>):
  dispatch on the packet type of a received buffer, and the two ways of taking the rest of a PUBLISH
  payload from the stream.

  A socket is code of the caller (\<open>embedded_io_async::Read\<close> and \<open>Write\<close>); it is a record of functions
  on a socket state and an argument of the operations that use it.  \<open>socket_ok\<close> is the part of the
  trait's documented contract the code relies on.
\<close>

section \<open>Sockets\<close>

datatype ReadExactError = UnexpectedEof | OtherError ErrorKind

record 's Socket =
  sk_read :: "nat \<Rightarrow> 's \<Rightarrow> (ErrorKind, bytes) result \<times> 's"
  sk_read_exact :: "nat \<Rightarrow> 's \<Rightarrow> (ReadExactError, bytes) result \<times> 's"
  sk_write_all :: "bytes \<Rightarrow> 's \<Rightarrow> (ErrorKind, unit) result \<times> 's"
  sk_flush :: "'s \<Rightarrow> (ErrorKind, unit) result \<times> 's"

text \<open>
  \<open>read\<close> returns at most as many bytes as the buffer holds, \<open>read_exact\<close> exactly as many, and neither
  panics.
\<close>

definition socket_ok :: "'s Socket \<Rightarrow> bool" where
  "socket_ok sk \<longleftrightarrow>
     (\<forall>n s. fst (sk_read sk n s) \<noteq> Panic \<and> (\<forall>bs. fst (sk_read sk n s) = Ok bs \<longrightarrow> length bs \<le> n)) \<and>
     (\<forall>n s. fst (sk_read_exact sk n s) \<noteq> Panic \<and> (\<forall>bs. fst (sk_read_exact sk n s) = Ok bs \<longrightarrow> length bs = n))"

text \<open>A socket over a byte stream that was received completely, and a log of what was sent.\<close>

definition stream_socket :: "(bytes \<times> bytes) Socket" where
  "stream_socket =
     \<lparr>sk_read = (\<lambda>n (inp, out). (Ok (take n inp), (drop n inp, out))),
      sk_read_exact = (\<lambda>n (inp, out).
        if length inp < n then (Err UnexpectedEof, ([], out)) else (Ok (take n inp), (drop n inp, out))),
      sk_write_all = (\<lambda>bs (inp, out). (Ok (), (inp, out @ bs))),
      sk_flush = (\<lambda>s. (Ok (), s))\<rparr>"

lemma stream_socket_ok: "socket_ok stream_socket"
  by (auto simp: socket_ok_def stream_socket_def)

section \<open>Partially received publishes\<close>

record PartialPublish =
  pp_buf :: bytes
  pp_packet_len :: nat

fun read_exact_error :: "ReadExactError \<Rightarrow> StateError" where
  "read_exact_error UnexpectedEof = Io BrokenPipe"
| "read_exact_error (OtherError k) = Io k"

text \<open>\<open>copy_all\<close>: the new contents of the caller's buffer, or the error, and the socket afterwards.\<close>

definition copy_all :: "'s Socket \<Rightarrow> PartialPublish \<Rightarrow> bytes \<Rightarrow> 's \<Rightarrow> (StateError, bytes) result \<times> 's" where
  "copy_all sk pp buf s =
     (if length buf < length (pp_buf pp) then (Panic, s)
      else
        let buf1 = splice buf 0 (pp_buf pp) in
        if length (pp_buf pp) < pp_packet_len pp then
          (if length buf < pp_packet_len pp then (Panic, s)
           else
             (case sk_read_exact sk (pp_packet_len pp - length (pp_buf pp)) s of
                (r, s1) \<Rightarrow> (map_ok (splice buf1 (length (pp_buf pp))) (map_err read_exact_error r), s1)))
        else (Ok buf1, s))"

function discard_loop :: "'s Socket \<Rightarrow> nat \<Rightarrow> 's \<Rightarrow> (StateError, unit) result \<times> 's" where
  "discard_loop sk left s =
     (if left > 0 then
        let n = min left 64 in
        (case sk_read_exact sk n s of
           (Ok _, s1) \<Rightarrow> discard_loop sk (left - n) s1
         | (Err e, s1) \<Rightarrow> (Err (read_exact_error e), s1)
         | (Panic, s1) \<Rightarrow> (Panic, s1))
      else (Ok (), s))"
  by pat_completeness auto
termination
  by (relation "measure (\<lambda>(sk, left, s). left)") (auto simp: min_def split: if_splits)

declare discard_loop.simps [simp del]

definition discard :: "'s Socket \<Rightarrow> PartialPublish \<Rightarrow> 's \<Rightarrow> (StateError, unit) result \<times> 's" where
  "discard sk pp s = discard_loop sk (pp_packet_len pp - length (pp_buf pp)) s"

section \<open>Received packets\<close>

datatype ReceivedPacket =
    RP_PingResp
  | RP_ConnAck ConnAck
  | RP_PartialPublish QosPid str PartialPublish
  | RP_PubAck PubAck
  | RP_PubRec PubRec
  | RP_PubRel PubRel
  | RP_PubComp PubComp
  | RP_SubAck SubAck
  | RP_UnsubAck UnsubAck
  | RP_Disconnect Disconnect

definition read_qos_pid :: "QoS \<Rightarrow> QosPid dec_op" where
  "read_qos_pid q d =
     (case q of
        AtMostOnce \<Rightarrow> Ok (QP_AtMostOnce, d)
      | AtLeastOnce \<Rightarrow> rbind (read_u16 d) (\<lambda>(n, d). rbind (pid_try_from n) (\<lambda>p. Ok (QP_AtLeastOnce p, d)))
      | ExactlyOnce \<Rightarrow> rbind (read_u16 d) (\<lambda>(n, d). rbind (pid_try_from n) (\<lambda>p. Ok (QP_ExactlyOnce p, d))))"

definition from_buffer :: "bytes \<Rightarrow> (EncodingError, ReceivedPacket) result" where
  "from_buffer buf =
     rbind (decoder_try_new buf) (\<lambda>d.
     let header = dec_fixed_header d in
     case fh_typ header of
       PT_Disconnect \<Rightarrow> rbind (disconnect_from_decoder d) (\<lambda>(p, d). Ok (RP_Disconnect p))
     | PT_PingResp \<Rightarrow> Ok RP_PingResp
     | PT_ConnAck \<Rightarrow> rbind (connack_from_decoder d) (\<lambda>(p, d). Ok (RP_ConnAck p))
     | PT_Publish \<Rightarrow>
         rbind (read_str d) (\<lambda>(topic_name, d).
         rbind (read_qos_pid (fh_qos header) d) (\<lambda>(qos_pid, d).
         let buf_len = min (packet_len d) (length buf) in
         Ok (RP_PartialPublish qos_pid topic_name \<lparr>pp_buf = take buf_len buf, pp_packet_len = packet_len d\<rparr>)))
     | PT_PubAck \<Rightarrow> rbind (puback_from_decoder d) (\<lambda>(p, d). Ok (RP_PubAck p))
     | PT_PubRec \<Rightarrow> rbind (pubrec_from_decoder d) (\<lambda>(p, d). Ok (RP_PubRec p))
     | PT_PubRel \<Rightarrow> rbind (pubrel_from_decoder d) (\<lambda>(p, d). Ok (RP_PubRel p))
     | PT_PubComp \<Rightarrow> rbind (pubcomp_from_decoder d) (\<lambda>(p, d). Ok (RP_PubComp p))
     | PT_SubAck \<Rightarrow> rbind (suback_from_decoder d) (\<lambda>(p, d). Ok (RP_SubAck p))
     | PT_UnsubAck \<Rightarrow> rbind (unsuback_from_decoder d) (\<lambda>(p, d). Ok (RP_UnsubAck p))
     | _ \<Rightarrow> Err InvalidHeader)"

section \<open>The payload of a publish\<close>

lemma copy_all_complete:
  assumes "socket_ok sk" and "pp_packet_len pp \<le> length buf" and "length (pp_buf pp) \<le> pp_packet_len pp"
    and "copy_all sk pp buf s = (Ok buf', s')"
  shows "length buf' = length buf" and "take (length (pp_buf pp)) buf' = pp_buf pp"
    and "drop (pp_packet_len pp) buf' = drop (pp_packet_len pp) buf"
proof -
  let ?n = "pp_packet_len pp - length (pp_buf pp)"
  have "length buf' = length buf \<and> take (length (pp_buf pp)) buf' = pp_buf pp \<and>
      drop (pp_packet_len pp) buf' = drop (pp_packet_len pp) buf"
  proof (cases "length (pp_buf pp) < pp_packet_len pp")
    case True
    obtain r s1 where r: "sk_read_exact sk ?n s = (r, s1)" by force
    with True assms(2,4) obtain bs where bs: "r = Ok bs" "buf' = splice (splice buf 0 (pp_buf pp)) (length (pp_buf pp)) bs"
      by (cases r) (auto simp: copy_all_def Let_def split: if_splits)
    have "length bs = ?n" using assms(1) r bs(1) unfolding socket_ok_def by (metis fst_conv)
    with True assms(2) bs(2) show ?thesis by (auto simp: splice_def)
  next
    case False
    with assms show ?thesis by (auto simp: copy_all_def Let_def splice_def split: if_splits)
  qed
  then show "length buf' = length buf" "take (length (pp_buf pp)) buf' = pp_buf pp"
    "drop (pp_packet_len pp) buf' = drop (pp_packet_len pp) buf" by blast+
qed

lemma copy_all_no_panic:
  assumes "socket_ok sk" and "length (pp_buf pp) \<le> pp_packet_len pp" and "pp_packet_len pp \<le> length buf"
  shows "fst (copy_all sk pp buf s) \<noteq> Panic"
proof -
  obtain r s1 where r: "sk_read_exact sk (pp_packet_len pp - length (pp_buf pp)) s = (r, s1)" by force
  then have "r \<noteq> Panic" using assms(1) unfolding socket_ok_def by (metis fst_conv)
  with assms(2,3) r show ?thesis by (cases r) (auto simp: copy_all_def Let_def)
qed

text \<open>On a stream, both leave the socket at the first byte after the packet.\<close>

lemma discard_loop_stream:
  "left \<le> length inp \<Longrightarrow> discard_loop stream_socket left (inp, out) = (Ok (), (drop left inp, out))"
proof (induction left arbitrary: inp rule: less_induct)
  case (less left)
  show ?case
  proof (cases "left = 0")
    case True
    then show ?thesis by (simp add: discard_loop.simps)
  next
    case False
    then have "discard_loop stream_socket left (inp, out) =
        discard_loop stream_socket (left - min left 64) (drop (min left 64) inp, out)"
      using less.prems by (subst discard_loop.simps) (auto simp: stream_socket_def Let_def min_def)
    also have "\<dots> = (Ok (), (drop (left - min left 64) (drop (min left 64) inp), out))"
      using False less.prems by (intro less.IH) auto
    finally show ?thesis by simp
  qed
qed

lemma copy_all_stream:
  assumes "length (pp_buf pp) \<le> pp_packet_len pp" and "pp_packet_len pp \<le> length buf"
    and "pp_packet_len pp - length (pp_buf pp) \<le> length inp"
  shows "copy_all stream_socket pp buf (inp, out) =
    (Ok (splice buf 0 (pp_buf pp @ take (pp_packet_len pp - length (pp_buf pp)) inp)),
     (drop (pp_packet_len pp - length (pp_buf pp)) inp, out))"
  using assms by (auto simp: copy_all_def Let_def stream_socket_def splice_def)

section \<open>Dispatch\<close>

lemma dec_safe_read_qos_pid: "dec_safe (read_qos_pid q)"
  unfolding read_qos_pid_def [abs_def]
  by (cases q; simp only: QoS.case; intro dec_safe_intros pid_try_from_not_Panic)

lemma dec_safe_not_Panic: "dec_safe f \<Longrightarrow> wf_dec d \<Longrightarrow> f d \<noteq> Panic"
  by (simp add: dec_safe_def)

lemma decoder_new_wf:
  assumes "decoder_try_new buf = Ok d" and "length buf \<le> packet_len d"
  shows "wf_dec d"
  using decoder_try_new_wf [OF assms(1)] assms(2) by (simp add: wf_dec_def)

lemma rbind_Ok_Panic: "rbind r (\<lambda>(p, d). Ok (f p)) = Panic \<longleftrightarrow> r = Panic"
  by (cases r) (auto split: prod.splits)

lemma publish_branch_safe:
  assumes "wf_dec d"
  shows "rbind (read_str d) (\<lambda>(topic_name, d). rbind (read_qos_pid q d) (\<lambda>(qos_pid, d). Ok (f topic_name qos_pid d)))
    \<noteq> Panic"
proof -
  have "dec_safe (\<lambda>d. rbind (read_str d) (\<lambda>(t, d). rbind (read_qos_pid q d) (\<lambda>(qp, d). Ok ((), d))))"
    by (intro dec_safe_bind dec_safe_str dec_safe_read_qos_pid dec_safe_return)
  with assms show ?thesis
    by (auto simp: dec_safe_def rbind_Panic_iff)
qed

lemma from_buffer_panic:
  assumes "decoder_try_new buf = Ok d" and "length buf \<le> packet_len d" and "from_buffer buf = Panic"
  shows "fh_typ (dec_fixed_header d) \<in> {PT_SubAck, PT_UnsubAck} \<and>
    (\<exists>pid props payload d'. codes_prefix d = Ok ((pid, props, payload), d') \<and>
       MAX_SUB_TOPICS_PER_MSG < length payload)"
proof -
  have wf: "wf_dec d" by (rule decoder_new_wf [OF assms(1,2)])
  note np = dec_safe_connack dec_safe_disconnect dec_safe_puback dec_safe_pubrec dec_safe_pubrel dec_safe_pubcomp
  show ?thesis
  proof (cases "fh_typ (dec_fixed_header d)")
    case PT_Publish
    with assms(1,3) show ?thesis by (simp add: from_buffer_def Let_def publish_branch_safe [OF wf])
  qed (use assms(1,3) np [THEN dec_safe_not_Panic, OF wf] codes_panic [OF wf] in
      \<open>auto simp: from_buffer_def Let_def rbind_Ok_Panic\<close>)
qed

section \<open>Decoding an encoded publish\<close>

lemma publish_header:
  "packet_type_try_from ((packet_type_byte PT_Publish OR publish_flags p) AND 0xF0) = Some PT_Publish"
  "qos_try_from (drop_bit 1 ((packet_type_byte PT_Publish OR publish_flags p) AND 0x06)) = Some (pub_qos p)"
  by (cases "pub_qos p"; cases "pub_dup p"; cases "pub_retain p";
      simp add: packet_type_byte_def publish_flags_def packet_type_try_from_def all_packet_types_def qos_try_from_def)+

definition qos_pid_of :: "QoS \<Rightarrow> Pid option \<Rightarrow> QosPid" where
  "qos_pid_of q pid =
     (case q of AtMostOnce \<Rightarrow> QP_AtMostOnce | AtLeastOnce \<Rightarrow> QP_AtLeastOnce (pid_or_default pid)
      | ExactlyOnce \<Rightarrow> QP_ExactlyOnce (pid_or_default pid))"

lemma reads_qos_pid:
  assumes "q \<noteq> AtMostOnce \<longrightarrow> (\<exists>p. pid = Some p \<and> pid_ok p)"
  shows "reads (read_qos_pid q) (qos_pid_bytes q pid) (qos_pid_of q pid)"
proof (cases "q = AtMostOnce")
  case True
  then show ?thesis
    using reads_return [of QP_AtMostOnce]
    by (simp add: reads_def read_qos_pid_def qos_pid_bytes_def qos_pid_of_def)
next
  case False
  with assms obtain p where "pid = Some p" "pid_ok p" by blast
  with False reads_u16 [of "pid_get p"] show ?thesis
    by (cases q) (auto simp: reads_def read_qos_pid_def qos_pid_bytes_def qos_pid_of_def pid_or_default_def)
qed

text \<open>A PUBLISH is recognised by its first bytes, once they hold the topic and the identifier.\<close>

lemma from_buffer_publish_prefix:
  assumes "publish_ok p" and "length (publish_body p) < 268435456"
  defines "h \<equiv> fixed_header_bytes (packet_type_byte PT_Publish) (publish_flags p) (length (publish_body p))"
  assumes "length h + length (slice_bytes (pub_topic_name p)) + length (qos_pid_bytes (pub_qos p) (pub_pid p)) \<le> m"
    and "m \<le> length (h @ publish_body p)"
  shows "from_buffer (take m (h @ publish_body p)) =
    Ok (RP_PartialPublish (qos_pid_of (pub_qos p) (pub_pid p)) (pub_topic_name p)
      \<lparr>pp_buf = take m (h @ publish_body p), pp_packet_len = length (h @ publish_body p)\<rparr>)"
proof -
  let ?t = "slice_bytes (pub_topic_name p)" and ?q = "qos_pid_bytes (pub_qos p) (pub_pid p)"
  let ?all = "properties_bytes (pub_properties p) @ payload_bytes (pub_payload p)"
  define rest where "rest = take (m - length h - length ?t - length ?q) ?all"
  have bs: "take m (h @ publish_body p) = h @ ?t @ ?q @ rest"
    using assms(4) by (simp add: publish_body_def rest_def)
  let ?d = "decoder_at (h @ ?t @ ?q @ rest) (length h)
    (header_of (packet_type_byte PT_Publish OR publish_flags p) PT_Publish (pub_qos p) (length (publish_body p)))"
  let ?d1 = "?d\<lparr>dec_offset := length h + length ?t\<rparr>"
  let ?d2 = "?d1\<lparr>dec_offset := length (h @ ?t) + length ?q\<rparr>"
  have d: "decoder_try_new (h @ ?t @ ?q @ rest) = Ok ?d"
    unfolding h_def by (rule decoder_try_new_header [OF assms(2) publish_header])
  have "read_str ?d = Ok (pub_topic_name p, ?d1)"
    using assms(1) by (intro readsD [OF reads_str, where post = "?q @ rest"]) (simp_all add: publish_ok_def str_ok_def)
  moreover have "read_qos_pid (pub_qos p) ?d1 = Ok (qos_pid_of (pub_qos p) (pub_pid p), ?d2)"
    using assms(1) by (intro readsD [OF reads_qos_pid, where post = rest]) (simp_all add: publish_ok_def)
  moreover have "packet_len ?d2 = length (h @ publish_body p)" by (simp add: packet_len_def header_of_def)
  moreover have "length (h @ ?t @ ?q @ rest) = m" using bs assms(5) by (metis length_take min.absorb2)
  moreover from this have "take (min (length (h @ publish_body p)) (length (h @ ?t @ ?q @ rest))) (h @ ?t @ ?q @ rest) =
      h @ ?t @ ?q @ rest" using assms(5) by simp
  ultimately have "from_buffer (h @ ?t @ ?q @ rest) =
    Ok (RP_PartialPublish (qos_pid_of (pub_qos p) (pub_pid p)) (pub_topic_name p)
      \<lparr>pp_buf = h @ ?t @ ?q @ rest, pp_packet_len = length (h @ publish_body p)\<rparr>)"
    using d unfolding from_buffer_def Let_def by (simp add: header_of_def)
  then show ?thesis unfolding bs .
qed

lemma from_buffer_publish:
  assumes "publish_ok p" and "length (publish_body p) < 268435456"
  defines "bs \<equiv> fixed_header_bytes (packet_type_byte PT_Publish) (publish_flags p) (length (publish_body p)) @ publish_body p"
  shows "from_buffer bs = Ok (RP_PartialPublish (qos_pid_of (pub_qos p) (pub_pid p)) (pub_topic_name p)
    \<lparr>pp_buf = bs, pp_packet_len = length bs\<rparr>)"
  using from_buffer_publish_prefix [OF assms(1,2), of "length bs"] by (simp add: bs_def publish_body_def)

end
