(* ===== verification/Property_Iterator.thy ===== *)
theory Property_Iterator
  imports Properties
begin

text \<open>
  The property iterator of \<open>src/encoding/properties.rs\<close>: it never panics on a received block,
  every step moves forward, so iteration ends on any block (\<open>props_collect\<close> is total), and
  iterating over the encoding of a property list gives the list back.
\<close>

section \<open>Iterator operations stay inside the block\<close>

definition iter_inside :: "PropertiesIter \<Rightarrow> bool" where
  "iter_inside it \<longleftrightarrow> (\<exists>data. pi_data it = Encoded data) \<and> pi_index it \<le> props_len (pi_data it)"

definition iter_frame :: "PropertiesIter \<Rightarrow> PropertiesIter \<Rightarrow> bool" where
  "iter_frame it it' \<longleftrightarrow> pi_data it' = pi_data it \<and> pi_index it \<le> pi_index it' \<and> iter_inside it'"

definition iter_safe :: "'a iter_op \<Rightarrow> bool" where
  "iter_safe f \<longleftrightarrow> (\<forall>it. iter_inside it \<longrightarrow> fst (f it) \<noteq> Panic \<and> iter_frame it (snd (f it)))"

named_theorems iter_safe_intros \<open>introduction rules for panic freedom of iterator operations\<close>

lemma iter_safe_return [iter_safe_intros]: "iter_safe (ireturn x)"
  by (simp add: iter_safe_def ireturn_def iter_frame_def)

lemma iter_safe_err [iter_safe_intros]: "iter_safe (\<lambda>it. (Err e, it))"
  by (simp add: iter_safe_def iter_frame_def)

lemma iter_frame_trans: "iter_frame a b \<Longrightarrow> iter_frame b c \<Longrightarrow> iter_frame a c"
  by (auto simp: iter_frame_def)

lemma iter_safe_bind [iter_safe_intros]:
  assumes "iter_safe m" and "\<And>x. iter_safe (f x)"
  shows "iter_safe (ibind m f)"
  unfolding iter_safe_def
proof (intro allI impI)
  fix it assume ins: "iter_inside it"
  obtain r it1 where m: "m it = (r, it1)" by force
  with assms(1) ins have r: "r \<noteq> Panic" and fr: "iter_frame it it1"
    by (force simp: iter_safe_def)+
  show "fst (ibind m f it) \<noteq> Panic \<and> iter_frame it (snd (ibind m f it))"
  proof (cases r)
    case (Ok x)
    have "iter_inside it1" using fr by (simp add: iter_frame_def)
    with assms(2) [of x] have "fst (f x it1) \<noteq> Panic" "iter_frame it1 (snd (f x it1))"
      by (simp_all add: iter_safe_def)
    with Ok m fr show ?thesis by (auto simp: ibind_def intro: iter_frame_trans)
  qed (use m r fr in \<open>simp_all add: ibind_def\<close>)
qed

lemma iter_safe_with_encoded [iter_safe_intros]:
  "(\<And>data. iter_safe (f data)) \<Longrightarrow> iter_safe (with_encoded f)"
  unfolding iter_safe_def with_encoded_def
  by (metis PropsData.exhaust PropsData.simps(5,6) iter_inside_def PropsData.distinct(1))

lemma iter_safe_check_take:
  assumes "\<And>b. iter_safe (g b)"
  shows "iter_safe (ibind (iter_check_remaining n) (\<lambda>_. ibind (iter_take n) g))"
  unfolding iter_safe_def
proof (intro allI impI)
  fix it assume ins: "iter_inside it"
  then obtain data where d: "pi_data it = Encoded data" "pi_index it \<le> length data"
    by (auto simp: iter_inside_def)
  show "fst (ibind (iter_check_remaining n) (\<lambda>_. ibind (iter_take n) g) it) \<noteq> Panic \<and>
      iter_frame it (snd (ibind (iter_check_remaining n) (\<lambda>_. ibind (iter_take n) g) it))"
  proof (cases "length data - pi_index it < n")
    case True
    with d ins show ?thesis by (simp add: ibind_def iter_check_remaining_def iter_frame_def)
  next
    case False
    define it1 where "it1 = it\<lparr>pi_index := pi_index it + n\<rparr>"
    have fr: "iter_frame it it1" using False d by (simp add: it1_def iter_frame_def iter_inside_def)
    then have "iter_inside it1" by (simp add: iter_frame_def)
    with assms have "fst (g b it1) \<noteq> Panic" "iter_frame it1 (snd (g b it1))" for b
      by (simp_all add: iter_safe_def)
    then show ?thesis
      using False d fr
      by (auto simp: ibind_def iter_check_remaining_def iter_take_def with_encoded_def it1_def
          intro: iter_frame_trans)
  qed
qed

lemma iter_safe_u8 [iter_safe_intros]: "iter_safe iter_read_u8"
  unfolding iter_read_u8_def by (intro iter_safe_with_encoded iter_safe_check_take iter_safe_return)

lemma iter_safe_u16 [iter_safe_intros]: "iter_safe iter_read_u16"
  unfolding iter_read_u16_def by (intro iter_safe_with_encoded iter_safe_check_take iter_safe_return)

lemma iter_safe_u32 [iter_safe_intros]: "iter_safe iter_read_u32"
  unfolding iter_read_u32_def by (intro iter_safe_with_encoded iter_safe_check_take iter_safe_return)

lemma ibind_return [simp]: "ibind m ireturn = m"
  by (rule ext) (auto simp: ibind_def ireturn_def split: prod.splits result.splits)

lemma iter_safe_slice [iter_safe_intros]: "iter_safe iter_read_slice"
proof -
  have "iter_safe (ibind (iter_check_remaining n) (\<lambda>_. iter_take n))" for n
    using iter_safe_check_take [of ireturn n, OF iter_safe_return] by simp
  then show ?thesis
    unfolding iter_read_slice_def by (blast intro: iter_safe_with_encoded iter_safe_bind iter_safe_u16)
qed

lemma iter_safe_str [iter_safe_intros]: "iter_safe iter_read_str"
proof -
  have "iter_safe (if utf8_valid bs then ireturn bs else (\<lambda>it. (Err InvalidString, it)))" for bs
    by (auto intro: iter_safe_intros)
  then show ?thesis unfolding iter_read_str_def by (intro iter_safe_bind iter_safe_slice)
qed

lemma iter_safe_varint [iter_safe_intros]: "iter_safe iter_read_varint"
  unfolding iter_read_varint_def
  by (auto simp: iter_safe_def with_encoded_def iter_inside_def iter_frame_def
      split: PropsData.splits result.splits prod.splits dest!: varint_loop_count)

lemma iter_safe_value [iter_safe_intros]: "iter_safe (read_property_value i)"
  by (cases i) (auto intro!: iter_safe_intros)

lemma iter_read_u8_inside:
  assumes "iter_inside it" and "pi_index it < props_len (pi_data it)"
  shows "\<exists>b. iter_read_u8 it = (Ok b, it\<lparr>pi_index := pi_index it + 1\<rparr>)"
  using assms
  by (auto simp: iter_read_u8_def iter_inside_def with_encoded_def ibind_def iter_check_remaining_def
      iter_take_def ireturn_def)

lemma read_property_progress:
  assumes "iter_inside it" and "pi_index it < props_len (pi_data it)"
  shows "fst (read_property it) \<noteq> Panic \<and> iter_frame it (snd (read_property it)) \<and>
    pi_index it < pi_index (snd (read_property it))"
proof -
  obtain b where b: "iter_read_u8 it = (Ok b, it\<lparr>pi_index := pi_index it + 1\<rparr>)"
    using iter_read_u8_inside [OF assms] by blast
  let ?it1 = "it\<lparr>pi_index := pi_index it + 1\<rparr>"
  have ins: "iter_inside ?it1" using assms by (auto simp: iter_inside_def)
  let ?g = "case property_identifier_try_from b of
      None \<Rightarrow> (\<lambda>it. (Err (InvalidProperty b), it)) | Some i \<Rightarrow> read_property_value i"
  have "iter_safe ?g" by (cases "property_identifier_try_from b") (auto intro: iter_safe_intros)
  with ins have "fst (?g ?it1) \<noteq> Panic" "iter_frame ?it1 (snd (?g ?it1))"
    unfolding iter_safe_def by blast+
  moreover have "read_property it = ?g ?it1"
    using assms(1) b by (auto simp: read_property_def iter_inside_def ibind_def)
  ultimately show ?thesis by (auto simp: iter_frame_def)
qed

lemma props_next_progress:
  assumes "props_next it = Some (r, it1)"
  shows "pi_data it1 = pi_data it \<and> pi_index it < pi_index it1"
proof (cases "pi_data it")
  case (Decoded data)
  with assms show ?thesis by (auto simp: props_next_def read_property_def split: if_splits)
next
  case (Encoded data)
  with assms have "iter_inside it" "pi_index it < props_len (pi_data it)" "it1 = snd (read_property it)"
    by (auto simp: props_next_def iter_inside_def split: if_splits prod.splits)
  with read_property_progress show ?thesis by (auto simp: iter_frame_def)
qed

lemma props_next_decreases:
  assumes "props_next it = Some (r, it1)"
  shows "props_len (pi_data it1) - pi_index it1 < props_len (pi_data it) - pi_index it"
  using props_next_progress [OF assms] assms by (auto simp: props_next_def split: if_splits)

section \<open>Iterating to the end\<close>

function props_collect :: "PropertiesIter \<Rightarrow> (Error, Property) result list" where
  "props_collect it = (case props_next it of None \<Rightarrow> [] | Some (r, it1) \<Rightarrow> r # props_collect it1)"
  by pat_completeness auto
termination
  by (relation "measure (\<lambda>it. props_len (pi_data it) - pi_index it)") (auto dest: props_next_decreases)

declare props_collect.simps [simp del]

lemma props_collect_no_panic:
  assumes "pi_index it \<le> props_len (pi_data it)" and "r \<in> set (props_collect it)"
  shows "r \<noteq> Panic"
  using assms
proof (induction it rule: props_collect.induct)
  case (1 it)
  from "1.prems"(2) obtain r0 it1 where n: "props_next it = Some (r0, it1)"
    and r: "r = r0 \<or> r \<in> set (props_collect it1)"
    by (cases "props_next it") (auto simp: props_collect.simps [of it])
  have lt: "pi_index it < props_len (pi_data it)" using n by (auto simp: props_next_def split: if_splits)
  have "r0 \<noteq> Panic \<and> pi_index it1 \<le> props_len (pi_data it1)"
  proof (cases "pi_data it")
    case (Decoded data)
    with n lt show ?thesis by (auto simp: props_next_def read_property_def split: if_splits)
  next
    case (Encoded data)
    with lt have "iter_inside it" by (simp add: iter_inside_def)
    with read_property_progress [OF this lt] n show ?thesis
      by (auto simp: props_next_def iter_frame_def iter_inside_def split: if_splits prod.splits)
  qed
  with r "1.IH" [OF n refl] show ?case by auto
qed

lemma props_collect_length: "length (props_collect it) \<le> props_len (pi_data it) - pi_index it"
proof (induction it rule: props_collect.induct)
  case (1 it)
  show ?case
  proof (cases "props_next it")
    case None
    then show ?thesis by (simp add: props_collect.simps [of it])
  next
    case (Some x)
    obtain r it1 where x: "x = (r, it1)" by force
    have "pi_index it < props_len (pi_data it)" using Some by (auto simp: props_next_def split: if_splits)
    with "1.IH" [OF Some x [symmetric]] props_next_progress [of it r it1] Some x show ?thesis
      by (auto simp: props_collect.simps [of it])
  qed
qed

section \<open>Round trip\<close>

definition ireads :: "'a iter_op \<Rightarrow> bytes \<Rightarrow> 'a \<Rightarrow> bool" where
  "ireads f bs v \<longleftrightarrow>
     (\<forall>it pre post. pi_data it = Encoded (pre @ bs @ post) \<longrightarrow> pi_index it = length pre \<longrightarrow>
        f it = (Ok v, it\<lparr>pi_index := length pre + length bs\<rparr>))"

lemma ireadsD:
  "ireads f bs v \<Longrightarrow> pi_data it = Encoded (pre @ bs @ post) \<Longrightarrow> pi_index it = length pre \<Longrightarrow>
   f it = (Ok v, it\<lparr>pi_index := length pre + length bs\<rparr>)"
  by (simp add: ireads_def)

lemma ireads_return [ireads_intros]: "ireads (ireturn v) [] v"
  by (auto simp: ireads_def ireturn_def intro: PropertiesIter.equality)

lemma ireads_bind:
  assumes f: "ireads f as x" and g: "ireads (g x) bs y"
  shows "ireads (ibind f g) (as @ bs) y"
  unfolding ireads_def
proof (intro allI impI)
  fix it :: PropertiesIter and pre post
  assume b: "pi_data it = Encoded (pre @ (as @ bs) @ post)" and i: "pi_index it = length pre"
  from b i have "f it = (Ok x, it\<lparr>pi_index := length pre + length as\<rparr>)"
    by (intro ireadsD [OF f]) simp_all
  moreover have "g x (it\<lparr>pi_index := length pre + length as\<rparr>) =
      (Ok y, it\<lparr>pi_index := length pre + length as, pi_index := length (pre @ as) + length bs\<rparr>)"
    by (rule ireadsD [OF g, of _ "pre @ as" post]) (simp_all add: b)
  ultimately show "ibind f g it = (Ok y, it\<lparr>pi_index := length pre + length (as @ bs)\<rparr>)"
    by (simp add: ibind_def add.assoc)
qed

lemma ireads_map [ireads_intros]:
  assumes "ireads f bs x"
  shows "ireads (ibind f (\<lambda>v. ireturn (h v))) bs (h x)"
  using ireads_bind [OF assms ireads_return, of h] by simp

lemma ireads_u8 [ireads_intros]: "ireads iter_read_u8 [v] v"
  by (auto simp: ireads_def iter_read_u8_def with_encoded_def ibind_def iter_check_remaining_def
      iter_take_def ireturn_def slice_def)

lemma ireads_u16 [ireads_intros]: "ireads iter_read_u16 (u16_to_be v) v"
  by (auto simp: ireads_def iter_read_u16_def with_encoded_def ibind_def iter_check_remaining_def
      iter_take_def ireturn_def slice_def u16_to_be_def byte_simps)

lemma ireads_u32 [ireads_intros]: "ireads iter_read_u32 (u32_to_be v) v"
  by (auto simp: ireads_def iter_read_u32_def with_encoded_def ibind_def iter_check_remaining_def
      iter_take_def ireturn_def slice_def u32_to_be_def byte_simps numeral_2_eq_2 numeral_3_eq_3)

lemma ireads_slice [ireads_intros]:
  assumes "length v < 65536"
  shows "ireads iter_read_slice (slice_bytes v) v"
proof -
  let ?n = "of_nat (length v) :: u16"
  have "unat ?n = length v" using assms by (simp add: unat_of_nat)
  then have "ireads (ibind (iter_check_remaining (unat ?n)) (\<lambda>_. iter_take (unat ?n))) v v"
    by (auto simp: ireads_def ibind_def iter_check_remaining_def iter_take_def with_encoded_def slice_def)
  then have "ireads (ibind iter_read_u16 (\<lambda>len. ibind (iter_check_remaining (unat len)) (\<lambda>_. iter_take (unat len))))
      (u16_to_be ?n @ v) v"
    by (rule ireads_bind [OF ireads_u16])
  then show ?thesis
    by (simp add: ireads_def iter_read_slice_def with_encoded_def slice_bytes_def)
qed

lemma ireads_str [ireads_intros]:
  assumes "str_ok v"
  shows "ireads iter_read_str (slice_bytes v) v"
  using ireads_slice [of v] assms
  by (auto simp: ireads_def iter_read_str_def str_ok_def ibind_def ireturn_def)

lemma ireads_varint [ireads_intros]:
  assumes "unat v < 268435456"
  shows "ireads iter_read_varint (varint_bytes v) v"
  using varint_loop_varint_bytes [OF assms]
  by (auto simp: ireads_def iter_read_varint_def with_encoded_def)

lemma ireads_value:
  assumes "prop_ok p"
  shows "ireads (read_property_value (property_identifier p)) (prop_value_bytes p) p"
proof (cases p)
  case (UserProperty k v)
  with assms have "ireads (ibind iter_read_str (\<lambda>v. ireturn (UserProperty k v))) (slice_bytes v) (UserProperty k v)"
    by (intro ireads_map ireads_str) simp
  with assms UserProperty show ?thesis by (auto intro!: ireads_bind [OF ireads_str])
qed (use assms in \<open>auto intro!: ireads_intros\<close>)

lemma property_identifier_roundtrip [simp]:
  "property_identifier_try_from (property_identifier_to_u8 i) = Some i"
  by (cases i) (simp_all add: property_identifier_try_from_def all_property_identifiers_def)

lemma read_property_bytes:
  assumes "prop_ok p" and "pi_data it = Encoded (pre @ property_bytes p @ post)" and "pi_index it = length pre"
  shows "read_property it = (Ok p, it\<lparr>pi_index := length pre + length (property_bytes p)\<rparr>)"
proof -
  let ?g = "\<lambda>b. case property_identifier_try_from b of
      None \<Rightarrow> (\<lambda>it. (Err (InvalidProperty b), it)) | Some i \<Rightarrow> read_property_value i"
  have "ireads (ibind iter_read_u8 ?g) ([property_id p] @ prop_value_bytes p) p"
    using ireads_value [OF assms(1)] by (intro ireads_bind [OF ireads_u8]) (simp add: property_id_def)
  from ireadsD [OF this, of it pre post] assms(2,3) show ?thesis
    by (simp add: read_property_def property_bytes_def)
qed

lemma props_collect_encoded:
  assumes "\<forall>p \<in> set ps. prop_ok p" and "pi_data it = Encoded (pre @ block_bytes ps)" and "pi_index it = length pre"
  shows "props_collect it = map Ok ps"
  using assms
proof (induction ps arbitrary: it pre)
  case Nil
  then show ?case by (subst props_collect.simps) (simp add: props_next_def)
next
  case (Cons p ps)
  let ?it1 = "it\<lparr>pi_index := length pre + length (property_bytes p)\<rparr>"
  have "read_property it = (Ok p, ?it1)"
    using Cons.prems by (intro read_property_bytes [where post = "block_bytes ps"]) simp_all
  then have "props_next it = Some (Ok p, ?it1)"
    using Cons.prems by (simp add: props_next_def property_bytes_def)
  moreover have "props_collect ?it1 = map Ok ps"
    using Cons.prems by (intro Cons.IH [of _ "pre @ property_bytes p"]) simp_all
  ultimately show ?case by (subst props_collect.simps) simp
qed

section \<open>Searching and comparing\<close>

text \<open>\<open>response_topic\<close>, which leaves the iterator after the property it found.\<close>

function response_topic :: "PropertiesIter \<Rightarrow> str option \<times> PropertiesIter" where
  "response_topic it =
     (case props_next it of
        None \<Rightarrow> (None, it)
      | Some (Ok (ResponseTopic topic), it1) \<Rightarrow> (Some topic, it1)
      | Some (_, it1) \<Rightarrow> response_topic it1)"
  by pat_completeness auto
termination
  by (relation "measure (\<lambda>it. props_len (pi_data it) - pi_index it)") (auto dest: props_next_decreases)

declare response_topic.simps [simp del]

text \<open>\<open>PartialEq for Properties\<close>: equality of what the iterators give.\<close>

definition properties_eq :: "Properties \<Rightarrow> Properties \<Rightarrow> ('e, bool) result" where
  "properties_eq a b =
     rbind (properties_iter a) (\<lambda>i. rbind (properties_iter b) (\<lambda>j. Ok (props_collect i = props_collect j)))"

fun first_response_topic :: "(Error, Property) result list \<Rightarrow> str option" where
  "first_response_topic [] = None"
| "first_response_topic (Ok (ResponseTopic topic) # rs) = Some topic"
| "first_response_topic (r # rs) = first_response_topic rs"

lemma response_topic_first: "fst (response_topic it) = first_response_topic (props_collect it)"
proof (induction it rule: props_collect.induct)
  case (1 it)
  show ?case
  proof (cases "props_next it")
    case (Some x)
    obtain r it1 where x: "x = (r, it1)" by force
    have "fst (response_topic it1) = first_response_topic (props_collect it1)" using "1.IH" [OF Some x [symmetric]] .
    then show ?thesis
      using Some x
      by (subst response_topic.simps, subst props_collect.simps) (cases r; auto split: Property.split)
  qed (simp add: response_topic.simps [of it] props_collect.simps [of it])
qed

lemma props_collect_decoded:
  "pi_data it = Decoded ps \<Longrightarrow> props_collect it = map Ok (drop (pi_index it) ps)"
proof (induction it rule: props_collect.induct)
  case (1 it)
  show ?case
  proof (cases "pi_index it < length ps")
    case True
    let ?it1 = "it\<lparr>pi_index := pi_index it + 1\<rparr>"
    have n: "props_next it = Some (Ok (ps ! pi_index it), ?it1)"
      using 1(2) True by (simp add: props_next_def read_property_def)
    have "props_collect ?it1 = map Ok (drop (pi_index it + 1) ps)" using "1.IH" [OF n refl] 1(2) by simp
    then show ?thesis
      using n True by (subst props_collect.simps) (simp add: Cons_nth_drop_Suc flip: list.map)
  next
    case False
    then show ?thesis using 1(2) by (subst props_collect.simps) (simp add: props_next_def)
  qed
qed

text \<open>A received block equals the list it was encoded from, and no other.\<close>

lemma properties_eq_wire:
  assumes "\<forall>p \<in> set ps. prop_ok p"
  shows "properties_eq (DataBlock (block_bytes ps)) (Slice qs) = Ok (ps = qs)"
  using props_collect_encoded [OF assms, of "\<lparr>pi_data = Encoded (block_bytes ps), pi_index = 0\<rparr>" "[]"]
    inj_map_eq_map [of Ok ps qs]
  by (simp add: properties_eq_def props_collect_decoded inj_def)

end
