(* ===== verification/Codec_Properties.thy ===== *)
theory Codec_Properties
  imports Received_Packet Property_Iterator
begin

text \<open>
  What the packet codec guarantees: encoding then receiving gives the packet back, for every packet the
  client decodes and for PUBLISH; announced packet sizes; packet identifiers; and the properties iterator.
\<close>

section \<open>Packet identifiers\<close>

text \<open>
  Packet identifier arithmetic never produces the reserved identifier 0 and never panics, and
  subtracting what was added gives the identifier back.
\<close>

theorem pid_add_sub_inverse:
  assumes "pid_ok p"
  shows "\<exists>q. pid_add p u = (Ok q :: ('e, Pid) result) \<and> pid_ok q \<and> pid_sub q u = (Ok p :: ('e, Pid) result)"
proof -
  obtain q where q: "pid_add p u = (Ok q :: ('e, Pid) result)" "pid_ok q"
    "unat (pid_get q) = (unat (pid_get p) - 1 + unat u) mod 65535 + 1"
    using pid_add_unat [OF assms] by blast
  obtain r where r: "pid_sub q u = (Ok r :: ('e, Pid) result)" "pid_ok r"
    "unat (pid_get r) = (unat (pid_get q) + 65534 - unat u) mod 65535 + 1"
    using pid_sub_unat [OF q(2)] by blast
  let ?a = "unat (pid_get p)" and ?u = "unat u"
  have a: "1 \<le> ?a" "?a < 65536" "?u < 65536"
    using assms u16_eq_0_iff [of "pid_get p"] unat_u16_less [of "pid_get p"] unat_u16_less [of u]
    by (auto simp: pid_ok_def)
  have "(?a - 1 + ?u) mod 65535 + 1 + 65534 - ?u = (?a - 1 + ?u) mod 65535 + 65535 - ?u" by simp
  moreover have "((?a - 1 + ?u) mod 65535 + 65535 - ?u) mod 65535 = ?a - 1"
  proof (cases "?a - 1 + ?u < 65535")
    case True
    then have "(?a - 1 + ?u) mod 65535 + 65535 - ?u = ?a - 1 + 65535" using a by simp
    then show ?thesis using a True by (simp add: mod_once)
  next
    case False
    show ?thesis
    proof (cases "?a - 1 + ?u < 2 * 65535")
      case True
      then have "(?a - 1 + ?u) mod 65535 + 65535 - ?u = ?a - 1" using False a by (simp add: mod_once)
      then show ?thesis using a by simp
    next
      case False
      then have "?a = 65535 \<and> ?u = 65535 \<or> ?a - 1 + ?u = 131070" using a by linarith
      then show ?thesis using a False by auto
    qed
  qed
  ultimately have "unat (pid_get r) = ?a" using r(3) q(3) a by simp
  then have "r = p" by (cases r; cases p) (simp add: unsigned_word_eqI)
  with q r show ?thesis by blast
qed

theorem pid_add_sub_inverse_witness:
  "\<exists>q. pid_add (Pid 65535) 3 = (Ok q :: (EncodingError, Pid) result) \<and> pid_ok q \<and>
     pid_sub q 3 = (Ok (Pid 65535) :: (EncodingError, Pid) result)"
  by (rule pid_add_sub_inverse) (simp add: pid_ok_def)

section \<open>Round trips\<close>

text \<open>The condition under which a packet body can be encoded into a buffer.\<close>

definition fits :: "bytes \<Rightarrow> bytes \<Rightarrow> bool" where
  "fits body buf \<longleftrightarrow> MAX_MQTT_HEADER_LEN + length body \<le> length buf \<and> length buf < 2 ^ 32 \<and>
     length body < 268435456"

context packet_codec
begin

lemma encode_receive:
  assumes "ok p" and "fits (body p) buf"
  shows "\<exists>e bs d d'. to_buffer p (encoder_new buf) = Ok e \<and> packet_bytes e = Ok bs \<and>
    decoder_try_new bs = Ok d \<and> fh_typ (dec_fixed_header d) = ptype \<and> from_decoder d = Ok (view p, d')"
proof -
  let ?bs = "fixed_header_bytes (packet_type_byte ptype) (flags p) (length (body p)) @ body p"
  have f: "MAX_MQTT_HEADER_LEN + length (body p) \<le> length buf" "length buf < 2 ^ 32" "length (body p) < 268435456"
    using assms(2) by (simp_all add: fits_def)
  obtain e where "to_buffer p (encoder_new buf) = Ok e" "packet_bytes e = Ok ?bs"
    using to_buffer_fits [OF assms(1) f] by blast
  moreover obtain d d' where "decoder_try_new ?bs = Ok d" "fh_typ (dec_fixed_header d) = ptype"
    "from_decoder d = Ok (view p, d')"
    using decode_encoded [OF assms(1) f(3)] by blast
  ultimately show ?thesis by blast
qed

end

lemma fits_small: "5 + length body \<le> length buf \<Longrightarrow> length buf \<le> 1000 \<Longrightarrow> fits body buf"
  by (simp add: fits_def MAX_MQTT_HEADER_LEN_def)

text \<open>
  A CONNACK that was encoded is received as the same CONNACK, its properties in wire form.
\<close>

theorem connack_roundtrip:
  assumes "connack_ok p" and "fits (connack_body p) buf"
  shows "\<exists>e bs. connack_to_buffer p (encoder_new buf) = Ok e \<and> packet_bytes e = Ok bs \<and>
    from_buffer bs = Ok (RP_ConnAck (connack_view p))"
  using connack.encode_receive [OF assms] by (force simp: from_buffer_def Let_def)

definition sample_connack :: ConnAck where
  "sample_connack = \<lparr>ca_session_present = True, ca_reason_code = CA_Success,
     ca_properties = Slice [SessionExpiryInterval 1000]\<rparr>"

theorem connack_roundtrip_witness:
  "\<exists>e bs. connack_to_buffer sample_connack (encoder_new (replicate 32 0)) = Ok e \<and> packet_bytes e = Ok bs \<and>
     from_buffer bs = Ok (RP_ConnAck (connack_view sample_connack))"
proof (rule connack_roundtrip)
  show "connack_ok sample_connack"
    by (simp add: connack_ok_def sample_connack_def props_ok_def property_bytes_def)
  have "length (connack_body sample_connack) \<le> 16" by code_simp
  then show "fits (connack_body sample_connack) (replicate 32 0)" by (intro fits_small) simp_all
qed

text \<open>
  C23: The four acknowledgements of the publish flows (PUBACK, PUBREC, PUBREL, PUBCOMP) survive encoding
  and receiving, with the short form that omits a successful reason code and empty properties.
\<close>

theorem acks_roundtrip:
  shows "(\<forall>p buf. puback_ok p \<and> fits (puback_body p) buf \<longrightarrow>
      (\<exists>e bs. puback_to_buffer p (encoder_new buf) = Ok e \<and> packet_bytes e = Ok bs \<and>
        from_buffer bs = Ok (RP_PubAck (puback_view p)))) \<and>
    (\<forall>p buf. pubrec_ok p \<and> fits (pubrec_body p) buf \<longrightarrow>
      (\<exists>e bs. pubrec_to_buffer p (encoder_new buf) = Ok e \<and> packet_bytes e = Ok bs \<and>
        from_buffer bs = Ok (RP_PubRec (pubrec_view p)))) \<and>
    (\<forall>p buf. pubrel_ok p \<and> fits (pubrel_body p) buf \<longrightarrow>
      (\<exists>e bs. pubrel_to_buffer p (encoder_new buf) = Ok e \<and> packet_bytes e = Ok bs \<and>
        from_buffer bs = Ok (RP_PubRel (pubrel_view p)))) \<and>
    (\<forall>p buf. pubcomp_ok p \<and> fits (pubcomp_body p) buf \<longrightarrow>
      (\<exists>e bs. pubcomp_to_buffer p (encoder_new buf) = Ok e \<and> packet_bytes e = Ok bs \<and>
        from_buffer bs = Ok (RP_PubComp (pubcomp_view p))))"
  using puback.encode_receive pubrec.encode_receive pubrel.encode_receive pubcomp.encode_receive
  by (force simp: from_buffer_def Let_def)

definition sample_puback :: PubAck where
  "sample_puback = \<lparr>pa_pid = Pid 7, pa_reason_code = PA_Success, pa_properties = Slice []\<rparr>"

theorem acks_roundtrip_witness:
  "\<exists>e bs. puback_to_buffer sample_puback (encoder_new (replicate 16 0)) = Ok e \<and> packet_bytes e = Ok bs \<and>
     from_buffer bs = Ok (RP_PubAck (puback_view sample_puback))"
proof -
  have "puback_ok sample_puback" by (simp add: puback_ok_def sample_puback_def pid_ok_def props_ok_def)
  moreover have "length (puback_body sample_puback) \<le> 8" by code_simp
  then have "fits (puback_body sample_puback) (replicate 16 0)" by (intro fits_small) simp_all
  ultimately show ?thesis using acks_roundtrip by blast
qed

text \<open>
  SUBACK and UNSUBACK survive encoding and receiving, with all their reason codes in order.
\<close>

theorem subacks_roundtrip:
  shows "(\<forall>p buf. suback_ok p \<and> fits (suback_body p) buf \<longrightarrow>
      (\<exists>e bs. suback_to_buffer p (encoder_new buf) = Ok e \<and> packet_bytes e = Ok bs \<and>
        from_buffer bs = Ok (RP_SubAck (suback_view p)))) \<and>
    (\<forall>p buf. unsuback_ok p \<and> fits (unsuback_body p) buf \<longrightarrow>
      (\<exists>e bs. unsuback_to_buffer p (encoder_new buf) = Ok e \<and> packet_bytes e = Ok bs \<and>
        from_buffer bs = Ok (RP_UnsubAck (unsuback_view p))))"
  using suback.encode_receive unsuback.encode_receive by (force simp: from_buffer_def Let_def)

definition sample_suback :: SubAck where
  "sample_suback = \<lparr>sa_pid = Pid 1, sa_properties = Slice [], sa_codes = [SA_GrantedQoS1, SA_NotAuthorized]\<rparr>"

theorem subacks_roundtrip_witness:
  "\<exists>e bs. suback_to_buffer sample_suback (encoder_new (replicate 16 0)) = Ok e \<and> packet_bytes e = Ok bs \<and>
     from_buffer bs = Ok (RP_SubAck (suback_view sample_suback))"
proof -
  have "suback_ok sample_suback"
    by (simp add: suback_ok_def sample_suback_def pid_ok_def props_ok_def MAX_SUB_TOPICS_PER_MSG_def)
  moreover have "length (suback_body sample_suback) \<le> 8" by code_simp
  then have "fits (suback_body sample_suback) (replicate 16 0)" by (intro fits_small) simp_all
  ultimately show ?thesis using subacks_roundtrip by blast
qed

text \<open>
  A DISCONNECT survives encoding and receiving; the normal disconnect without properties is
  received as the default packet.
\<close>

theorem disconnect_roundtrip:
  assumes "disconnect_ok p" and "fits (disconnect_body p) buf"
  shows "\<exists>e bs. disconnect_to_buffer p (encoder_new buf) = Ok e \<and> packet_bytes e = Ok bs \<and>
    from_buffer bs = Ok (RP_Disconnect (disconnect_view p))"
  using disconnect.encode_receive [OF assms] by (force simp: from_buffer_def Let_def)

theorem disconnect_roundtrip_witness:
  "\<exists>e bs. disconnect_to_buffer disconnect_default (encoder_new (replicate 16 0)) = Ok e \<and> packet_bytes e = Ok bs \<and>
     from_buffer bs = Ok (RP_Disconnect (disconnect_view disconnect_default))"
proof (rule disconnect_roundtrip)
  show "disconnect_ok disconnect_default" by (simp add: disconnect_ok_def disconnect_default_def props_ok_def)
  have "length (disconnect_body disconnect_default) \<le> 8" by code_simp
  then show "fits (disconnect_body disconnect_default) (replicate 16 0)" by (intro fits_small) simp_all
qed

text \<open>
  C17: A PUBLISH that was encoded is received with its topic and its quality of service and packet
  identifier, and the received buffer is the whole packet: header, topic, identifier, properties and
  payload.
\<close>

theorem publish_roundtrip:
  assumes "publish_ok p" and "fits (publish_body p) buf"
  shows "\<exists>e bs. publish_to_buffer p (encoder_new buf) = Ok e \<and> packet_bytes e = Ok bs \<and>
    bs = fixed_header_bytes 0x30 (publish_flags p) (length (publish_body p)) @ publish_body p \<and>
    from_buffer bs = Ok (RP_PartialPublish (qos_pid_of (pub_qos p) (pub_pid p)) (pub_topic_name p)
      \<lparr>pp_buf = bs, pp_packet_len = length bs\<rparr>)"
  using publish.to_buffer_fits [OF assms(1)] from_buffer_publish [OF assms(1)] assms(2)
  unfolding fits_def by (fastforce simp: packet_type_byte_def)

definition sample_publish :: Publish where
  "sample_publish = \<lparr>pub_dup = False, pub_qos = AtLeastOnce, pub_retain = False, pub_pid = Some (Pid 10),
     pub_topic_name = [97, 47, 98], pub_payload = PayloadBytes [1, 2, 3], pub_properties = Slice [TopicAlias 2]\<rparr>"

lemma sample_publish_ok: "publish_ok sample_publish" "fits (publish_body sample_publish) (replicate 32 0)"
proof -
  show "publish_ok sample_publish"
    by (simp add: publish_ok_def sample_publish_def str_ok_def props_ok_def pid_ok_def property_bytes_def)
  have "length (publish_body sample_publish) \<le> 20" by code_simp
  then show "fits (publish_body sample_publish) (replicate 32 0)" by (intro fits_small) simp_all
qed

theorem publish_roundtrip_witness:
  "\<exists>e bs. publish_to_buffer sample_publish (encoder_new (replicate 32 0)) = Ok e \<and> packet_bytes e = Ok bs \<and>
     bs = fixed_header_bytes 0x30 (publish_flags sample_publish) (length (publish_body sample_publish))
       @ publish_body sample_publish \<and>
     from_buffer bs = Ok (RP_PartialPublish (qos_pid_of (pub_qos sample_publish) (pub_pid sample_publish))
       (pub_topic_name sample_publish) \<lparr>pp_buf = bs, pp_packet_len = length bs\<rparr>)"
  by (rule publish_roundtrip [OF sample_publish_ok])

section \<open>Buffer sizes\<close>

text \<open>
  C25: Encoding a PUBLISH succeeds exactly when the header reserve and the body fit the buffer; it never
  writes a packet that is cut short.
\<close>

theorem publish_encodes_iff_fits:
  assumes "publish_ok p" and "MAX_MQTT_HEADER_LEN \<le> length buf" and "length buf < 2 ^ 32"
    and "length (publish_body p) < 268435456"
  shows "is_ok (publish_to_buffer p (encoder_new buf)) \<longleftrightarrow>
    MAX_MQTT_HEADER_LEN + length (publish_body p) \<le> length buf"
  using publish.to_buffer_Ok_fits [OF assms(1) _ assms(2,3)] publish.to_buffer_fits [OF assms(1) _ assms(3,4)]
  by (auto simp: is_ok_iff)

theorem publish_encodes_iff_fits_witness:
  "is_ok (publish_to_buffer sample_publish (encoder_new (replicate 32 0))) \<longleftrightarrow>
     MAX_MQTT_HEADER_LEN + length (publish_body sample_publish) \<le> 32"
  using publish_encodes_iff_fits [OF sample_publish_ok(1), of "replicate 32 0"] sample_publish_ok(2)
  by (simp add: fits_def MAX_MQTT_HEADER_LEN_def)

text \<open>
  The size CONNECT announces is exactly what its encoding needs: a buffer of \<open>max_packet_size\<close>
  bytes suffices, with user name, password, last will and properties.
\<close>

theorem connect_size_suffices:
  assumes "connect_ok p" and "connect_max_packet_size p = Ok n"
    and "length buf = n" and "n < 268435456"
  shows "\<exists>e. connect_to_buffer p (encoder_new buf) = Ok e \<and>
    packet_bytes e = Ok (fixed_header_bytes 0x10 0 (length (connect_body p)) @ connect_body p)"
proof -
  have n: "n = MAX_MQTT_HEADER_LEN + length (connect_body p)"
    using connect_max_packet_size_exact [OF assms(1)] assms(2) by simp
  then show ?thesis
    using connect.to_buffer_fits [OF assms(1), of buf] assms(3,4) by (auto simp: packet_type_byte_def)
qed

definition sample_connect :: Connect where
  "sample_connect = \<lparr>cn_protocol = MQTT5, cn_properties = Slice [ReceiveMaximum 8], cn_keep_alive = 60,
     cn_client_id = [97, 98], cn_username = Some [117], cn_password = None,
     cn_last_will = Some \<lparr>lw_topic = [116], lw_data = [1, 2], lw_qos = AtLeastOnce, lw_retained = False,
       lw_properties = Slice []\<rparr>, cn_clean_start = True\<rparr>"

lemma sample_connect_ok: "connect_ok sample_connect"
  by (simp add: connect_ok_def sample_connect_def props_ok_def property_bytes_def)

theorem connect_size_suffices_witness:
  "\<exists>e. connect_to_buffer sample_connect (encoder_new (replicate (5 + length (connect_body sample_connect)) 0)) = Ok e \<and>
     packet_bytes e = Ok (fixed_header_bytes 0x10 0 (length (connect_body sample_connect)) @ connect_body sample_connect)"
proof (rule connect_size_suffices [OF sample_connect_ok])
  show "connect_max_packet_size sample_connect =
      Ok (5 + length (connect_body sample_connect))"
    by (simp add: connect_max_packet_size_exact [OF sample_connect_ok] MAX_MQTT_HEADER_LEN_def)
  have "length (connect_body sample_connect) \<le> 100" by code_simp
  then show "5 + length (connect_body sample_connect) < 268435456" by simp
qed simp

lemma buffer_too_short:
  assumes "packet_encoder to_buffer ok body ptype flags" and "ok p" and "length blk \<le> length (body p)"
    and "Ok n = (Ok (MAX_MQTT_HEADER_LEN + length (body p) - length blk) :: (EncodingError, nat) result)"
    and "blk \<noteq> []" and "length buf = n" and "n < 2 ^ 32"
  shows "n + length blk = MAX_MQTT_HEADER_LEN + length (body p)" and "\<not> is_ok (to_buffer p (encoder_new buf))"
proof -
  show n: "n + length blk = MAX_MQTT_HEADER_LEN + length (body p)" using assms(3,4) by simp
  have False if "to_buffer p (encoder_new buf) = Ok e" for e
  proof -
    from that have "MAX_MQTT_HEADER_LEN + length (body p) \<le> length buf"
      by (rule packet_encoder.to_buffer_Ok_fits [OF assms(1,2)]) (use assms(3,4,6,7) in simp_all)
    moreover have "0 < length blk" using assms(5) by simp
    ultimately show False using n assms(6) by linarith
  qed
  then show "\<not> is_ok (to_buffer p (encoder_new buf))" by (auto simp: is_ok_iff)
qed

lemma block_in_body:
  "length (wire_block (pub_properties p)) \<le> length (publish_body p)"
  "length (wire_block (sub_properties q)) \<le> length (subscribe_body q)"
  "length (wire_block (uns_properties r)) \<le> length (unsubscribe_body r)"
  by (simp_all add: publish_body_def subscribe_body_def unsubscribe_body_def properties_bytes_def)

text \<open>
  C38: The size PUBLISH, SUBSCRIBE and UNSUBSCRIBE announce counts the length prefix of the properties
  but not the properties themselves: it is short by exactly the property block, so with a non-empty
  block the encoding does not fit a buffer of the announced size.
\<close>

theorem announced_size_misses_properties:
  shows "(\<forall>p buf n. publish_ok p \<and> wire_block (pub_properties p) \<noteq> [] \<and> publish_max_packet_size p = Ok n \<and>
      length buf = n \<and> n < 2 ^ 32 \<longrightarrow>
      n + length (wire_block (pub_properties p)) = MAX_MQTT_HEADER_LEN + length (publish_body p) \<and>
      \<not> is_ok (publish_to_buffer p (encoder_new buf))) \<and>
    (\<forall>p buf n. subscribe_ok p \<and> wire_block (sub_properties p) \<noteq> [] \<and> subscribe_max_packet_size p = Ok n \<and>
      length buf = n \<and> n < 2 ^ 32 \<longrightarrow>
      n + length (wire_block (sub_properties p)) = MAX_MQTT_HEADER_LEN + length (subscribe_body p) \<and>
      \<not> is_ok (subscribe_to_buffer p (encoder_new buf))) \<and>
    (\<forall>p buf n. unsubscribe_ok p \<and> wire_block (uns_properties p) \<noteq> [] \<and> unsubscribe_max_packet_size p = Ok n \<and>
      length buf = n \<and> n < 2 ^ 32 \<longrightarrow>
      n + length (wire_block (uns_properties p)) = MAX_MQTT_HEADER_LEN + length (unsubscribe_body p) \<and>
      \<not> is_ok (unsubscribe_to_buffer p (encoder_new buf)))"
  by (intro conjI allI impI; elim conjE;
      rule buffer_too_short [OF publish.packet_encoder_axioms _ block_in_body(1)]
        buffer_too_short [OF subscribe.packet_encoder_axioms _ block_in_body(2)]
        buffer_too_short [OF unsubscribe.packet_encoder_axioms _ block_in_body(3)];
      simp add: publish_max_packet_size_ok subscribe_max_packet_size_ok unsubscribe_max_packet_size_ok)

text \<open>One topic, with a user property.\<close>

definition tagged_unsubscribe :: Unsubscribe where
  "tagged_unsubscribe = (unsubscribe_new [[97], [98, 99]])\<lparr>uns_properties := Slice [UserProperty [107] [118]]\<rparr>"

theorem announced_size_misses_properties_witness:
  "publish_max_packet_size sample_publish = Ok 16 \<and>
     \<not> is_ok (publish_to_buffer sample_publish (encoder_new (replicate 16 0))) \<and>
   unsubscribe_max_packet_size tagged_unsubscribe = Ok 15 \<and>
     \<not> is_ok (unsubscribe_to_buffer tagged_unsubscribe (encoder_new (replicate 15 0)))"
proof -
  have n: "publish_max_packet_size sample_publish = Ok 16"
    by (simp add: publish_max_packet_size_def sample_publish_def varint_len_def MAX_MQTT_HEADER_LEN_def)
  have ne: "wire_block (pub_properties sample_publish) \<noteq> []" by (simp add: sample_publish_def property_bytes_def)
  have u: "unsubscribe_max_packet_size tagged_unsubscribe = Ok 15" "wire_block (uns_properties tagged_unsubscribe) \<noteq> []"
    "unsubscribe_ok tagged_unsubscribe"
    by (simp_all add: unsubscribe_max_packet_size_def tagged_unsubscribe_def unsubscribe_new_def varint_len_def MAX_MQTT_HEADER_LEN_def
        property_bytes_def unsubscribe_ok_def props_ok_def str_ok_def)
  from n ne u sample_publish_ok(1)
    announced_size_misses_properties [THEN conjunct1, rule_format, of sample_publish 16 "replicate 16 0"]
    announced_size_misses_properties [THEN conjunct2, THEN conjunct2, rule_format, of tagged_unsubscribe 15 "replicate 15 0"]
  show ?thesis by simp
qed

text \<open>
  Without properties, the sizes PUBLISH, SUBSCRIBE and UNSUBSCRIBE announce are enough.
\<close>

theorem announced_size_suffices_without_properties:
  shows "(\<forall>p buf n. publish_ok p \<and> wire_block (pub_properties p) = [] \<and>
      publish_max_packet_size p = Ok n \<and> length buf = n \<and> n < 268435456 \<longrightarrow>
      is_ok (publish_to_buffer p (encoder_new buf))) \<and>
    (\<forall>p buf n. subscribe_ok p \<and> wire_block (sub_properties p) = [] \<and>
      subscribe_max_packet_size p = Ok n \<and> length buf = n \<and> n < 268435456 \<longrightarrow>
      is_ok (subscribe_to_buffer p (encoder_new buf))) \<and>
    (\<forall>p buf n. unsubscribe_ok p \<and> wire_block (uns_properties p) = [] \<and>
      unsubscribe_max_packet_size p = Ok n \<and> length buf = n \<and> n < 268435456 \<longrightarrow>
      is_ok (unsubscribe_to_buffer p (encoder_new buf)))"
proof (intro conjI allI impI)
  fix p and buf :: bytes and n
  assume "publish_ok p \<and> wire_block (pub_properties p) = [] \<and>
      publish_max_packet_size p = Ok n \<and> length buf = n \<and> n < 268435456"
  with publish_max_packet_size_ok [of p] publish.to_buffer_fits [of p buf]
  show "is_ok (publish_to_buffer p (encoder_new buf))" by (auto simp: is_ok_iff)
next
  fix p and buf :: bytes and n
  assume "subscribe_ok p \<and> wire_block (sub_properties p) = [] \<and>
      subscribe_max_packet_size p = Ok n \<and> length buf = n \<and> n < 268435456"
  with subscribe_max_packet_size_ok [of p] subscribe.to_buffer_fits [of p buf]
  show "is_ok (subscribe_to_buffer p (encoder_new buf))" by (auto simp: is_ok_iff)
next
  fix p and buf :: bytes and n
  assume "unsubscribe_ok p \<and> wire_block (uns_properties p) = [] \<and>
      unsubscribe_max_packet_size p = Ok n \<and> length buf = n \<and> n < 268435456"
  with unsubscribe_max_packet_size_ok [of p] unsubscribe.to_buffer_fits [of p buf]
  show "is_ok (unsubscribe_to_buffer p (encoder_new buf))" by (auto simp: is_ok_iff)
qed

theorem announced_size_suffices_without_properties_witness:
  "is_ok (unsubscribe_to_buffer (unsubscribe_new [[97], [98, 99]]) (encoder_new (replicate 15 0)))"
proof -
  have "unsubscribe_ok (unsubscribe_new [[97], [98, 99]])" "wire_block (uns_properties (unsubscribe_new [[97], [98, 99]])) = []"
    by (simp_all add: unsubscribe_ok_def unsubscribe_new_def props_ok_def)
  moreover have "unsubscribe_max_packet_size (unsubscribe_new [[97], [98, 99]]) = Ok 15"
    by (simp add: unsubscribe_max_packet_size_def unsubscribe_new_def varint_len_def MAX_MQTT_HEADER_LEN_def)
  ultimately show ?thesis
    using announced_size_suffices_without_properties [THEN conjunct2, THEN conjunct2, rule_format,
        of "unsubscribe_new [[97], [98, 99]]" 15 "replicate 15 0"] by simp
qed

section \<open>Properties\<close>

text \<open>
  C29: Iterating over the wire form of a property list gives the list back, property by property.
\<close>

theorem properties_iterate_back:
  assumes "\<forall>p \<in> set ps. prop_ok p"
  shows "\<exists>it. properties_iter (DataBlock (wire_block (Slice ps))) = (Ok it :: (EncodingError, PropertiesIter) result) \<and>
    props_collect it = map Ok ps"
  using props_collect_encoded [OF assms, of _ "[]"] by simp

theorem properties_iterate_back_witness:
  "\<exists>it. properties_iter (DataBlock (wire_block (Slice [ContentType [116], UserProperty [107] [118]]))) =
       (Ok it :: (EncodingError, PropertiesIter) result) \<and>
     props_collect it = map Ok [ContentType [116], UserProperty [107] [118]]"
  by (rule properties_iterate_back) (simp add: str_ok_def)

text \<open>
  Iterating over any received property block ends, and no item is a panic: malformed blocks only
  give errors.
\<close>

theorem properties_iteration_safe:
  shows "\<exists>it. properties_iter (DataBlock block) = (Ok it :: (EncodingError, PropertiesIter) result) \<and>
    length (props_collect it) \<le> length block \<and> Panic \<notin> set (props_collect it)"
  using props_collect_length [of "\<lparr>pi_data = Encoded block, pi_index = 0\<rparr>"]
    props_collect_no_panic [of "\<lparr>pi_data = Encoded block, pi_index = 0\<rparr>"] by auto

end
