(* ===== verification/Pubsub.thy ===== *)
theory Pubsub
  imports Prelude
begin

text \<open>
  The publish/subscribe channel of \<open>src/pubsub\<close>: a ring of variable length frames in one byte buffer,
  one publisher, up to \<open>SUBS\<close> subscribers.  A frame is reserved by a write grant, filled, committed,
  read by each subscriber through a read grant, and released.

  Every operation runs under the channel's blocking mutex, so an operation is one atomic function on
  the channel state; what interleaves are whole operations.  An operation returns its outcome together
  with the new state, because an operation that fails still registers wakers and moves lagging
  subscribers.  \<open>heapless::Deque\<close> is a list with the capacity \<open>MAX_PUBSUB_MESSAGES\<close>; the two waker
  registrations are represented by the log of calls made on them; the \<open>u64\<close> message counter is a
  natural number.  Decrements that would underflow and subtractions below zero give \<open>Panic\<close>.
\<close>

section \<open>State\<close>

datatype PubSubError = InsufficientSize | GrantInProgress | PublisherAlreadyTaken | MaximumSubscribersReached

record Header =
  h_start :: nat
  h_len :: u16
  h_message_id :: nat
  h_subscriber_count :: u8
  h_read_in_progress :: bool
  h_pid :: u16

datatype WakerCall = RegisterPublisher | WakePublisher | RegisterSubscriber | WakeSubscribers

record State =
  ps_capacity :: nat
  ps_messages :: "Header list"
  ps_write_in_progress :: bool
  ps_next_message_id :: nat
  ps_subscriber_count :: u8
  ps_publisher_taken :: bool
  ps_wakers :: "WakerCall list"

text \<open>\<open>crate_config::MAX_PUBSUB_MESSAGES\<close> at its default value.\<close>

definition MAX_PUBSUB_MESSAGES :: nat where
  "MAX_PUBSUB_MESSAGES = 16"

type_synonym 'a ps_op = "State \<Rightarrow> (PubSubError, 'a) result \<times> State"

definition waker_call :: "WakerCall \<Rightarrow> State \<Rightarrow> State" where
  "waker_call c st = st\<lparr>ps_wakers := ps_wakers st @ [c]\<rparr>"

definition register_if :: "bool \<Rightarrow> WakerCall \<Rightarrow> State \<Rightarrow> State" where
  "register_if cx c st = (if cx then waker_call c st else st)"

definition state_clear :: "State \<Rightarrow> State" where
  "state_clear st = st\<lparr>ps_messages := []\<rparr>"

definition state_len :: "State \<Rightarrow> nat" where
  "state_len st = length (ps_messages st)"

definition state_is_empty :: "State \<Rightarrow> bool" where
  "state_is_empty st \<longleftrightarrow> ps_messages st = []"

definition messages_full :: "State \<Rightarrow> bool" where
  "messages_full st \<longleftrightarrow> length (ps_messages st) = MAX_PUBSUB_MESSAGES"

definition h_end :: "Header \<Rightarrow> nat" where
  "h_end h = h_start h + unat (h_len h)"

definition free_space :: "State \<Rightarrow> ('e, nat) result" where
  "free_space st =
     (if ps_messages st = [] then Ok (ps_capacity st)
      else
        let back = last (ps_messages st);
            front = hd (ps_messages st);
            back_end = h_end back
        in if back_end \<le> h_start front then Ok (h_start front - back_end)
           else if ps_capacity st < back_end then Panic
           else Ok (max (h_start front) (ps_capacity st - back_end)))"

definition state_is_full :: "State \<Rightarrow> ('e, bool) result" where
  "state_is_full st =
     (if messages_full st then Ok True else map_ok (\<lambda>n. n = 0) (free_space st))"

section \<open>The channel\<close>

record Channel =
  ch_buf :: bytes
  ch_state :: State

definition channel_new :: "bytes \<Rightarrow> Channel" where
  "channel_new buf =
     \<lparr>ch_buf = buf,
      ch_state = \<lparr>ps_capacity = length buf, ps_messages = [], ps_write_in_progress = False,
        ps_next_message_id = 0, ps_subscriber_count = 0, ps_publisher_taken = False, ps_wakers = []\<rparr>\<rparr>"

record FrameSubscriber =
  fs_next_message_id :: nat

record FrameGrantW =
  gw_start :: nat
  gw_size :: nat
  gw_to_commit :: nat
  gw_pid :: u16

record FrameGrantR =
  gr_start :: nat
  gr_size :: nat
  gr_message_id :: nat
  gr_auto_release :: bool
  gr_pid :: u16

text \<open>\<open>subscriber\<close>; the limit is \<open>SUBS as u8\<close>.\<close>

definition channel_subscriber :: "nat \<Rightarrow> FrameSubscriber ps_op" where
  "channel_subscriber SUBS st =
     (if (of_nat SUBS :: u8) \<le> ps_subscriber_count st then (Err MaximumSubscribersReached, st)
      else if unat (ps_subscriber_count st) = 255 then (Panic, st)
      else (Ok \<lparr>fs_next_message_id = ps_next_message_id st\<rparr>,
            st\<lparr>ps_subscriber_count := ps_subscriber_count st + 1\<rparr>))"

text \<open>\<open>publisher\<close>: the buffer is zeroed when the publisher is handed out.\<close>

definition channel_publisher :: "Channel \<Rightarrow> (PubSubError, unit) result \<times> Channel" where
  "channel_publisher ch =
     (if ps_publisher_taken (ch_state ch) then (Err PublisherAlreadyTaken, ch)
      else (Ok (), \<lparr>ch_buf = replicate (length (ch_buf ch)) 0,
                    ch_state = (ch_state ch)\<lparr>ps_publisher_taken := True\<rparr>\<rparr>))"

definition publisher_drop :: "State \<Rightarrow> State" where
  "publisher_drop st = st\<lparr>ps_publisher_taken := False\<rparr>"

section \<open>Write grants\<close>

definition new_start :: "nat \<Rightarrow> State \<Rightarrow> ('e, nat) result" where
  "new_start max_sz st =
     (if ps_messages st = [] then Ok 0
      else
        let back_end = h_end (last (ps_messages st)) in
        if back_end \<le> h_start (hd (ps_messages st)) then Ok back_end
        else if ps_capacity st < back_end then Panic
        else if max_sz \<le> ps_capacity st - back_end then Ok back_end
        else Ok 0)"

definition grant_with_context :: "nat \<Rightarrow> bool \<Rightarrow> FrameGrantW ps_op" where
  "grant_with_context max_sz cx st =
     (if ps_write_in_progress st then (Err GrantInProgress, register_if cx RegisterPublisher st)
      else
        case free_space st of
          Ok free \<Rightarrow>
            (if max_sz > free \<or> messages_full st
             then (Err InsufficientSize, register_if cx RegisterPublisher st)
             else
               case new_start max_sz st of
                 Ok start \<Rightarrow>
                   (Ok \<lparr>gw_start = start, gw_size = max_sz, gw_to_commit = 0, gw_pid = 0\<rparr>,
                    st\<lparr>ps_write_in_progress := True\<rparr>)
               | Err e \<Rightarrow> (Err e, st)
               | Panic \<Rightarrow> (Panic, st))
        | Err e \<Rightarrow> (Err e, st)
        | Panic \<Rightarrow> (Panic, st))"

definition grant :: "nat \<Rightarrow> FrameGrantW ps_op" where
  "grant max_sz st = grant_with_context max_sz False st"

text \<open>The eviction loop of \<open>grant_immediate\<close>.\<close>

function evict :: "nat \<Rightarrow> unit ps_op" where
  "evict max_sz st =
     (case free_space st of
        Ok free \<Rightarrow>
          (if free < max_sz \<or> messages_full st then
             (case ps_messages st of
                [] \<Rightarrow> (Ok (), st)
              | front # rest \<Rightarrow>
                  (if h_read_in_progress front then (Err InsufficientSize, st)
                   else evict max_sz (st\<lparr>ps_messages := rest\<rparr>)))
           else (Ok (), st))
      | Err e \<Rightarrow> (Err e, st)
      | Panic \<Rightarrow> (Panic, st))"
  by pat_completeness auto
termination by (relation "measure (\<lambda>(max_sz, st). length (ps_messages st))") auto

declare evict.simps [simp del]

definition grant_immediate :: "nat \<Rightarrow> FrameGrantW ps_op" where
  "grant_immediate max_sz st =
     (case evict max_sz st of
        (Ok _, st1) \<Rightarrow> grant max_sz st1
      | (Err e, st1) \<Rightarrow> (Err e, st1)
      | (Panic, st1) \<Rightarrow> (Panic, st1))"

text \<open>Writing through the slice of a grant: \<open>grant.buf()[i..i + bs.len()].copy_from_slice(bs)\<close>.\<close>

definition grant_write :: "FrameGrantW \<Rightarrow> nat \<Rightarrow> bytes \<Rightarrow> bytes \<Rightarrow> ('e, bytes) result" where
  "grant_write g i bs buf =
     (if i + length bs \<le> gw_size g then Ok (splice buf (gw_start g + i) bs) else Panic)"

definition grant_set_pid :: "u16 \<Rightarrow> FrameGrantW \<Rightarrow> FrameGrantW" where
  "grant_set_pid pid g = g\<lparr>gw_pid := pid\<rparr>"

definition grant_to_commit :: "nat \<Rightarrow> FrameGrantW \<Rightarrow> FrameGrantW" where
  "grant_to_commit amt g = g\<lparr>gw_to_commit := amt\<rparr>"

definition commit_inner :: "FrameGrantW \<Rightarrow> nat \<Rightarrow> State \<Rightarrow> State" where
  "commit_inner g used st =
     (let used = min (gw_size g) used in
      if \<not> ps_write_in_progress st then st
      else if ps_subscriber_count st = 0 then st\<lparr>ps_write_in_progress := False\<rparr>
      else
        let header = \<lparr>h_start = gw_start g, h_len = of_nat used, h_message_id = ps_next_message_id st,
                      h_subscriber_count = ps_subscriber_count st, h_read_in_progress = False,
                      h_pid = gw_pid g\<rparr>;
            messages = (if messages_full st then ps_messages st else ps_messages st @ [header])
        in waker_call WakeSubscribers
             (st\<lparr>ps_messages := messages, ps_next_message_id := ps_next_message_id st + 1,
                 ps_write_in_progress := False\<rparr>))"

definition commit :: "FrameGrantW \<Rightarrow> nat \<Rightarrow> State \<Rightarrow> State" where
  "commit g used st = commit_inner g used st"

definition grant_drop :: "FrameGrantW \<Rightarrow> State \<Rightarrow> State" where
  "grant_drop g st = commit_inner g (gw_to_commit g) st"

text \<open>\<open>GrantFuture::poll\<close>: \<open>None\<close> is \<open>Poll::Pending\<close>.\<close>

definition grant_poll :: "nat \<Rightarrow> State \<Rightarrow> (PubSubError, FrameGrantW) result option \<times> State" where
  "grant_poll sz st =
     (case grant_with_context sz True st of
        (Ok g, st1) \<Rightarrow> (Some (Ok g), st1)
      | (Err GrantInProgress, st1) \<Rightarrow> (None, st1)
      | (Err InsufficientSize, st1) \<Rightarrow> (None, st1)
      | (Err e, st1) \<Rightarrow> (Some (Err e), st1)
      | (Panic, st1) \<Rightarrow> (Some Panic, st1))"

section \<open>Subscribers and read grants\<close>

definition read_with_context ::
  "bool \<Rightarrow> FrameSubscriber \<Rightarrow> State \<Rightarrow> (PubSubError, FrameGrantR) result \<times> FrameSubscriber \<times> State" where
  "read_with_context cx sub st =
     (if ps_next_message_id st < length (ps_messages st) then (Panic, sub, st)
      else
        let start_id = ps_next_message_id st - length (ps_messages st);
            sub1 = (if fs_next_message_id sub < start_id then sub\<lparr>fs_next_message_id := start_id\<rparr> else sub);
            index = fs_next_message_id sub1 - start_id
        in if length (ps_messages st) \<le> index
           then (Err InsufficientSize, sub1, register_if cx RegisterSubscriber st)
           else
             let header = ps_messages st ! index in
             if h_read_in_progress header
             then (Err GrantInProgress, sub1, register_if cx RegisterSubscriber st)
             else if h_subscriber_count header = 0 then (Panic, sub1, st)
             else
               (Ok \<lparr>gr_start = h_start header, gr_size = unat (h_len header),
                    gr_message_id = h_message_id header, gr_auto_release = True, gr_pid = h_pid header\<rparr>,
                sub1\<lparr>fs_next_message_id := fs_next_message_id sub1 + 1\<rparr>,
                st\<lparr>ps_messages := (ps_messages st)[index :=
                     header\<lparr>h_subscriber_count := h_subscriber_count header - 1,
                            h_read_in_progress := True\<rparr>]\<rparr>))"

definition read :: "FrameSubscriber \<Rightarrow> State \<Rightarrow> (PubSubError, FrameGrantR) result \<times> FrameSubscriber \<times> State" where
  "read sub st = read_with_context False sub st"

text \<open>\<open>GrantReadFuture::poll\<close>\<close>

definition read_poll ::
  "FrameSubscriber \<Rightarrow> State \<Rightarrow> (PubSubError, FrameGrantR) result option \<times> FrameSubscriber \<times> State" where
  "read_poll sub st =
     (case read_with_context True sub st of
        (Ok g, s) \<Rightarrow> (Some (Ok g), s)
      | (Err _, s) \<Rightarrow> (None, s)
      | (Panic, s) \<Rightarrow> (Some Panic, s))"

definition grant_bytes :: "FrameGrantR \<Rightarrow> bytes \<Rightarrow> bytes" where
  "grant_bytes g buf = slice buf (gr_start g) (gr_size g)"

definition auto_release :: "bool \<Rightarrow> FrameGrantR \<Rightarrow> FrameGrantR" where
  "auto_release is_auto g = g\<lparr>gr_auto_release := is_auto\<rparr>"

definition release_inner :: "FrameGrantR \<Rightarrow> State \<Rightarrow> State" where
  "release_inner g st =
     (case position (\<lambda>m. h_message_id m = gr_message_id g) (ps_messages st) of
        None \<Rightarrow> st
      | Some index \<Rightarrow>
          let header = ps_messages st ! index in
          if \<not> h_read_in_progress header then st
          else
            waker_call WakeSubscribers
              (if index = 0 \<and> h_subscriber_count header = 0
               then waker_call WakePublisher (st\<lparr>ps_messages := tl (ps_messages st)\<rparr>)
               else st\<lparr>ps_messages := (ps_messages st)[index := header\<lparr>h_read_in_progress := False\<rparr>]\<rparr>))"

definition read_grant_drop :: "FrameGrantR \<Rightarrow> State \<Rightarrow> State" where
  "read_grant_drop g st = (if gr_auto_release g then release_inner g st else st)"

definition release :: "FrameGrantR \<Rightarrow> State \<Rightarrow> State" where
  "release g st = read_grant_drop (auto_release True g) st"

definition dec_count :: "Header \<Rightarrow> (PubSubError, Header) result" where
  "dec_count h =
     (if h_subscriber_count h = 0 then Panic
      else Ok (h\<lparr>h_subscriber_count := h_subscriber_count h - 1\<rparr>))"

fun for_each_dec :: "Header list \<Rightarrow> (PubSubError, Header list) result" where
  "for_each_dec [] = Ok []"
| "for_each_dec (h # hs) = rbind (dec_count h) (\<lambda>h'. rbind (for_each_dec hs) (\<lambda>hs'. Ok (h' # hs')))"

definition pop_unread :: "Header list \<Rightarrow> Header list" where
  "pop_unread hs = dropWhile (\<lambda>h. h_subscriber_count h = 0) hs"

definition subscriber_drop :: "FrameSubscriber \<Rightarrow> unit ps_op" where
  "subscriber_drop sub st =
     (if ps_subscriber_count st = 0 \<or> ps_next_message_id st < length (ps_messages st) then (Panic, st)
      else
        let st1 = st\<lparr>ps_subscriber_count := ps_subscriber_count st - 1\<rparr>;
            start_id = ps_next_message_id st - length (ps_messages st)
        in if fs_next_message_id sub < start_id then (Ok (), st1)
           else
             let index = fs_next_message_id sub - start_id in
             case for_each_dec (drop index (ps_messages st)) of
               Ok hs \<Rightarrow>
                 (let decremented = take index (ps_messages st) @ hs;
                      remaining = pop_unread decremented;
                      st2 = st1\<lparr>ps_messages := remaining\<rparr>
                  in (Ok (), if length remaining < length decremented then waker_call WakePublisher st2 else st2))
             | Err e \<Rightarrow> (Err e, st1)
             | Panic \<Rightarrow> (Panic, st1))"

end
