(* ===== verification/Ring_Layout.thy ===== *)
theory Ring_Layout
  imports Pubsub
begin

text \<open>
  The geometry of the ring: segments \<open>(start, length)\<close> in message order, in at most two ascending
  laps, the second one ending before the first segment of the first lap.  These lemmas say that the
  position \<open>grant_with_context\<close> computes continues the layout, and that segments are disjoint.
\<close>

section \<open>Ascending runs\<close>

type_synonym seg = "nat \<times> nat"

fun asc :: "nat \<Rightarrow> nat \<Rightarrow> seg list \<Rightarrow> bool" where
  "asc cap lo [] \<longleftrightarrow> lo \<le> cap"
| "asc cap lo ((s, l) # xs) \<longleftrightarrow> lo \<le> s \<and> asc cap (s + l) xs"

fun seg_end :: "nat \<Rightarrow> seg list \<Rightarrow> nat" where
  "seg_end lo [] = lo"
| "seg_end lo ((s, l) # xs) = seg_end (s + l) xs"

lemma asc_end_le: "asc cap lo xs \<Longrightarrow> lo \<le> seg_end lo xs \<and> seg_end lo xs \<le> cap"
proof (induction xs arbitrary: lo)
  case (Cons a xs)
  obtain s l where "a = (s, l)" by force
  with Cons.prems Cons.IH [of "s + l"] show ?case by auto
qed simp

lemma asc_append: "asc cap lo (xs @ ys) \<longleftrightarrow> asc cap lo xs \<and> asc cap (seg_end lo xs) ys"
proof (induction xs arbitrary: lo)
  case Nil
  then show ?case using asc_end_le by (force intro: order_trans)
next
  case (Cons a xs)
  obtain s l where "a = (s, l)" by force
  with Cons.IH show ?case by auto
qed

lemma seg_end_append [simp]: "seg_end lo (xs @ ys) = seg_end (seg_end lo xs) ys"
  by (induction lo xs rule: seg_end.induct) auto

lemma seg_end_last: "xs \<noteq> [] \<Longrightarrow> seg_end lo xs = fst (last xs) + snd (last xs)"
  by (induction lo xs rule: seg_end.induct) auto

lemma asc_weaken: "asc cap lo xs \<Longrightarrow> lo' \<le> lo \<Longrightarrow> asc cap lo' xs"
  by (cases xs) auto

lemma asc_member: "asc cap lo xs \<Longrightarrow> (s, l) \<in> set xs \<Longrightarrow> lo \<le> s \<and> s + l \<le> seg_end lo xs"
proof (induction xs arbitrary: lo)
  case (Cons a xs)
  obtain s' l' where a: "a = (s', l')" by force
  with Cons.prems asc_end_le [of cap "s' + l'" xs] Cons.IH [of "s' + l'"] show ?case by auto
qed simp

definition seg_disjoint :: "seg \<Rightarrow> seg \<Rightarrow> bool" where
  "seg_disjoint a b \<longleftrightarrow> fst a + snd a \<le> fst b \<or> fst b + snd b \<le> fst a"

lemma seg_disjoint_sym: "seg_disjoint a b \<longleftrightarrow> seg_disjoint b a"
  by (auto simp: seg_disjoint_def)

section \<open>The ring\<close>

definition ring :: "nat \<Rightarrow> seg list \<Rightarrow> bool" where
  "ring cap xs \<longleftrightarrow>
     (\<exists>as bs. xs = as @ bs \<and> asc cap 0 as \<and> asc cap 0 bs \<and>
        (bs \<noteq> [] \<longrightarrow> as \<noteq> [] \<and> seg_end 0 bs \<le> fst (hd as)))"

lemma ringI:
  "xs = as @ bs \<Longrightarrow> asc cap 0 as \<Longrightarrow> asc cap 0 bs \<Longrightarrow> (bs \<noteq> [] \<Longrightarrow> as \<noteq> [] \<and> seg_end 0 bs \<le> fst (hd as)) \<Longrightarrow>
   ring cap xs"
  unfolding ring_def by blast

lemma ringE:
  assumes "ring cap xs"
  obtains as bs where "xs = as @ bs" "asc cap 0 as" "asc cap 0 bs"
    "bs \<noteq> [] \<longrightarrow> as \<noteq> []" "bs \<noteq> [] \<longrightarrow> seg_end 0 bs \<le> fst (hd as)"
  using assms unfolding ring_def by blast

lemma ring_Nil [simp]: "ring cap []"
  by (rule ringI [of _ "[]" "[]"]) auto

lemma ring_single: "s + l \<le> cap \<Longrightarrow> ring cap [(s, l)]"
  by (rule ringI [of _ "[(s, l)]" "[]"]) auto

lemma ring_member: "ring cap xs \<Longrightarrow> (s, l) \<in> set xs \<Longrightarrow> s + l \<le> cap"
  by (elim ringE) (auto dest: asc_member asc_end_le intro: order_trans)

lemma ring_Cons: "ring cap (x # xs) \<Longrightarrow> ring cap xs"
proof (elim ringE)
  fix as bs assume eq: "x # xs = as @ bs" and a: "asc cap 0 as" and b: "asc cap 0 bs"
    and ne: "bs \<noteq> [] \<longrightarrow> as \<noteq> []" and le: "bs \<noteq> [] \<longrightarrow> seg_end 0 bs \<le> fst (hd as)"
  obtain s l where x: "x = (s, l)" by force
  show "ring cap xs"
  proof (cases as)
    case Nil
    with ne eq show ?thesis by auto
  next
    case (Cons y as')
    with eq have y: "y = (s, l)" "xs = as' @ bs" by (auto simp: x)
    with a Cons have a': "asc cap (s + l) as'" by simp
    show ?thesis
    proof (cases "as' = []")
      case True
      with y b show ?thesis by (intro ringI [of _ bs "[]"]) auto
    next
      case False
      then have "s \<le> fst (hd as')" using a' by (cases as') auto
      with False y a' b le show ?thesis
        by (intro ringI [of _ as' bs]) (auto simp: Cons intro: asc_weaken order_trans)
    qed
  qed
qed

lemma ring_append: "ring cap (xs @ ys) \<Longrightarrow> ring cap ys"
  by (induction xs) (auto dest: ring_Cons)

lemma asc_butlast: "asc cap lo (xs @ [x]) \<Longrightarrow> asc cap lo xs"
  by (simp add: asc_append)

lemma ring_shrink:
  assumes "ring cap (xs @ [(s, l)])" and "l' \<le> l"
  shows "ring cap (xs @ [(s, l')])"
proof -
  from assms(1) obtain as bs where eq: "xs @ [(s, l)] = as @ bs" and a: "asc cap 0 as" and b: "asc cap 0 bs"
    and ne: "bs \<noteq> [] \<longrightarrow> as \<noteq> []" and le: "bs \<noteq> [] \<longrightarrow> seg_end 0 bs \<le> fst (hd as)"
    by (rule ringE) blast
  show ?thesis
  proof (cases bs rule: rev_cases)
    case Nil
    with eq a assms(2) show ?thesis
      by (intro ringI [of _ "xs @ [(s, l')]" "[]"]) (auto simp: asc_append)
  next
    case (snoc bs' z)
    with eq have z: "z = (s, l)" "xs = as @ bs'" by auto
    with b snoc have "asc cap 0 (bs' @ [(s, l')])" using assms(2) by (auto simp: asc_append)
    moreover have "seg_end 0 (bs' @ [(s, l')]) \<le> fst (hd as)"
      using le snoc z assms(2) by auto
    ultimately show ?thesis
      using z a ne snoc by (intro ringI [of _ as "bs' @ [(s, l')]"]) auto
  qed
qed

lemma ring_butlast:
  assumes "ring cap (xs @ [x])"
  shows "ring cap xs"
proof -
  from assms obtain as bs where eq: "xs @ [x] = as @ bs" and a: "asc cap 0 as" and b: "asc cap 0 bs"
    and ne: "bs \<noteq> [] \<longrightarrow> as \<noteq> []" and le: "bs \<noteq> [] \<longrightarrow> seg_end 0 bs \<le> fst (hd as)"
    by (rule ringE) blast
  show ?thesis
  proof (cases bs rule: rev_cases)
    case Nil
    with eq a show ?thesis by (intro ringI [of _ xs "[]"]) (auto intro: asc_butlast)
  next
    case (snoc bs' z)
    obtain s l where z: "z = (s, l)" by force
    from snoc eq have "xs = as @ bs'" by auto
    moreover have "seg_end 0 bs' \<le> seg_end 0 bs" using b snoc z by (simp add: asc_append)
    ultimately show ?thesis
      using a b ne le snoc by (intro ringI [of _ as bs']) (auto intro: asc_butlast)
  qed
qed

lemma ring_back_end: "ring cap xs \<Longrightarrow> xs \<noteq> [] \<Longrightarrow> fst (last xs) + snd (last xs) \<le> cap"
  using ring_member [of cap xs "fst (last xs)" "snd (last xs)"] by simp

text \<open>The three positions at which a new segment continues the ring.\<close>

lemma ring_extend:
  assumes "ring cap xs" and "xs \<noteq> []"
  defines "be \<equiv> fst (last xs) + snd (last xs)" and "front \<equiv> fst (hd xs)"
  shows "be \<le> front \<Longrightarrow> sz \<le> front - be \<Longrightarrow> ring cap (xs @ [(be, sz)])"
    and "\<not> be \<le> front \<Longrightarrow> sz \<le> cap - be \<Longrightarrow> ring cap (xs @ [(be, sz)])"
    and "\<not> be \<le> front \<Longrightarrow> sz \<le> front \<Longrightarrow> ring cap (xs @ [(0, sz)])"
proof -
  from assms(1) obtain as bs where eq: "xs = as @ bs" and a: "asc cap 0 as" and b: "asc cap 0 bs"
    and ne: "bs \<noteq> [] \<longrightarrow> as \<noteq> []" and le: "bs \<noteq> [] \<longrightarrow> seg_end 0 bs \<le> fst (hd as)"
    by (rule ringE) blast
  have as: "as \<noteq> []" using ne eq assms(2) by auto
  then have front: "front = fst (hd as)" using eq by (simp add: front_def)
  have fc: "front \<le> cap" using as front asc_member [OF a, of "fst (hd as)" "snd (hd as)"] asc_end_le [OF a] by simp
  have be_cap: "be \<le> cap" using ring_back_end [OF assms(1,2)] by (simp add: be_def)
  show "ring cap (xs @ [(be, sz)])" if 1: "be \<le> front" "sz \<le> front - be"
  proof (cases "bs = []")
    case True
    then have "seg_end 0 as = be" using as eq by (simp add: be_def seg_end_last)
    with a 1 fc True eq show ?thesis by (intro ringI [of _ "as @ [(be, sz)]" "[]"]) (auto simp: asc_append)
  next
    case False
    then have "seg_end 0 bs = be" using eq by (simp add: be_def seg_end_last)
    with a b 1 fc eq as front show ?thesis by (intro ringI [of _ as "bs @ [(be, sz)]"]) (auto simp: asc_append)
  qed
  have nb: "bs = []" if "\<not> be \<le> front"
  proof (rule ccontr)
    assume "bs \<noteq> []"
    with le front eq that show False by (simp add: be_def seg_end_last)
  qed
  show "ring cap (xs @ [(be, sz)])" if 2: "\<not> be \<le> front" "sz \<le> cap - be"
  proof -
    have bs: "bs = []" using nb 2(1) by simp
    then have "seg_end 0 as = be" using as eq by (simp add: be_def seg_end_last)
    with a 2(2) be_cap bs eq show ?thesis by (intro ringI [of _ "as @ [(be, sz)]" "[]"]) (auto simp: asc_append)
  qed
  show "ring cap (xs @ [(0, sz)])" if 3: "\<not> be \<le> front" "sz \<le> front"
    using 3(2) a as nb [OF 3(1)] eq front fc by (intro ringI [of _ as "[(0, sz)]"]) auto
qed

lemma ring_disjoint:
  assumes "ring cap (xs @ [z])" and "x \<in> set xs"
  shows "seg_disjoint x z"
proof -
  from assms(1) obtain as bs where eq: "xs @ [z] = as @ bs" and a: "asc cap 0 as" and b: "asc cap 0 bs"
    and ne: "bs \<noteq> [] \<longrightarrow> as \<noteq> []" and le: "bs \<noteq> [] \<longrightarrow> seg_end 0 bs \<le> fst (hd as)"
    by (rule ringE) blast
  obtain s l where x: "x = (s, l)" by force
  obtain zs zl where z: "z = (zs, zl)" by force
  show ?thesis
  proof (cases bs rule: rev_cases)
    case Nil
    with eq a z have "asc cap 0 xs" "seg_end 0 xs \<le> zs" by (auto simp: asc_append)
    with asc_member [of cap 0 xs s l] assms(2) x z show ?thesis by (auto simp: seg_disjoint_def)
  next
    case (snoc bs' y)
    with eq have y: "y = z" "xs = as @ bs'" by auto
    with b snoc z have b': "asc cap 0 bs'" "seg_end 0 bs' \<le> zs" by (auto simp: asc_append)
    show ?thesis
    proof (cases "x \<in> set bs'")
      case True
      with asc_member [OF b'(1), of s l] b'(2) x z show ?thesis by (auto simp: seg_disjoint_def)
    next
      case False
      then have xa: "x \<in> set as" using assms(2) y by auto
      obtain hs hl as' where as: "as = (hs, hl) # as'" using ne snoc by (cases as) auto
      have "zs + zl \<le> hs" using le snoc y z as by simp
      moreover have "hs \<le> s" using a xa as x asc_member [of cap "hs + hl" as' s l] by auto
      ultimately show ?thesis by (simp add: seg_disjoint_def x z)
    qed
  qed
qed

lemma ring_prefix: "ring cap (xs @ ys) \<Longrightarrow> ring cap xs"
proof (induction ys rule: rev_induct)
  case (snoc y ys)
  then show ?case using ring_butlast [of cap "xs @ ys" y] by simp
qed simp

lemma ring_nth_disjoint:
  assumes "ring cap xs" and "i < j" and "j < length xs"
  shows "seg_disjoint (xs ! i) (xs ! j)"
proof -
  have "xs = take j xs @ [xs ! j] @ drop (Suc j) xs" using assms(3) by (simp add: id_take_nth_drop [symmetric])
  then have "ring cap ((take j xs @ [xs ! j]) @ drop (Suc j) xs)" using assms(1) by simp
  then have "ring cap (take j xs @ [xs ! j])" by (rule ring_prefix)
  moreover have "xs ! i \<in> set (take j xs)" using assms(2,3) by (auto simp: in_set_conv_nth)
  ultimately show ?thesis by (rule ring_disjoint)
qed

end
