(* ===== verification/Pubsub_Inv.thy ===== *)
theory Pubsub_Inv
  imports Ring_Layout
begin

text \<open>
  The invariant of the channel state and its preservation by every operation.  \<open>st_ok st g subs\<close> relates
  the state to the outstanding write grant \<open>g\<close> and the live subscribers \<open>subs\<close>: the queued frames and
  the granted region form a ring layout, message identifiers are consecutive, the number of live
  subscribers is the counter, and each frame's counter is at least the number of subscribers that have
  not read it (which is what keeps the decrements from underflowing).
\<close>

section \<open>The invariant\<close>

definition seg_of :: "Header \<Rightarrow> seg" where
  "seg_of h = (h_start h, unat (h_len h))"

definition pending :: "FrameGrantW option \<Rightarrow> seg list" where
  "pending g = (case g of None \<Rightarrow> [] | Some g \<Rightarrow> [(gw_start g, gw_size g)])"

definition unread :: "FrameSubscriber list \<Rightarrow> nat \<Rightarrow> nat" where
  "unread subs i = length (filter (\<lambda>s. fs_next_message_id s \<le> i) subs)"

definition ids_ok :: "State \<Rightarrow> bool" where
  "ids_ok st \<longleftrightarrow> length (ps_messages st) \<le> ps_next_message_id st \<and>
     map h_message_id (ps_messages st) =
       [ps_next_message_id st - length (ps_messages st) ..< ps_next_message_id st]"

definition st_ok :: "State \<Rightarrow> FrameGrantW option \<Rightarrow> FrameSubscriber list \<Rightarrow> bool" where
  "st_ok st g subs \<longleftrightarrow>
     ring (ps_capacity st) (map seg_of (ps_messages st) @ pending g) \<and>
     (ps_write_in_progress st \<longleftrightarrow> g \<noteq> None) \<and>
     length (ps_messages st) + length (pending g) \<le> MAX_PUBSUB_MESSAGES \<and>
     ids_ok st \<and>
     unat (ps_subscriber_count st) = length subs \<and>
     (\<forall>s \<in> set subs. fs_next_message_id s \<le> ps_next_message_id st) \<and>
     (\<forall>m \<in> set (ps_messages st). unread subs (h_message_id m) \<le> unat (h_subscriber_count m))"

lemma pending_simps [simp]: "pending None = []" "pending (Some g) = [(gw_start g, gw_size g)]"
  by (simp_all add: pending_def)

lemma st_okD:
  assumes "st_ok st g subs"
  shows "ring (ps_capacity st) (map seg_of (ps_messages st) @ pending g)"
    and "ps_write_in_progress st \<longleftrightarrow> g \<noteq> None"
    and "length (ps_messages st) + length (pending g) \<le> MAX_PUBSUB_MESSAGES"
    and "ids_ok st" and "unat (ps_subscriber_count st) = length subs"
    and "\<And>s. s \<in> set subs \<Longrightarrow> fs_next_message_id s \<le> ps_next_message_id st"
    and "\<And>m. m \<in> set (ps_messages st) \<Longrightarrow> unread subs (h_message_id m) \<le> unat (h_subscriber_count m)"
  using assms by (auto simp: st_ok_def)

lemma h_end_seg: "h_end h = fst (seg_of h) + snd (seg_of h)"
  by (simp add: h_end_def seg_of_def)

lemma waker_call_sel [simp]:
  "ps_capacity (waker_call c st) = ps_capacity st" "ps_messages (waker_call c st) = ps_messages st"
  "ps_write_in_progress (waker_call c st) = ps_write_in_progress st"
  "ps_next_message_id (waker_call c st) = ps_next_message_id st"
  "ps_subscriber_count (waker_call c st) = ps_subscriber_count st"
  "ps_publisher_taken (waker_call c st) = ps_publisher_taken st"
  by (simp_all add: waker_call_def)

lemma register_if_sel [simp]:
  "ps_capacity (register_if b c st) = ps_capacity st" "ps_messages (register_if b c st) = ps_messages st"
  "ps_write_in_progress (register_if b c st) = ps_write_in_progress st"
  "ps_next_message_id (register_if b c st) = ps_next_message_id st"
  "ps_subscriber_count (register_if b c st) = ps_subscriber_count st"
  "ps_publisher_taken (register_if b c st) = ps_publisher_taken st"
  by (simp_all add: register_if_def)

lemma ids_ok_cong:
  "ps_messages st' = ps_messages st \<Longrightarrow> ps_next_message_id st' = ps_next_message_id st \<Longrightarrow> ids_ok st' = ids_ok st"
  by (simp add: ids_ok_def)

lemma st_ok_waker [simp]: "st_ok (waker_call c st) g subs = st_ok st g subs"
  by (simp add: st_ok_def ids_ok_def)

lemma st_ok_register [simp]: "st_ok (register_if b c st) g subs = st_ok st g subs"
  by (simp add: st_ok_def ids_ok_def)

lemma ids_nth:
  assumes "ids_ok st" and "k < length (ps_messages st)"
  shows "h_message_id (ps_messages st ! k) = ps_next_message_id st - length (ps_messages st) + k"
proof -
  from assms have "h_message_id (ps_messages st ! k) =
      [ps_next_message_id st - length (ps_messages st) ..< ps_next_message_id st] ! k"
    by (metis ids_ok_def nth_map)
  also have "\<dots> = ps_next_message_id st - length (ps_messages st) + k"
    using assms by (intro nth_upt) (auto simp: ids_ok_def)
  finally show ?thesis .
qed

lemma ids_member_bounds:
  assumes "ids_ok st" and "m \<in> set (ps_messages st)"
  shows "ps_next_message_id st - length (ps_messages st) \<le> h_message_id m" and "h_message_id m < ps_next_message_id st"
proof -
  have "h_message_id m \<in> set (map h_message_id (ps_messages st))" using assms(2) by simp
  with assms(1) show "ps_next_message_id st - length (ps_messages st) \<le> h_message_id m"
    "h_message_id m < ps_next_message_id st" by (auto simp: ids_ok_def)
qed

section \<open>Counting unread subscribers\<close>

lemma unread_append [simp]: "unread (xs @ ys) i = unread xs i + unread ys i"
  by (simp add: unread_def)

lemma unread_Cons [simp]: "unread (s # xs) i = (if fs_next_message_id s \<le> i then 1 else 0) + unread xs i"
  by (simp add: unread_def)

lemma unread_Nil [simp]: "unread [] i = 0"
  by (simp add: unread_def)

lemma unread_remove:
  assumes "k < length subs"
  shows "unread subs i = unread (take k subs @ drop (Suc k) subs) i + (if fs_next_message_id (subs ! k) \<le> i then 1 else 0)"
  by (subst id_take_nth_drop [OF assms]) simp

lemma unread_update:
  assumes "k < length subs"
  shows "unread (subs[k := s]) i + (if fs_next_message_id (subs ! k) \<le> i then 1 else 0) =
    unread subs i + (if fs_next_message_id s \<le> i then 1 else 0)"
  using unread_remove [OF assms, of i] by (simp add: upd_conv_take_nth_drop [OF assms])

section \<open>Free space and grants\<close>

lemma ring_messages: "st_ok st g subs \<Longrightarrow> ring (ps_capacity st) (map seg_of (ps_messages st))"
  by (auto simp: st_ok_def intro: ring_prefix)

lemma last_seg: "ms \<noteq> [] \<Longrightarrow> fst (last (map seg_of ms)) + snd (last (map seg_of ms)) = h_end (last ms)"
  by (simp add: last_map h_end_seg)

lemma back_end_le: "st_ok st g subs \<Longrightarrow> ps_messages st \<noteq> [] \<Longrightarrow> h_end (last (ps_messages st)) \<le> ps_capacity st"
  using ring_back_end [OF ring_messages] last_seg by (metis map_is_Nil_conv)

lemma free_space_ok:
  assumes "st_ok st g subs"
  shows "\<exists>n. free_space st = Ok n \<and> n \<le> ps_capacity st"
proof (cases "ps_messages st = []")
  case False
  have "hd (ps_messages st) \<in> set (ps_messages st)" using False by simp
  then have "h_start (hd (ps_messages st)) \<le> ps_capacity st"
    using ring_member [OF ring_messages [OF assms], of "h_start (hd (ps_messages st))"
        "unat (h_len (hd (ps_messages st)))"] by (force simp: seg_of_def)
  with False back_end_le [OF assms] show ?thesis by (auto simp: free_space_def Let_def)
qed (simp add: free_space_def)

lemma new_start_ok:
  assumes "st_ok st None subs" and "free_space st = (Ok free :: ('e, nat) result)" and "sz \<le> free"
  shows "\<exists>s. new_start sz st = (Ok s :: ('f, nat) result) \<and>
    ring (ps_capacity st) (map seg_of (ps_messages st) @ [(s, sz)]) \<and> s + sz \<le> ps_capacity st"
proof (cases "ps_messages st = []")
  case True
  with assms show ?thesis by (simp add: new_start_def free_space_def ring_single)
next
  case False
  let ?ms = "map seg_of (ps_messages st)" and ?cap = "ps_capacity st"
  have ring: "ring ?cap ?ms" by (rule ring_messages [OF assms(1)])
  have be: "fst (last ?ms) + snd (last ?ms) = h_end (last (ps_messages st))" using False by (rule last_seg)
  have fr: "fst (hd ?ms) = h_start (hd (ps_messages st))" using False by (simp add: hd_map seg_of_def)
  have cap: "h_end (last (ps_messages st)) \<le> ?cap" by (rule back_end_le [OF assms(1) False])
  note ext = ring_extend [OF ring, of sz, unfolded be fr]
  have "\<exists>s. new_start sz st = (Ok s :: ('f, nat) result) \<and> ring ?cap (?ms @ [(s, sz)])"
    using False assms(2,3) ext cap
    by (auto simp: new_start_def free_space_def Let_def max_def split: if_splits)
  then show ?thesis using ring_back_end by fastforce
qed

lemma grant_Ok:
  assumes ok: "st_ok st None subs" and free: "free_space st = (Ok n :: (PubSubError, nat) result)"
    and "sz \<le> n" and "\<not> messages_full st"
  shows "\<exists>g. grant_with_context sz cx st = (Ok g, st\<lparr>ps_write_in_progress := True\<rparr>) \<and>
    gw_size g = sz \<and> gw_to_commit g = 0 \<and> gw_pid g = 0 \<and> gw_start g + sz \<le> ps_capacity st \<and>
    st_ok (st\<lparr>ps_write_in_progress := True\<rparr>) (Some g) subs"
proof -
  obtain s where s: "new_start sz st = (Ok s :: (PubSubError, nat) result)"
    "ring (ps_capacity st) (map seg_of (ps_messages st) @ [(s, sz)])" "s + sz \<le> ps_capacity st"
    using new_start_ok [OF ok free assms(3)] by blast
  have "\<not> ps_write_in_progress st" using st_okD(2) [OF ok] by simp
  moreover have "st_ok (st\<lparr>ps_write_in_progress := True\<rparr>)
      (Some \<lparr>gw_start = s, gw_size = sz, gw_to_commit = 0, gw_pid = 0\<rparr>) subs"
    using ok s(2) assms(4) unfolding st_ok_def ids_ok_def messages_full_def by auto
  ultimately show ?thesis using s free assms(3,4) by (auto simp: grant_with_context_def)
qed

lemma grant_Err:
  assumes ok: "st_ok st g subs" and free: "free_space st = (Ok n :: (PubSubError, nat) result)"
    and "g \<noteq> None \<or> n < sz \<or> messages_full st"
  shows "grant_with_context sz cx st =
    (Err (if g \<noteq> None then GrantInProgress else InsufficientSize), register_if cx RegisterPublisher st)"
  using assms st_okD(2) [OF ok] by (auto simp: grant_with_context_def)

lemma grant_preserves:
  assumes "st_ok st g subs" and "grant_with_context sz cx st = (r, st1)"
  shows "r \<noteq> Panic" and "\<And>e. r = Err e \<Longrightarrow> st_ok st1 g subs \<and> ps_messages st1 = ps_messages st"
    and "\<And>g'. r = Ok g' \<Longrightarrow> g = None \<and> st_ok st1 (Some g') subs \<and> gw_size g' = sz \<and>
      gw_start g' + sz \<le> ps_capacity st \<and> st1 = st\<lparr>ps_write_in_progress := True\<rparr>"
proof -
  obtain n where n: "free_space st = (Ok n :: (PubSubError, nat) result)" using free_space_ok [OF assms(1)] by blast
  have "r \<noteq> Panic \<and> (\<forall>e. r = Err e \<longrightarrow> st_ok st1 g subs \<and> ps_messages st1 = ps_messages st) \<and>
    (\<forall>g'. r = Ok g' \<longrightarrow> g = None \<and> st_ok st1 (Some g') subs \<and> gw_size g' = sz \<and>
      gw_start g' + sz \<le> ps_capacity st \<and> st1 = st\<lparr>ps_write_in_progress := True\<rparr>)"
  proof (cases "g \<noteq> None \<or> n < sz \<or> messages_full st")
    case True
    from grant_Err [OF assms(1) n True, of cx] assms show ?thesis by auto
  next
    case False
    with assms(1) have "st_ok st None subs" "sz \<le> n" "\<not> messages_full st" by auto
    from grant_Ok [OF this(1) n this(2,3), of cx] assms(2) False show ?thesis by auto
  qed
  then show "r \<noteq> Panic" and "\<And>e. r = Err e \<Longrightarrow> st_ok st1 g subs \<and> ps_messages st1 = ps_messages st"
    and "\<And>g'. r = Ok g' \<Longrightarrow> g = None \<and> st_ok st1 (Some g') subs \<and> gw_size g' = sz \<and>
      gw_start g' + sz \<le> ps_capacity st \<and> st1 = st\<lparr>ps_write_in_progress := True\<rparr>" by blast+
qed

section \<open>Removing messages from the front\<close>

lemma ids_ok_drop:
  assumes "ids_ok st"
  shows "ids_ok (st\<lparr>ps_messages := drop k (ps_messages st)\<rparr>)"
proof -
  let ?n = "ps_next_message_id st" and ?l = "length (ps_messages st)"
  from assms have l: "?l \<le> ?n" and m: "map h_message_id (ps_messages st) = [?n - ?l ..< ?n]"
    by (simp_all add: ids_ok_def)
  have "map h_message_id (drop k (ps_messages st)) = [?n - ?l + k ..< ?n]"
    by (simp add: drop_map [symmetric] m)
  also have "\<dots> = [?n - (?l - k) ..< ?n]" using l by (cases "k \<le> ?l") auto
  finally show ?thesis using l by (auto simp: ids_ok_def)
qed

lemma st_ok_drop:
  assumes "st_ok st g subs"
  shows "st_ok (st\<lparr>ps_messages := drop k (ps_messages st)\<rparr>) g subs"
proof -
  have "map seg_of (ps_messages st) @ pending g =
      map seg_of (take k (ps_messages st)) @ map seg_of (drop k (ps_messages st)) @ pending g"
    by (metis append.assoc append_take_drop_id map_append)
  then have "ring (ps_capacity st) (map seg_of (drop k (ps_messages st)) @ pending g)"
    using st_okD(1) [OF assms] ring_append by metis
  with assms ids_ok_drop [of st k] show ?thesis
    unfolding st_ok_def by (auto dest: in_set_dropD)
qed

lemma evict_spec:
  assumes "st_ok st g subs"
  shows "\<exists>k. snd (evict sz st) = st\<lparr>ps_messages := drop k (ps_messages st)\<rparr> \<and> fst (evict sz st) \<noteq> Panic \<and>
    (\<forall>m \<in> set (take k (ps_messages st)). \<not> h_read_in_progress m) \<and>
    (fst (evict sz st) = Ok () \<longrightarrow> ps_messages (snd (evict sz st)) = [] \<or>
      (\<exists>n. free_space (snd (evict sz st)) = (Ok n :: (PubSubError, nat) result) \<and> sz \<le> n \<and>
        \<not> messages_full (snd (evict sz st)))) \<and>
    (\<forall>e. fst (evict sz st) = Err e \<longrightarrow> e = InsufficientSize \<and>
      (\<exists>m ms. drop k (ps_messages st) = m # ms \<and> h_read_in_progress m))"
  using assms
proof (induction "length (ps_messages st)" arbitrary: st)
  case 0
  obtain n where "free_space st = (Ok n :: (PubSubError, nat) result)" using free_space_ok [OF "0.prems"] by blast
  with 0 show ?case by (intro exI [of _ 0]) (simp add: evict.simps)
next
  case (Suc len)
  obtain n where n: "free_space st = (Ok n :: (PubSubError, nat) result)" using free_space_ok [OF Suc.prems] by blast
  obtain front rest where ms: "ps_messages st = front # rest" using Suc.hyps(2) by (cases "ps_messages st") auto
  show ?case
  proof (cases "(n < sz \<or> messages_full st) \<and> \<not> h_read_in_progress front")
    case True
    let ?st1 = "st\<lparr>ps_messages := rest\<rparr>"
    have "st_ok ?st1 g subs" using st_ok_drop [OF Suc.prems, of 1] ms by simp
    then obtain k where IH: "snd (evict sz ?st1) = ?st1\<lparr>ps_messages := drop k (ps_messages ?st1)\<rparr> \<and>
      fst (evict sz ?st1) \<noteq> Panic \<and>
      (\<forall>m \<in> set (take k (ps_messages ?st1)). \<not> h_read_in_progress m) \<and>
      (fst (evict sz ?st1) = Ok () \<longrightarrow> ps_messages (snd (evict sz ?st1)) = [] \<or>
        (\<exists>n. free_space (snd (evict sz ?st1)) = (Ok n :: (PubSubError, nat) result) \<and> sz \<le> n \<and>
          \<not> messages_full (snd (evict sz ?st1)))) \<and>
      (\<forall>e. fst (evict sz ?st1) = Err e \<longrightarrow> e = InsufficientSize \<and>
        (\<exists>m ms. drop k (ps_messages ?st1) = m # ms \<and> h_read_in_progress m))"
      using Suc.hyps(1) [of ?st1] Suc.hyps(2) ms by auto
    have ev: "evict sz st = evict sz ?st1"
      using True ms n by (subst evict.simps) auto
    have st1: "snd (evict sz ?st1) = st\<lparr>ps_messages := drop k rest\<rparr>" using IH by simp
    show ?thesis
      unfolding ev using IH [unfolded st1] True ms by (intro exI [of _ "Suc k"]) (simp add: st1)
  next
    case False
    with ms n show ?thesis by (intro exI [of _ 0]) (auto simp: evict.simps [of sz st])
  qed
qed

section \<open>Committing a grant\<close>

lemma unat_of_nat_le: "unat (of_nat n :: 'a::len word) \<le> n"
  by (simp add: unat_of_nat)

lemma st_ok_grant_cong:
  "gw_start g' = gw_start g \<Longrightarrow> gw_size g' = gw_size g \<Longrightarrow> st_ok st (Some g') subs = st_ok st (Some g) subs"
  by (simp add: st_ok_def)

lemma commit_discard:
  assumes "st_ok st (Some g) subs" and "ps_subscriber_count st = 0"
  shows "st_ok (commit_inner g used st) None subs" and "ps_messages (commit_inner g used st) = ps_messages st"
    and "ps_next_message_id (commit_inner g used st) = ps_next_message_id st"
  using assms ring_prefix [OF st_okD(1) [OF assms(1)]]
  by (auto simp: commit_inner_def st_ok_def ids_ok_def Let_def)

lemma commit_push:
  assumes ok: "st_ok st (Some g) subs" and "ps_subscriber_count st \<noteq> 0"
  shows "st_ok (commit_inner g used st) None subs"
    and "ps_messages (commit_inner g used st) = ps_messages st @
      [\<lparr>h_start = gw_start g, h_len = of_nat (min (gw_size g) used), h_message_id = ps_next_message_id st,
        h_subscriber_count = ps_subscriber_count st, h_read_in_progress = False, h_pid = gw_pid g\<rparr>]"
    and "ps_next_message_id (commit_inner g used st) = ps_next_message_id st + 1"
proof -
  define u where "u = (of_nat (min (gw_size g) used) :: u16)"
  let ?h = "\<lparr>h_start = gw_start g, h_len = u, h_message_id = ps_next_message_id st,
        h_subscriber_count = ps_subscriber_count st, h_read_in_progress = False, h_pid = gw_pid g\<rparr>"
  have room: "\<not> messages_full st" using st_okD(3) [OF ok] by (simp add: messages_full_def)
  have wip: "ps_write_in_progress st" using st_okD(2) [OF ok] by simp
  from room wip assms(2) have c: "commit_inner g used st = waker_call WakeSubscribers
      (st\<lparr>ps_messages := ps_messages st @ [?h], ps_next_message_id := ps_next_message_id st + 1,
          ps_write_in_progress := False\<rparr>)"
    by (simp add: commit_inner_def Let_def u_def)
  have "unat u \<le> gw_size g"
    unfolding u_def by (rule order_trans [OF unat_of_nat_le min.cobounded1])
  then have "ring (ps_capacity st) (map seg_of (ps_messages st) @ [(gw_start g, unat u)])"
    using st_okD(1) [OF ok] ring_shrink by simp
  moreover have "ids_ok (st\<lparr>ps_messages := ps_messages st @ [?h], ps_next_message_id := ps_next_message_id st + 1,
          ps_write_in_progress := False\<rparr>)"
    using st_okD(4) [OF ok] by (auto simp: ids_ok_def Suc_diff_le)
  moreover have "unread subs i \<le> unat (ps_subscriber_count st)" for i
    using st_okD(5) [OF ok] by (simp add: unread_def)
  ultimately show "st_ok (commit_inner g used st) None subs"
    unfolding c st_ok_waker using st_okD(3,5,6,7) [OF ok]
    by (auto simp: st_ok_def seg_of_def le_SucI)
  show "ps_messages (commit_inner g used st) = ps_messages st @
      [\<lparr>h_start = gw_start g, h_len = of_nat (min (gw_size g) used), h_message_id = ps_next_message_id st,
        h_subscriber_count = ps_subscriber_count st, h_read_in_progress = False, h_pid = gw_pid g\<rparr>]"
    "ps_next_message_id (commit_inner g used st) = ps_next_message_id st + 1"
    unfolding u_def [symmetric] by (simp_all add: c)
qed

lemma commit_ok: "st_ok st (Some g) subs \<Longrightarrow> st_ok (commit_inner g used st) None subs"
  using commit_discard(1) commit_push(1) by blast

section \<open>Updating a message in place\<close>

lemma map_list_update_same: "i < length xs \<Longrightarrow> f y = f (xs ! i) \<Longrightarrow> map f (xs[i := y]) = map f xs"
  by (simp add: map_update list_update_same_conv)

lemma st_ok_update:
  assumes ok: "st_ok st g subs" and i: "i < length (ps_messages st)"
    and h: "seg_of h = seg_of (ps_messages st ! i)" "h_message_id h = h_message_id (ps_messages st ! i)"
    and subs: "length subs' = length subs" "\<And>s. s \<in> set subs' \<Longrightarrow> fs_next_message_id s \<le> ps_next_message_id st"
    and count: "unread subs' (h_message_id h) \<le> unat (h_subscriber_count h)"
    and others: "\<And>m. m \<in> set (ps_messages st) \<Longrightarrow> h_message_id m \<noteq> h_message_id h \<Longrightarrow>
      unread subs' (h_message_id m) \<le> unread subs (h_message_id m)"
  shows "st_ok (st\<lparr>ps_messages := (ps_messages st)[i := h]\<rparr>) g subs'"
proof -
  let ?ms = "(ps_messages st)[i := h]"
  have "map seg_of ?ms = map seg_of (ps_messages st)" "map h_message_id ?ms = map h_message_id (ps_messages st)"
    using i h by (simp_all add: map_list_update_same)
  moreover have "unread subs' (h_message_id m) \<le> unat (h_subscriber_count m)" if "m \<in> set ?ms" for m
  proof -
    obtain k where k: "k < length (ps_messages st)" "m = ?ms ! k" using \<open>m \<in> set ?ms\<close> by (auto simp: in_set_conv_nth)
    show ?thesis
    proof (cases "k = i")
      case True
      with k count show ?thesis by simp
    next
      case False
      then have m: "m = ps_messages st ! k" using k by simp
      then have "h_message_id m \<noteq> h_message_id h"
        using False k(1) i h(2) ids_nth [OF st_okD(4) [OF ok]] by auto
      moreover have "m \<in> set (ps_messages st)" using m k(1) by simp
      ultimately show ?thesis using others st_okD(7) [OF ok] order_trans by blast
    qed
  qed
  ultimately show ?thesis
    using ok subs by (simp add: st_ok_def ids_ok_def)
qed

section \<open>Reading\<close>

definition first_id :: "State \<Rightarrow> nat" where
  "first_id st = ps_next_message_id st - length (ps_messages st)"

definition caught_up :: "State \<Rightarrow> FrameSubscriber \<Rightarrow> FrameSubscriber" where
  "caught_up st sub = sub\<lparr>fs_next_message_id := max (fs_next_message_id sub) (first_id st)\<rparr>"

lemma caught_up_sel [simp]:
  "fs_next_message_id (caught_up st sub) = max (fs_next_message_id sub) (first_id st)"
  by (simp add: caught_up_def)

lemma read_unfold:
  assumes "ids_ok st"
  shows "read_with_context cx sub st =
    (let i = fs_next_message_id (caught_up st sub) - first_id st in
     if length (ps_messages st) \<le> i
     then (Err InsufficientSize, caught_up st sub, register_if cx RegisterSubscriber st)
     else let h = ps_messages st ! i in
       if h_read_in_progress h then (Err GrantInProgress, caught_up st sub, register_if cx RegisterSubscriber st)
       else if h_subscriber_count h = 0 then (Panic, caught_up st sub, st)
       else (Ok \<lparr>gr_start = h_start h, gr_size = unat (h_len h), gr_message_id = h_message_id h,
                 gr_auto_release = True, gr_pid = h_pid h\<rparr>,
             (caught_up st sub)\<lparr>fs_next_message_id := fs_next_message_id (caught_up st sub) + 1\<rparr>,
             st\<lparr>ps_messages := (ps_messages st)[i :=
               h\<lparr>h_subscriber_count := h_subscriber_count h - 1, h_read_in_progress := True\<rparr>]\<rparr>))"
proof -
  have "\<not> ps_next_message_id st < length (ps_messages st)" using assms by (simp add: ids_ok_def)
  moreover have "(if fs_next_message_id sub < first_id st then sub\<lparr>fs_next_message_id := first_id st\<rparr> else sub) =
      caught_up st sub"
    by (cases sub) (simp add: caught_up_def)
  ultimately show ?thesis
    unfolding read_with_context_def by (simp add: first_id_def [symmetric] Let_def cong: if_cong)
qed

lemma st_ok_subs:
  assumes "st_ok st g subs" and "length subs' = length subs"
    and "\<And>s. s \<in> set subs' \<Longrightarrow> fs_next_message_id s \<le> ps_next_message_id st"
    and "\<And>m. m \<in> set (ps_messages st) \<Longrightarrow> unread subs' (h_message_id m) \<le> unread subs (h_message_id m)"
  shows "st_ok st g subs'"
proof -
  have "unread subs' (h_message_id m) \<le> unat (h_subscriber_count m)" if "m \<in> set (ps_messages st)" for m
    using assms(4) [OF that] st_okD(7) [OF assms(1) that] by (rule order_trans)
  with assms(1-3) show ?thesis by (simp add: st_ok_def)
qed

lemma unread_caught_up:
  assumes "k < length subs" and "first_id st \<le> i"
  shows "unread (subs[k := caught_up st (subs ! k)]) i = unread subs i"
  using unread_update [OF assms(1), of "caught_up st (subs ! k)" i] assms(2) by auto

lemma caught_up_le:
  "st_ok st g subs \<Longrightarrow> k < length subs \<Longrightarrow> fs_next_message_id (caught_up st (subs ! k)) \<le> ps_next_message_id st"
  using st_okD(6) by (simp add: first_id_def)

lemma st_ok_caught_up:
  assumes ok: "st_ok st g subs" and k: "k < length subs"
  shows "st_ok st g (subs[k := caught_up st (subs ! k)])"
proof (rule st_ok_subs [OF ok])
  fix s assume "s \<in> set (subs[k := caught_up st (subs ! k)])"
  then have "s = caught_up st (subs ! k) \<or> s \<in> set subs" using set_update_subset_insert by fastforce
  then show "fs_next_message_id s \<le> ps_next_message_id st" using caught_up_le [OF ok k] st_okD(6) [OF ok] by auto
next
  fix m assume "m \<in> set (ps_messages st)"
  then have "first_id st \<le> h_message_id m"
    using ids_member_bounds(1) [OF st_okD(4) [OF ok]] by (simp add: first_id_def)
  then show "unread (subs[k := caught_up st (subs ! k)]) (h_message_id m) \<le> unread subs (h_message_id m)"
    by (simp add: unread_caught_up [OF k])
qed simp

lemma unat_minus_1: "(w::'a::len word) \<noteq> 0 \<Longrightarrow> unat (w - 1) = unat w - 1"
  by (simp add: unat_minus_one)

lemma read_grants:
  assumes ok: "st_ok st g subs" and k: "k < length subs"
    and i: "i = fs_next_message_id (caught_up st (subs ! k)) - first_id st" "i < length (ps_messages st)"
    and h: "h = ps_messages st ! i"
  shows "h_subscriber_count h \<noteq> 0" and "h_message_id h = fs_next_message_id (caught_up st (subs ! k))"
    and "st_ok (st\<lparr>ps_messages := (ps_messages st)[i :=
        h\<lparr>h_subscriber_count := h_subscriber_count h - 1, h_read_in_progress := True\<rparr>]\<rparr>) g
      (subs[k := (caught_up st (subs ! k))\<lparr>fs_next_message_id := fs_next_message_id (caught_up st (subs ! k)) + 1\<rparr>])"
proof -
  let ?n = "fs_next_message_id (caught_up st (subs ! k))"
  let ?sub' = "(caught_up st (subs ! k))\<lparr>fs_next_message_id := ?n + 1\<rparr>"
  have hm: "h \<in> set (ps_messages st)" using i h by simp
  show id: "h_message_id h = ?n"
    using ids_nth [OF st_okD(4) [OF ok] i(2)] i h by (simp add: first_id_def)
  have cu: "unread (subs[k := ?sub']) j + (if ?n \<le> j then 1 else 0) = unread subs j + (if ?n + 1 \<le> j then 1 else 0)"
    if "first_id st \<le> j" for j
    using unread_update [OF k, of ?sub' j] that by (auto simp: max_def split: if_splits)
  have first: "first_id st \<le> h_message_id h" using id by simp
  have pos: "1 \<le> unread subs (h_message_id h)" using cu [OF first] id by auto
  also have "\<dots> \<le> unat (h_subscriber_count h)" by (rule st_okD(7) [OF ok hm])
  finally show nz: "h_subscriber_count h \<noteq> 0" by auto
  show "st_ok (st\<lparr>ps_messages := (ps_messages st)[i :=
        h\<lparr>h_subscriber_count := h_subscriber_count h - 1, h_read_in_progress := True\<rparr>]\<rparr>) g (subs[k := ?sub'])"
  proof (rule st_ok_update [OF ok i(2)])
    fix s assume "s \<in> set (subs[k := ?sub'])"
    then have "s = ?sub' \<or> s \<in> set subs" using set_update_subset_insert by fastforce
    moreover have "?n < ps_next_message_id st"
      using ids_member_bounds(2) [OF st_okD(4) [OF ok] hm] id by simp
    ultimately show "fs_next_message_id s \<le> ps_next_message_id st" using st_okD(6) [OF ok] by auto
  next
    show "unread (subs[k := ?sub']) (h_message_id (h\<lparr>h_subscriber_count := h_subscriber_count h - 1, h_read_in_progress := True\<rparr>))
        \<le> unat (h_subscriber_count (h\<lparr>h_subscriber_count := h_subscriber_count h - 1, h_read_in_progress := True\<rparr>))"
      using cu [OF first] id st_okD(7) [OF ok hm] nz by (simp add: unat_minus_1)
  next
    fix m assume m: "m \<in> set (ps_messages st)"
      "h_message_id m \<noteq> h_message_id (h\<lparr>h_subscriber_count := h_subscriber_count h - 1, h_read_in_progress := True\<rparr>)"
    then have "first_id st \<le> h_message_id m"
      using ids_member_bounds(1) [OF st_okD(4) [OF ok]] by (simp add: first_id_def)
    from cu [OF this] m(2) id show "unread (subs[k := ?sub']) (h_message_id m) \<le> unread subs (h_message_id m)"
      by (auto split: if_splits)
  qed (simp_all add: h seg_of_def)
qed

lemma read_preserves:
  assumes ok: "st_ok st g subs" and k: "k < length subs"
    and rd: "read_with_context cx (subs ! k) st = (r, sub', st')"
  shows "r \<noteq> Panic" and "st_ok st' g (subs[k := sub'])"
proof -
  let ?i = "fs_next_message_id (caught_up st (subs ! k)) - first_id st"
  note un = rd [unfolded read_unfold [OF st_okD(4) [OF ok]] Let_def]
  have "r \<noteq> Panic \<and> st_ok st' g (subs[k := sub'])"
  proof (cases "?i < length (ps_messages st)")
    case True
    note rg = read_grants [OF ok k refl True refl]
    show ?thesis
    proof (cases "h_read_in_progress (ps_messages st ! ?i)")
      case True
      with un \<open>?i < length (ps_messages st)\<close> st_ok_caught_up [OF ok k] show ?thesis by auto
    next
      case False
      with un True rg show ?thesis by auto
    qed
  next
    case False
    with un st_ok_caught_up [OF ok k] show ?thesis by auto
  qed
  then show "r \<noteq> Panic" "st_ok st' g (subs[k := sub'])" by blast+
qed

section \<open>Releasing\<close>

lemma release_cases:
  assumes "st_ok st g subs"
  obtains (gone) "release_inner gr st = st"
    | (popped) m ms where "ps_messages st = m # ms" "h_message_id m = gr_message_id gr" "h_read_in_progress m"
        "h_subscriber_count m = 0"
        "release_inner gr st = waker_call WakeSubscribers (waker_call WakePublisher (st\<lparr>ps_messages := ms\<rparr>))"
    | (unmarked) i where "i < length (ps_messages st)" "h_message_id (ps_messages st ! i) = gr_message_id gr"
        "h_read_in_progress (ps_messages st ! i)"
        "release_inner gr st = waker_call WakeSubscribers
           (st\<lparr>ps_messages := (ps_messages st)[i := (ps_messages st ! i)\<lparr>h_read_in_progress := False\<rparr>]\<rparr>)"
proof (cases "position (\<lambda>m. h_message_id m = gr_message_id gr) (ps_messages st)")
  case None
  then show ?thesis using gone by (simp add: release_inner_def)
next
  case (Some i)
  from this [unfolded position_Some_iff] have i: "i < length (ps_messages st)"
    "h_message_id (ps_messages st ! i) = gr_message_id gr" by auto
  consider "\<not> h_read_in_progress (ps_messages st ! i)"
    | "h_read_in_progress (ps_messages st ! i)" "i = 0" "h_subscriber_count (ps_messages st ! i) = 0"
    | "h_read_in_progress (ps_messages st ! i)" "\<not> (i = 0 \<and> h_subscriber_count (ps_messages st ! i) = 0)"
    by blast
  then show ?thesis
  proof cases
    case 1
    with Some gone show ?thesis by (simp add: release_inner_def Let_def)
  next
    case 2
    with i obtain m ms where ms: "ps_messages st = m # ms" by (cases "ps_messages st") auto
    with 2 i Some show ?thesis by (intro popped [of m ms]) (simp_all add: release_inner_def Let_def)
  next
    case 3
    then show ?thesis
      using i Some by (intro unmarked [of i]) (auto simp: release_inner_def Let_def)
  qed
qed

lemma release_ok:
  assumes ok: "st_ok st g subs"
  shows "st_ok (release_inner gr st) g subs"
  using ok
proof (cases rule: release_cases [of st g subs gr])
  case (popped m ms)
  then show ?thesis using st_ok_drop [OF ok, of 1] by simp
next
  case (unmarked i)
  then have "unread subs (h_message_id (ps_messages st ! i)) \<le> unat (h_subscriber_count (ps_messages st ! i))"
    by (intro st_okD(7) [OF ok]) simp
  with unmarked st_okD(6) [OF ok] show ?thesis
    by (simp, intro st_ok_update [OF ok]) (auto simp: seg_of_def)
qed (use ok in simp)

section \<open>Adding and removing subscribers\<close>

lemma subscribe_ok:
  assumes ok: "st_ok st g subs" and "SUBS < 256" and "channel_subscriber SUBS st = (r, st')"
  shows "r \<noteq> Panic" and "\<And>s. r = Ok s \<Longrightarrow> st_ok st' g (subs @ [s])" and "\<And>e. r = Err e \<Longrightarrow> st' = st"
proof -
  have u: "unat (of_nat SUBS :: u8) = SUBS" using assms(2) by (simp add: unat_of_nat)
  have room: "unat (ps_subscriber_count st + 1) = unat (ps_subscriber_count st) + 1"
    if "ps_subscriber_count st < of_nat SUBS"
  proof -
    have "unat (ps_subscriber_count st) < 255" using that u assms(2) by (simp add: word_less_nat_alt)
    then show ?thesis by (subst unat_word_ariths) simp
  qed
  have "unat (ps_subscriber_count st) \<noteq> 255" if "ps_subscriber_count st < of_nat SUBS"
    using that u assms(2) by (simp add: word_less_nat_alt)
  then show "r \<noteq> Panic" using assms(3) by (auto simp: channel_subscriber_def not_le split: if_splits)
  show "\<And>e. r = Err e \<Longrightarrow> st' = st" using assms(3) by (auto simp: channel_subscriber_def split: if_splits)
  fix s assume "r = Ok s"
  then have s: "s = \<lparr>fs_next_message_id = ps_next_message_id st\<rparr>" and lt: "ps_subscriber_count st < of_nat SUBS"
    and st': "st' = st\<lparr>ps_subscriber_count := ps_subscriber_count st + 1\<rparr>"
    using assms(3) by (auto simp: channel_subscriber_def split: if_splits)
  have "unread (subs @ [s]) (h_message_id m) = unread subs (h_message_id m)" if "m \<in> set (ps_messages st)" for m
    using ids_member_bounds(2) [OF st_okD(4) [OF ok] that] by (simp add: s)
  with ok room [OF lt] show "st_ok st' g (subs @ [s])"
    by (auto simp: st_ok_def ids_ok_def s st')
qed

lemma for_each_dec_Ok:
  assumes "\<forall>h \<in> set hs. h_subscriber_count h \<noteq> 0"
  shows "for_each_dec hs = Ok (map (\<lambda>h. h\<lparr>h_subscriber_count := h_subscriber_count h - 1\<rparr>) hs)"
  using assms by (induction hs) (simp_all add: dec_count_def)

lemma subscriber_drop_decremented:
  assumes "ps_subscriber_count st \<noteq> 0" and "\<not> ps_next_message_id st < length (ps_messages st)"
    and "\<not> fs_next_message_id sub < first_id st"
    and "for_each_dec (drop (fs_next_message_id sub - first_id st) (ps_messages st)) = Ok hs"
  defines "st1 \<equiv> st\<lparr>ps_subscriber_count := ps_subscriber_count st - 1,
    ps_messages := pop_unread (take (fs_next_message_id sub - first_id st) (ps_messages st) @ hs)\<rparr>"
  shows "subscriber_drop sub st = (Ok (), st1) \<or> subscriber_drop sub st = (Ok (), waker_call WakePublisher st1)"
  using assms unfolding subscriber_drop_def first_id_def st1_def by (simp add: Let_def)

lemma st_ok_replace:
  assumes ok: "st_ok st g subs" and ms: "map seg_of ms = map seg_of (ps_messages st)"
    "map h_message_id ms = map h_message_id (ps_messages st)" and "unat c = length subs'"
    and "\<And>s. s \<in> set subs' \<Longrightarrow> fs_next_message_id s \<le> ps_next_message_id st"
    and "\<And>m. m \<in> set ms \<Longrightarrow> unread subs' (h_message_id m) \<le> unat (h_subscriber_count m)"
  shows "st_ok (st\<lparr>ps_subscriber_count := c, ps_messages := ms\<rparr>) g subs'"
proof -
  have "length ms = length (ps_messages st)" using ms(1) by (rule map_eq_imp_length_eq)
  with assms st_okD(1-4) [OF ok] show ?thesis by (simp add: st_ok_def ids_ok_def)
qed

lemma map_take_drop_upd:
  assumes "\<And>h. f (d h) = f h"
  shows "map f (take i ms @ map d (drop i ms)) = map f ms"
proof -
  have "map f (take i ms @ map d (drop i ms)) = map f (take i ms) @ map f (drop i ms)" by (simp add: assms)
  then show ?thesis by (metis append_take_drop_id map_append)
qed

lemma pop_unread_drop: "\<exists>n. pop_unread hs = drop n hs"
  unfolding pop_unread_def dropWhile_eq_drop by blast

lemma subscriber_drop_ok:
  assumes ok: "st_ok st g subs" and k: "k < length subs"
    and dr: "subscriber_drop (subs ! k) st = (r, st')"
  shows "r = Ok ()" and "st_ok st' g (take k subs @ drop (Suc k) subs)"
proof -
  let ?subs = "take k subs @ drop (Suc k) subs" and ?s = "subs ! k"
  let ?dec = "\<lambda>h. h\<lparr>h_subscriber_count := h_subscriber_count h - 1\<rparr>"
  let ?st1 = "st\<lparr>ps_subscriber_count := ps_subscriber_count st - 1\<rparr>"
  note ids = st_okD(4) [OF ok]
  have nz: "ps_subscriber_count st \<noteq> 0" using st_okD(5) [OF ok] k by auto
  have cnt: "unat (ps_subscriber_count st - 1) = length ?subs"
    using unat_minus_1 [OF nz] st_okD(5) [OF ok] k by simp
  have nlt: "\<not> ps_next_message_id st < length (ps_messages st)" using ids by (simp add: ids_ok_def)
  have sub: "set ?subs \<subseteq> set subs" using set_take_subset set_drop_subset by (metis Un_least set_append)
  have rem: "unread subs i = unread ?subs i + (if fs_next_message_id ?s \<le> i then 1 else 0)" for i
    by (rule unread_remove [OF k])
  have "r = Ok () \<and> st_ok st' g ?subs"
  proof (cases "fs_next_message_id ?s < first_id st")
    case True
    then have "st' = ?st1" "r = Ok ()"
      using dr nz nlt by (auto simp: subscriber_drop_def first_id_def Let_def)
    moreover have "unread ?subs (h_message_id m) \<le> unat (h_subscriber_count m)" if "m \<in> set (ps_messages st)" for m
      using st_okD(7) [OF ok that] rem [of "h_message_id m"] by simp
    ultimately show ?thesis
      using ok cnt sub by (auto simp: st_ok_def ids_ok_def)
  next
    case False
    let ?i = "fs_next_message_id ?s - first_id st"
    let ?ms = "take ?i (ps_messages st) @ map ?dec (drop ?i (ps_messages st))"
    have later: "h_subscriber_count m \<noteq> 0 \<and> unread ?subs (h_message_id m) \<le> unat (h_subscriber_count m - 1)"
      if m: "m \<in> set (drop ?i (ps_messages st))" for m
    proof -
      obtain j where j: "j < length (ps_messages st) - ?i" "m = ps_messages st ! (?i + j)"
        using m by (auto simp: in_set_conv_nth)
      then have "fs_next_message_id ?s \<le> h_message_id m"
        using ids_nth [OF ids, of "?i + j"] by (simp add: first_id_def)
      with rem [of "h_message_id m"] have r1: "unread subs (h_message_id m) = unread ?subs (h_message_id m) + 1" by simp
      have "unread subs (h_message_id m) \<le> unat (h_subscriber_count m)"
        by (rule st_okD(7) [OF ok in_set_dropD [OF m]])
      with r1 have "h_subscriber_count m \<noteq> 0" "unread ?subs (h_message_id m) \<le> unat (h_subscriber_count m) - 1" by auto
      then show ?thesis by (simp add: unat_minus_1)
    qed
    then have dec: "for_each_dec (drop ?i (ps_messages st)) = Ok (map ?dec (drop ?i (ps_messages st)))"
      by (intro for_each_dec_Ok) blast
    obtain n where n: "pop_unread ?ms = drop n ?ms" using pop_unread_drop [of ?ms] by blast
    let ?st2 = "?st1\<lparr>ps_messages := ?ms\<rparr>"
    have msg: "map seg_of ?ms = map seg_of (ps_messages st)" "map h_message_id ?ms = map h_message_id (ps_messages st)"
      using map_take_drop_upd [of seg_of ?dec ?i "ps_messages st"]
        map_take_drop_upd [of h_message_id ?dec ?i "ps_messages st"] by (simp_all add: seg_of_def)
    have "st_ok ?st2 g ?subs"
    proof -
      have early: "unread ?subs (h_message_id m) \<le> unat (h_subscriber_count m)" if "m \<in> set (ps_messages st)" for m
        using st_okD(7) [OF ok that] rem [of "h_message_id m"] by simp
      have "unread ?subs (h_message_id m) \<le> unat (h_subscriber_count m)" if m: "m \<in> set ?ms" for m
      proof (cases "m \<in> set (take ?i (ps_messages st))")
        case True
        then show ?thesis by (intro early) (rule in_set_takeD)
      next
        case False
        with m obtain m0 where "m0 \<in> set (drop ?i (ps_messages st))" "m = ?dec m0" by auto
        with later show ?thesis by simp
      qed
      then show ?thesis
        using st_okD(6) [OF ok] sub by (intro st_ok_replace [OF ok msg cnt]) blast+
    qed
    then have "st_ok (?st2\<lparr>ps_messages := drop n ?ms\<rparr>) g ?subs" using st_ok_drop [of ?st2 g ?subs n] by simp
    moreover have "subscriber_drop ?s st = (Ok (), ?st1\<lparr>ps_messages := drop n ?ms\<rparr>) \<or>
        subscriber_drop ?s st = (Ok (), waker_call WakePublisher (?st1\<lparr>ps_messages := drop n ?ms\<rparr>))"
      using subscriber_drop_decremented [OF nz nlt False dec] unfolding n .
    ultimately show ?thesis unfolding dr by (elim disjE) (simp_all del: map_append)
  qed
  then show "r = Ok ()" "st_ok st' g ?subs" by blast+
qed

lemma clear_ok: "st_ok st g subs \<Longrightarrow> st_ok (state_clear st) g subs"
  using st_ok_drop [of st g subs "length (ps_messages st)"] by (simp add: state_clear_def)

end
