(* ===== verification/Pubsub_World.thy ===== *)
theory Pubsub_World
  imports Pubsub_Inv
begin

text \<open>
  The channel together with the handles its users hold: the outstanding write grant, the live
  subscribers and the outstanding read grants.  A step is one operation of the public interface on one
  of the handles; \<open>ps_reach\<close> closes the initial channel under all steps in any order.

  \<open>w_log\<close> is a history variable: the bytes of every committed frame, indexed by message identifier.
  It refines the channel to an abstract log: every queued frame holds the bytes of its log entry
  (\<open>data_ok\<close>), so what a subscriber reads is what was published, in the order it was published.
\<close>

section \<open>Steps\<close>

record World =
  w_ch :: Channel
  w_grant :: "FrameGrantW option"
  w_subs :: "FrameSubscriber list"
  w_reads :: "FrameGrantR list"
  w_log :: "bytes list"

datatype Label =
    Subscribe_L | TakePublisher_L | DropPublisher_L
  | Grant_L nat bool | GrantImmediate_L nat | Write_L nat bytes | SetPid_L u16 | ToCommit_L nat
  | Commit_L nat | DropGrant_L
  | Read_L nat bool | AutoRelease_L nat bool | DropRead_L nat | DropSub_L nat | Clear_L

abbreviation w_st :: "World \<Rightarrow> State" where
  "w_st w \<equiv> ch_state (w_ch w)"

abbreviation w_buf :: "World \<Rightarrow> bytes" where
  "w_buf w \<equiv> ch_buf (w_ch w)"

definition with_state :: "World \<Rightarrow> State \<Rightarrow> World" where
  "with_state w st = w\<lparr>w_ch := (w_ch w)\<lparr>ch_state := st\<rparr>\<rparr>"

definition with_buf :: "World \<Rightarrow> bytes \<Rightarrow> World" where
  "with_buf w buf = w\<lparr>w_ch := (w_ch w)\<lparr>ch_buf := buf\<rparr>\<rparr>"

definition remove_nth :: "nat \<Rightarrow> 'a list \<Rightarrow> 'a list" where
  "remove_nth i xs = take i xs @ drop (Suc i) xs"

definition commit_world :: "FrameGrantW \<Rightarrow> nat \<Rightarrow> World \<Rightarrow> World" where
  "commit_world g used w =
     (with_state w (commit_inner g used (w_st w)))
       \<lparr>w_grant := None,
        w_log := (if ps_subscriber_count (w_st w) = 0 then w_log w
                  else w_log w @ [slice (w_buf w) (gw_start g) (unat (of_nat (min (gw_size g) used) :: u16))])\<rparr>"

definition granted :: "(PubSubError, FrameGrantW) result \<times> State \<Rightarrow> World \<Rightarrow> (PubSubError, unit) result \<times> World" where
  "granted rs w =
     (case rs of
        (Ok g, st) \<Rightarrow> (Ok (), (with_state w st)\<lparr>w_grant := Some g\<rparr>)
      | (Err e, st) \<Rightarrow> (Err e, with_state w st)
      | (Panic, st) \<Rightarrow> (Panic, with_state w st))"

text \<open>A label that names a handle which does not exist does nothing.\<close>

fun ps_exec :: "nat \<Rightarrow> Label \<Rightarrow> World \<Rightarrow> (PubSubError, unit) result \<times> World" where
  "ps_exec SUBS Subscribe_L w =
     (case channel_subscriber SUBS (w_st w) of
        (Ok s, st) \<Rightarrow> (Ok (), (with_state w st)\<lparr>w_subs := w_subs w @ [s]\<rparr>)
      | (Err e, st) \<Rightarrow> (Err e, with_state w st)
      | (Panic, st) \<Rightarrow> (Panic, with_state w st))"
| "ps_exec SUBS TakePublisher_L w =
     (case channel_publisher (w_ch w) of (r, ch) \<Rightarrow> (r, w\<lparr>w_ch := ch\<rparr>))"
| "ps_exec SUBS DropPublisher_L w = (Ok (), with_state w (publisher_drop (w_st w)))"
| "ps_exec SUBS (Grant_L n cx) w =
     (if ps_publisher_taken (w_st w) then granted (grant_with_context n cx (w_st w)) w else (Ok (), w))"
| "ps_exec SUBS (GrantImmediate_L n) w =
     (if ps_publisher_taken (w_st w) then granted (grant_immediate n (w_st w)) w else (Ok (), w))"
| "ps_exec SUBS (Write_L i bs) w =
     (case w_grant w of
        None \<Rightarrow> (Ok (), w)
      | Some g \<Rightarrow>
          (if i + length bs \<le> gw_size g
           then (case grant_write g i bs (w_buf w) of
                   Ok buf \<Rightarrow> (Ok (), with_buf w buf) | Err e \<Rightarrow> (Err e, w) | Panic \<Rightarrow> (Panic, w))
           else (Ok (), w)))"
| "ps_exec SUBS (SetPid_L pid) w = (Ok (), w\<lparr>w_grant := map_option (grant_set_pid pid) (w_grant w)\<rparr>)"
| "ps_exec SUBS (ToCommit_L amt) w = (Ok (), w\<lparr>w_grant := map_option (grant_to_commit amt) (w_grant w)\<rparr>)"
| "ps_exec SUBS (Commit_L used) w =
     (case w_grant w of None \<Rightarrow> (Ok (), w) | Some g \<Rightarrow> (Ok (), commit_world g used w))"
| "ps_exec SUBS DropGrant_L w =
     (case w_grant w of None \<Rightarrow> (Ok (), w) | Some g \<Rightarrow> (Ok (), commit_world g (gw_to_commit g) w))"
| "ps_exec SUBS (Read_L k cx) w =
     (if k < length (w_subs w) then
        (case read_with_context cx (w_subs w ! k) (w_st w) of
           (r, sub, st) \<Rightarrow>
             (let w1 = (with_state w st)\<lparr>w_subs := (w_subs w)[k := sub]\<rparr> in
              case r of
                Ok g \<Rightarrow> (Ok (), w1\<lparr>w_reads := w_reads w @ [g]\<rparr>)
              | Err e \<Rightarrow> (Err e, w1)
              | Panic \<Rightarrow> (Panic, w1)))
      else (Ok (), w))"
| "ps_exec SUBS (AutoRelease_L k b) w =
     (if k < length (w_reads w) then (Ok (), w\<lparr>w_reads := (w_reads w)[k := auto_release b (w_reads w ! k)]\<rparr>)
      else (Ok (), w))"
| "ps_exec SUBS (DropRead_L k) w =
     (if k < length (w_reads w) then
        (Ok (), (with_state w (read_grant_drop (w_reads w ! k) (w_st w)))\<lparr>w_reads := remove_nth k (w_reads w)\<rparr>)
      else (Ok (), w))"
| "ps_exec SUBS (DropSub_L k) w =
     (if k < length (w_subs w) then
        (case subscriber_drop (w_subs w ! k) (w_st w) of
           (r, st) \<Rightarrow> (r, (with_state w st)\<lparr>w_subs := remove_nth k (w_subs w)\<rparr>))
      else (Ok (), w))"
| "ps_exec SUBS Clear_L w = (Ok (), with_state w (state_clear (w_st w)))"

definition world_new :: "bytes \<Rightarrow> World" where
  "world_new buf = \<lparr>w_ch = channel_new buf, w_grant = None, w_subs = [], w_reads = [], w_log = []\<rparr>"

inductive ps_reach :: "nat \<Rightarrow> World \<Rightarrow> bool" for SUBS where
  init: "ps_reach SUBS (world_new buf)"
| step: "ps_reach SUBS w \<Longrightarrow> ps_reach SUBS (snd (ps_exec SUBS l w))"

section \<open>The structural invariant\<close>

definition w_ok :: "World \<Rightarrow> bool" where
  "w_ok w \<longleftrightarrow> st_ok (w_st w) (w_grant w) (w_subs w) \<and> ps_capacity (w_st w) = length (w_buf w) \<and>
     length (w_log w) = ps_next_message_id (w_st w)"

lemma with_state_sel [simp]:
  "w_st (with_state w st) = st" "w_buf (with_state w st) = w_buf w" "w_grant (with_state w st) = w_grant w"
  "w_subs (with_state w st) = w_subs w" "w_reads (with_state w st) = w_reads w" "w_log (with_state w st) = w_log w"
  by (simp_all add: with_state_def)

lemma with_buf_sel [simp]:
  "w_st (with_buf w b) = w_st w" "w_buf (with_buf w b) = b" "w_grant (with_buf w b) = w_grant w"
  "w_subs (with_buf w b) = w_subs w" "w_reads (with_buf w b) = w_reads w" "w_log (with_buf w b) = w_log w"
  by (simp_all add: with_buf_def)

lemma w_okD:
  assumes "w_ok w"
  shows "st_ok (w_st w) (w_grant w) (w_subs w)" and "ps_capacity (w_st w) = length (w_buf w)"
    and "length (w_log w) = ps_next_message_id (w_st w)"
  using assms by (simp_all add: w_ok_def)

lemma world_new_ok: "w_ok (world_new buf)"
  by (simp add: w_ok_def world_new_def channel_new_def st_ok_def ids_ok_def)

lemma grant_immediate_preserves:
  assumes "st_ok st g subs" and "grant_immediate sz st = (r, st1)"
  shows "r \<noteq> Panic" and "\<And>e. r = Err e \<Longrightarrow> st_ok st1 g subs"
    and "\<And>g'. r = Ok g' \<Longrightarrow> g = None \<and> st_ok st1 (Some g') subs"
    and "\<exists>k. ps_messages st1 = drop k (ps_messages st) \<and> (\<forall>m \<in> set (take k (ps_messages st)). \<not> h_read_in_progress m)"
    and "ps_capacity st1 = ps_capacity st" and "ps_next_message_id st1 = ps_next_message_id st"
proof -
  from evict_spec [OF assms(1), of sz] obtain k where
    ev: "snd (evict sz st) = st\<lparr>ps_messages := drop k (ps_messages st)\<rparr>" "fst (evict sz st) \<noteq> Panic"
    and nr: "\<forall>m \<in> set (take k (ps_messages st)). \<not> h_read_in_progress m" by blast
  let ?st = "st\<lparr>ps_messages := drop k (ps_messages st)\<rparr>"
  have ok: "st_ok ?st g subs" by (rule st_ok_drop [OF assms(1)])
  obtain r1 where r1: "evict sz st = (r1, ?st)" using ev(1) by (metis prod.collapse)
  have "r \<noteq> Panic \<and> (\<forall>e. r = Err e \<longrightarrow> st_ok st1 g subs) \<and> (\<forall>g'. r = Ok g' \<longrightarrow> g = None \<and> st_ok st1 (Some g') subs) \<and>
    ps_messages st1 = drop k (ps_messages st) \<and> ps_capacity st1 = ps_capacity st \<and>
    ps_next_message_id st1 = ps_next_message_id st"
  proof (cases r1)
    case (Ok u)
    with assms(2) r1 have gr: "grant_with_context sz False ?st = (r, st1)"
      by (simp add: grant_immediate_def grant_def)
    note gp = grant_preserves [OF ok gr]
    show ?thesis
    proof (cases r)
      case (Ok g')
      with gp(3) [OF Ok] gp(1) show ?thesis by auto
    next
      case (Err e)
      have "st1 = register_if False RegisterPublisher ?st"
        using gr Err by (auto simp: grant_with_context_def free_space_def new_start_def Let_def split: if_splits)
      with Err gp(1) gp(2) [OF Err] show ?thesis by auto
    qed (use gp(1) in simp)
  next
    case (Err e)
    with assms(2) r1 ok show ?thesis by (auto simp: grant_immediate_def)
  qed (use ev(2) r1 in auto)
  with nr show "r \<noteq> Panic" "\<And>e. r = Err e \<Longrightarrow> st_ok st1 g subs"
    "\<And>g'. r = Ok g' \<Longrightarrow> g = None \<and> st_ok st1 (Some g') subs"
    "\<exists>k. ps_messages st1 = drop k (ps_messages st) \<and> (\<forall>m \<in> set (take k (ps_messages st)). \<not> h_read_in_progress m)"
    "ps_capacity st1 = ps_capacity st" "ps_next_message_id st1 = ps_next_message_id st" by blast+
qed

lemma grant_immediate_Ok:
  assumes ok: "st_ok st None subs" and "sz \<le> ps_capacity st"
    and "\<forall>m \<in> set (ps_messages st). \<not> h_read_in_progress m"
  shows "\<exists>g st1. grant_immediate sz st = (Ok g, st1) \<and> gw_size g = sz \<and> gw_start g + sz \<le> ps_capacity st \<and> gw_pid g = 0"
proof -
  obtain k where k: "snd (evict sz st) = st\<lparr>ps_messages := drop k (ps_messages st)\<rparr>" "fst (evict sz st) \<noteq> Panic"
    and enough: "fst (evict sz st) = Ok () \<longrightarrow> ps_messages (snd (evict sz st)) = [] \<or>
      (\<exists>n. free_space (snd (evict sz st)) = (Ok n :: (PubSubError, nat) result) \<and> sz \<le> n \<and>
        \<not> messages_full (snd (evict sz st)))"
    and err: "\<forall>e. fst (evict sz st) = Err e \<longrightarrow> e = InsufficientSize \<and>
      (\<exists>m ms. drop k (ps_messages st) = m # ms \<and> h_read_in_progress m)"
    using evict_spec [OF ok, of sz] by blast
  have "fst (evict sz st) \<noteq> Err e" for e
    using err assms(3) by (metis in_set_dropD list.set_intros(1))
  with k(2) have r: "fst (evict sz st) = Ok ()" by (cases "fst (evict sz st)") auto
  let ?st1 = "st\<lparr>ps_messages := drop k (ps_messages st)\<rparr>"
  have ok1: "st_ok ?st1 None subs" by (rule st_ok_drop [OF ok])
  have "\<exists>n. free_space ?st1 = (Ok n :: (PubSubError, nat) result) \<and> sz \<le> n \<and> \<not> messages_full ?st1"
    using enough r k(1) assms(2) by (auto simp: free_space_def messages_full_def MAX_PUBSUB_MESSAGES_def)
  then obtain g where "grant_with_context sz False ?st1 = (Ok g, ?st1\<lparr>ps_write_in_progress := True\<rparr>)" "gw_size g = sz"
    "gw_start g + sz \<le> ps_capacity st" "gw_pid g = 0"
    using grant_Ok [OF ok1, of _ sz False] by auto
  moreover have "evict sz st = (Ok (), ?st1)" using r k(1) by (metis prod.collapse)
  ultimately show ?thesis by (simp add: grant_immediate_def grant_def)
qed

text \<open>What the operations leave alone: the capacity, and (commits apart) the message counter.\<close>

lemma commit_frame: "ps_capacity (commit_inner g used st) = ps_capacity st"
  by (simp add: commit_inner_def Let_def)

lemma read_frame:
  assumes "read_with_context cx sub st = (r, sub', st')"
  shows "ps_capacity st' = ps_capacity st" and "ps_next_message_id st' = ps_next_message_id st"
  using assms by (auto simp: read_with_context_def Let_def split: if_splits)

lemma release_frame:
  "ps_capacity (release_inner g st) = ps_capacity st"
  "ps_next_message_id (release_inner g st) = ps_next_message_id st"
  by (auto simp: release_inner_def Let_def split: option.splits)

lemma subscriber_drop_frame:
  assumes "subscriber_drop sub st = (r, st')"
  shows "ps_capacity st' = ps_capacity st" and "ps_next_message_id st' = ps_next_message_id st"
  using assms by (auto simp: subscriber_drop_def Let_def split: if_splits result.splits)

lemma subscribe_frame:
  assumes "channel_subscriber SUBS st = (r, st')"
  shows "ps_capacity st' = ps_capacity st" and "ps_next_message_id st' = ps_next_message_id st"
    and "ps_messages st' = ps_messages st"
  using assms by (auto simp: channel_subscriber_def split: if_splits)

lemma grant_frame:
  assumes "grant_with_context n cx st = (r, st')"
  shows "ps_capacity st' = ps_capacity st" and "ps_next_message_id st' = ps_next_message_id st"
    and "ps_messages st' = ps_messages st"
  using assms by (auto simp: grant_with_context_def split: if_splits result.splits)

lemma granted_ok:
  assumes "w_ok w" and "rs = (r, st1)" and "r \<noteq> Panic"
    and "\<And>e. r = Err e \<Longrightarrow> st_ok st1 (w_grant w) (w_subs w)"
    and "\<And>g'. r = Ok g' \<Longrightarrow> w_grant w = None \<and> st_ok st1 (Some g') (w_subs w)"
    and "ps_capacity st1 = ps_capacity (w_st w)" and "ps_next_message_id st1 = ps_next_message_id (w_st w)"
  shows "w_ok (snd (granted rs w)) \<and> fst (granted rs w) \<noteq> Panic"
  using assms by (cases r) (auto simp: granted_def w_ok_def)

lemma st_ok_publisher [simp]: "st_ok (st\<lparr>ps_publisher_taken := b\<rparr>) g subs = st_ok st g subs"
  by (simp add: st_ok_def ids_ok_def)

lemma commit_world_ok:
  assumes "w_ok w" and "w_grant w = Some g"
  shows "w_ok (commit_world g used w)"
proof (cases "ps_subscriber_count (w_st w) = 0")
  case True
  with assms commit_discard [of "w_st w" g "w_subs w" used] show ?thesis
    by (simp add: w_ok_def commit_world_def commit_frame)
next
  case False
  with assms commit_push [of "w_st w" g "w_subs w" used] show ?thesis
    by (simp add: w_ok_def commit_world_def commit_frame)
qed

lemma grant_region:
  assumes "w_ok w" and "w_grant w = Some g"
  shows "gw_start g + gw_size g \<le> length (w_buf w)"
    and "\<And>m. m \<in> set (ps_messages (w_st w)) \<Longrightarrow> seg_disjoint (seg_of m) (gw_start g, gw_size g)"
proof -
  have ring: "ring (length (w_buf w)) (map seg_of (ps_messages (w_st w)) @ [(gw_start g, gw_size g)])"
    using st_okD(1) [OF w_okD(1) [OF assms(1)]] assms w_okD(2) [OF assms(1)] by simp
  then show "gw_start g + gw_size g \<le> length (w_buf w)" by (rule ring_member) simp
  fix m assume "m \<in> set (ps_messages (w_st w))"
  then show "seg_disjoint (seg_of m) (gw_start g, gw_size g)" by (intro ring_disjoint [OF ring]) simp
qed

lemma exec_write:
  "ps_exec SUBS (Write_L i bs) w =
     (Ok (), case w_grant w of
        None \<Rightarrow> w
      | Some g \<Rightarrow> (if i + length bs \<le> gw_size g then with_buf w (splice (w_buf w) (gw_start g + i) bs) else w))"
  by (auto simp: grant_write_def split: option.splits)

lemma write_length:
  assumes "w_ok w" and "w_grant w = Some g" and "i + length bs \<le> gw_size g"
  shows "length (splice (w_buf w) (gw_start g + i) bs) = length (w_buf w)"
  using grant_region(1) [OF assms(1,2)] assms(3) by simp

lemma ps_exec_ok:
  assumes ok: "w_ok w" and "SUBS < 256"
  shows "w_ok (snd (ps_exec SUBS l w)) \<and> fst (ps_exec SUBS l w) \<noteq> Panic"
proof (cases l)
  case Subscribe_L
  obtain r st where r: "channel_subscriber SUBS (w_st w) = (r, st)" by force
  from subscribe_ok [OF w_okD(1) [OF ok] assms(2) r] subscribe_frame [OF r] ok show ?thesis
    by (cases r) (auto simp: Subscribe_L r w_ok_def)
next
  case TakePublisher_L
  with ok show ?thesis by (auto simp: channel_publisher_def w_ok_def)
next
  case DropPublisher_L
  with ok show ?thesis by (auto simp: publisher_drop_def w_ok_def)
next
  case (Grant_L n cx)
  obtain r st where r: "grant_with_context n cx (w_st w) = (r, st)" by force
  from grant_preserves [OF w_okD(1) [OF ok] r] grant_frame [OF r] ok
    granted_ok [OF ok r] show ?thesis by (auto simp: Grant_L)
next
  case (GrantImmediate_L n)
  obtain r st where r: "grant_immediate n (w_st w) = (r, st)" by force
  from grant_immediate_preserves [OF w_okD(1) [OF ok] r] ok
    granted_ok [OF ok r] show ?thesis by (auto simp: GrantImmediate_L)
next
  case (Write_L i bs)
  with ok write_length [OF ok] show ?thesis
    by (auto simp: exec_write w_ok_def simp del: ps_exec.simps split: option.splits)
next
  case (SetPid_L pid)
  with ok show ?thesis
    by (cases "w_grant w") (auto simp: w_ok_def grant_set_pid_def st_ok_def)
next
  case (ToCommit_L amt)
  with ok show ?thesis
    by (cases "w_grant w") (auto simp: w_ok_def grant_to_commit_def st_ok_def)
next
  case (Commit_L used)
  with ok commit_world_ok [OF ok] show ?thesis by (auto split: option.splits)
next
  case DropGrant_L
  with ok commit_world_ok [OF ok] show ?thesis by (auto split: option.splits)
next
  case (Read_L k cx)
  show ?thesis
  proof (cases "k < length (w_subs w)")
    case True
    obtain r sub st where r: "read_with_context cx (w_subs w ! k) (w_st w) = (r, sub, st)"
      by (metis prod.exhaust)
    from read_preserves [OF w_okD(1) [OF ok] True r] read_frame [OF r] ok True show ?thesis
      by (cases r) (auto simp: Read_L r w_ok_def Let_def)
  qed (use ok Read_L in simp)
next
  case (AutoRelease_L k b)
  with ok show ?thesis by (auto simp: w_ok_def)
next
  case (DropRead_L k)
  with ok release_ok [OF w_okD(1) [OF ok]] show ?thesis
    by (auto simp: w_ok_def read_grant_drop_def release_frame)
next
  case (DropSub_L k)
  show ?thesis
  proof (cases "k < length (w_subs w)")
    case True
    obtain r st where r: "subscriber_drop (w_subs w ! k) (w_st w) = (r, st)" by force
    from subscriber_drop_ok [OF w_okD(1) [OF ok] True r] subscriber_drop_frame [OF r] ok True show ?thesis
      by (auto simp: DropSub_L r w_ok_def remove_nth_def)
  qed (use ok DropSub_L in simp)
next
  case Clear_L
  with ok clear_ok [OF w_okD(1) [OF ok]] show ?thesis by (auto simp: w_ok_def state_clear_def)
qed

lemma ps_reach_ok: "ps_reach SUBS w \<Longrightarrow> SUBS < 256 \<Longrightarrow> w_ok w"
  by (induction rule: ps_reach.induct) (auto simp: world_new_ok ps_exec_ok)

section \<open>The data invariant\<close>

definition held_in :: "Header list \<Rightarrow> FrameGrantR \<Rightarrow> bool" where
  "held_in ms g \<longleftrightarrow> (\<exists>i < length ms. h_message_id (ms ! i) = gr_message_id g \<and> h_read_in_progress (ms ! i) \<and>
     h_start (ms ! i) = gr_start g \<and> unat (h_len (ms ! i)) = gr_size g)"

definition frame_bytes :: "bytes \<Rightarrow> Header \<Rightarrow> bytes" where
  "frame_bytes buf m = slice buf (h_start m) (unat (h_len m))"

definition data_ok :: "World \<Rightarrow> bool" where
  "data_ok w \<longleftrightarrow>
     (\<forall>m \<in> set (ps_messages (w_st w)). frame_bytes (w_buf w) m = w_log w ! h_message_id m) \<and>
     (\<forall>g \<in> set (w_reads w). held_in (ps_messages (w_st w)) g) \<and>
     distinct (map gr_message_id (w_reads w))"

text \<open>
  Three operations are not harmless for data that is in use: handing out the publisher zeroes the
  buffer, and dropping a subscriber or clearing the channel removes frames without looking at
  \<open>read_in_progress\<close>.  A calm step does none of them while it matters.
\<close>

definition ps_calm :: "Label \<Rightarrow> World \<Rightarrow> bool" where
  "ps_calm l w =
     (case l of
        TakePublisher_L \<Rightarrow> ps_publisher_taken (w_st w) \<or> ps_messages (w_st w) = []
      | DropSub_L _ \<Rightarrow> w_reads w = []
      | Clear_L \<Rightarrow> w_reads w = []
      | _ \<Rightarrow> True)"

inductive ps_calm_reach :: "nat \<Rightarrow> World \<Rightarrow> bool" for SUBS where
  init: "ps_calm_reach SUBS (world_new buf)"
| step: "ps_calm_reach SUBS w \<Longrightarrow> ps_calm l w \<Longrightarrow> ps_calm_reach SUBS (snd (ps_exec SUBS l w))"

lemma data_okD:
  assumes "data_ok w"
  shows "\<And>m. m \<in> set (ps_messages (w_st w)) \<Longrightarrow> frame_bytes (w_buf w) m = w_log w ! h_message_id m"
    and "\<And>g. g \<in> set (w_reads w) \<Longrightarrow> held_in (ps_messages (w_st w)) g"
    and "distinct (map gr_message_id (w_reads w))"
  using assms by (simp_all add: data_ok_def)

lemma data_ok_cong:
  assumes "data_ok w" and "ps_messages (w_st w') = ps_messages (w_st w)" and "w_buf w' = w_buf w"
    and "w_log w' = w_log w" and "w_reads w' = w_reads w"
  shows "data_ok w'"
  using assms by (simp add: data_ok_def)

lemma held_in_drop:
  assumes "held_in ms g" and "\<forall>m \<in> set (take k ms). \<not> h_read_in_progress m"
  shows "held_in (drop k ms) g"
proof -
  from assms(1) obtain i where i: "i < length ms" "h_message_id (ms ! i) = gr_message_id g"
    "h_read_in_progress (ms ! i)" "h_start (ms ! i) = gr_start g" "unat (h_len (ms ! i)) = gr_size g"
    by (auto simp: held_in_def)
  have "k \<le> i"
  proof (rule ccontr)
    assume "\<not> k \<le> i"
    then have "ms ! i \<in> set (take k ms)" using i(1) by (auto simp: in_set_conv_nth)
    with assms(2) i(3) show False by blast
  qed
  with i show ?thesis unfolding held_in_def by (intro exI [of _ "i - k"]) simp
qed

lemma held_in_append: "held_in ms g \<Longrightarrow> held_in (ms @ [h]) g"
  unfolding held_in_def by (metis less_SucI length_append_singleton nth_append)

lemma held_in_update:
  assumes "held_in ms g" and "h_message_id (ms ! i) \<noteq> gr_message_id g"
  shows "held_in (ms[i := h]) g"
  using assms unfolding held_in_def by (metis length_list_update nth_list_update_neq)

lemma data_drop:
  assumes "data_ok w" and "ps_messages (w_st w') = drop k (ps_messages (w_st w))"
    and "\<forall>m \<in> set (take k (ps_messages (w_st w))). \<not> h_read_in_progress m"
    and "w_buf w' = w_buf w" and "w_log w' = w_log w" and "w_reads w' = w_reads w"
  shows "data_ok w'"
  using assms held_in_drop unfolding data_ok_def by (auto dest: in_set_dropD)

lemma frame_write:
  assumes ok: "w_ok w" and "w_grant w = Some g" and "i + length bs \<le> gw_size g"
    and m: "m \<in> set (ps_messages (w_st w))"
  shows "frame_bytes (splice (w_buf w) (gw_start g + i) bs) m = frame_bytes (w_buf w) m"
proof -
  have "seg_disjoint (seg_of m) (gw_start g, gw_size g)" by (rule grant_region(2) [OF ok assms(2) m])
  with assms(3) have "h_start m + unat (h_len m) \<le> gw_start g + i \<or> gw_start g + i + length bs \<le> h_start m"
    by (auto simp: seg_disjoint_def seg_of_def)
  moreover have "gw_start g + i + length bs \<le> length (w_buf w)"
    using grant_region(1) [OF ok assms(2)] assms(3) by simp
  ultimately show ?thesis
    unfolding frame_bytes_def by (intro slice_splice_disjoint) auto
qed

lemma data_commit:
  assumes ok: "w_ok w" and data: "data_ok w" and g: "w_grant w = Some g"
  shows "data_ok (commit_world g used w)"
proof (cases "ps_subscriber_count (w_st w) = 0")
  case True
  have ok': "st_ok (w_st w) (Some g) (w_subs w)" using w_okD(1) [OF ok] g by simp
  show ?thesis
    using data commit_discard(2) [OF ok' True, of used] True
    by (intro data_ok_cong [OF data]) (simp_all add: commit_world_def)
next
  case False
  have ok': "st_ok (w_st w) (Some g) (w_subs w)" using w_okD(1) [OF ok] g by simp
  define u where "u = (of_nat (min (gw_size g) used) :: u16)"
  let ?e = "slice (w_buf w) (gw_start g) (unat u)"
  have msgs: "ps_messages (w_st (commit_world g used w)) = ps_messages (w_st w) @
      [\<lparr>h_start = gw_start g, h_len = u, h_message_id = ps_next_message_id (w_st w),
        h_subscriber_count = ps_subscriber_count (w_st w), h_read_in_progress = False, h_pid = gw_pid g\<rparr>]"
    using commit_push(2) [OF ok' False, of used] by (simp add: commit_world_def u_def)
  have log: "w_log (commit_world g used w) = w_log w @ [?e]" using False by (simp add: commit_world_def u_def)
  have len: "length (w_log w) = ps_next_message_id (w_st w)" by (rule w_okD(3) [OF ok])
  have "w_log (commit_world g used w) ! h_message_id m = w_log w ! h_message_id m"
    if "m \<in> set (ps_messages (w_st w))" for m
    using ids_member_bounds(2) [OF st_okD(4) [OF ok'] that] by (simp add: log nth_append len)
  moreover have "w_log (commit_world g used w) ! ps_next_message_id (w_st w) = ?e" by (simp add: log nth_append len)
  moreover have "w_buf (commit_world g used w) = w_buf w" "w_reads (commit_world g used w) = w_reads w"
    by (simp_all add: commit_world_def)
  ultimately show ?thesis
    using data_okD [OF data] held_in_append unfolding data_ok_def by (auto simp: msgs frame_bytes_def)
qed

lemma id_index_unique:
  assumes "ids_ok st" and "i < length (ps_messages st)" and "j < length (ps_messages st)"
    and "h_message_id (ps_messages st ! i) = h_message_id (ps_messages st ! j)"
  shows "i = j"
  using assms ids_nth [OF assms(1)] by simp

lemma frame_update:
  assumes "i < length ms" and "h_start h = h_start (ms ! i)" and "h_len h = h_len (ms ! i)"
    and "h_message_id h = h_message_id (ms ! i)" and "m \<in> set (ms[i := h])"
  shows "\<exists>m0 \<in> set ms. frame_bytes buf m = frame_bytes buf m0 \<and> h_message_id m = h_message_id m0"
proof (cases "m = h")
  case True
  with assms show ?thesis by (intro bexI [of _ "ms ! i"]) (simp_all add: frame_bytes_def)
next
  case False
  then have "m \<in> set ms" using assms(5) set_update_subset_insert by fastforce
  then show ?thesis by blast
qed

lemma data_frames_update:
  assumes data: "data_ok w" and "i < length (ps_messages (w_st w))"
    and "h_start h = h_start (ps_messages (w_st w) ! i)" and "h_len h = h_len (ps_messages (w_st w) ! i)"
    and "h_message_id h = h_message_id (ps_messages (w_st w) ! i)"
    and "m \<in> set ((ps_messages (w_st w))[i := h])"
  shows "frame_bytes (w_buf w) m = w_log w ! h_message_id m"
  using frame_update [OF assms(2-6), of "w_buf w"] data_okD(1) [OF data] by auto

lemma read_step:
  assumes ok: "w_ok w" and k: "k < length (w_subs w)"
    and rd: "read_with_context cx (w_subs w ! k) (w_st w) = (Ok g, sub, st)"
  obtains i where "i < length (ps_messages (w_st w))" "\<not> h_read_in_progress (ps_messages (w_st w) ! i)"
    "gr_message_id g = h_message_id (ps_messages (w_st w) ! i)"
    "gr_message_id g = max (fs_next_message_id (w_subs w ! k)) (first_id (w_st w))"
    "gr_start g = h_start (ps_messages (w_st w) ! i)" "gr_size g = unat (h_len (ps_messages (w_st w) ! i))"
    "fs_next_message_id sub = gr_message_id g + 1"
    "st = (w_st w)\<lparr>ps_messages := (ps_messages (w_st w))[i := (ps_messages (w_st w) ! i)
       \<lparr>h_subscriber_count := h_subscriber_count (ps_messages (w_st w) ! i) - 1, h_read_in_progress := True\<rparr>]\<rparr>"
proof -
  let ?i = "fs_next_message_id (caught_up (w_st w) (w_subs w ! k)) - first_id (w_st w)"
  note ok1 = w_okD(1) [OF ok]
  note un = rd [unfolded read_unfold [OF st_okD(4) [OF ok1]] Let_def]
  from un have i: "?i < length (ps_messages (w_st w))" by (auto split: if_splits)
  from un i read_grants(2) [OF ok1 k refl i refl] show ?thesis
    by (intro that [of ?i]) (auto split: if_splits)
qed

lemma data_read:
  assumes ok: "w_ok w" and data: "data_ok w" and k: "k < length (w_subs w)"
    and rd: "read_with_context cx (w_subs w ! k) (w_st w) = (Ok g, sub, st)"
    and w': "w_st w' = st" "w_buf w' = w_buf w" "w_log w' = w_log w" "w_reads w' = w_reads w @ [g]"
  shows "data_ok w'"
proof -
  obtain i where i: "i < length (ps_messages (w_st w))" "\<not> h_read_in_progress (ps_messages (w_st w) ! i)"
    "gr_message_id g = h_message_id (ps_messages (w_st w) ! i)"
    "gr_start g = h_start (ps_messages (w_st w) ! i)" "gr_size g = unat (h_len (ps_messages (w_st w) ! i))"
    "st = (w_st w)\<lparr>ps_messages := (ps_messages (w_st w))[i := (ps_messages (w_st w) ! i)
       \<lparr>h_subscriber_count := h_subscriber_count (ps_messages (w_st w) ! i) - 1, h_read_in_progress := True\<rparr>]\<rparr>"
    using read_step [OF ok k rd] by metis
  have other: "gr_message_id g' \<noteq> gr_message_id g" if "g' \<in> set (w_reads w)" for g'
  proof
    assume eq: "gr_message_id g' = gr_message_id g"
    from data_okD(2) [OF data that] obtain j where j: "j < length (ps_messages (w_st w))"
      "h_message_id (ps_messages (w_st w) ! j) = gr_message_id g'" "h_read_in_progress (ps_messages (w_st w) ! j)"
      by (auto simp: held_in_def)
    have "j = i" using id_index_unique [OF st_okD(4) [OF w_okD(1) [OF ok]] j(1) i(1)] j(2) i(3) eq by simp
    with j i show False by simp
  qed
  let ?h = "(ps_messages (w_st w) ! i)\<lparr>h_subscriber_count := h_subscriber_count (ps_messages (w_st w) ! i) - 1,
      h_read_in_progress := True\<rparr>"
  have msgs: "ps_messages (w_st w') = (ps_messages (w_st w))[i := ?h]" using w'(1) i(6) by simp
  have "held_in ((ps_messages (w_st w))[i := ?h]) g'" if "g' \<in> set (w_reads w)" for g'
    using other [OF that] i(3) by (intro held_in_update [OF data_okD(2) [OF data that]]) simp
  moreover have "held_in ((ps_messages (w_st w))[i := ?h]) g"
    unfolding held_in_def using i(1,3-5) by (intro exI [of _ i]) simp
  moreover have "frame_bytes (w_buf w) m = w_log w ! h_message_id m" if "m \<in> set ((ps_messages (w_st w))[i := ?h])" for m
    using data_frames_update [OF data i(1) _ _ _ that] by simp
  moreover have "gr_message_id g \<notin> gr_message_id ` set (w_reads w)" using other by (metis imageE)
  ultimately show ?thesis
    using data_okD(3) [OF data] unfolding data_ok_def by (auto simp: msgs w'(2-4))
qed

lemma data_read_Err:
  assumes ok: "w_ok w" and data: "data_ok w" and k: "k < length (w_subs w)"
    and rd: "read_with_context cx (w_subs w ! k) (w_st w) = (r, sub, st)" and "\<And>g. r \<noteq> Ok g"
  shows "ps_messages st = ps_messages (w_st w)"
  using rd [unfolded read_unfold [OF st_okD(4) [OF w_okD(1) [OF ok]]] Let_def] assms(5)
  by (auto split: if_splits)

lemma set_remove_nth: "set (remove_nth k xs) \<subseteq> set xs"
  using set_take_subset set_drop_subset by (metis Un_least remove_nth_def set_append)

lemma distinct_remove_nth:
  assumes "k < length xs" and "distinct (map f xs)"
  shows "f (xs ! k) \<notin> f ` set (remove_nth k xs)" and "distinct (map f (remove_nth k xs))"
proof -
  have "map f xs = map f (take k xs) @ f (xs ! k) # map f (drop (Suc k) xs)"
    by (subst id_take_nth_drop [OF assms(1)]) simp
  with assms(2) have d: "distinct (map f (take k xs) @ f (xs ! k) # map f (drop (Suc k) xs))" by simp
  then show "f (xs ! k) \<notin> f ` set (remove_nth k xs)" by (simp add: remove_nth_def image_Un)
  from d show "distinct (map f (remove_nth k xs))" by (simp add: remove_nth_def)
qed

lemma data_remove_read:
  assumes "data_ok w" and "k < length (w_reads w)"
  shows "data_ok (w\<lparr>w_reads := remove_nth k (w_reads w)\<rparr>)"
  using assms(1) distinct_remove_nth(2) [OF assms(2) data_okD(3) [OF assms(1)]] set_remove_nth [of k "w_reads w"]
  by (auto simp: data_ok_def)

lemma data_release:
  assumes ok: "w_ok w" and data: "data_ok w" and k: "k < length (w_reads w)"
  shows "data_ok ((with_state w (release_inner (w_reads w ! k) (w_st w)))\<lparr>w_reads := remove_nth k (w_reads w)\<rparr>)"
proof -
  let ?g = "w_reads w ! k" and ?ms = "ps_messages (w_st w)" and ?reads = "remove_nth k (w_reads w)"
  have data1: "data_ok (w\<lparr>w_reads := ?reads\<rparr>)" by (rule data_remove_read [OF data k])
  have other: "gr_message_id g' \<noteq> gr_message_id ?g" if "g' \<in> set ?reads" for g'
    using distinct_remove_nth(1) [OF k data_okD(3) [OF data]] imageI [OF that, of gr_message_id] by metis
  from w_okD(1) [OF ok] show ?thesis
  proof (cases rule: release_cases [of _ _ _ ?g])
    case gone
    with data1 show ?thesis by (intro data_ok_cong [OF data1]) simp_all
  next
    case (popped m ms)
    have "held_in ms g'" if g': "g' \<in> set ?reads" for g'
    proof -
      from data_okD(2) [OF data1] g' obtain i where i: "i < length ?ms" "h_message_id (?ms ! i) = gr_message_id g'"
        "h_read_in_progress (?ms ! i)" "h_start (?ms ! i) = gr_start g'" "unat (h_len (?ms ! i)) = gr_size g'"
        by (auto simp: held_in_def)
      have "i \<noteq> 0" using i(2) popped(1,2) other [OF g'] by (cases i) auto
      then obtain i' where "i = Suc i'" by (cases i) auto
      with i popped(1) show ?thesis unfolding held_in_def by (intro exI [of _ i']) simp
    qed
    then show ?thesis
      using data_okD [OF data1] popped(1,5) by (simp add: data_ok_def)
  next
    case (unmarked i)
    let ?h = "(?ms ! i)\<lparr>h_read_in_progress := False\<rparr>"
    have "held_in (?ms[i := ?h]) g'" if g': "g' \<in> set ?reads" for g'
      using other [OF g'] unmarked(2) data_okD(2) [OF data1] g' by (intro held_in_update) simp_all
    moreover have "frame_bytes (w_buf w) m = w_log w ! h_message_id m" if "m \<in> set (?ms[i := ?h])" for m
      using data_frames_update [OF data unmarked(1) _ _ _ that] by simp
    ultimately show ?thesis
      using data_okD(3) [OF data1] unmarked(4) by (simp add: data_ok_def)
  qed
qed

lemma for_each_dec_frames:
  "for_each_dec hs = Ok hs' \<Longrightarrow> m' \<in> set hs' \<Longrightarrow>
   \<exists>m \<in> set hs. frame_bytes buf m' = frame_bytes buf m \<and> h_message_id m' = h_message_id m"
proof (induction hs arbitrary: hs')
  case (Cons h hs)
  then obtain h1 hs1 where "dec_count h = Ok h1" "for_each_dec hs = Ok hs1" "hs' = h1 # hs1"
    by (auto simp: rbind_Ok_iff)
  with Cons show ?case by (auto simp: dec_count_def frame_bytes_def split: if_splits)
qed simp

lemma subscriber_drop_frames:
  assumes "subscriber_drop sub st = (Ok (), st')" and "m' \<in> set (ps_messages st')"
  shows "\<exists>m \<in> set (ps_messages st). frame_bytes buf m' = frame_bytes buf m \<and> h_message_id m' = h_message_id m"
proof (cases "fs_next_message_id sub < first_id st")
  case True
  with assms have "m' \<in> set (ps_messages st)"
    by (auto simp: subscriber_drop_def first_id_def Let_def split: if_splits)
  then show ?thesis by blast
next
  case False
  let ?i = "fs_next_message_id sub - first_id st"
  from assms False obtain hs where hs: "for_each_dec (drop ?i (ps_messages st)) = Ok hs"
    by (auto simp: subscriber_drop_def first_id_def Let_def split: if_splits result.splits)
  have c: "ps_subscriber_count st \<noteq> 0" "\<not> ps_next_message_id st < length (ps_messages st)"
    using assms(1) by (auto simp: subscriber_drop_def split: if_splits)
  from subscriber_drop_decremented [OF c False hs] assms(1)
  have "ps_messages st' = pop_unread (take ?i (ps_messages st) @ hs)" by auto
  with assms(2) have "m' \<in> set (take ?i (ps_messages st)) \<or> m' \<in> set hs"
    by (auto simp: pop_unread_def dest: set_dropWhileD)
  then show ?thesis
    using for_each_dec_frames [OF hs, of m' buf] by (auto dest: in_set_takeD in_set_dropD)
qed

lemma calm_exec_data:
  assumes ok: "w_ok w" and data: "data_ok w" and S: "SUBS < 256" and calm: "ps_calm l w"
  shows "data_ok (snd (ps_exec SUBS l w))"
proof (cases l)
  case Subscribe_L
  obtain r st where r: "channel_subscriber SUBS (w_st w) = (r, st)" by force
  from subscribe_frame [OF r] show ?thesis
    by (intro data_ok_cong [OF data]) (cases r; simp add: Subscribe_L r)+
next
  case TakePublisher_L
  have "w_reads w = []" if "ps_messages (w_st w) = []"
    using data_okD(2) [OF data] that by (cases "w_reads w") (auto simp: held_in_def)
  with calm data show ?thesis
    by (auto simp: TakePublisher_L ps_calm_def channel_publisher_def data_ok_def)
next
  case DropPublisher_L
  then show ?thesis by (intro data_ok_cong [OF data]) (simp_all add: publisher_drop_def)
next
  case (Grant_L n cx)
  obtain r st where r: "grant_with_context n cx (w_st w) = (r, st)" by force
  from grant_frame [OF r] show ?thesis
    by (intro data_ok_cong [OF data]) (cases r; simp add: Grant_L r granted_def)+
next
  case (GrantImmediate_L n)
  obtain r st where r: "grant_immediate n (w_st w) = (r, st)" by force
  from grant_immediate_preserves(4) [OF w_okD(1) [OF ok] r] obtain k where
    k: "ps_messages st = drop k (ps_messages (w_st w))"
    "\<forall>m \<in> set (take k (ps_messages (w_st w))). \<not> h_read_in_progress m" by blast
  have "data_ok (snd (granted (r, st) w))"
    using k by (intro data_drop [OF data, of _ k]) (cases r; simp add: granted_def)+
  with data show ?thesis by (simp add: GrantImmediate_L r)
next
  case (Write_L i bs)
  show ?thesis
  proof (cases "w_grant w")
    case None
    with data show ?thesis by (simp add: Write_L)
  next
    case (Some g)
    show ?thesis
    proof (cases "i + length bs \<le> gw_size g")
      case True
      with data frame_write [OF ok Some True] show ?thesis
        unfolding Write_L exec_write Some by (simp add: data_ok_def)
    qed (use data Some Write_L in simp)
  qed
next
  case (SetPid_L pid)
  then show ?thesis by (intro data_ok_cong [OF data]) simp_all
next
  case (ToCommit_L amt)
  then show ?thesis by (intro data_ok_cong [OF data]) simp_all
next
  case (Commit_L used)
  with data data_commit [OF ok data] show ?thesis by (auto split: option.splits)
next
  case DropGrant_L
  with data data_commit [OF ok data] show ?thesis by (auto split: option.splits)
next
  case (Read_L k cx)
  show ?thesis
  proof (cases "k < length (w_subs w)")
    case True
    obtain r sub st where r: "read_with_context cx (w_subs w ! k) (w_st w) = (r, sub, st)"
      by (metis prod.exhaust)
    show ?thesis
    proof (cases "\<exists>g. r = Ok g")
      case True
      then obtain g where g: "r = Ok g" by blast
      show ?thesis
        by (rule data_read [OF ok data \<open>k < length (w_subs w)\<close> r [unfolded g]])
          (simp_all add: Read_L r g \<open>k < length (w_subs w)\<close> Let_def)
    next
      case False
      then have "ps_messages st = ps_messages (w_st w)"
        by (intro data_read_Err [OF ok data \<open>k < length (w_subs w)\<close> r]) auto
      with False show ?thesis
        by (intro data_ok_cong [OF data]) (cases r; simp add: Read_L r True Let_def)+
    qed
  qed (use data Read_L in simp)
next
  case (AutoRelease_L k b)
  show ?thesis
  proof (cases "k < length (w_reads w)")
    case True
    have "map gr_message_id ((w_reads w)[k := auto_release b (w_reads w ! k)]) = map gr_message_id (w_reads w)"
      using True by (simp add: map_list_update_same auto_release_def)
    moreover have "held_in (ps_messages (w_st w)) g" if "g \<in> set ((w_reads w)[k := auto_release b (w_reads w ! k)])" for g
      using that data_okD(2) [OF data] True set_update_subset_insert [of "w_reads w" k "auto_release b (w_reads w ! k)"]
      by (force simp: held_in_def auto_release_def)
    ultimately show ?thesis using data True by (simp add: AutoRelease_L data_ok_def)
  qed (use data AutoRelease_L in simp)
next
  case (DropRead_L k)
  show ?thesis
  proof (cases "k < length (w_reads w) \<and> gr_auto_release (w_reads w ! k)")
    case True
    with data_release [OF ok data] show ?thesis by (simp add: DropRead_L read_grant_drop_def)
  next
    case False
    then show ?thesis
      using data data_remove_read [OF data, of k]
      by (auto simp: DropRead_L read_grant_drop_def intro: data_ok_cong [of "w\<lparr>w_reads := remove_nth k (w_reads w)\<rparr>"])
  qed
next
  case (DropSub_L k)
  show ?thesis
  proof (cases "k < length (w_subs w)")
    case True
    obtain r st where r: "subscriber_drop (w_subs w ! k) (w_st w) = (r, st)" by force
    have "r = Ok ()" by (rule subscriber_drop_ok(1) [OF w_okD(1) [OF ok] True r])
    with r have r1: "subscriber_drop (w_subs w ! k) (w_st w) = (Ok (), st)" by simp
    have "frame_bytes (w_buf w) m = w_log w ! h_message_id m" if "m \<in> set (ps_messages st)" for m
      using subscriber_drop_frames [OF r1 that, of "w_buf w"] data_okD(1) [OF data] by auto
    with calm True r1 show ?thesis by (simp add: DropSub_L ps_calm_def data_ok_def)
  qed (use data DropSub_L in simp)
next
  case Clear_L
  with calm show ?thesis by (simp add: ps_calm_def data_ok_def state_clear_def)
qed

lemma world_new_data: "data_ok (world_new buf)"
  by (simp add: data_ok_def world_new_def channel_new_def)

lemma calm_reach_ok:
  assumes "ps_calm_reach SUBS w" and "SUBS < 256"
  shows "w_ok w \<and> data_ok w"
  using assms
  by (induction rule: ps_calm_reach.induct)
    (auto simp: world_new_ok world_new_data ps_exec_ok calm_exec_data)

end
