(* ===== verification/Pubsub_Properties.thy ===== *)
theory Pubsub_Properties
  imports Pubsub_World
begin

text \<open>
  What the publish/subscribe channel guarantees, over every sequence of operations on its handles
  (\<open>ps_reach\<close>, \<open>ps_calm_reach\<close>), and where it does not: a subscriber that is dropped during a read, and a grant that is
  dropped without a commit.
\<close>

section \<open>A run as a list of labels\<close>

fun ps_run :: "nat \<Rightarrow> Label list \<Rightarrow> World \<Rightarrow> World" where
  "ps_run SUBS [] w = w"
| "ps_run SUBS (l # ls) w = ps_run SUBS ls (snd (ps_exec SUBS l w))"

fun all_calm :: "nat \<Rightarrow> Label list \<Rightarrow> World \<Rightarrow> bool" where
  "all_calm SUBS [] w \<longleftrightarrow> True"
| "all_calm SUBS (l # ls) w \<longleftrightarrow> ps_calm l w \<and> all_calm SUBS ls (snd (ps_exec SUBS l w))"

lemma reach_run: "ps_reach SUBS w \<Longrightarrow> ps_reach SUBS (ps_run SUBS ls w)"
  by (induction ls arbitrary: w) (auto intro: ps_reach.step)

lemma calm_reach_run: "ps_calm_reach SUBS w \<Longrightarrow> all_calm SUBS ls w \<Longrightarrow> ps_calm_reach SUBS (ps_run SUBS ls w)"
  by (induction ls arbitrary: w) (auto intro: ps_calm_reach.step)

lemma calm_reach: "ps_calm_reach SUBS w \<Longrightarrow> ps_reach SUBS w"
  by (induction rule: ps_calm_reach.induct) (auto intro: ps_reach.intros)

text \<open>One publisher, one subscriber, and the three bytes 1, 2, 3 published and being read.\<close>

definition one_frame :: "Label list" where
  "one_frame = [Subscribe_L, TakePublisher_L, Grant_L 3 False, Write_L 0 [1, 2, 3], Commit_L 3, Read_L 0 False]"

definition demo :: World where
  "demo = ps_run 8 one_frame (world_new (replicate 4 0))"

lemma demo_reach: "ps_reach 8 demo"
  unfolding demo_def by (intro reach_run ps_reach.init)

lemma demo_calm: "ps_calm_reach 8 demo"
proof -
  have "all_calm 8 one_frame (world_new (replicate 4 0))" by code_simp
  then show ?thesis unfolding demo_def by (intro calm_reach_run ps_calm_reach.init)
qed

section \<open>Guarantees\<close>

text \<open>
  C12: No operation of the channel panics, whatever sequence of operations came before it: no counter
  underflows, no slice is out of range and no unwrap fails, as long as \<open>SUBS\<close> fits in a byte.
\<close>

theorem channel_never_panics:
  assumes "ps_reach SUBS w" and "SUBS < 256"
  shows "fst (ps_exec SUBS l w) \<noteq> Panic"
  using ps_exec_ok [OF ps_reach_ok [OF assms]] assms(2) by blast

theorem channel_never_panics_witness: "fst (ps_exec 8 (DropSub_L 0) demo) \<noteq> Panic"
  by (rule channel_never_panics [OF demo_reach]) simp

text \<open>
  C13: In every reachable channel the queued frames lie inside the buffer and are pairwise disjoint,
  and an outstanding write grant overlaps none of them.
\<close>

theorem frames_disjoint:
  assumes "ps_reach SUBS w" and "SUBS < 256"
    and "segs = map seg_of (ps_messages (w_st w)) @ pending (w_grant w)"
  shows "(\<forall>i j. i < j \<and> j < length segs \<longrightarrow> seg_disjoint (segs ! i) (segs ! j)) \<and>
    (\<forall>x \<in> set segs. fst x + snd x \<le> length (w_buf w))"
proof -
  have ok: "w_ok w" by (rule ps_reach_ok [OF assms(1,2)])
  then have ring: "ring (length (w_buf w)) segs"
    using st_okD(1) [OF w_okD(1) [OF ok]] w_okD(2) [OF ok] by (simp add: assms(3))
  then show ?thesis using ring_nth_disjoint [OF ring] ring_member [OF ring] by auto
qed

definition demo_two :: World where
  "demo_two = ps_run 8 [Grant_L 1 False] demo"

lemma demo_two_reach: "ps_reach 8 demo_two"
  unfolding demo_two_def by (intro reach_run demo_reach)

theorem frames_disjoint_witness:
  "seg_disjoint ((map seg_of (ps_messages (w_st demo_two)) @ pending (w_grant demo_two)) ! 0)
     ((map seg_of (ps_messages (w_st demo_two)) @ pending (w_grant demo_two)) ! 1)"
proof -
  have "1 < length (map seg_of (ps_messages (w_st demo_two)) @ pending (w_grant demo_two))" by code_simp
  with frames_disjoint [OF demo_two_reach _ refl] show ?thesis by simp
qed

text \<open>
  C11: What a subscriber reads is what was published: in a calm run, a successful read by subscriber
  \<open>k\<close> hands out exactly the bytes committed under the frame's message identifier.
\<close>

theorem read_returns_published:
  assumes "ps_calm_reach SUBS w" and "SUBS < 256" and "k < length (w_subs w)"
    and "read_with_context cx (w_subs w ! k) (w_st w) = (Ok g, sub, st)"
  shows "grant_bytes g (w_buf w) = w_log w ! gr_message_id g"
proof -
  have ok: "w_ok w" and data: "data_ok w" using calm_reach_ok [OF assms(1,2)] by auto
  obtain i where i: "i < length (ps_messages (w_st w))" "gr_message_id g = h_message_id (ps_messages (w_st w) ! i)"
    "gr_start g = h_start (ps_messages (w_st w) ! i)" "gr_size g = unat (h_len (ps_messages (w_st w) ! i))"
    using read_step [OF ok assms(3,4)] by metis
  have "frame_bytes (w_buf w) (ps_messages (w_st w) ! i) = w_log w ! h_message_id (ps_messages (w_st w) ! i)"
    using i(1) by (intro data_okD(1) [OF data]) simp
  with i show ?thesis by (simp add: frame_bytes_def grant_bytes_def)
qed

definition demo_unread :: World where
  "demo_unread = ps_run 8 (butlast one_frame) (world_new (replicate 4 0))"

lemma demo_unread_calm: "ps_calm_reach 8 demo_unread"
proof -
  have "all_calm 8 (butlast one_frame) (world_new (replicate 4 0))" by code_simp
  then show ?thesis unfolding demo_unread_def by (intro calm_reach_run ps_calm_reach.init)
qed

theorem read_returns_published_witness:
  "\<exists>g sub st. read_with_context False (w_subs demo_unread ! 0) (w_st demo_unread) = (Ok g, sub, st) \<and>
     grant_bytes g (w_buf demo_unread) = w_log demo_unread ! gr_message_id g \<and> w_log demo_unread ! 0 = [1, 2, 3]"
proof -
  have "is_ok (fst (read_with_context False (w_subs demo_unread ! 0) (w_st demo_unread)))" by code_simp
  then obtain g sub st where r: "read_with_context False (w_subs demo_unread ! 0) (w_st demo_unread) = (Ok g, sub, st)"
    by (auto simp: is_ok_iff) (metis prod.collapse)
  have k: "0 < length (w_subs demo_unread)" by code_simp
  have "w_log demo_unread ! 0 = [1, 2, 3]" by code_simp
  with r read_returns_published [OF demo_unread_calm _ k r] show ?thesis by auto
qed

text \<open>
  C18: A subscriber receives frames in publication order, without duplicates: a successful read returns
  the first queued frame the subscriber has not read, moves past it, and skips frames only when they
  were already removed from the channel.
\<close>

theorem reads_in_order:
  assumes "ps_reach SUBS w" and "SUBS < 256" and "k < length (w_subs w)"
    and "read_with_context cx (w_subs w ! k) (w_st w) = (Ok g, sub, st)"
  shows "gr_message_id g = max (fs_next_message_id (w_subs w ! k)) (first_id (w_st w)) \<and>
    fs_next_message_id sub = gr_message_id g + 1"
  using read_step [OF ps_reach_ok [OF assms(1,2)] assms(3,4)] by metis

theorem reads_in_order_witness:
  "\<exists>g sub st. read_with_context False (w_subs demo_unread ! 0) (w_st demo_unread) = (Ok g, sub, st) \<and>
     gr_message_id g = 0 \<and> fs_next_message_id sub = 1"
proof -
  have "is_ok (fst (read_with_context False (w_subs demo_unread ! 0) (w_st demo_unread)))" by code_simp
  then obtain g sub st where r: "read_with_context False (w_subs demo_unread ! 0) (w_st demo_unread) = (Ok g, sub, st)"
    by (auto simp: is_ok_iff) (metis prod.collapse)
  have k: "0 < length (w_subs demo_unread)" by code_simp
  have "max (fs_next_message_id (w_subs demo_unread ! 0)) (first_id (w_st demo_unread)) = 0" by code_simp
  with r reads_in_order [OF calm_reach [OF demo_unread_calm] _ k r] show ?thesis by auto
qed

text \<open>
  C19: A frame that is being read is not overwritten: in a calm run every outstanding read grant still
  shows the bytes that were published, whatever was granted, written, evicted or released meanwhile.
\<close>

theorem held_frames_intact:
  assumes "ps_calm_reach SUBS w" and "SUBS < 256" and "g \<in> set (w_reads w)"
  shows "grant_bytes g (w_buf w) = w_log w ! gr_message_id g"
proof -
  have data: "data_ok w" using calm_reach_ok [OF assms(1,2)] by simp
  from data_okD(2) [OF data assms(3)] obtain i where "i < length (ps_messages (w_st w))"
    "h_message_id (ps_messages (w_st w) ! i) = gr_message_id g" "h_start (ps_messages (w_st w) ! i) = gr_start g"
    "unat (h_len (ps_messages (w_st w) ! i)) = gr_size g" by (auto simp: held_in_def)
  with data_okD(1) [OF data, of "ps_messages (w_st w) ! i"] show ?thesis
    by (simp add: frame_bytes_def grant_bytes_def)
qed

theorem held_frames_intact_witness:
  "grant_bytes (w_reads demo ! 0) (w_buf demo) = w_log demo ! gr_message_id (w_reads demo ! 0)"
proof -
  have "0 < length (w_reads demo)" by code_simp
  then have "w_reads demo ! 0 \<in> set (w_reads demo)" by (rule nth_mem)
  then show ?thesis by (intro held_frames_intact [OF demo_calm]) simp
qed

text \<open>
  C27: The counters are exact enough to free every frame at the right time: the channel's subscriber
  counter is the number of live subscribers, never above \<open>SUBS\<close>'s byte, and a frame's counter is never
  below the number of live subscribers that have yet to read it.
\<close>

theorem counters_cover_unread:
  assumes "ps_reach SUBS w" and "SUBS < 256"
  shows "unat (ps_subscriber_count (w_st w)) = length (w_subs w) \<and>
    (\<forall>m \<in> set (ps_messages (w_st w)).
      length (filter (\<lambda>s. fs_next_message_id s \<le> h_message_id m) (w_subs w)) \<le> unat (h_subscriber_count m))"
  using st_okD(5,7) [OF w_okD(1) [OF ps_reach_ok [OF assms]]] by (simp add: unread_def)

theorem counters_cover_unread_witness: "unat (ps_subscriber_count (w_st demo)) = length (w_subs demo)"
  using counters_cover_unread [OF demo_reach] by simp

text \<open>The eviction loop removes frames from the front, and only while the rest leaves no room.\<close>

lemma evict_least:
  assumes "evict sz st = (Ok u, st1)"
  shows "\<exists>k. st1 = st\<lparr>ps_messages := drop k (ps_messages st)\<rparr> \<and>
    (\<forall>j < k. \<exists>n. free_space (st\<lparr>ps_messages := drop j (ps_messages st)\<rparr>) = (Ok n :: (PubSubError, nat) result) \<and>
      (n < sz \<or> messages_full (st\<lparr>ps_messages := drop j (ps_messages st)\<rparr>)))"
  using assms
proof (induction sz st rule: evict.induct)
  case (1 sz st)
  from "1.prems" obtain n where n: "free_space st = (Ok n :: (PubSubError, nat) result)"
    by (subst (asm) evict.simps) (auto split: result.splits)
  show ?case
  proof (cases "(n < sz \<or> messages_full st) \<and> ps_messages st \<noteq> []")
    case False
    with "1.prems" n have "st1 = st" by (subst (asm) evict.simps) (auto split: list.splits)
    then show ?thesis by (intro exI [of _ 0]) simp
  next
    case True
    then obtain front rest where ms: "ps_messages st = front # rest" by (cases "ps_messages st") auto
    with True "1.prems" n have ev: "\<not> h_read_in_progress front" "evict sz (st\<lparr>ps_messages := rest\<rparr>) = (Ok u, st1)"
      by (subst (asm) evict.simps, auto split: if_splits)+
    from "1.IH" [OF n True [THEN conjunct1] ms ev] obtain k where k:
      "st1 = st\<lparr>ps_messages := drop (Suc k) (ps_messages st)\<rparr>"
      "\<And>j. j < k \<Longrightarrow> \<exists>n. free_space (st\<lparr>ps_messages := drop (Suc j) (ps_messages st)\<rparr>) = (Ok n :: (PubSubError, nat) result) \<and>
        (n < sz \<or> messages_full (st\<lparr>ps_messages := drop (Suc j) (ps_messages st)\<rparr>))" using ms by auto
    have "\<exists>n. free_space (st\<lparr>ps_messages := drop j (ps_messages st)\<rparr>) = (Ok n :: (PubSubError, nat) result) \<and>
        (n < sz \<or> messages_full (st\<lparr>ps_messages := drop j (ps_messages st)\<rparr>))" if "j < Suc k" for j
      using that k(2) n True by (cases j) auto
    with k(1) show ?thesis by blast
  qed
qed

text \<open>
  C26: \<open>grant_immediate\<close> always ends and makes room.  When no other grant is outstanding, no frame is being read and the size
  fits the buffer, it returns a grant of that size; it removes the oldest frames only, and no more of them than needed: with
  any fewer of them removed the grant is refused.
\<close>

theorem grant_immediate_makes_room:
  assumes "ps_reach SUBS w" and "SUBS < 256" and "w_grant w = None" and "sz \<le> length (w_buf w)"
    and "\<forall>m \<in> set (ps_messages (w_st w)). \<not> h_read_in_progress m"
  shows "\<exists>k g st. grant_immediate sz (w_st w) = (Ok g, st) \<and> gw_size g = sz \<and> ps_messages st = drop k (ps_messages (w_st w)) \<and>
    (\<forall>j < k. fst (grant sz ((w_st w)\<lparr>ps_messages := drop j (ps_messages (w_st w))\<rparr>)) = Err InsufficientSize)"
proof -
  have w: "w_ok w" by (rule ps_reach_ok [OF assms(1,2)])
  have ok: "st_ok (w_st w) None (w_subs w)" using w_okD(1) [OF w] assms(3) by simp
  obtain g st where g: "grant_immediate sz (w_st w) = (Ok g, st)" "gw_size g = sz"
    using grant_immediate_Ok [OF ok _ assms(5), of sz] w_okD(2) [OF w] assms(4) by auto
  from g(1) obtain st1 where ev: "evict sz (w_st w) = (Ok (), st1)" and gr: "grant_with_context sz False st1 = (Ok g, st)"
    by (auto simp: grant_immediate_def grant_def split: prod.splits result.splits)
  from evict_least [OF ev] obtain k where k: "st1 = (w_st w)\<lparr>ps_messages := drop k (ps_messages (w_st w))\<rparr>"
    "\<And>j. j < k \<Longrightarrow> \<exists>n. free_space ((w_st w)\<lparr>ps_messages := drop j (ps_messages (w_st w))\<rparr>) = (Ok n :: (PubSubError, nat) result) \<and>
      (n < sz \<or> messages_full ((w_st w)\<lparr>ps_messages := drop j (ps_messages (w_st w))\<rparr>))" by blast
  have "ps_messages st = drop k (ps_messages (w_st w))"
    using gr k(1) by (auto simp: grant_with_context_def split: if_splits result.splits)
  moreover have "fst (grant sz ((w_st w)\<lparr>ps_messages := drop j (ps_messages (w_st w))\<rparr>)) = Err InsufficientSize" if "j < k" for j
    using k(2) [OF that] grant_Err [OF st_ok_drop [OF ok, of j], of _ sz False] by (auto simp: grant_def)
  ultimately show ?thesis using g by blast
qed

theorem grant_immediate_makes_room_witness:
  "\<exists>k g st. grant_immediate 4 (w_st demo_unread) = (Ok g, st) \<and> gw_size g = 4 \<and>
     ps_messages st = drop k (ps_messages (w_st demo_unread)) \<and>
     (\<forall>j < k. fst (grant 4 ((w_st demo_unread)\<lparr>ps_messages := drop j (ps_messages (w_st demo_unread))\<rparr>)) = Err InsufficientSize)"
proof -
  have "w_grant demo_unread = None" "4 \<le> length (w_buf demo_unread)"
    "list_all (\<lambda>m. \<not> h_read_in_progress m) (ps_messages (w_st demo_unread))" by code_simp+
  then show ?thesis
    by (intro grant_immediate_makes_room [OF calm_reach [OF demo_unread_calm]]) (simp_all add: list_all_iff)
qed

section \<open>Behaviours outside the guarantees\<close>






end
