(* ===== verification/Topic_Filter.thy ===== *)
theory Topic_Filter
  imports Codec_Types
begin

text \<open>
  \<open>TopicFilter\<close> of \<open>src/topic_filter.rs\<close>: validation of a subscription filter and the match of a topic
  against it.  Strings are UTF-8 byte lists; \<open>'/'\<close>, \<open>'+'\<close> and \<open>'#'\<close> are single bytes that never occur
  inside the encoding of another character, so that searching and splitting by byte is what
  \<open>str::find\<close>, \<open>str::contains\<close> and \<open>str::split\<close> do.
\<close>

definition MAX_TOPIC_LEN :: nat where
  "MAX_TOPIC_LEN = 128"

record TopicFilter =
  tf_filter :: str
  tf_has_wildcards :: bool

definition c_slash :: u8 where "c_slash = 0x2F"
definition c_plus :: u8 where "c_plus = 0x2B"
definition c_hash :: u8 where "c_hash = 0x23"

fun split_on :: "u8 \<Rightarrow> str \<Rightarrow> str list" where
  "split_on c [] = [[]]"
| "split_on c (b # bs) =
     (if b = c then [] # split_on c bs
      else (case split_on c bs of [] \<Rightarrow> [[b]] | f # fs \<Rightarrow> (b # f) # fs))"

definition topic_filter_new :: "str \<Rightarrow> (Error, TopicFilter) result" where
  "topic_filter_new flt =
     (if MAX_TOPIC_LEN < length flt then Err Overflow
      else if length flt = 0 then Err BadTopicFilter
      else
        case position (\<lambda>b. b = c_hash) flt of
          Some i \<Rightarrow>
            (if i < length flt - 1 then Err BadTopicFilter
             else Ok \<lparr>tf_filter = flt, tf_has_wildcards = True\<rparr>)
        | None \<Rightarrow> Ok \<lparr>tf_filter = flt, tf_has_wildcards = c_plus \<in> set flt\<rparr>)"

text \<open>The loop over \<open>filter.split('/').zip_longest(topic.split('/'))\<close>.\<close>

fun match_fields :: "str list \<Rightarrow> str list \<Rightarrow> bool" where
  "match_fields [] [] = True"
| "match_fields (f # fs) (t # ts) =
     (if f = [c_hash] then True
      else if f \<noteq> [c_plus] \<and> f \<noteq> t then False
      else match_fields fs ts)"
| "match_fields (f # fs) [] = False"
| "match_fields [] (t # ts) = False"

definition is_match :: "TopicFilter \<Rightarrow> str \<Rightarrow> bool" where
  "is_match tf topic =
     (if tf_has_wildcards tf then match_fields (split_on c_slash (tf_filter tf)) (split_on c_slash topic)
      else tf_filter tf = topic)"

section \<open>Splitting\<close>

fun join_with :: "u8 \<Rightarrow> str list \<Rightarrow> str" where
  "join_with c [] = []"
| "join_with c [f] = f"
| "join_with c (f # fs) = f @ c # join_with c fs"

lemma split_on_nonempty [simp]: "split_on c bs \<noteq> []"
  by (cases bs) (auto split: list.splits)

lemma join_split [simp]: "join_with c (split_on c bs) = bs"
proof (induction bs)
  case (Cons b bs)
  obtain f fs where s: "split_on c bs = f # fs" by (cases "split_on c bs") auto
  with Cons show ?case by (cases fs) auto
qed simp

lemma split_on_inj: "split_on c a = split_on c b \<longleftrightarrow> a = b"
  by (metis join_split)

lemma field_subset: "f \<in> set (split_on c bs) \<Longrightarrow> set f \<subseteq> set bs"
proof (induction bs arbitrary: f)
  case (Cons b bs)
  then show ?case by (fastforce split: if_splits list.splits)
qed simp

text \<open>The bytes of a field other than the last lie before the last byte.\<close>

lemma butlast_field_subset: "f \<in> set (butlast (split_on c bs)) \<Longrightarrow> set f \<subseteq> set (butlast bs)"
proof (induction bs arbitrary: f)
  case (Cons b bs)
  have mono: "set (butlast bs) \<subseteq> set (butlast (b # bs))" by auto
  show ?case
  proof (cases "b = c")
    case True
    with Cons.prems have "f = [] \<or> f \<in> set (butlast (split_on c bs))" by auto
    with Cons.IH mono show ?thesis by auto
  next
    case False
    obtain f1 fs1 where s: "split_on c bs = f1 # fs1" by (cases "split_on c bs") auto
    have fs1: "fs1 \<noteq> []" and f: "f = b # f1 \<or> f \<in> set (butlast fs1)"
      using Cons.prems False s by (auto split: if_splits)
    have "bs \<noteq> []" using s fs1 by (cases bs) auto
    then have b: "b \<in> set (butlast (b # bs))" by simp
    have "set f1 \<subseteq> set (butlast bs)" and "f \<in> set (butlast fs1) \<Longrightarrow> set f \<subseteq> set (butlast bs)"
      using Cons.IH s fs1 by auto
    with f b mono show ?thesis by auto
  qed
qed simp

section \<open>The match relation of the protocol\<close>

text \<open>
  A field of a filter matches one topic level literally or by \<open>+\<close>.  A filter ending in the field \<open>#\<close>
  matches the topics whose first levels match the fields before it and that have at least one more
  level; any other filter matches the topics with exactly its levels.
\<close>

definition field_ok :: "str \<Rightarrow> str \<Rightarrow> bool" where
  "field_ok f t \<longleftrightarrow> f = [c_plus] \<or> f = t"

definition topic_matches :: "str list \<Rightarrow> str list \<Rightarrow> bool" where
  "topic_matches fs ts \<longleftrightarrow>
     (if last fs = [c_hash]
      then length fs \<le> length ts \<and> list_all2 field_ok (butlast fs) (take (length fs - 1) ts)
      else list_all2 field_ok fs ts)"

lemma match_fields_iff:
  assumes "fs \<noteq> []" and "[c_hash] \<notin> set (butlast fs)"
  shows "match_fields fs ts \<longleftrightarrow> topic_matches fs ts"
  using assms
proof (induction fs ts rule: match_fields.induct)
  case (2 f fs t ts)
  show ?case
  proof (cases "fs = []")
    case True
    then show ?thesis by (cases ts) (auto simp: topic_matches_def field_ok_def c_plus_def c_hash_def)
  next
    case False
    with 2 have f: "f \<noteq> [c_hash]" "[c_hash] \<notin> set (butlast fs)" by auto
    then have "match_fields (f # fs) (t # ts) \<longleftrightarrow> field_ok f t \<and> match_fields fs ts"
      by (auto simp: field_ok_def)
    moreover have "match_fields fs ts \<longleftrightarrow> topic_matches fs ts" if "field_ok f t"
      using 2 f False that by (auto simp: field_ok_def)
    ultimately show ?thesis using False by (cases fs) (auto simp: topic_matches_def)
  qed
qed (auto simp: topic_matches_def)

lemma list_all2_field_ok_literal:
  "\<forall>f \<in> set fs. f \<noteq> [c_plus] \<Longrightarrow> list_all2 field_ok fs ts \<longleftrightarrow> fs = ts"
  by (induction fs arbitrary: ts) (auto simp: list_all2_Cons1 field_ok_def)

lemma topic_filter_new_Ok_iff:
  "topic_filter_new flt = Ok tf \<longleftrightarrow>
     flt \<noteq> [] \<and> length flt \<le> MAX_TOPIC_LEN \<and> c_hash \<notin> set (butlast flt) \<and>
     tf = \<lparr>tf_filter = flt, tf_has_wildcards = c_hash \<in> set flt \<or> c_plus \<in> set flt\<rparr>"
proof (cases "position (\<lambda>b. b = c_hash) flt")
  case None
  then have "c_hash \<notin> set flt" by (auto simp: position_None_iff)
  moreover from this have "c_hash \<notin> set (butlast flt)" using in_set_butlastD by fastforce
  ultimately show ?thesis using None by (auto simp: topic_filter_new_def)
next
  case (Some i)
  then have i: "i < length flt" "flt ! i = c_hash" "\<forall>j < i. flt ! j \<noteq> c_hash"
    by (auto simp: position_Some_iff)
  then have mem: "c_hash \<in> set flt" by (metis nth_mem)
  have "c_hash \<in> set (butlast flt) \<longleftrightarrow> i < length flt - 1"
  proof
    assume "c_hash \<in> set (butlast flt)"
    then obtain j where "j < length flt - 1" "flt ! j = c_hash"
      by (auto simp: in_set_conv_nth nth_butlast)
    with i(3) show "i < length flt - 1" by (metis linorder_cases order.strict_trans)
  next
    assume "i < length flt - 1"
    with i(2) show "c_hash \<in> set (butlast flt)" by (metis length_butlast nth_butlast nth_mem)
  qed
  with Some mem i(1) show ?thesis by (auto simp: topic_filter_new_def)
qed

text \<open>The match, with its shortcut for filters without wildcards, is the one of the specification.\<close>

lemma is_match_iff:
  assumes "topic_filter_new flt = Ok tf"
  shows "is_match tf topic \<longleftrightarrow> topic_matches (split_on c_slash flt) (split_on c_slash topic)"
proof -
  let ?fs = "split_on c_slash flt"
  from assms have flt: "c_hash \<notin> set (butlast flt)"
    and tf: "tf = \<lparr>tf_filter = flt, tf_has_wildcards = c_hash \<in> set flt \<or> c_plus \<in> set flt\<rparr>"
    by (auto simp: topic_filter_new_Ok_iff)
  have inner: "[c_hash] \<notin> set (butlast ?fs)" using butlast_field_subset [of "[c_hash]" c_slash flt] flt by auto
  show ?thesis
  proof (cases "tf_has_wildcards tf")
    case True
    then show ?thesis using match_fields_iff [OF split_on_nonempty inner] by (simp add: is_match_def tf)
  next
    case False
    then have no: "c_hash \<notin> set flt" "c_plus \<notin> set flt" by (simp_all add: tf)
    then have "\<forall>f \<in> set ?fs. f \<noteq> [c_plus]" and "last ?fs \<noteq> [c_hash]"
      using field_subset [of _ c_slash flt] last_in_set [OF split_on_nonempty] by fastforce+
    then show ?thesis
      using False by (simp add: is_match_def topic_matches_def list_all2_field_ok_literal split_on_inj tf)
  qed
qed

end
