(* ===== verification/Packet_Reader.thy ===== *)
theory Packet_Reader
  imports Received_Packet Topic_Filter
begin

text \<open>
  \<open>src/packet.rs\<close>: the \<open>PacketReader\<close>, which frames the byte stream of a socket into packets, and
  \<open>encode_packet\<close> and \<open>write_bytes\<close>, which send one.

  The loop of \<open>recv\<close> may wait for ever, so it is a partial function: \<open>None\<close> means that it does not
  return.  \<open>recv_loop_stream\<close> shows that on a stream it returns once the header is complete, and that it
  stops at the end of the packet or of its buffer; \<open>parse_control\<close> and \<open>parse_publish\<close> say when a header is
  complete.
\<close>

section \<open>The reader\<close>

definition READ_BUF_LEN :: nat where
  "READ_BUF_LEN = MAX_MQTT_HEADER_LEN + 2 + MAX_TOPIC_LEN + 2"

record PacketReader =
  pr_buf :: bytes
  pr_read_bytes :: nat
  pr_packet_len :: "nat option"

definition reader_new :: PacketReader where
  "reader_new = \<lparr>pr_buf = replicate READ_BUF_LEN 0, pr_read_bytes = 0, pr_packet_len = None\<rparr>"

definition reader_reset :: "PacketReader \<Rightarrow> PacketReader" where
  "reader_reset pr = pr\<lparr>pr_read_bytes := 0, pr_packet_len := None\<rparr>"

text \<open>The length \<open>try_parse_header\<close> stores, computed from the bytes read so far.\<close>

definition parse_header :: "bytes \<Rightarrow> (EncodingError, nat) result" where
  "parse_header bs =
     rbind (decoder_try_new bs) (\<lambda>d.
     if fh_typ (dec_fixed_header d) = PT_Publish then
       rbind (read_str d) (\<lambda>(topic_name, d).
       rbind (dec_check_remaining 2 d) (\<lambda>_. Ok (packet_len d)))
     else Ok (packet_len d))"

definition try_parse_header :: "PacketReader \<Rightarrow> (EncodingError, unit) result \<times> PacketReader" where
  "try_parse_header pr =
     (if length (pr_buf pr) < pr_read_bytes pr then (Panic, pr)
      else
        case parse_header (take (pr_read_bytes pr) (pr_buf pr)) of
          Ok n \<Rightarrow> (Ok (), pr\<lparr>pr_packet_len := Some n\<rparr>)
        | Err e \<Rightarrow> (Err e, pr)
        | Panic \<Rightarrow> (Panic, pr))"

text \<open>The slice \<open>&mut self.buf[self.read_bytes..end]\<close> as its end.\<close>

definition read_end :: "PacketReader \<Rightarrow> (EncodingError, nat) result" where
  "read_end pr =
     (let e = min (case pr_packet_len pr of Some n \<Rightarrow> n | None \<Rightarrow> pr_read_bytes pr + 1) (length (pr_buf pr))
      in if e < pr_read_bytes pr then Panic else Ok e)"

definition next_read_buf :: "PacketReader \<Rightarrow> (EncodingError, nat) result \<times> PacketReader" where
  "next_read_buf pr =
     (if pr_packet_len pr = None then
        case try_parse_header pr of
          (Ok _, pr1) \<Rightarrow> (read_end pr1, pr1)
        | (Err InsufficientBytes, pr1) \<Rightarrow> (read_end pr1, pr1)
        | (Err e, pr1) \<Rightarrow> (Err e, pr1)
        | (Panic, pr1) \<Rightarrow> (Panic, pr1)
      else (read_end pr, pr))"

definition read_chunk :: "'s Socket \<Rightarrow> PacketReader \<Rightarrow> 's \<Rightarrow> (ErrorKind, unit) result \<times> PacketReader \<times> 's" where
  "read_chunk sk pr s =
     (case next_read_buf pr of
        (Panic, pr1) \<Rightarrow> (Panic, pr1, s)
      | (Err e, pr1) \<Rightarrow> (Err InvalidData, reader_reset pr1, s)
      | (Ok end_, pr1) \<Rightarrow>
          (if end_ = pr_read_bytes pr1 then (Ok (), pr1, s)
           else
             case sk_read sk (end_ - pr_read_bytes pr1) s of
               (Ok bs, s1) \<Rightarrow>
                 (if 0 < length bs then
                    (Ok (), pr1\<lparr>pr_buf := splice (pr_buf pr1) (pr_read_bytes pr1) bs,
                                pr_read_bytes := pr_read_bytes pr1 + length bs\<rparr>, s1)
                  else (Err NotConnected, pr1, s1))
             | (Err k, s1) \<Rightarrow> (Err k, pr1, s1)
             | (Panic, s1) \<Rightarrow> (Panic, pr1, s1)))"

partial_function (option) recv_loop ::
  "'s Socket \<Rightarrow> PacketReader \<Rightarrow> 's \<Rightarrow> ((StateError, unit) result \<times> PacketReader \<times> 's) option" where
  "recv_loop sk pr s =
     (if pr_packet_len pr = None then
        (case read_chunk sk pr s of
           (Ok u, pr1, s1) \<Rightarrow> recv_loop sk pr1 s1
         | (Err k, pr1, s1) \<Rightarrow> Some (Err (Io k), pr1, s1)
         | (Panic, pr1, s1) \<Rightarrow> Some (Panic, pr1, s1))
      else Some (Ok (), pr, s))"

definition reader_decode :: "PacketReader \<Rightarrow> (EncodingError, ReceivedPacket) result" where
  "reader_decode pr =
     (case pr_packet_len pr of
        None \<Rightarrow> Err MalformedPacket
      | Some packet_length \<Rightarrow>
          (let buf_len = min packet_length (pr_read_bytes pr) in
           if length (pr_buf pr) < buf_len then Panic else from_buffer (take buf_len (pr_buf pr))))"

definition recv ::
  "'s Socket \<Rightarrow> PacketReader \<Rightarrow> 's \<Rightarrow> ((StateError, ReceivedPacket) result \<times> PacketReader \<times> 's) option" where
  "recv sk pr s =
     (let pr0 = (if pr_packet_len pr \<noteq> None then reader_reset pr else pr) in
      case recv_loop sk pr0 s of
        None \<Rightarrow> None
      | Some (Ok u, pr1, s1) \<Rightarrow> Some (map_err Deserialization (reader_decode pr1), pr1, s1)
      | Some (Err e, pr1, s1) \<Rightarrow> Some (Err e, pr1, s1)
      | Some (Panic, pr1, s1) \<Rightarrow> Some (Panic, pr1, s1))"

section \<open>Sending\<close>

definition encode_packet :: "('p \<Rightarrow> enc_op) \<Rightarrow> 'p \<Rightarrow> bytes \<Rightarrow> (StateError, bytes) result" where
  "encode_packet to_buffer p buf =
     rbind (map_err Serialization (to_buffer p (encoder_new buf))) (\<lambda>e. map_err Serialization (packet_bytes e))"

definition write_bytes :: "'s Socket \<Rightarrow> bytes \<Rightarrow> 's \<Rightarrow> (StateError, unit) result \<times> 's" where
  "write_bytes sk bs s =
     (case sk_write_all sk bs s of
        (Ok _, s1) \<Rightarrow>
          (case sk_flush sk s1 of
             (Ok _, s2) \<Rightarrow> (Ok (), s2)
           | (Err k, s2) \<Rightarrow> (Err (Io k), s2)
           | (Panic, s2) \<Rightarrow> (Panic, s2))
      | (Err k, s1) \<Rightarrow> (Err (Io k), s1)
      | (Panic, s1) \<Rightarrow> (Panic, s1))"

lemma write_bytes_stream [simp]: "write_bytes stream_socket bs (inp, out) = (Ok (), (inp, out @ bs))"
  by (simp add: write_bytes_def stream_socket_def)

section \<open>Reading a stream\<close>

definition reader_idle :: "PacketReader \<Rightarrow> bool" where
  "reader_idle pr \<longleftrightarrow> length (pr_buf pr) = READ_BUF_LEN \<and> (pr_packet_len pr \<noteq> None \<or> pr_read_bytes pr = 0)"

definition reader_at :: "nat \<Rightarrow> bytes \<Rightarrow> PacketReader \<Rightarrow> bool" where
  "reader_at j inp pr \<longleftrightarrow> length (pr_buf pr) = READ_BUF_LEN \<and> pr_read_bytes pr = j \<and> take j (pr_buf pr) = take j inp"

lemma reader_new_idle: "reader_idle reader_new"
  by (simp add: reader_idle_def reader_new_def)

lemma take_splice_stream:
  assumes "j \<le> length buf" and "take j buf = take j inp" and "j + k \<le> length buf" and "j + k \<le> length inp"
  shows "take (j + k) (splice buf j (take k (drop j inp))) = take (j + k) inp"
  using assms take_splice_end [of j "take k (drop j inp)" buf] by (simp add: take_add)

text \<open>While the header is not complete the loop reads byte by byte.\<close>

lemma recv_loop_advance:
  assumes short: "\<And>j. j < n0 \<Longrightarrow> parse_header (take j inp) = Err InsufficientBytes"
    and bounds: "n0 \<le> READ_BUF_LEN" "n0 \<le> length inp"
    and j: "j \<le> n0" and pr: "reader_at j inp pr" "pr_packet_len pr = None"
  shows "\<exists>pr'. recv_loop stream_socket pr (drop j inp, out) = recv_loop stream_socket pr' (drop n0 inp, out) \<and>
    reader_at n0 inp pr' \<and> pr_packet_len pr' = None"
  using j pr
proof (induction "n0 - j" arbitrary: j pr)
  case 0
  then show ?case by auto
next
  case (Suc k)
  then have j: "j < n0" by simp
  have at: "length (pr_buf pr) = READ_BUF_LEN" "pr_read_bytes pr = j" "take j (pr_buf pr) = take j inp"
    using Suc.prems by (simp_all add: reader_at_def)
  have lt: "j < READ_BUF_LEN" "j < length inp" using j bounds by auto
  have buf: "next_read_buf pr = (Ok (j + 1), pr)"
    using at short [OF j] lt Suc.prems by (auto simp: next_read_buf_def try_parse_header_def read_end_def Let_def)
  let ?bs = "take 1 (drop j inp)"
  let ?pr2 = "pr\<lparr>pr_buf := splice (pr_buf pr) j ?bs, pr_read_bytes := j + 1\<rparr>"
  have "read_chunk stream_socket pr (drop j inp, out) = (Ok (), ?pr2, (drop (j + 1) inp, out))"
    using buf at lt by (simp add: read_chunk_def stream_socket_def)
  then have "recv_loop stream_socket pr (drop j inp, out) = recv_loop stream_socket ?pr2 (drop (j + 1) inp, out)"
    using Suc.prems by (subst recv_loop.simps) simp
  moreover have "reader_at (j + 1) inp ?pr2"
    using at lt take_splice_stream [of j "pr_buf pr" inp 1] by (auto simp: reader_at_def)
  ultimately show ?case
    using Suc.hyps(1) [of "j + 1" ?pr2] Suc.hyps(2) Suc.prems j by simp
qed

lemma recv_loop_stream:
  assumes short: "\<And>j. j < n0 \<Longrightarrow> parse_header (take j inp) = Err InsufficientBytes"
    and full: "parse_header (take n0 inp) = Ok L"
    and bounds: "n0 \<le> min L READ_BUF_LEN" "min L READ_BUF_LEN \<le> length inp"
    and j: "j \<le> n0" and pr: "reader_at j inp pr" "pr_packet_len pr = None"
  shows "\<exists>pr'. recv_loop stream_socket pr (drop j inp, out) =
      Some (Ok (), pr', (drop (min L READ_BUF_LEN) inp, out)) \<and>
    reader_at (min L READ_BUF_LEN) inp pr' \<and> pr_packet_len pr' = Some L"
proof -
  have n0: "n0 \<le> READ_BUF_LEN" "n0 \<le> length inp" using bounds by auto
  obtain pr0 where adv: "recv_loop stream_socket pr (drop j inp, out) = recv_loop stream_socket pr0 (drop n0 inp, out)"
    and pr0: "reader_at n0 inp pr0" "pr_packet_len pr0 = None"
    using recv_loop_advance [OF short n0 j pr, of out] by blast
  let ?m = "min L READ_BUF_LEN"
  let ?pr1 = "pr0\<lparr>pr_packet_len := Some L\<rparr>"
  have at: "length (pr_buf pr0) = READ_BUF_LEN" "pr_read_bytes pr0 = n0" "take n0 (pr_buf pr0) = take n0 inp"
    using pr0 by (simp_all add: reader_at_def)
  have buf: "next_read_buf pr0 = (Ok ?m, ?pr1)"
    using at bounds(1) full pr0 by (auto simp: next_read_buf_def try_parse_header_def read_end_def Let_def)
  show ?thesis unfolding adv
  proof (cases "?m = n0")
    case True
    then have "read_chunk stream_socket pr0 (drop n0 inp, out) = (Ok (), ?pr1, (drop ?m inp, out))"
      using buf at by (simp add: read_chunk_def)
    with at pr0 True show "\<exists>pr'. recv_loop stream_socket pr0 (drop n0 inp, out) = Some (Ok (), pr', (drop ?m inp, out)) \<and>
        reader_at ?m inp pr' \<and> pr_packet_len pr' = Some L"
      by (subst recv_loop.simps) (simp add: recv_loop.simps reader_at_def)
  next
    case False
    let ?bs = "take (?m - n0) (drop n0 inp)"
    let ?pr2 = "?pr1\<lparr>pr_buf := splice (pr_buf pr0) n0 ?bs, pr_read_bytes := ?m\<rparr>"
    have len: "length ?bs = ?m - n0" "0 < ?m - n0" using bounds False by auto
    have "read_chunk stream_socket pr0 (drop n0 inp, out) = (Ok (), ?pr2, (drop ?m inp, out))"
      using buf at False bounds len by (simp add: read_chunk_def stream_socket_def)
    moreover have "take (n0 + (?m - n0)) (splice (pr_buf pr0) n0 ?bs) = take (n0 + (?m - n0)) inp"
      using at bounds by (intro take_splice_stream) auto
    then have "reader_at ?m inp ?pr2"
      using at bounds len by (auto simp: reader_at_def)
    ultimately show "\<exists>pr'. recv_loop stream_socket pr0 (drop n0 inp, out) = Some (Ok (), pr', (drop ?m inp, out)) \<and>
        reader_at ?m inp pr' \<and> pr_packet_len pr' = Some L"
      using pr0 by (subst recv_loop.simps) (simp add: recv_loop.simps)
  qed
qed

text \<open>A header that is complete only after the end of its packet makes the slice of the next read start after its end.\<close>

lemma recv_loop_overrun:
  assumes short: "\<And>j. j < n0 \<Longrightarrow> parse_header (take j inp) = Err InsufficientBytes"
    and full: "parse_header (take n0 inp) = Ok L"
    and bounds: "L < n0" "n0 \<le> READ_BUF_LEN" "n0 \<le> length inp"
    and j: "j \<le> n0" and pr: "reader_at j inp pr" "pr_packet_len pr = None"
  shows "\<exists>pr'. recv_loop stream_socket pr (drop j inp, out) = Some (Panic, pr', (drop n0 inp, out))"
proof -
  obtain pr0 where adv: "recv_loop stream_socket pr (drop j inp, out) = recv_loop stream_socket pr0 (drop n0 inp, out)"
    and pr0: "reader_at n0 inp pr0" "pr_packet_len pr0 = None"
    using recv_loop_advance [OF short bounds(2,3) j pr, of out] by blast
  have "next_read_buf pr0 = (Panic, pr0\<lparr>pr_packet_len := Some L\<rparr>)"
    using pr0 bounds full by (auto simp: next_read_buf_def try_parse_header_def read_end_def reader_at_def Let_def)
  then have "read_chunk stream_socket pr0 (drop n0 inp, out) = (Panic, pr0\<lparr>pr_packet_len := Some L\<rparr>, (drop n0 inp, out))"
    by (simp add: read_chunk_def)
  with pr0 show ?thesis unfolding adv by (subst recv_loop.simps) simp
qed

lemma recv_stream:
  assumes "\<And>j. j < n0 \<Longrightarrow> parse_header (take j inp) = Err InsufficientBytes"
    and "parse_header (take n0 inp) = Ok L"
    and "n0 \<le> min L READ_BUF_LEN" "min L READ_BUF_LEN \<le> length inp"
    and "reader_idle pr"
  shows "\<exists>pr'. recv stream_socket pr (inp, out) =
      Some (map_err Deserialization (from_buffer (take (min L READ_BUF_LEN) inp)), pr',
        (drop (min L READ_BUF_LEN) inp, out)) \<and> reader_idle pr'"
proof -
  let ?pr0 = "if pr_packet_len pr \<noteq> None then reader_reset pr else pr"
  have "reader_at 0 inp ?pr0" "pr_packet_len ?pr0 = None"
    using assms(5) by (auto simp: reader_idle_def reader_at_def reader_reset_def)
  then obtain pr' where r: "recv_loop stream_socket ?pr0 (drop 0 inp, out) =
      Some (Ok (), pr', (drop (min L READ_BUF_LEN) inp, out))" and
    at: "reader_at (min L READ_BUF_LEN) inp pr'" "pr_packet_len pr' = Some L"
    using recv_loop_stream [OF assms(1-4), of 0 ?pr0 out] by auto
  then have "reader_decode pr' = from_buffer (take (min L READ_BUF_LEN) inp)"
    by (auto simp: reader_decode_def reader_at_def Let_def min_def)
  with r at show ?thesis by (auto simp: recv_def Let_def reader_idle_def reader_at_def)
qed

lemma recv_overrun:
  assumes "\<And>j. j < n0 \<Longrightarrow> parse_header (take j inp) = Err InsufficientBytes"
    and "parse_header (take n0 inp) = Ok L"
    and "L < n0" "n0 \<le> READ_BUF_LEN" "n0 \<le> length inp"
    and "reader_idle pr"
  shows "\<exists>pr'. recv stream_socket pr (inp, out) = Some (Panic, pr', (drop n0 inp, out))"
proof -
  let ?pr0 = "if pr_packet_len pr \<noteq> None then reader_reset pr else pr"
  have "reader_at 0 inp ?pr0" "pr_packet_len ?pr0 = None"
    using assms(6) by (auto simp: reader_idle_def reader_at_def reader_reset_def)
  then obtain pr' where "recv_loop stream_socket ?pr0 (drop 0 inp, out) = Some (Panic, pr', (drop n0 inp, out))"
    using recv_loop_overrun [OF assms(1-5), of 0 ?pr0 out] by auto
  then show ?thesis by (auto simp: recv_def Let_def)
qed

section \<open>When a header is complete\<close>

lemma varint_loop_truncated:
  assumes "k < length (varint_bytes_loop n len)" and "i + n \<le> 4"
  shows "varint_loop short i (take k (varint_bytes_loop n len)) acc = Err short"
  using assms
proof (induction n arbitrary: k i len acc)
  case (Suc n)
  show ?case
  proof (cases k)
    case (Suc k')
    with Suc.prems have d: "len div 128 \<noteq> 0" and k': "k' < length (varint_bytes_loop n (len div 128))"
      by (auto split: if_splits)
    from k' have "n \<noteq> 0" by (cases n) auto
    with Suc.prems(2) have "i \<noteq> 3" "i + 1 + n \<le> 4" by auto
    moreover have "(ucast (len mod 128) OR 128 :: u8) AND 128 \<noteq> 0" by (simp add: byte_cont_bit)
    ultimately show ?thesis
      using Suc.IH [OF k'] d by (simp add: Suc Let_def)
  qed simp
qed simp

lemma decoder_try_new_truncated:
  assumes "j < length (fixed_header_bytes pt fl n)" and "packet_type_try_from ((pt OR fl) AND 0xF0) = Some t"
  shows "decoder_try_new (take j (fixed_header_bytes pt fl n @ rest)) = Err InsufficientBytes"
proof (cases "j < 2")
  case True
  then have "length (take j (fixed_header_bytes pt fl n @ rest)) < 2" by simp
  then show ?thesis unfolding decoder_try_new_def by simp
next
  case False
  let ?v = "varint_bytes (of_nat n)"
  have j: "j - 1 < length ?v" using assms(1) False by (simp add: fixed_header_bytes_def)
  have t: "take j (fixed_header_bytes pt fl n @ rest) = (pt OR fl) # take (j - 1) ?v"
    using False assms(1) by (cases j) (simp_all add: fixed_header_bytes_def)
  have "length ?v \<le> 4" by (simp add: length_varint_bytes)
  then have "take 4 (take (j - 1) ?v) = take (j - 1) ?v" using j by simp
  then have "read_len (take (j - 1) ?v) = Err InsufficientBytes"
    using j varint_loop_truncated [of "j - 1" 4 "of_nat n" 0 InsufficientBytes 0]
    by (simp add: read_len_def varint_bytes_def)
  then have "decoder_try_new ((pt OR fl) # take (j - 1) ?v) = Err InsufficientBytes"
    using False assms(2) j by (simp add: decoder_try_new_def Let_def)
  then show ?thesis unfolding t .
qed

definition control_packet :: "u8 \<Rightarrow> u8 \<Rightarrow> PacketType \<Rightarrow> QoS \<Rightarrow> bytes \<Rightarrow> bool" where
  "control_packet pt fl t q body \<longleftrightarrow>
     packet_type_try_from ((pt OR fl) AND 0xF0) = Some t \<and>
     qos_try_from (drop_bit 1 ((pt OR fl) AND 0x06)) = Some q \<and> length body < 268435456"

lemma parse_control:
  assumes "control_packet pt fl t q body" and "t \<noteq> PT_Publish"
  defines "h \<equiv> fixed_header_bytes pt fl (length body)"
  shows "j < length h \<Longrightarrow> parse_header (take j (h @ body @ rest)) = Err InsufficientBytes"
    and "parse_header (take (length h) (h @ body @ rest)) = Ok (length h + length body)"
proof -
  assume "j < length h"
  then show "parse_header (take j (h @ body @ rest)) = Err InsufficientBytes"
    using decoder_try_new_truncated [of j pt fl "length body" t "body @ rest"] assms
    by (simp add: parse_header_def control_packet_def)
next
  have "decoder_try_new h = Ok (decoder_at h (length h) (header_of (pt OR fl) t q (length body)))"
    using decoder_try_new_header [of "length body" pt fl t q "[]"] assms
    by (simp add: control_packet_def)
  then show "parse_header (take (length h) (h @ body @ rest)) = Ok (length h + length body)"
    using assms(2) by (simp add: parse_header_def header_of_def packet_len_def)
qed

text \<open>A topic that is not complete yet, or not followed by two more bytes, asks for more.\<close>

lemma read_str_truncated:
  assumes "dec_buf d = take j (pre @ slice_bytes v @ post)" and "dec_offset d = length pre"
    and "length pre \<le> j" and "j < length pre + 2 + length v" and "length v < 65536"
  shows "read_str d = Err InsufficientBytes"
proof (cases "j < length pre + 2")
  case True
  with assms have "dec_check_remaining 2 d = Err InsufficientBytes"
    by (auto simp: dec_check_remaining_def slice_bytes_def)
  then show ?thesis by (simp add: read_str_def read_slice_def read_u16_def)
next
  case False
  let ?b = "u16_to_be (of_nat (length v))"
  have buf: "dec_buf d = pre @ ?b @ take (j - length pre - 2) (v @ post)"
    using assms(1) False by (simp add: slice_bytes_def)
  have "read_u16 d = Ok (of_nat (length v), d\<lparr>dec_offset := length pre + 2\<rparr>)"
    using readsD [OF reads_u16 buf assms(2)] by simp
  moreover have "unat (of_nat (length v) :: u16) = length v" using assms(5) by (simp add: unat_of_nat)
  moreover have "dec_check_remaining (length v) (d\<lparr>dec_offset := length pre + 2\<rparr>) = Err InsufficientBytes"
    using False assms(4) by (auto simp: dec_check_remaining_def buf)
  ultimately show ?thesis by (simp add: read_str_def read_slice_def)
qed

lemma parse_publish_then:
  assumes "control_packet pt fl PT_Publish q body" and "body = slice_bytes topic @ tail"
    and "str_ok topic" and "2 \<le> length (tail @ rest)"
  defines "h \<equiv> fixed_header_bytes pt fl (length body)"
  defines "n0 \<equiv> length h + 2 + length topic + 2"
  shows "j < n0 \<Longrightarrow> parse_header (take j (h @ body @ rest)) = Err InsufficientBytes"
    and "parse_header (take n0 (h @ body @ rest)) = Ok (length h + length body)"
proof -
  let ?inp = "h @ body @ rest"
  let ?d = "\<lambda>j. decoder_at (take j ?inp) (length h) (header_of (pt OR fl) PT_Publish q (length body))"
  have topic: "length topic < 65536" "utf8_valid topic" using assms(3) by (auto simp: str_ok_def)
  have new: "decoder_try_new (take j ?inp) = Ok (?d j)" if "length h \<le> j" for j
    using decoder_try_new_header [of "length body" pt fl PT_Publish q "take (j - length h) (body @ rest)"] assms(1) that
    by (simp add: control_packet_def h_def)
  have str: "read_str (?d j) = Ok (topic, (?d j)\<lparr>dec_offset := length h + 2 + length topic\<rparr>)"
    if "length h + 2 + length topic \<le> j" for j
    using readsD [OF reads_str [OF topic], of "?d j" h "take (j - length h - 2 - length topic) (tail @ rest)"] that
    by (simp add: assms(2) slice_bytes_def)
  have parse: "parse_header (take j ?inp) =
      (if j < n0 then Err InsufficientBytes else Ok (length h + length body))"
    if "length h + 2 + length topic \<le> j" "j \<le> n0" for j
    using new [of j] str [of j] that assms(2,4)
    by (auto simp: parse_header_def header_of_def dec_check_remaining_def packet_len_def n0_def slice_bytes_def)
  show "parse_header (take n0 ?inp) = Ok (length h + length body)"
    using parse [of n0] by (simp add: n0_def)
  assume j: "j < n0"
  consider "j < length h" | "length h \<le> j" "j < length h + 2 + length topic" | "length h + 2 + length topic \<le> j"
    by linarith
  then show "parse_header (take j ?inp) = Err InsufficientBytes"
  proof cases
    case 1
    then show ?thesis
      using decoder_try_new_truncated [of j pt fl "length body" PT_Publish "body @ rest"] assms(1)
      by (simp add: h_def parse_header_def control_packet_def)
  next
    case 2
    then have "read_str (?d j) = Err InsufficientBytes"
      using read_str_truncated [of "?d j" j h topic "tail @ rest"] topic by (simp add: assms(2))
    with new [OF 2(1)] show ?thesis by (simp add: parse_header_def header_of_def)
  next
    case 3
    with parse j show ?thesis by simp
  qed
qed

lemma parse_publish:
  assumes "control_packet pt fl PT_Publish q body" and "body = slice_bytes topic @ tail"
    and "str_ok topic" and "2 \<le> length tail"
  defines "h \<equiv> fixed_header_bytes pt fl (length body)"
  defines "n0 \<equiv> length h + 2 + length topic + 2"
  shows "j < n0 \<Longrightarrow> parse_header (take j (h @ body @ rest)) = Err InsufficientBytes"
    and "parse_header (take n0 (h @ body @ rest)) = Ok (length h + length body)"
  using parse_publish_then [OF assms(1-3), of rest] assms(4) unfolding h_def n0_def by simp_all

end
