(* ===== verification/Reader_Properties.thy ===== *)
theory Reader_Properties
  imports Packet_Reader
begin

text \<open>
  What the packet reader does with the byte stream of a connection: it frames packets exactly, hands a
  PUBLISH over with the rest of its payload still in the socket, and, in two cases that a peer can
  provoke, panics or never returns.
\<close>

section \<open>Framing\<close>

text \<open>One whole packet other than a PUBLISH, short enough for the read buffer.\<close>

definition control_frame :: "bytes \<Rightarrow> bool" where
  "control_frame pkt \<longleftrightarrow>
     (\<exists>pt fl t q body. pkt = fixed_header_bytes pt fl (length body) @ body \<and> control_packet pt fl t q body \<and>
        t \<noteq> PT_Publish) \<and> length pkt \<le> READ_BUF_LEN"

fun recv_many ::
  "'s Socket \<Rightarrow> nat \<Rightarrow> PacketReader \<Rightarrow> 's \<Rightarrow> ((StateError, ReceivedPacket) result list \<times> PacketReader \<times> 's) option" where
  "recv_many sk 0 pr s = Some ([], pr, s)"
| "recv_many sk (Suc n) pr s =
     (case recv sk pr s of
        None \<Rightarrow> None
      | Some (r, pr1, s1) \<Rightarrow> map_option (\<lambda>(rs, x). (r # rs, x)) (recv_many sk n pr1 s1))"

text \<open>A control packet of any length: what the read buffer holds of it is decoded, what it does not hold stays unread.\<close>

lemma recv_control_packet:
  assumes "control_packet pt fl t q body" and "t \<noteq> PT_Publish" and "pkt = fixed_header_bytes pt fl (length body) @ body"
    and "reader_idle pr"
  shows "\<exists>pr'. recv stream_socket pr (pkt @ rest, out) =
    Some (map_err Deserialization (from_buffer (take READ_BUF_LEN pkt)), pr', (drop READ_BUF_LEN pkt @ rest, out)) \<and> reader_idle pr'"
proof -
  let ?h = "fixed_header_bytes pt fl (length body)"
  let ?L = "length ?h + length body"
  have "length ?h \<le> 5" by (rule length_fixed_header_bytes)
  then have h: "length ?h \<le> min ?L READ_BUF_LEN" by (simp add: READ_BUF_LEN_def MAX_MQTT_HEADER_LEN_def)
  have "\<exists>pr'. recv stream_socket pr (?h @ body @ rest, out) =
      Some (map_err Deserialization (from_buffer (take (min ?L READ_BUF_LEN) (?h @ body @ rest))), pr',
        (drop (min ?L READ_BUF_LEN) (?h @ body @ rest), out)) \<and> reader_idle pr'"
    by (rule recv_stream [OF parse_control(1) [OF assms(1,2)] parse_control(2) [OF assms(1,2)] h _ assms(4)])
      (simp_all add: min_le_iff_disj)
  moreover have "?L = length pkt" "?h @ body @ rest = pkt @ rest" by (simp_all add: assms(3))
  ultimately show ?thesis by (auto simp: min_def)
qed

lemma recv_control_frame:
  assumes "control_frame pkt" and "reader_idle pr"
  shows "\<exists>pr'. recv stream_socket pr (pkt @ rest, out) =
    Some (map_err Deserialization (from_buffer pkt), pr', (rest, out)) \<and> reader_idle pr'"
  using recv_control_packet [OF _ _ _ assms(2), of _ _ _ _ _ pkt rest out] assms(1) by (fastforce simp: control_frame_def)

text \<open>
  C14: The reader frames the stream exactly.  From a stream that starts with any sequence of whole control
  packets of at most \<open>READ_BUF_LEN\<close> bytes, the size of its buffer, it receives these packets, one per call and in order,
  each decoded from exactly its own bytes, every call returns, and what follows the packets stays unread.  The stream is
  one whose reads are as long as asked for while bytes remain: the body of a packet is asked for once.
\<close>

theorem reader_frames_stream:
  assumes "\<forall>pkt \<in> set pkts. control_frame pkt" and "reader_idle pr"
  shows "\<exists>pr'. recv_many stream_socket (length pkts) pr (concat pkts @ rest, out) =
    Some (map (\<lambda>pkt. map_err Deserialization (from_buffer pkt)) pkts, pr', (rest, out))"
  using assms
proof (induction pkts arbitrary: pr)
  case (Cons pkt pkts)
  obtain pr1 where "recv stream_socket pr (pkt @ concat pkts @ rest, out) =
      Some (map_err Deserialization (from_buffer pkt), pr1, (concat pkts @ rest, out))" "reader_idle pr1"
    using recv_control_frame [of pkt pr "concat pkts @ rest" out] Cons.prems by auto
  with Cons.IH [of pr1] Cons.prems(1) show ?case by auto
qed simp

definition pingresp_then_puback :: "bytes list" where
  "pingresp_then_puback = [[0xD0, 0], [0x40, 2, 0, 7]]"

lemma control_frameI:
  assumes "pkt = fixed_header_bytes pt fl (length body) @ body" and "length pkt \<le> 100"
    and "packet_type_try_from ((pt OR fl) AND 0xF0) = Some t" "t \<noteq> PT_Publish"
    and "qos_try_from (drop_bit 1 ((pt OR fl) AND 0x06)) = Some q"
  shows "control_frame pkt"
  using assms
  by (fastforce simp: control_frame_def control_packet_def READ_BUF_LEN_def MAX_TOPIC_LEN_def MAX_MQTT_HEADER_LEN_def)

theorem reader_frames_stream_witness:
  "\<exists>pr'. recv_many stream_socket 2 reader_new (concat pingresp_then_puback @ [0x30], []) =
     Some ([Ok RP_PingResp, Ok (RP_PubAck \<lparr>pa_pid = Pid 7, pa_reason_code = PA_Success, pa_properties = DataBlock []\<rparr>)],
       pr', ([0x30], []))"
proof -
  have "control_frame [0xD0, 0]" "control_frame [0x40, 2, 0, 7]"
    by (rule control_frameI [of _ "0xD0" 0 "[]" PT_PingResp AtMostOnce]; code_simp)
      (rule control_frameI [of _ "0x40" 0 "[0, 7]" PT_PubAck AtMostOnce]; code_simp)
  then have "\<forall>pkt \<in> set pingresp_then_puback. control_frame pkt" by (simp add: pingresp_then_puback_def)
  moreover have "map (\<lambda>pkt. map_err Deserialization (from_buffer pkt)) pingresp_then_puback =
      [Ok RP_PingResp, Ok (RP_PubAck \<lparr>pa_pid = Pid 7, pa_reason_code = PA_Success, pa_properties = DataBlock []\<rparr>)]"
    by code_simp
  moreover have "length pingresp_then_puback = 2" by (simp add: pingresp_then_puback_def)
  ultimately show ?thesis
    using reader_frames_stream [OF _ reader_new_idle, of pingresp_then_puback "[0x30]" "[]"] by (simp only:)
qed

section \<open>Publishes\<close>

text \<open>A whole PUBLISH packet whose topic fits the read buffer and is followed by at least two bytes.\<close>

definition publish_frame :: "str \<Rightarrow> bytes \<Rightarrow> bool" where
  "publish_frame topic pkt \<longleftrightarrow>
     (\<exists>pt fl q tail. control_packet pt fl PT_Publish q (slice_bytes topic @ tail) \<and>
        pkt = fixed_header_bytes pt fl (length (slice_bytes topic @ tail)) @ slice_bytes topic @ tail \<and> 2 \<le> length tail) \<and>
     str_ok topic \<and> length topic \<le> MAX_TOPIC_LEN"

lemma recv_publish_frame:
  assumes "publish_frame topic pkt" and "reader_idle pr"
  shows "\<exists>pr'. recv stream_socket pr (pkt @ rest, out) =
    Some (map_err Deserialization (from_buffer (take READ_BUF_LEN pkt)), pr', (drop READ_BUF_LEN pkt @ rest, out)) \<and>
    reader_idle pr'"
proof -
  obtain pt fl q tail where c: "control_packet pt fl PT_Publish q (slice_bytes topic @ tail)" "2 \<le> length tail"
    and t: "str_ok topic" "length topic \<le> MAX_TOPIC_LEN"
    and pkt: "pkt = fixed_header_bytes pt fl (length (slice_bytes topic @ tail)) @ slice_bytes topic @ tail"
    using assms(1) by (auto simp: publish_frame_def)
  let ?body = "slice_bytes topic @ tail"
  let ?h = "fixed_header_bytes pt fl (length ?body)"
  let ?L = "length ?h + length ?body" and ?n0 = "length ?h + 2 + length topic + 2"
  have h5: "length ?h \<le> 5" by (rule length_fixed_header_bytes)
  have n0: "?n0 \<le> min ?L READ_BUF_LEN"
    using h5 t(2) c(2) by (simp add: READ_BUF_LEN_def MAX_MQTT_HEADER_LEN_def slice_bytes_def)
  have "\<exists>pr'. recv stream_socket pr (?h @ ?body @ rest, out) =
      Some (map_err Deserialization (from_buffer (take (min ?L READ_BUF_LEN) (?h @ ?body @ rest))), pr',
        (drop (min ?L READ_BUF_LEN) (?h @ ?body @ rest), out)) \<and> reader_idle pr'"
    by (rule recv_stream [OF parse_publish(1) [OF c(1) refl t(1) c(2)] parse_publish(2) [OF c(1) refl t(1) c(2)]
          n0 _ assms(2)]) (simp_all add: min_le_iff_disj)
  moreover have "?L = length pkt" "?h @ ?body @ rest = pkt @ rest" by (simp_all add: pkt)
  ultimately show ?thesis by (auto simp: min_def)
qed

lemma publish_frame_of:
  assumes "publish_ok p" and "length (publish_body p) < 268435456" and "length (pub_topic_name p) \<le> MAX_TOPIC_LEN"
    and "pub_qos p \<noteq> AtMostOnce \<or> payload_bytes (pub_payload p) \<noteq> []"
  shows "publish_frame (pub_topic_name p) (fixed_header_bytes 0x30 (publish_flags p) (length (publish_body p)) @ publish_body p)"
proof -
  let ?tail = "qos_pid_bytes (pub_qos p) (pub_pid p) @ properties_bytes (pub_properties p) @ payload_bytes (pub_payload p)"
  have body: "publish_body p = slice_bytes (pub_topic_name p) @ ?tail" by (simp add: publish_body_def)
  have "1 \<le> length (properties_bytes (pub_properties p))"
    using length_varint_bytes [of "of_nat (length (wire_block (pub_properties p)))"] by (simp add: properties_bytes_def)
  then have two: "2 \<le> length ?tail"
    using assms(4) by (cases "payload_bytes (pub_payload p)") (auto simp: qos_pid_bytes_def)
  have "control_packet 0x30 (publish_flags p) PT_Publish (pub_qos p) (publish_body p)"
    using publish_header [of p] assms(2) by (simp add: control_packet_def packet_type_byte_def)
  then show ?thesis
    using assms(1,3) two unfolding publish_frame_def body publish_ok_def by blast
qed

lemma recv_publish_stream:
  assumes "publish_ok p" and "length (publish_body p) < 268435456" and "length (pub_topic_name p) \<le> MAX_TOPIC_LEN"
    and "pub_qos p \<noteq> AtMostOnce \<or> payload_bytes (pub_payload p) \<noteq> []"
    and "pkt = fixed_header_bytes 0x30 (publish_flags p) (length (publish_body p)) @ publish_body p"
    and "reader_idle pr" and "length pkt \<le> length buf"
  shows "\<exists>pr' pp s. recv stream_socket pr (pkt @ rest, out) =
      Some (Ok (RP_PartialPublish (qos_pid_of (pub_qos p) (pub_pid p)) (pub_topic_name p) pp), pr', s) \<and>
    pp_packet_len pp = length pkt \<and>
    copy_all stream_socket pp buf s = (Ok (pkt @ drop (length pkt) buf), (rest, out)) \<and>
    discard stream_socket pp s = (Ok (), (rest, out)) \<and> reader_idle pr'"
proof -
  let ?m = "min READ_BUF_LEN (length pkt)"
  let ?h = "fixed_header_bytes 0x30 (publish_flags p) (length (publish_body p))"
  have "publish_frame (pub_topic_name p) pkt" unfolding assms(5) by (rule publish_frame_of [OF assms(1-4)])
  from recv_publish_frame [OF this assms(6)] obtain pr' where
    r: "recv stream_socket pr (pkt @ rest, out) =
      Some (map_err Deserialization (from_buffer (take READ_BUF_LEN pkt)), pr', (drop READ_BUF_LEN pkt @ rest, out))"
    and idle: "reader_idle pr'" by blast
  have "length ?h \<le> 5" by (rule length_fixed_header_bytes)
  then have "length ?h + length (slice_bytes (pub_topic_name p)) + length (qos_pid_bytes (pub_qos p) (pub_pid p)) \<le> ?m"
    using assms(3) by (auto simp: assms(5) READ_BUF_LEN_def MAX_MQTT_HEADER_LEN_def publish_body_def qos_pid_bytes_def)
  then have "from_buffer (take ?m pkt) = Ok (RP_PartialPublish (qos_pid_of (pub_qos p) (pub_pid p)) (pub_topic_name p)
      \<lparr>pp_buf = take ?m pkt, pp_packet_len = length pkt\<rparr>)"
    using from_buffer_publish_prefix [OF assms(1,2), of ?m] by (simp add: assms(5) packet_type_byte_def)
  moreover have "take ?m pkt = take READ_BUF_LEN pkt" by (simp add: min_def)
  ultimately have fb: "from_buffer (take READ_BUF_LEN pkt) =
      Ok (RP_PartialPublish (qos_pid_of (pub_qos p) (pub_pid p)) (pub_topic_name p)
        \<lparr>pp_buf = take READ_BUF_LEN pkt, pp_packet_len = length pkt\<rparr>)" by simp
  let ?pp = "\<lparr>pp_buf = take READ_BUF_LEN pkt, pp_packet_len = length pkt\<rparr>"
  have left: "length pkt - length (take READ_BUF_LEN pkt) = length (drop READ_BUF_LEN pkt)" by simp
  have "copy_all stream_socket ?pp buf (drop READ_BUF_LEN pkt @ rest, out) =
      (Ok (splice buf 0 (take READ_BUF_LEN pkt @ drop READ_BUF_LEN pkt)), (rest, out))"
    using copy_all_stream [of ?pp buf "drop READ_BUF_LEN pkt @ rest" out] assms(7) left by simp
  moreover have "discard stream_socket ?pp (drop READ_BUF_LEN pkt @ rest, out) = (Ok (), (rest, out))"
    using discard_loop_stream [of "length (drop READ_BUF_LEN pkt)" "drop READ_BUF_LEN pkt @ rest" out] left
    by (simp add: discard_def)
  ultimately show ?thesis using r fb idle by (simp add: splice_def)
qed

text \<open>
  C15: A PUBLISH that arrives on the stream is delivered whole: the reader returns its topic, quality of
  service and identifier, and copying it into a buffer that is large enough writes exactly the packet and
  leaves the stream at the first byte after it, however long the payload is.
\<close>

theorem publish_received_from_stream:
  assumes "publish_ok p" and "length (publish_body p) < 268435456" and "length (pub_topic_name p) \<le> MAX_TOPIC_LEN"
    and "pub_qos p \<noteq> AtMostOnce \<or> payload_bytes (pub_payload p) \<noteq> []"
    and "pkt = fixed_header_bytes 0x30 (publish_flags p) (length (publish_body p)) @ publish_body p"
    and "reader_idle pr" and "length pkt \<le> length buf"
  shows "\<exists>pr' pp s. recv stream_socket pr (pkt @ rest, out) =
      Some (Ok (RP_PartialPublish (qos_pid_of (pub_qos p) (pub_pid p)) (pub_topic_name p) pp), pr', s) \<and>
    pp_packet_len pp = length pkt \<and>
    copy_all stream_socket pp buf s = (Ok (pkt @ drop (length pkt) buf), (rest, out)) \<and>
    discard stream_socket pp s = (Ok (), (rest, out)) \<and> reader_idle pr'"
  by (rule recv_publish_stream [OF assms])

definition received_publish :: Publish where
  "received_publish = \<lparr>pub_dup = False, pub_qos = AtLeastOnce, pub_retain = False, pub_pid = Some (Pid 9),
     pub_topic_name = [97], pub_payload = PayloadBytes (replicate 150 7), pub_properties = Slice []\<rparr>"

definition received_packet :: bytes where
  "received_packet = fixed_header_bytes 0x30 (publish_flags received_publish) (length (publish_body received_publish))
     @ publish_body received_publish"

lemma received_publish_ok: "publish_ok received_publish" "length (publish_body received_publish) \<le> 200"
proof -
  show "publish_ok received_publish"
    by (simp add: publish_ok_def received_publish_def str_ok_def props_ok_def pid_ok_def)
  show "length (publish_body received_publish) \<le> 200" by code_simp
qed

theorem publish_received_from_stream_witness:
  "\<exists>pr' pp s. recv stream_socket reader_new (received_packet @ [0xD0, 0], []) =
      Some (Ok (RP_PartialPublish (QP_AtLeastOnce (Pid 9)) [97] pp), pr', s) \<and>
    copy_all stream_socket pp (replicate 256 0) s =
      (Ok (received_packet @ drop (length received_packet) (replicate 256 0)), ([0xD0, 0], []))"
proof -
  have b: "length (publish_body received_publish) < 268435456" using received_publish_ok(2) by simp
  have "length received_packet \<le> length (replicate 256 (0::u8))" by code_simp
  moreover have "qos_pid_of (pub_qos received_publish) (pub_pid received_publish) = QP_AtLeastOnce (Pid 9)"
    "pub_topic_name received_publish = [97]" "pub_qos received_publish \<noteq> AtMostOnce"
    by (simp_all add: received_publish_def qos_pid_of_def pid_or_default_def)
  moreover from this have "length (pub_topic_name received_publish) \<le> MAX_TOPIC_LEN" by (simp add: MAX_TOPIC_LEN_def)
  ultimately show ?thesis
    using publish_received_from_stream [OF received_publish_ok(1) b _ _ received_packet_def reader_new_idle,
        of "replicate 256 0" "[0xD0, 0]" "[]"] by (simp only:) blast
qed

section \<open>Where the reader fails\<close>

text \<open>
  C37: A control packet that is longer than the read buffer desynchronizes the stream.  The reader decodes the part that
  its buffer holds, and the next call starts to read in the middle of the packet: bytes inside of it that look like a packet
  are received as one.
\<close>

theorem long_control_packet_desynchronizes:
  assumes "control_packet pt fl t q body" and "t \<noteq> PT_Publish" and "pkt = fixed_header_bytes pt fl (length body) @ body"
    and "drop READ_BUF_LEN pkt = inner @ left" and "control_frame inner" and "reader_idle pr"
  shows "\<exists>pr'. recv_many stream_socket 2 pr (pkt @ rest, out) =
    Some ([map_err Deserialization (from_buffer (take READ_BUF_LEN pkt)), map_err Deserialization (from_buffer inner)],
      pr', (left @ rest, out))"
proof -
  obtain pr1 where "recv stream_socket pr (pkt @ rest, out) = Some (map_err Deserialization (from_buffer (take READ_BUF_LEN pkt)),
      pr1, (inner @ left @ rest, out))" "reader_idle pr1"
    using recv_control_packet [OF assms(1-3,6), of rest out] assms(4) by auto
  moreover from this(2) obtain pr2 where "recv stream_socket pr1 (inner @ left @ rest, out) =
      Some (map_err Deserialization (from_buffer inner), pr2, (left @ rest, out))"
    using recv_control_frame [OF assms(5), of pr1 "left @ rest" out] by blast
  ultimately show ?thesis by (simp add: numeral_2_eq_2)
qed

text \<open>A PUBACK for the identifier 9 whose reason string ends with the bytes of a PUBACK for the identifier 7.\<close>

definition long_puback_body :: bytes where
  "long_puback_body = [0, 9, 0, 0x85, 1, 0x1F, 0, 130] @ replicate 126 97 @ [0x40, 2, 0, 7]"

theorem long_control_packet_desynchronizes_witness:
  "\<exists>r pr'. recv_many stream_socket 2 reader_new ((fixed_header_bytes 0x40 0 138 @ long_puback_body) @ [], []) =
    Some ([r, Ok (RP_PubAck \<lparr>pa_pid = Pid 7, pa_reason_code = PA_Success, pa_properties = DataBlock []\<rparr>)], pr', ([], []))"
proof -
  have len: "length long_puback_body = 138" by (simp add: long_puback_body_def)
  have "control_packet 0x40 0 PT_PubAck AtMostOnce long_puback_body"
    by (simp add: control_packet_def packet_type_try_from_def all_packet_types_def qos_try_from_def len)
  moreover have "drop READ_BUF_LEN (fixed_header_bytes 0x40 0 138 @ long_puback_body) = [0x40, 2, 0, 7] @ []" by code_simp
  moreover have "control_frame [0x40, 2, 0, 7]"
    by (rule control_frameI [of _ "0x40" 0 "[0, 7]" PT_PubAck AtMostOnce]; code_simp)
  moreover have "map_err Deserialization (from_buffer [0x40, 2, 0, 7]) =
      Ok (RP_PubAck \<lparr>pa_pid = Pid 7, pa_reason_code = PA_Success, pa_properties = DataBlock []\<rparr>)" by code_simp
  ultimately show ?thesis
    using long_control_packet_desynchronizes [of "0x40" 0 PT_PubAck AtMostOnce long_puback_body _ "[0x40, 2, 0, 7]" "[]" reader_new "[]" "[]"]
      reader_new_idle by (auto simp: len)
qed

lemma recv_empty_publish:
  assumes "publish_ok p" and "pub_qos p = AtMostOnce" and "payload_bytes (pub_payload p) = []" and "wire_block (pub_properties p) = []"
    and "length (pub_topic_name p) \<le> MAX_TOPIC_LEN"
    and "pkt = fixed_header_bytes 0x30 (publish_flags p) (length (publish_body p)) @ publish_body p"
    and "reader_idle pr" and "rest \<noteq> []"
  shows "\<exists>pr'. recv stream_socket pr (pkt @ rest, out) = Some (Panic, pr', (tl rest, out))"
proof -
  let ?h = "fixed_header_bytes 0x30 (publish_flags p) (length (publish_body p))"
  let ?n = "length ?h + 2 + length (pub_topic_name p) + 2"
  have body: "publish_body p = slice_bytes (pub_topic_name p) @ [0]"
    using assms(2-4) by (simp add: publish_body_def qos_pid_bytes_def properties_bytes_def) code_simp
  have len: "length (publish_body p) = length (pub_topic_name p) + 3" by (simp add: body slice_bytes_def)
  have "control_packet 0x30 (publish_flags p) PT_Publish AtMostOnce (publish_body p)"
    using publish_header [of p] assms(2,5) by (simp add: control_packet_def packet_type_byte_def len MAX_TOPIC_LEN_def)
  moreover have "2 \<le> length ([0] @ rest)" using assms(8) by (cases rest) simp_all
  moreover have "str_ok (pub_topic_name p)" using assms(1) by (simp add: publish_ok_def)
  ultimately have parse: "j < ?n \<Longrightarrow> parse_header (take j (?h @ publish_body p @ rest)) = Err InsufficientBytes"
    "parse_header (take ?n (?h @ publish_body p @ rest)) = Ok (length ?h + length (publish_body p))" for j
    using parse_publish_then [OF _ body] by simp_all
  have "length ?h \<le> 5" by (rule length_fixed_header_bytes)
  then have bounds: "length ?h + length (publish_body p) < ?n" "?n \<le> READ_BUF_LEN" "?n \<le> length (?h @ publish_body p @ rest)"
    using assms(5,8) by (cases rest; simp add: len READ_BUF_LEN_def MAX_MQTT_HEADER_LEN_def)+
  have "drop ?n (?h @ publish_body p @ rest) = tl rest" using assms(8) by (cases rest) (simp_all add: len)
  then show ?thesis using recv_overrun [OF parse bounds assms(7), of out] by (simp add: assms(6))
qed

text \<open>
  C36: Every PUBLISH of quality of service 0 with an empty payload and no properties panics the reader as soon as one byte
  follows it: the reader asks for two bytes after the topic, where this packet has one, takes the first byte of the next
  packet for it, and then slices its buffer backwards.
\<close>

theorem empty_publish_panics:
  assumes "publish_ok p" and "pub_qos p = AtMostOnce" and "payload_bytes (pub_payload p) = []" and "wire_block (pub_properties p) = []"
    and "length (pub_topic_name p) \<le> MAX_TOPIC_LEN"
    and "pkt = fixed_header_bytes 0x30 (publish_flags p) (length (publish_body p)) @ publish_body p"
    and "reader_idle pr" and "rest \<noteq> []"
  shows "\<exists>pr'. recv stream_socket pr (pkt @ rest, out) = Some (Panic, pr', (tl rest, out))"
  by (rule recv_empty_publish [OF assms])

definition empty_publish :: Publish where
  "empty_publish = \<lparr>pub_dup = False, pub_qos = AtMostOnce, pub_retain = False, pub_pid = None, pub_topic_name = [97],
     pub_payload = PayloadBytes [], pub_properties = Slice []\<rparr>"

lemma empty_publish_sel:
  "publish_ok empty_publish" "pub_qos empty_publish = AtMostOnce" "payload_bytes (pub_payload empty_publish) = []"
  "wire_block (pub_properties empty_publish) = []" "length (pub_topic_name empty_publish) \<le> MAX_TOPIC_LEN"
  "[0x30, 4, 0, 1, 97, 0] = fixed_header_bytes 0x30 (publish_flags empty_publish) (length (publish_body empty_publish)) @ publish_body empty_publish"
proof -
  show "[0x30, 4, 0, 1, 97, 0] = fixed_header_bytes 0x30 (publish_flags empty_publish) (length (publish_body empty_publish)) @ publish_body empty_publish"
    by code_simp
qed (simp_all add: empty_publish_def publish_ok_def str_ok_def props_ok_def MAX_TOPIC_LEN_def)

theorem empty_publish_panics_witness:
  "\<exists>pr'. recv stream_socket reader_new ([0x30, 4, 0, 1, 97, 0] @ [0xD0, 0], []) = Some (Panic, pr', ([0], []))"
  using empty_publish_panics [OF empty_publish_sel reader_new_idle, of "[0xD0, 0]" "[]"] by simp

lemma recv_loop_stuck:
  assumes "recv_loop sk pr s = Some y" and "sk = stream_socket"
    and short: "\<forall>j \<le> READ_BUF_LEN. parse_header (take j inp) = Err InsufficientBytes"
    and "READ_BUF_LEN \<le> length inp"
    and "\<exists>j \<le> READ_BUF_LEN. reader_at j inp pr \<and> pr_packet_len pr = None \<and> s = (drop j inp, out)"
  shows False
  using assms(1,2,5)
proof (induction rule: recv_loop.raw_induct [rotated, consumes 1, case_names step])
  case (step rec sk pr s y)
  from step(4) obtain j where j: "j \<le> READ_BUF_LEN" "reader_at j inp pr" "pr_packet_len pr = None" "s = (drop j inp, out)"
    by blast
  then have at: "length (pr_buf pr) = READ_BUF_LEN" "pr_read_bytes pr = j" "take j (pr_buf pr) = take j inp"
    by (simp_all add: reader_at_def)
  have buf: "next_read_buf pr = (Ok (min (j + 1) READ_BUF_LEN), pr)"
    using at j short by (auto simp: next_read_buf_def try_parse_header_def read_end_def Let_def)
  show False
  proof (cases "j = READ_BUF_LEN")
    case True
    then have "read_chunk sk pr s = (Ok (), pr, s)" using buf at by (simp add: read_chunk_def)
    then have "rec sk pr s = Some y" using step(2) j(3) by simp
    then show False using step(1) [OF _ step(3,4)] by blast
  next
    case False
    let ?pr2 = "pr\<lparr>pr_buf := splice (pr_buf pr) j (take 1 (drop j inp)), pr_read_bytes := j + 1\<rparr>"
    have lt: "j < READ_BUF_LEN" "j < length inp" using False j(1) assms(4) by auto
    then have "read_chunk sk pr s = (Ok (), ?pr2, (drop (j + 1) inp, out))"
      using buf at j(4) step(3) by (simp add: read_chunk_def stream_socket_def)
    then have "rec sk ?pr2 (drop (j + 1) inp, out) = Some y" using step(2) j(3) by simp
    moreover have "reader_at (j + 1) inp ?pr2"
      using at lt take_splice_stream [of j "pr_buf pr" inp 1] by (auto simp: reader_at_def)
    then have "\<exists>i \<le> READ_BUF_LEN. reader_at i inp ?pr2 \<and> pr_packet_len ?pr2 = None \<and>
        (drop (j + 1) inp, out) = (drop i inp, out)"
      using lt(1) j(3) by (intro exI [of _ "j + 1"]) simp
    ultimately show False using step(1) [OF _ step(3)] by blast
  qed
qed

text \<open>
  C35: A PUBLISH whose topic does not fit the read buffer makes the reader loop for ever: once the buffer
  is full it neither reads nor reports an error, so \<open>recv\<close> does not return.
\<close>

theorem long_topic_never_returns:
  assumes "control_packet pt fl PT_Publish q body" and "body = slice_bytes topic @ tail" and "str_ok topic"
    and "2 \<le> length tail" and "reader_idle pr"
    and "READ_BUF_LEN < length (fixed_header_bytes pt fl (length body)) + 2 + length topic + 2"
  shows "recv stream_socket pr (fixed_header_bytes pt fl (length body) @ body @ rest, out) = None"
proof -
  let ?h = "fixed_header_bytes pt fl (length body)"
  let ?inp = "?h @ body @ rest"
  let ?pr0 = "if pr_packet_len pr \<noteq> None then reader_reset pr else pr"
  have "\<forall>j \<le> READ_BUF_LEN. parse_header (take j ?inp) = Err InsufficientBytes"
    using parse_publish(1) [OF assms(1-4)] assms(6) by auto
  moreover have "READ_BUF_LEN \<le> length ?inp" using assms(2,4,6) by (simp add: slice_bytes_def)
  moreover have "reader_at 0 ?inp ?pr0" "pr_packet_len ?pr0 = None"
    using assms(5) by (auto simp: reader_idle_def reader_at_def reader_reset_def)
  then have "\<exists>j \<le> READ_BUF_LEN. reader_at j ?inp ?pr0 \<and> pr_packet_len ?pr0 = None \<and> (?inp, out) = (drop j ?inp, out)"
    by (intro exI [of _ 0]) simp
  ultimately have "recv_loop stream_socket ?pr0 (?inp, out) \<noteq> Some y" for y
    using recv_loop_stuck [of stream_socket ?pr0 "(?inp, out)" y ?inp out] by blast
  then have "recv_loop stream_socket ?pr0 (?inp, out) = None" by (meson not_None_eq)
  then show ?thesis unfolding recv_def Let_def by simp
qed

theorem long_topic_never_returns_witness:
  "recv stream_socket reader_new (fixed_header_bytes 0x30 0 144 @ (slice_bytes (replicate 140 97) @ [0] @ [0]) @ [], []) = None"
proof -
  let ?body = "slice_bytes (replicate 140 97) @ [0] @ [0 :: u8]"
  have len: "length ?body = 144" by (simp add: slice_bytes_def)
  have "control_packet 0x30 0 PT_Publish AtMostOnce ?body"
    by (simp add: control_packet_def packet_type_try_from_def all_packet_types_def qos_try_from_def len)
  moreover have "str_ok (replicate 140 97)" by (auto simp: str_ok_def intro: utf8_valid_ascii)
  ultimately show ?thesis
    using long_topic_never_returns [OF _ refl _ _ reader_new_idle, of "0x30" 0 AtMostOnce "replicate 140 97" "[0] @ [0]" "[]" "[]"]
      length_fixed_header_bytes(1) [of "0x30" 0 144]
    by (simp add: len READ_BUF_LEN_def MAX_MQTT_HEADER_LEN_def MAX_TOPIC_LEN_def)
qed

end
