(* ===== verification/Index_Containers.thy ===== *)
theory Index_Containers
  imports Prelude
begin

text \<open>
  The bounded sets and maps of the crate's session state: \<open>heapless\<close>'s \<open>FnvIndexSet<u16, N>\<close> and
  \<open>FnvIndexMap<u16, V, N>\<close>.  What the code relies on is their documented behaviour, stated as the
  contracts \<open>bounded_set\<close> and \<open>bounded_map\<close>: an insertion fails exactly when the container is full and
  the key is new; a removal tells whether the key was there.  The model keeps the keys in a list; their
  order is never observed by the crate.
\<close>

section \<open>Contracts\<close>

locale bounded_set =
  fixes contains :: "'a \<Rightarrow> 's \<Rightarrow> bool"
    and len :: "'s \<Rightarrow> nat"
    and insert :: "nat \<Rightarrow> 'a \<Rightarrow> 's \<Rightarrow> (bool \<times> 's) option"
    and remove :: "'a \<Rightarrow> 's \<Rightarrow> bool \<times> 's"
    and clear :: 's
    and inv :: "nat \<Rightarrow> 's \<Rightarrow> bool"
  assumes inv_clear: "inv N clear"
    and inv_len: "inv N s \<Longrightarrow> len s \<le> N"
    and insert_None: "inv N s \<Longrightarrow> insert N x s = None \<longleftrightarrow> \<not> contains x s \<and> len s = N"
    and insert_Some: "inv N s \<Longrightarrow> insert N x s = Some (new, s') \<Longrightarrow>
          inv N s' \<and> new = (\<not> contains x s) \<and> (\<forall>y. contains y s' \<longleftrightarrow> y = x \<or> contains y s)"
    and remove: "inv N s \<Longrightarrow> remove x s = (found, s') \<Longrightarrow>
          inv N s' \<and> found = contains x s \<and> (\<forall>y. contains y s' \<longleftrightarrow> y \<noteq> x \<and> contains y s)"
    and contains_clear: "\<not> contains x clear"
    and len_remove: "inv N s \<Longrightarrow> contains x s \<Longrightarrow> len (snd (remove x s)) = len s - 1"
begin

lemma insert_total: "inv N s \<Longrightarrow> len s < N \<Longrightarrow> \<exists>r. insert N x s = Some r"
  using insert_None [of N s x] by (cases "insert N x s") auto

lemma insert_remove:
  assumes "inv N s" and "\<not> contains x s" and "insert N x s = Some (new, s1)" and "remove x s1 = (found, s2)"
  shows "found \<and> (\<forall>y. contains y s2 \<longleftrightarrow> contains y s)"
proof -
  from insert_Some [OF assms(1,3)] have 1: "inv N s1" "\<forall>y. contains y s1 \<longleftrightarrow> y = x \<or> contains y s" by auto
  from remove [OF 1(1) assms(4)] 1(2) assms(2) show ?thesis by auto
qed

text \<open>A slot freed by a removal is enough for the next insertion.\<close>

lemma insert_after_remove:
  assumes "inv N s" and "contains x s" and "0 < len s"
  shows "\<exists>r. insert N y (snd (remove x s)) = Some r"
proof -
  obtain found s' where r: "remove x s = (found, s')" by force
  have "inv N s'" using remove [OF assms(1) r] by blast
  moreover have "len s' < N" using len_remove [OF assms(1,2)] inv_len [OF assms(1)] assms(3) r by simp
  ultimately show ?thesis using insert_total r by simp
qed

end

locale bounded_map =
  fixes get :: "'k \<Rightarrow> 'm \<Rightarrow> 'v option"
    and len :: "'m \<Rightarrow> nat"
    and insert :: "nat \<Rightarrow> 'k \<Rightarrow> 'v \<Rightarrow> 'm \<Rightarrow> 'm option"
    and remove :: "'k \<Rightarrow> 'm \<Rightarrow> 'v option \<times> 'm"
    and clear :: 'm
    and inv :: "nat \<Rightarrow> 'm \<Rightarrow> bool"
  assumes inv_clear: "inv N clear"
    and inv_len: "inv N m \<Longrightarrow> len m \<le> N"
    and get_clear: "get k clear = None"
    and insert_None: "inv N m \<Longrightarrow> insert N k v m = None \<longleftrightarrow> get k m = None \<and> len m = N"
    and insert_Some: "inv N m \<Longrightarrow> insert N k v m = Some m' \<Longrightarrow>
          inv N m' \<and> (\<forall>j. get j m' = (if j = k then Some v else get j m))"
    and remove: "inv N m \<Longrightarrow> remove k m = (old, m') \<Longrightarrow>
          inv N m' \<and> old = get k m \<and> (\<forall>j. get j m' = (if j = k then None else get j m))"
begin

lemma insert_get: "inv N m \<Longrightarrow> insert N k v m = Some m' \<Longrightarrow> get k m' = Some v"
  using insert_Some by auto

lemma overwrite: "inv N m \<Longrightarrow> get k m = Some w \<Longrightarrow> \<exists>m'. insert N k v m = Some m'"
  using insert_None [of N m k v] by (cases "insert N k v m") auto

end

section \<open>The containers\<close>

definition iset_contains :: "'a \<Rightarrow> 'a list \<Rightarrow> bool" where
  "iset_contains x s \<longleftrightarrow> x \<in> set s"

definition iset_insert :: "nat \<Rightarrow> 'a \<Rightarrow> 'a list \<Rightarrow> (bool \<times> 'a list) option" where
  "iset_insert N x s =
     (if x \<in> set s then Some (False, s) else if N \<le> length s then None else Some (True, s @ [x]))"

definition iset_remove :: "'a \<Rightarrow> 'a list \<Rightarrow> bool \<times> 'a list" where
  "iset_remove x s = (x \<in> set s, remove1 x s)"

definition iset_ok :: "nat \<Rightarrow> 'a list \<Rightarrow> bool" where
  "iset_ok N s \<longleftrightarrow> distinct s \<and> length s \<le> N"

definition imap_get :: "'k \<Rightarrow> ('k \<times> 'v) list \<Rightarrow> 'v option" where
  "imap_get k m = map_of m k"

fun imap_put :: "'k \<Rightarrow> 'v \<Rightarrow> ('k \<times> 'v) list \<Rightarrow> ('k \<times> 'v) list" where
  "imap_put k v [] = [(k, v)]"
| "imap_put k v ((j, w) # m) = (if j = k then (k, v) # m else (j, w) # imap_put k v m)"

definition imap_insert :: "nat \<Rightarrow> 'k \<Rightarrow> 'v \<Rightarrow> ('k \<times> 'v) list \<Rightarrow> ('k \<times> 'v) list option" where
  "imap_insert N k v m =
     (if imap_get k m = None \<and> N \<le> length m then None else Some (imap_put k v m))"

definition imap_remove :: "'k \<Rightarrow> ('k \<times> 'v) list \<Rightarrow> 'v option \<times> ('k \<times> 'v) list" where
  "imap_remove k m = (imap_get k m, filter (\<lambda>(j, w). j \<noteq> k) m)"

definition imap_ok :: "nat \<Rightarrow> ('k \<times> 'v) list \<Rightarrow> bool" where
  "imap_ok N m \<longleftrightarrow> distinct (map fst m) \<and> length m \<le> N"

interpretation iset: bounded_set iset_contains length iset_insert iset_remove "[]" iset_ok
  by unfold_locales
    (auto simp: iset_ok_def iset_insert_def iset_remove_def iset_contains_def length_remove1 split: if_splits
      dest: notin_set_remove1 set_remove1_subset [THEN subsetD])

lemma map_of_imap_put [simp]: "map_of (imap_put k v m) = (map_of m)(k \<mapsto> v)"
  by (induction k v m rule: imap_put.induct) auto

lemma keys_imap_put: "fst ` set (imap_put k v m) = insert k (fst ` set m)"
  by (induction k v m rule: imap_put.induct) auto

lemma length_imap_put: "length (imap_put k v m) = (if k \<in> fst ` set m then length m else length m + 1)"
  by (induction k v m rule: imap_put.induct) auto

lemma distinct_imap_put: "distinct (map fst m) \<Longrightarrow> distinct (map fst (imap_put k v m))"
proof (induction k v m rule: imap_put.induct)
  case (2 k v j w m)
  then show ?case using keys_imap_put [of k v m] by auto
qed simp

lemma map_of_remove_key: "map_of (filter (\<lambda>(j, w). j \<noteq> k) m) j = (if j = k then None else map_of m j)"
  by (induction m) auto

lemma distinct_keys_filter: "distinct (map fst m) \<Longrightarrow> distinct (map fst (filter P m))"
  by (induction m) (auto simp: image_iff)

interpretation imap: bounded_map imap_get length imap_insert imap_remove "[]" imap_ok
proof (unfold_locales, goal_cases)
  case (4 N m k v)
  then show ?case by (auto simp: imap_ok_def imap_insert_def split: if_splits)
next
  case (5 N m k v m')
  then have "map_of m k = None \<Longrightarrow> length m < N" by (auto simp: imap_insert_def imap_get_def split: if_splits)
  then have "length (imap_put k v m) \<le> N"
    using 5(1) by (auto simp: length_imap_put imap_ok_def map_of_eq_None_iff)
  with 5 show ?case
    by (auto simp: imap_insert_def imap_ok_def imap_get_def distinct_imap_put split: if_splits)
next
  case (6 N m k old m')
  then show ?case
    by (auto simp: imap_remove_def imap_ok_def imap_get_def map_of_remove_key distinct_keys_filter
        intro: le_trans [OF length_filter_le])
qed (auto simp: imap_ok_def imap_get_def)

end
