(* ===== verification/Session.thy ===== *)
theory Session
  imports Codec_Types Index_Containers
begin

text \<open>
  The session state \<open>Shared\<close> of \<open>src/state.rs\<close>, which the client and the stack share under a mutex: the
  last packet identifier, the connection state and the identifiers in flight.  The capacities are the
  crate's defaults (\<open>build.rs\<close>).  Wakers are a log of the calls made on them.

  \<open>shared_ok\<close> is the invariant of the state; \<open>next_pid_nth\<close> gives the sequence of identifiers.
\<close>

definition MAX_INFLIGHT :: nat where
  "MAX_INFLIGHT = 8"

definition MAX_SUBSCRIBERS :: nat where
  "MAX_SUBSCRIBERS = 8"

datatype AckStatus = AwaitingSubAck | AwaitingUnsubAck bool | Acked "u8 list"

datatype SharedWake = RegisterTx | WakeTx | RegisterConnection | WakeConnection | RegisterStateChange | WakeStateChange

record Shared =
  sh_last_pid :: Pid
  sh_connected :: "bool option"
  sh_clean_session_count :: u8
  sh_inflight_pub :: "u16 list"
  sh_ack_status :: "(u16 \<times> AckStatus) list"
  sh_outgoing_pid :: "u16 list"
  sh_outgoing_rel :: "u16 list"
  sh_incoming_pub :: "u16 list"
  sh_wakers :: "SharedWake list"

definition shared_new :: Shared where
  "shared_new =
     \<lparr>sh_last_pid = pid_new, sh_connected = None, sh_clean_session_count = 0, sh_inflight_pub = [],
      sh_ack_status = [], sh_outgoing_pid = [], sh_outgoing_rel = [], sh_incoming_pub = [], sh_wakers = []\<rparr>"

definition shared_wake :: "SharedWake \<Rightarrow> Shared \<Rightarrow> Shared" where
  "shared_wake w sh = sh\<lparr>sh_wakers := sh_wakers sh @ [w]\<rparr>"

definition register_tx_waker :: "Shared \<Rightarrow> Shared" where
  "register_tx_waker sh = shared_wake RegisterTx sh"

definition wake_tx :: "Shared \<Rightarrow> Shared" where
  "wake_tx sh = shared_wake WakeTx sh"

definition set_connected :: "bool option \<Rightarrow> Shared \<Rightarrow> Shared" where
  "set_connected connected sh =
     (let previous = sh_connected sh;
          sh1 = shared_wake WakeConnection (sh\<lparr>sh_connected := connected\<rparr>)
      in if previous \<noteq> connected then
           shared_wake WakeStateChange
             (if connected = Some False
              then sh1\<lparr>sh_clean_session_count := sh_clean_session_count sh1 + 1\<rparr> else sh1)
         else sh1)"

definition shared_reset :: "Shared \<Rightarrow> Shared" where
  "shared_reset sh =
     (set_connected None sh)\<lparr>sh_inflight_pub := [], sh_ack_status := [], sh_outgoing_pid := [],
        sh_outgoing_rel := [], sh_incoming_pub := []\<rparr>"

definition next_pid :: "Shared \<Rightarrow> (Error, Pid) result \<times> Shared" where
  "next_pid sh =
     (case pid_add (sh_last_pid sh) 1 of
        Ok p \<Rightarrow> (Ok p, sh\<lparr>sh_last_pid := p\<rparr>)
      | Err e \<Rightarrow> (Err e, sh)
      | Panic \<Rightarrow> (Panic, sh))"

section \<open>Invariant\<close>

definition shared_ok :: "Shared \<Rightarrow> bool" where
  "shared_ok sh \<longleftrightarrow> pid_ok (sh_last_pid sh) \<and> iset_ok MAX_INFLIGHT (sh_inflight_pub sh) \<and>
     imap_ok MAX_SUBSCRIBERS (sh_ack_status sh) \<and> iset_ok MAX_INFLIGHT (sh_outgoing_pid sh) \<and>
     iset_ok MAX_INFLIGHT (sh_outgoing_rel sh) \<and> iset_ok MAX_INFLIGHT (sh_incoming_pub sh)"

lemma shared_okD:
  assumes "shared_ok sh"
  shows "pid_ok (sh_last_pid sh)" "iset_ok MAX_INFLIGHT (sh_inflight_pub sh)"
    "imap_ok MAX_SUBSCRIBERS (sh_ack_status sh)" "iset_ok MAX_INFLIGHT (sh_outgoing_pid sh)"
    "iset_ok MAX_INFLIGHT (sh_outgoing_rel sh)" "iset_ok MAX_INFLIGHT (sh_incoming_pub sh)"
  using assms by (simp_all add: shared_ok_def)

lemma shared_wake_sel [simp]:
  "sh_last_pid (shared_wake w sh) = sh_last_pid sh" "sh_connected (shared_wake w sh) = sh_connected sh"
  "sh_clean_session_count (shared_wake w sh) = sh_clean_session_count sh"
  "sh_inflight_pub (shared_wake w sh) = sh_inflight_pub sh" "sh_ack_status (shared_wake w sh) = sh_ack_status sh"
  "sh_outgoing_pid (shared_wake w sh) = sh_outgoing_pid sh" "sh_outgoing_rel (shared_wake w sh) = sh_outgoing_rel sh"
  "sh_incoming_pub (shared_wake w sh) = sh_incoming_pub sh"
  by (simp_all add: shared_wake_def)

lemma wake_tx_sel [simp]:
  "sh_last_pid (wake_tx sh) = sh_last_pid sh" "sh_connected (wake_tx sh) = sh_connected sh"
  "sh_clean_session_count (wake_tx sh) = sh_clean_session_count sh"
  "sh_inflight_pub (wake_tx sh) = sh_inflight_pub sh" "sh_ack_status (wake_tx sh) = sh_ack_status sh"
  "sh_outgoing_pid (wake_tx sh) = sh_outgoing_pid sh" "sh_outgoing_rel (wake_tx sh) = sh_outgoing_rel sh"
  "sh_incoming_pub (wake_tx sh) = sh_incoming_pub sh"
  by (simp_all add: wake_tx_def)

lemma register_tx_waker_sel [simp]:
  "sh_last_pid (register_tx_waker sh) = sh_last_pid sh" "sh_connected (register_tx_waker sh) = sh_connected sh"
  "sh_clean_session_count (register_tx_waker sh) = sh_clean_session_count sh"
  "sh_inflight_pub (register_tx_waker sh) = sh_inflight_pub sh" "sh_ack_status (register_tx_waker sh) = sh_ack_status sh"
  "sh_outgoing_pid (register_tx_waker sh) = sh_outgoing_pid sh" "sh_outgoing_rel (register_tx_waker sh) = sh_outgoing_rel sh"
  "sh_incoming_pub (register_tx_waker sh) = sh_incoming_pub sh"
  by (simp_all add: register_tx_waker_def)

lemma set_connected_sel [simp]:
  "sh_last_pid (set_connected c sh) = sh_last_pid sh" "sh_connected (set_connected c sh) = c"
  "sh_inflight_pub (set_connected c sh) = sh_inflight_pub sh" "sh_ack_status (set_connected c sh) = sh_ack_status sh"
  "sh_outgoing_pid (set_connected c sh) = sh_outgoing_pid sh" "sh_outgoing_rel (set_connected c sh) = sh_outgoing_rel sh"
  "sh_incoming_pub (set_connected c sh) = sh_incoming_pub sh"
  by (simp_all add: set_connected_def Let_def)

lemma shared_ok_wake [simp]: "shared_ok (shared_wake w sh) = shared_ok sh"
  by (simp add: shared_ok_def)

lemma shared_ok_wake_tx [simp]: "shared_ok (wake_tx sh) = shared_ok sh" "shared_ok (register_tx_waker sh) = shared_ok sh"
  by (simp_all add: wake_tx_def register_tx_waker_def)

lemma shared_new_ok: "shared_ok shared_new"
  by (simp add: shared_ok_def shared_new_def pid_ok_def pid_new_def iset_ok_def imap_ok_def)

lemma set_connected_ok [simp]: "shared_ok (set_connected c sh) = shared_ok sh"
  by (simp add: shared_ok_def)

lemma shared_reset_ok: "shared_ok sh \<Longrightarrow> shared_ok (shared_reset sh)"
  by (simp add: shared_ok_def shared_reset_def iset_ok_def imap_ok_def)

lemma clean_session_counts:
  "sh_clean_session_count (set_connected c sh) =
     (if c = Some False \<and> sh_connected sh \<noteq> Some False then sh_clean_session_count sh + 1
      else sh_clean_session_count sh)"
  by (auto simp: set_connected_def Let_def)

section \<open>Packet identifiers\<close>

lemma next_pid_ok:
  assumes "pid_ok (sh_last_pid sh)"
  shows "\<exists>p. next_pid sh = (Ok p, sh\<lparr>sh_last_pid := p\<rparr>) \<and> pid_ok p \<and>
    unat (pid_get p) = unat (pid_get (sh_last_pid sh)) mod 65535 + 1"
proof -
  obtain p :: Pid where "pid_add (sh_last_pid sh) 1 = (Ok p :: (Error, Pid) result)" "pid_ok p"
    "unat (pid_get p) = (unat (pid_get (sh_last_pid sh)) - 1 + 1) mod 65535 + 1"
    using pid_add_unat [OF assms, of 1] by auto
  moreover have "1 \<le> unat (pid_get (sh_last_pid sh))"
    using assms u16_eq_0_iff [of "pid_get (sh_last_pid sh)"] by (simp add: pid_ok_def)
  ultimately show ?thesis by (simp add: next_pid_def)
qed

lemma next_pid_shared_ok: "shared_ok sh \<Longrightarrow> shared_ok (snd (next_pid sh))"
  using next_pid_ok [of sh] by (force simp: shared_ok_def)

text \<open>The identifiers of \<open>n\<close> consecutive calls of \<open>next_pid\<close>.\<close>

fun pids :: "nat \<Rightarrow> Shared \<Rightarrow> u16 list" where
  "pids 0 sh = []"
| "pids (Suc n) sh = (case next_pid sh of (Ok p, sh') \<Rightarrow> pid_get p # pids n sh' | _ \<Rightarrow> [])"

lemma next_pid_nth:
  assumes "pid_ok (sh_last_pid sh)"
  shows "length (pids n sh) = n \<and>
    (\<forall>i < n. unat (pids n sh ! i) = (unat (pid_get (sh_last_pid sh)) + i) mod 65535 + 1)"
  using assms
proof (induction n arbitrary: sh)
  case (Suc n)
  obtain p where p: "next_pid sh = (Ok p, sh\<lparr>sh_last_pid := p\<rparr>)" "pid_ok p"
    "unat (pid_get p) = unat (pid_get (sh_last_pid sh)) mod 65535 + 1"
    using next_pid_ok [OF Suc.prems] by blast
  have IH: "length (pids n (sh\<lparr>sh_last_pid := p\<rparr>)) = n"
    "\<forall>i < n. unat (pids n (sh\<lparr>sh_last_pid := p\<rparr>) ! i) = (unat (pid_get p) + i) mod 65535 + 1"
    using Suc.IH [of "sh\<lparr>sh_last_pid := p\<rparr>"] p(2) by simp_all
  have e: "pids (Suc n) sh = pid_get p # pids n (sh\<lparr>sh_last_pid := p\<rparr>)" by (simp add: p(1))
  have "unat (pids (Suc n) sh ! i) = (unat (pid_get (sh_last_pid sh)) + i) mod 65535 + 1" if "i < Suc n" for i
  proof (cases i)
    case (Suc k)
    then have "unat (pids (Suc n) sh ! i) = (unat (pid_get (sh_last_pid sh)) mod 65535 + 1 + k) mod 65535 + 1"
      using IH(2) that by (simp add: p(1) p(3))
    moreover have "(unat (pid_get (sh_last_pid sh)) mod 65535 + 1 + k) mod 65535 =
        (unat (pid_get (sh_last_pid sh)) + i) mod 65535"
      using Suc mod_add_left_eq [of "unat (pid_get (sh_last_pid sh))" 65535 i] by simp
    ultimately show ?thesis by simp
  qed (simp add: p(1) p(3))
  with IH(1) e show ?case by simp
qed simp

lemma pids_distinct:
  assumes "pid_ok (sh_last_pid sh)" and "n \<le> 65535"
  shows "distinct (pids n sh) \<and> 0 \<notin> set (pids n sh)"
proof -
  let ?a = "unat (pid_get (sh_last_pid sh))"
  note nth = next_pid_nth [OF assms(1), of n]
  have "i = j" if ij: "i < n" "j < n" "pids n sh ! i = pids n sh ! j" for i j
  proof -
    have m: "(?a + i) mod 65535 = (?a + j) mod 65535" using nth ij by (metis add_right_cancel)
    have "i mod 65535 = j mod 65535"
      using m by (metis (no_types, lifting) mod_eq_dvd_iff_nat add_diff_cancel_left nat_le_linear nat_add_left_cancel_le)
    with ij assms(2) show ?thesis by simp
  qed
  then have "distinct (pids n sh)" using nth by (auto simp: distinct_conv_nth)
  moreover have "0 \<notin> set (pids n sh)"
  proof
    assume "0 \<in> set (pids n sh)"
    then obtain i where "i < n" "pids n sh ! i = 0" using nth by (auto simp: in_set_conv_nth)
    with nth show False by (metis add_is_0 one_neq_zero unsigned_0)
  qed
  ultimately show ?thesis by blast
qed

end
