(* ===== verification/Config.thy ===== *)
theory Config
  imports Packets_Out
begin

text \<open>
  \<open>src/config.rs\<close>: the settings of a client and the default reconnection backoff.  A \<open>Duration\<close> is its
  number of milliseconds; the backoff algorithm of a configuration is a function given by the caller.
\<close>

type_synonym duration = nat

definition saturating_mul :: "u32 \<Rightarrow> u32 \<Rightarrow> u32" where
  "saturating_mul a b = (if unat a * unat b < 2 ^ 32 then a * b else 4294967295)"

definition DEFAULT_BACKOFF :: "u8 \<Rightarrow> duration option" where
  "DEFAULT_BACKOFF attempt =
     (if 10 \<le> attempt then None
      else
        let backoff = saturating_mul 500 (2 ^ unat attempt)
        in Some (min (3 * 60 * 1000) (unat backoff)))"

definition MAX_QOS :: QoS where
  "MAX_QOS = ExactlyOnce"

record Config =
  cfg_client_id :: str
  cfg_keepalive_interval :: duration
  cfg_connect_timeout :: duration
  cfg_backoff_algo :: "u8 \<Rightarrow> duration option"
  cfg_max_qos :: QoS
  cfg_username :: "str option"
  cfg_password :: "bytes option"
  cfg_last_will :: "LastWill option"

text \<open>The builder with only the client identifier set.\<close>

definition config_new :: "str \<Rightarrow> Config" where
  "config_new client_id =
     \<lparr>cfg_client_id = client_id, cfg_keepalive_interval = 59 * 1000, cfg_connect_timeout = 50 * 1000,
      cfg_backoff_algo = DEFAULT_BACKOFF, cfg_max_qos = MAX_QOS, cfg_username = None, cfg_password = None,
      cfg_last_will = None\<rparr>"

section \<open>The default backoff\<close>

lemma u8_less_10: "(a::u8) < 10 \<Longrightarrow> unat a \<in> {0, 1, 2, 3, 4, 5, 6, 7, 8, 9}"
  by (simp add: word_less_nat_alt) auto

lemma default_backoff_value:
  assumes "a < 10"
  shows "DEFAULT_BACKOFF a = Some (min 180000 (500 * 2 ^ unat a))"
  using u8_less_10 [OF assms] assms
  by (auto simp: DEFAULT_BACKOFF_def saturating_mul_def Let_def)

lemma default_backoff_mono:
  assumes "DEFAULT_BACKOFF a = Some d" and "DEFAULT_BACKOFF b = Some e" and "a \<le> b"
  shows "d \<le> e"
proof -
  have "a < 10" "b < 10" using assms(1,2) by (auto simp: DEFAULT_BACKOFF_def split: if_splits)
  then have "d = min 180000 (500 * 2 ^ unat a)" "e = min 180000 (500 * 2 ^ unat b)"
    using assms(1,2) by (simp_all add: default_backoff_value)
  moreover have "(2::nat) ^ unat a \<le> 2 ^ unat b" using assms(3) by (simp add: word_le_nat_alt)
  ultimately show ?thesis by (simp only: min.mono mult_le_mono order_refl)
qed

end
