(* ===== verification/Stack.thy ===== *)
theory Stack
  imports Session Config Packet_Reader Property_Iterator Pubsub
begin

text \<open>
  \<open>MqttStack\<close> of \<open>src/stack.rs\<close> and \<open>new\<close> of \<open>src/lib.rs\<close>: the state both halves share, the handlers of
  received packets, and the three branches of \<open>select\<close>.

  An \<open>async\<close> function is modelled from one \<open>await\<close> to the next where another task can observe the
  state, and as one step otherwise; a mutex is held within a step.  \<open>select3\<close> is a choice of the
  environment, so that each branch is an operation of its own.  Time is an argument (\<open>now\<close>), sockets are
  arguments with their contract \<open>socket_ok\<close>, log messages are left out.
\<close>

section \<open>The shared node\<close>

text \<open>
  \<open>StateInner\<close> (two channels and the session) together with the fields of \<open>MqttStack\<close>, and whether
  the mutex of \<open>MqttClient\<close> around the publisher of the TX channel is held.
\<close>

record Node =
  nd_shared :: Shared
  nd_tx :: Channel
  nd_tx_sub :: FrameSubscriber
  nd_rx :: Channel
  nd_config :: Config
  nd_reader :: PacketReader
  nd_write_buf :: bytes
  nd_last_network_action :: nat
  nd_awaiting_pingresp :: bool
  nd_clean_start :: bool
  nd_connect_attempts :: u8
  nd_tx_locked :: bool

text \<open>\<open>new\<close>: both channels, the session, the stack's subscriber and the two publishers.\<close>

definition mqtt_new :: "nat \<Rightarrow> nat \<Rightarrow> Config \<Rightarrow> nat \<Rightarrow> (PubSubError, Node) result" where
  "mqtt_new TX RX config now =
     (let tx0 = channel_new (replicate TX 0); rx0 = channel_new (replicate RX 0) in
      case channel_subscriber 1 (ch_state tx0) of
        (Ok sub, txs) \<Rightarrow>
          (case channel_publisher rx0 of
             (Ok _, rx1) \<Rightarrow>
               (case channel_publisher (tx0\<lparr>ch_state := txs\<rparr>) of
                  (Ok _, tx1) \<Rightarrow>
                    Ok \<lparr>nd_shared = shared_new, nd_tx = tx1, nd_tx_sub = sub, nd_rx = rx1, nd_config = config,
                        nd_reader = reader_new, nd_write_buf = replicate 32 0, nd_last_network_action = now,
                        nd_awaiting_pingresp = False, nd_clean_start = True, nd_connect_attempts = 0,
                        nd_tx_locked = False\<rparr>
                | _ \<Rightarrow> Panic)
           | _ \<Rightarrow> Panic)
      | _ \<Rightarrow> Panic)"

definition with_shared :: "(Shared \<Rightarrow> Shared) \<Rightarrow> Node \<Rightarrow> Node" where
  "with_shared f nd = nd\<lparr>nd_shared := f (nd_shared nd)\<rparr>"

definition stack_reset :: "Node \<Rightarrow> Node" where
  "stack_reset nd =
     nd\<lparr>nd_awaiting_pingresp := False, nd_connect_attempts := 0, nd_shared := shared_reset (nd_shared nd),
        nd_reader := reader_reset (nd_reader nd)\<rparr>"

section \<open>Handlers of acknowledgements\<close>

definition handle_pub_ack :: "PubAck \<Rightarrow> Shared \<Rightarrow> (StateError, unit) result \<times> Shared" where
  "handle_pub_ack p sh =
     (Ok (), wake_tx (sh\<lparr>sh_inflight_pub := snd (iset_remove (pid_get (pa_pid p)) (sh_inflight_pub sh))\<rparr>))"

definition handle_pub_rel :: "PubRel \<Rightarrow> Shared \<Rightarrow> (StateError, PubComp) result \<times> Shared" where
  "handle_pub_rel p sh =
     (case iset_remove (pid_get (pl_pid p)) (sh_incoming_pub sh) of
        (True, s) \<Rightarrow>
          (Ok \<lparr>pc_pid = pl_pid p, pc_reason_code = PC_Success, pc_properties = Slice []\<rparr>,
           wake_tx (sh\<lparr>sh_incoming_pub := s\<rparr>))
      | (False, s) \<Rightarrow> (Err (Unsolicited (pid_get (pl_pid p))), sh\<lparr>sh_incoming_pub := s\<rparr>))"

definition handle_pub_rec :: "PubRec \<Rightarrow> Shared \<Rightarrow> (StateError, PubRel) result \<times> Shared" where
  "handle_pub_rec p sh =
     (case iset_remove (pid_get (pr_pid p)) (sh_inflight_pub sh) of
        (True, s) \<Rightarrow>
          (let sh1 = sh\<lparr>sh_inflight_pub := s\<rparr> in
           case iset_insert MAX_INFLIGHT (pid_get (pr_pid p)) (sh_outgoing_rel sh1) of
             None \<Rightarrow> (Panic, sh1)
           | Some (_, rel) \<Rightarrow>
               (Ok \<lparr>pl_pid = pr_pid p, pl_reason_code = PL_Success, pl_properties = Slice []\<rparr>,
                wake_tx (sh1\<lparr>sh_outgoing_rel := rel\<rparr>)))
      | (False, s) \<Rightarrow> (Err (Unsolicited (pid_get (pr_pid p))), sh\<lparr>sh_inflight_pub := s\<rparr>))"

definition handle_pub_comp :: "PubComp \<Rightarrow> Shared \<Rightarrow> (StateError, unit) result \<times> Shared" where
  "handle_pub_comp p sh =
     (case iset_remove (pid_get (pc_pid p)) (sh_outgoing_rel sh) of
        (True, s) \<Rightarrow> (Ok (), wake_tx (sh\<lparr>sh_outgoing_rel := s\<rparr>))
      | (False, s) \<Rightarrow> (Ok (), sh\<lparr>sh_outgoing_rel := s\<rparr>))"

text \<open>\<open>*status = \<dots>\<close> through \<open>get_mut\<close> overwrites the value of a present key.\<close>

definition handle_sub_ack :: "Pid \<Rightarrow> u8 list \<Rightarrow> Shared \<Rightarrow> (StateError, unit) result \<times> Shared" where
  "handle_sub_ack pid codes sh =
     (case imap_get (pid_get pid) (sh_ack_status sh) of
        Some AwaitingSubAck \<Rightarrow>
          (Ok (), wake_tx (sh\<lparr>sh_ack_status := imap_put (pid_get pid) (Acked codes) (sh_ack_status sh)\<rparr>))
      | _ \<Rightarrow> (Ok (), sh))"

definition handle_unsub_ack :: "Pid \<Rightarrow> u8 list \<Rightarrow> Shared \<Rightarrow> (StateError, unit) result \<times> Shared" where
  "handle_unsub_ack pid codes sh =
     (case imap_get (pid_get pid) (sh_ack_status sh) of
        Some (AwaitingUnsubAck True) \<Rightarrow>
          (Ok (), wake_tx (sh\<lparr>sh_ack_status := imap_put (pid_get pid) (Acked codes) (sh_ack_status sh)\<rparr>))
      | Some (AwaitingUnsubAck False) \<Rightarrow>
          (Ok (), wake_tx (sh\<lparr>sh_ack_status := snd (imap_remove (pid_get pid) (sh_ack_status sh))\<rparr>))
      | _ \<Rightarrow> (Ok (), sh))"

section \<open>Keep alive\<close>

definition calculate_keep_alive_sleep :: "nat \<Rightarrow> duration \<Rightarrow> nat \<Rightarrow> duration" where
  "calculate_keep_alive_sleep last_action interval now =
     (if now \<le> last_action + interval then last_action + interval - now else 0)"

definition handle_keep_alive :: "Node \<Rightarrow> (StateError, PingReq) result \<times> Node" where
  "handle_keep_alive nd =
     (if nd_awaiting_pingresp nd then (Err AwaitPingResp, nd)
      else (Ok PingReq, nd\<lparr>nd_awaiting_pingresp := True\<rparr>))"

section \<open>Connecting\<close>

text \<open>One step of the loop over the properties of the CONNACK.\<close>

fun connack_property :: "Config \<Rightarrow> (Error, Property) result \<Rightarrow> Config" where
  "connack_property cfg (Ok (ServerKeepAlive keep_alive)) =
     cfg\<lparr>cfg_keepalive_interval := min (cfg_keepalive_interval cfg) (unat keep_alive * 1000)\<rparr>"
| "connack_property cfg (Ok (MaximumQoS qos)) =
     cfg\<lparr>cfg_max_qos := max (cfg_max_qos cfg) (case qos_try_from qos of Some q \<Rightarrow> q | None \<Rightarrow> AtLeastOnce)\<rparr>"
| "connack_property cfg _ = cfg"

definition handle_connack :: "ConnAck \<Rightarrow> Config \<Rightarrow> (ConnectionError, bool) result \<times> Config" where
  "handle_connack p cfg =
     (case properties_iter (ca_properties p) of
        Ok it \<Rightarrow>
          (let cfg1 = foldl connack_property cfg (props_collect it) in
           if connack_reason_success (ca_reason_code p) then (Ok (ca_session_present p), cfg1)
           else (Err ConnectionRefused, cfg1))
      | Err e \<Rightarrow> (Err e, cfg)
      | Panic \<Rightarrow> (Panic, cfg))"

definition connect_packet :: "Node \<Rightarrow> Connect" where
  "connect_packet nd =
     (let cfg = nd_config nd in
      \<lparr>cn_protocol = MQTT5, cn_properties = Slice [SessionExpiryInterval 600],
       cn_keep_alive = of_nat (cfg_keepalive_interval cfg div 1000), cn_client_id = cfg_client_id cfg,
       cn_username = cfg_username cfg, cn_password = cfg_password cfg, cn_last_will = cfg_last_will cfg,
       cn_clean_start = nd_clean_start nd\<rparr>)"

text \<open>
  \<open>connect_mqtt\<close> in its two halves, before and after the CONNECT packet is on the wire.  \<open>None\<close> when
  \<open>recv\<close> does not return.
\<close>

definition connect_send ::
  "'s Socket \<Rightarrow> nat \<Rightarrow> Node \<Rightarrow> 's \<Rightarrow> (ConnectionError, unit) result \<times> Node \<times> 's" where
  "connect_send sk now nd s =
     (case encode_packet connect_to_buffer (connect_packet nd) (replicate 1024 0) of
        Err e \<Rightarrow> (Err (MqttState e), nd, s)
      | Panic \<Rightarrow> (Panic, nd, s)
      | Ok bs \<Rightarrow>
          (case write_bytes sk bs s of
             (Err e, s1) \<Rightarrow> (Err (MqttState e), nd, s1)
           | (Panic, s1) \<Rightarrow> (Panic, nd, s1)
           | (Ok _, s1) \<Rightarrow> (Ok (), nd\<lparr>nd_last_network_action := now\<rparr>, s1)))"

definition connect_answer :: "(StateError, ReceivedPacket) result \<Rightarrow> Node \<Rightarrow> (ConnectionError, bool) result \<times> Node" where
  "connect_answer packet nd =
     (case packet of
        Err e \<Rightarrow> (Err (MqttState e), nd)
      | Panic \<Rightarrow> (Panic, nd)
      | Ok (RP_ConnAck p) \<Rightarrow>
          (case handle_connack p (nd_config nd) of
             (Ok present, cfg) \<Rightarrow>
               (Ok present, nd\<lparr>nd_config := cfg, nd_clean_start := False, nd_connect_attempts := 0\<rparr>)
           | (Err e, cfg) \<Rightarrow> (Err e, nd\<lparr>nd_config := cfg\<rparr>)
           | (Panic, cfg) \<Rightarrow> (Panic, nd\<lparr>nd_config := cfg\<rparr>))
      | Ok _ \<Rightarrow> (Err NotConnAck, nd))"

definition connect_mqtt ::
  "'s Socket \<Rightarrow> nat \<Rightarrow> Node \<Rightarrow> 's \<Rightarrow> ((ConnectionError, bool) result \<times> Node \<times> 's) option" where
  "connect_mqtt sk now nd s =
     (case connect_send sk now nd s of
        (Err e, nd1, s1) \<Rightarrow> Some (Err e, nd1, s1)
      | (Panic, nd1, s1) \<Rightarrow> Some (Panic, nd1, s1)
      | (Ok _, nd1, s1) \<Rightarrow>
          map_option (\<lambda>(packet, pr, s2). case connect_answer packet (nd1\<lparr>nd_reader := pr\<rparr>) of (r, nd2) \<Rightarrow> (r, nd2, s2))
            (recv sk (nd_reader nd1) s1))"

section \<open>The branches of \<open>select\<close>\<close>

definition send_packet ::
  "'s Socket \<Rightarrow> ('p \<Rightarrow> enc_op) \<Rightarrow> 'p \<Rightarrow> Node \<Rightarrow> 's \<Rightarrow> (StateError, unit) result \<times> 's" where
  "send_packet sk to_buffer p nd s =
     (case encode_packet to_buffer p (nd_write_buf nd) of
        Ok bs \<Rightarrow> write_bytes sk bs s
      | Err e \<Rightarrow> (Err e, s)
      | Panic \<Rightarrow> (Panic, s))"

text \<open>
  The TX branch, once \<open>read_async\<close> gave a grant.  The grant is released when the socket fails, too: its
  drop releases it.
\<close>

definition tx_release :: "FrameGrantR \<Rightarrow> Node \<Rightarrow> Node" where
  "tx_release g nd = nd\<lparr>nd_tx := (nd_tx nd)\<lparr>ch_state := release g (ch_state (nd_tx nd))\<rparr>\<rparr>"

definition transmitted :: "u16 \<Rightarrow> Shared \<Rightarrow> Shared" where
  "transmitted pid sh =
     wake_tx (if pid \<noteq> 0 then sh\<lparr>sh_outgoing_pid := snd (iset_remove pid (sh_outgoing_pid sh))\<rparr> else sh)"

definition select_tx :: "'s Socket \<Rightarrow> nat \<Rightarrow> Node \<Rightarrow> 's \<Rightarrow> (StateError, unit) result \<times> Node \<times> 's" where
  "select_tx sk now nd s =
     (case read_with_context True (nd_tx_sub nd) (ch_state (nd_tx nd)) of
        (Ok g, sub, txs) \<Rightarrow>
          (let nd1 = nd\<lparr>nd_tx_sub := sub, nd_tx := (nd_tx nd)\<lparr>ch_state := txs\<rparr>\<rparr> in
           case write_bytes sk (grant_bytes g (ch_buf (nd_tx nd1))) s of
             (Ok _, s1) \<Rightarrow>
               (Ok (), (tx_release g nd1)\<lparr>nd_shared := transmitted (gr_pid g) (nd_shared nd1), nd_last_network_action := now\<rparr>, s1)
           | (Err e, s1) \<Rightarrow> (Err e, tx_release g nd1, s1)
           | (Panic, s1) \<Rightarrow> (Panic, tx_release g nd1, s1))
      | (Err e, sub, txs) \<Rightarrow> (Ok (), nd\<lparr>nd_tx_sub := sub, nd_tx := (nd_tx nd)\<lparr>ch_state := txs\<rparr>\<rparr>, s)
      | (Panic, sub, txs) \<Rightarrow> (Panic, nd, s))"

text \<open>
  A received PUBLISH.  The grant is committed only after the whole packet was copied; when the socket
  fails in between, the grant is dropped.
\<close>

definition rx_store ::
  "'s Socket \<Rightarrow> PartialPublish \<Rightarrow> Node \<Rightarrow> 's \<Rightarrow> (StateError, bool) result \<times> Node \<times> 's" where
  "rx_store sk pp nd s =
     (case grant_immediate (pp_packet_len pp) (ch_state (nd_rx nd)) of
        (Ok g, st) \<Rightarrow>
          (case copy_all sk pp (slice (ch_buf (nd_rx nd)) (gw_start g) (gw_size g)) s of
             (Ok bs, s1) \<Rightarrow>
               (Ok True,
                nd\<lparr>nd_rx := \<lparr>ch_buf = splice (ch_buf (nd_rx nd)) (gw_start g) bs, ch_state = commit g (pp_packet_len pp) st\<rparr>\<rparr>, s1)
           | (Err e, s1) \<Rightarrow> (Err e, nd\<lparr>nd_rx := (nd_rx nd)\<lparr>ch_state := grant_drop g st\<rparr>\<rparr>, s1)
           | (Panic, s1) \<Rightarrow> (Panic, nd\<lparr>nd_rx := (nd_rx nd)\<lparr>ch_state := grant_drop g st\<rparr>\<rparr>, s1))
      | (Err e, st) \<Rightarrow>
          (case discard sk pp s of
             (Ok _, s1) \<Rightarrow> (Ok False, nd\<lparr>nd_rx := (nd_rx nd)\<lparr>ch_state := st\<rparr>\<rparr>, s1)
           | (Err e, s1) \<Rightarrow> (Err e, nd\<lparr>nd_rx := (nd_rx nd)\<lparr>ch_state := st\<rparr>\<rparr>, s1)
           | (Panic, s1) \<Rightarrow> (Panic, nd\<lparr>nd_rx := (nd_rx nd)\<lparr>ch_state := st\<rparr>\<rparr>, s1))
      | (Panic, st) \<Rightarrow> (Panic, nd, s))"

text \<open>The identifier of a received QoS 2 publish is kept until its PUBREL; \<open>insert(\<dots>).unwrap()\<close>.\<close>

definition record_incoming :: "Pid \<Rightarrow> Shared \<Rightarrow> (StateError, unit) result \<times> Shared" where
  "record_incoming pid sh =
     (case iset_insert MAX_INFLIGHT (pid_get pid) (sh_incoming_pub sh) of
        None \<Rightarrow> (Panic, sh)
      | Some (_, pids1) \<Rightarrow> (Ok (), sh\<lparr>sh_incoming_pub := pids1\<rparr>))"

definition acknowledge :: "'s Socket \<Rightarrow> QosPid \<Rightarrow> Node \<Rightarrow> 's \<Rightarrow> (StateError, unit) result \<times> Node \<times> 's" where
  "acknowledge sk qos_pid nd s =
     (case qos_pid of
        QP_AtMostOnce \<Rightarrow> (Ok (), nd, s)
      | QP_AtLeastOnce pid \<Rightarrow>
          (case send_packet sk puback_to_buffer
                  \<lparr>pa_pid = pid, pa_reason_code = PA_Success, pa_properties = Slice []\<rparr> nd s of
             (r, s1) \<Rightarrow> (r, nd, s1))
      | QP_ExactlyOnce pid \<Rightarrow>
          (case record_incoming pid (nd_shared nd) of
             (Ok _, sh) \<Rightarrow>
               (let nd1 = nd\<lparr>nd_shared := sh\<rparr> in
                case send_packet sk pubrec_to_buffer
                       \<lparr>pr_pid = pid, pr_reason_code = PR_Success, pr_properties = Slice []\<rparr> nd1 s of
                  (r, s1) \<Rightarrow> (r, nd1, s1))
           | (Err e, sh) \<Rightarrow> (Err e, nd\<lparr>nd_shared := sh\<rparr>, s)
           | (Panic, sh) \<Rightarrow> (Panic, nd\<lparr>nd_shared := sh\<rparr>, s)))"

definition on_publish ::
  "'s Socket \<Rightarrow> QosPid \<Rightarrow> PartialPublish \<Rightarrow> Node \<Rightarrow> 's \<Rightarrow> (StateError, unit) result \<times> Node \<times> 's" where
  "on_publish sk qos_pid pp nd s =
     (case rx_store sk pp nd s of
        (Ok True, nd1, s1) \<Rightarrow> acknowledge sk qos_pid nd1 s1
      | (Ok False, nd1, s1) \<Rightarrow> (Ok (), nd1, s1)
      | (Err e, nd1, s1) \<Rightarrow> (Err e, nd1, s1)
      | (Panic, nd1, s1) \<Rightarrow> (Panic, nd1, s1))"

text \<open>A handler on the session whose result, if any, is sent.\<close>

definition reply ::
  "'s Socket \<Rightarrow> ('p \<Rightarrow> enc_op) \<Rightarrow> (StateError, 'p) result \<times> Shared \<Rightarrow> Node \<Rightarrow> 's \<Rightarrow> (StateError, unit) result \<times> Node \<times> 's" where
  "reply sk to_buffer rs nd s =
     (case rs of
        (Ok p, sh) \<Rightarrow> (case send_packet sk to_buffer p nd s of (r, s1) \<Rightarrow> (r, nd\<lparr>nd_shared := sh\<rparr>, s1))
      | (Err e, sh) \<Rightarrow> (Err e, nd\<lparr>nd_shared := sh\<rparr>, s)
      | (Panic, sh) \<Rightarrow> (Panic, nd\<lparr>nd_shared := sh\<rparr>, s))"

definition quiet ::
  "(StateError, unit) result \<times> Shared \<Rightarrow> Node \<Rightarrow> 's \<Rightarrow> (StateError, unit) result \<times> Node \<times> 's" where
  "quiet rs nd s = (fst rs, nd\<lparr>nd_shared := snd rs\<rparr>, s)"

definition on_packet ::
  "'s Socket \<Rightarrow> ReceivedPacket \<Rightarrow> Node \<Rightarrow> 's \<Rightarrow> (StateError, unit) result \<times> Node \<times> 's" where
  "on_packet sk packet nd s =
     (let sh = nd_shared nd in
      case packet of
        RP_ConnAck _ \<Rightarrow> (Ok (), nd, s)
      | RP_Disconnect _ \<Rightarrow> (Ok (), nd, s)
      | RP_PingResp \<Rightarrow> (Ok (), nd\<lparr>nd_awaiting_pingresp := False\<rparr>, s)
      | RP_PartialPublish qos_pid topic_name pp \<Rightarrow> on_publish sk qos_pid pp nd s
      | RP_PubAck p \<Rightarrow> quiet (handle_pub_ack p sh) nd s
      | RP_SubAck p \<Rightarrow> quiet (handle_sub_ack (sa_pid p) (map suback_reason_to_u8 (sa_codes p)) sh) nd s
      | RP_UnsubAck p \<Rightarrow> quiet (handle_unsub_ack (ua_pid p) (map unsuback_reason_to_u8 (ua_codes p)) sh) nd s
      | RP_PubRel p \<Rightarrow> reply sk pubcomp_to_buffer (handle_pub_rel p sh) nd s
      | RP_PubRec p \<Rightarrow> reply sk pubrel_to_buffer (handle_pub_rec p sh) nd s
      | RP_PubComp p \<Rightarrow> quiet (handle_pub_comp p sh) nd s)"

definition finish_select ::
  "nat \<Rightarrow> (StateError, unit) result \<times> Node \<times> 's \<Rightarrow> (StateError, unit) result \<times> Node \<times> 's" where
  "finish_select now r =
     (case r of (Ok u, nd, s) \<Rightarrow> (Ok (), nd\<lparr>nd_last_network_action := now\<rparr>, s) | _ \<Rightarrow> r)"

definition select_rx ::
  "'s Socket \<Rightarrow> nat \<Rightarrow> Node \<Rightarrow> 's \<Rightarrow> ((StateError, unit) result \<times> Node \<times> 's) option" where
  "select_rx sk now nd s =
     (case recv sk (nd_reader nd) s of
        None \<Rightarrow> None
      | Some (Ok packet, pr, s1) \<Rightarrow> Some (finish_select now (on_packet sk packet (nd\<lparr>nd_reader := pr\<rparr>) s1))
      | Some (Err (Io k), pr, s1) \<Rightarrow> Some (Err (Io k), nd\<lparr>nd_reader := pr\<rparr>, s1)
      | Some (Err e, pr, s1) \<Rightarrow> Some (finish_select now (Ok (), nd\<lparr>nd_reader := pr\<rparr>, s1))
      | Some (Panic, pr, s1) \<Rightarrow> Some (Panic, nd\<lparr>nd_reader := pr\<rparr>, s1))"

definition select_keep_alive :: "'s Socket \<Rightarrow> nat \<Rightarrow> Node \<Rightarrow> 's \<Rightarrow> (StateError, unit) result \<times> Node \<times> 's" where
  "select_keep_alive sk now nd s =
     (case handle_keep_alive nd of
        (Ok p, nd1) \<Rightarrow>
          (case send_packet sk pingreq_to_buffer p nd1 s of (r, s1) \<Rightarrow> finish_select now (r, nd1, s1))
      | (Err e, nd1) \<Rightarrow> (Err e, nd1, s)
      | (Panic, nd1) \<Rightarrow> (Panic, nd1, s))"

end
