(* ===== verification/Message.thy ===== *)
theory Message
  imports Received_Packet Property_Iterator Pubsub
begin

text \<open>
  \<open>Message\<close> of \<open>src/message.rs\<close>: a read grant on a received PUBLISH, with the ranges of its parts.
  The bytes of the grant (\<open>grant.deref()\<close>) are an argument of every operation, since they live in the
  buffer of the channel.

  A published packet comes back with its topic, identifier, flags and payload (\<open>message_of_publish\<close>);
  the range of the properties starts one field early, at their length (\<open>message_of_publish\<close> again).
\<close>

type_synonym range = "nat \<times> nat"

record Message =
  msg_grant :: FrameGrantR
  msg_header :: FixedHeader
  msg_qos_pid :: QosPid
  msg_topic_name :: range
  msg_payload :: range
  msg_properties :: range

definition in_range :: "bytes \<Rightarrow> range \<Rightarrow> bytes" where
  "in_range frame r = slice frame (fst r) (snd r - fst r)"

definition message_try_new :: "FrameGrantR \<Rightarrow> bytes \<Rightarrow> (EncodingError, Message) result" where
  "message_try_new g frame =
     rbind (decoder_try_new frame) (\<lambda>d.
     let header = dec_fixed_header d in
     rbind (dec_check_remaining (fh_remaining_len header) d) (\<lambda>_.
     let topic_name_start = dec_offset d + 2 in
     rbind (read_str d) (\<lambda>(name, d).
     let topic_name = (topic_name_start, dec_offset d) in
     rbind (read_qos_pid (fh_qos header) d) (\<lambda>(qos_pid, d).
     let properties_start = dec_offset d in
     rbind (read_properties d) (\<lambda>(props, d).
     let properties = (properties_start, dec_offset d); payload_start = dec_offset d in
     rbind (read_payload d) (\<lambda>(payload, d).
     Ok \<lparr>msg_grant = g, msg_header = header, msg_qos_pid = qos_pid, msg_topic_name = topic_name,
         msg_payload = (payload_start, dec_offset d), msg_properties = properties\<rparr>))))))"

definition message_dup :: "Message \<Rightarrow> bool" where
  "message_dup m = fh_dup (msg_header m)"

definition message_retain :: "Message \<Rightarrow> bool" where
  "message_retain m = fh_retain (msg_header m)"

definition message_qos_pid :: "Message \<Rightarrow> QosPid" where
  "message_qos_pid m = msg_qos_pid m"

definition message_topic_name :: "Message \<Rightarrow> bytes \<Rightarrow> str" where
  "message_topic_name m frame = in_range frame (msg_topic_name m)"

definition message_properties :: "Message \<Rightarrow> bytes \<Rightarrow> Properties" where
  "message_properties m frame = DataBlock (in_range frame (msg_properties m))"

definition message_payload :: "Message \<Rightarrow> bytes \<Rightarrow> bytes" where
  "message_payload m frame = in_range frame (msg_payload m)"

text \<open>Writing \<open>bs\<close> at \<open>i\<close> through \<open>payload_mut\<close> or \<open>DerefMut\<close>.\<close>

definition message_payload_write :: "Message \<Rightarrow> nat \<Rightarrow> bytes \<Rightarrow> bytes \<Rightarrow> ('e, bytes) result" where
  "message_payload_write m i bs frame =
     (if i + length bs \<le> snd (msg_payload m) - fst (msg_payload m)
      then Ok (splice frame (fst (msg_payload m) + i) bs) else Panic)"

section \<open>Panic freedom\<close>

lemma dec_safe_frame: "dec_safe f \<Longrightarrow> wf_dec d \<Longrightarrow> f d = Ok (v, d') \<Longrightarrow> wf_dec d'"
  using dec_frame_wf by (auto simp: dec_safe_def)

lemma safe_bind_not_Panic:
  assumes "dec_safe f" and "wf_dec d" and "\<And>x d'. wf_dec d' \<Longrightarrow> g x d' \<noteq> Panic"
  shows "rbind (f d) (\<lambda>(x, d). g x d) \<noteq> Panic"
  using assms dec_safe_frame [OF assms(1,2)] by (cases "f d") (auto simp: dec_safe_def)

lemma message_try_new_not_Panic:
  assumes "\<And>d. decoder_try_new frame = Ok d \<Longrightarrow> length frame \<le> packet_len d"
  shows "message_try_new g frame \<noteq> Panic"
proof
  assume panic: "message_try_new g frame = Panic"
  then obtain d where d: "decoder_try_new frame = Ok d"
    by (auto simp: message_try_new_def rbind_Panic_iff)
  have wf: "wf_dec d" by (rule decoder_new_wf [OF d assms [OF d]])
  have c: "dec_check_remaining n d \<noteq> Panic" for n using wf by (auto simp: dec_check_remaining_def wf_dec_def)
  have "rbind (read_str d) (\<lambda>(n, d). rbind (read_qos_pid q d) (\<lambda>(qp, d). rbind (read_properties d)
      (\<lambda>(ps, d). rbind (read_payload d) (\<lambda>(pl, d). Ok (k n qp ps pl d))))) \<noteq> Panic" for q k
    by (intro safe_bind_not_Panic dec_safe_str dec_safe_read_qos_pid dec_safe_properties dec_safe_payload wf; simp)
  with panic d c show False by (auto simp: message_try_new_def rbind_Panic_iff Let_def)
qed

section \<open>A published packet\<close>

lemma reads_payload_end:
  assumes "dec_buf d = pre @ bs" and "dec_offset d = length pre" and "packet_len d = length pre + length bs"
  shows "read_payload d = Ok (bs, d\<lparr>dec_offset := length pre + length bs\<rparr>)"
  using assms by (simp add: read_payload_def dec_check_remaining_def take_slice_def slice_def Let_def)

lemma in_range_middle:
  "a = length pre \<Longrightarrow> b = length pre + length v \<Longrightarrow> in_range (pre @ v @ post) (a, b) = v"
  by (simp add: in_range_def slice_def)

definition publish_packet :: "Publish \<Rightarrow> bytes" where
  "publish_packet p =
     fixed_header_bytes (packet_type_byte PT_Publish) (publish_flags p) (length (publish_body p)) @ publish_body p"

lemma message_of_publish:
  assumes "publish_ok p" and "length (publish_body p) < 268435456"
  shows "\<exists>m. message_try_new g (publish_packet p) = Ok m \<and> msg_grant m = g \<and>
    message_topic_name m (publish_packet p) = pub_topic_name p \<and>
    message_payload m (publish_packet p) = payload_bytes (pub_payload p) \<and>
    message_qos_pid m = qos_pid_of (pub_qos p) (pub_pid p) \<and>
    message_properties m (publish_packet p) = DataBlock (properties_bytes (pub_properties p)) \<and>
    message_dup m = pub_dup p \<and> message_retain m = pub_retain p"
proof -
  let ?h = "fixed_header_bytes (packet_type_byte PT_Publish) (publish_flags p) (length (publish_body p))"
  let ?fl = "packet_type_byte PT_Publish OR publish_flags p"
  let ?fh = "header_of ?fl PT_Publish (pub_qos p) (length (publish_body p))"
  let ?t = "u16_to_be (of_nat (length (pub_topic_name p)))" and ?name = "pub_topic_name p"
  let ?q = "qos_pid_bytes (pub_qos p) (pub_pid p)"
  let ?pr = "properties_bytes (pub_properties p)" and ?pl = "payload_bytes (pub_payload p)"
  define bs where "bs = publish_packet p"
  have bs: "bs = ?h @ ?t @ ?name @ ?q @ ?pr @ ?pl"
    by (simp add: bs_def publish_packet_def publish_body_def slice_bytes_def)
  define d where "d = decoder_at bs (length ?h) ?fh"
  have d: "decoder_try_new bs = Ok d"
    unfolding bs_def publish_packet_def d_def by (rule decoder_try_new_header [OF assms(2) publish_header])
  let ?n1 = "length ?h + 2 + length ?name"
  let ?n2 = "?n1 + length ?q" and ?n3 = "?n1 + length ?q + length ?pr"
  have len: "length bs = ?n3 + length ?pl" "packet_len (d\<lparr>dec_offset := n\<rparr>) = length bs" for n
    by (simp_all add: bs d_def packet_len_def header_of_def publish_body_def slice_bytes_def)
  have topic: "read_str d = Ok (?name, d\<lparr>dec_offset := ?n1\<rparr>)"
    using readsD [OF reads_str, of ?name d ?h "?q @ ?pr @ ?pl"] assms(1)
    by (simp add: publish_ok_def str_ok_def bs slice_bytes_def d_def)
  have qp: "read_qos_pid (pub_qos p) (d\<lparr>dec_offset := ?n1\<rparr>) =
      Ok (qos_pid_of (pub_qos p) (pub_pid p), d\<lparr>dec_offset := ?n2\<rparr>)"
    using readsD [OF reads_qos_pid, of "pub_qos p" "pub_pid p" "d\<lparr>dec_offset := ?n1\<rparr>" "?h @ ?t @ ?name" "?pr @ ?pl"] assms(1)
    by (simp add: publish_ok_def bs d_def)
  have wl: "length (wire_block (pub_properties p)) < 268435456"
    using assms(2) by (simp add: publish_body_def properties_bytes_def)
  have pr: "read_properties (d\<lparr>dec_offset := ?n2\<rparr>) =
      Ok (DataBlock (wire_block (pub_properties p)), d\<lparr>dec_offset := ?n3\<rparr>)"
    using readsD [OF reads_properties [OF wl], of "d\<lparr>dec_offset := ?n2\<rparr>" "?h @ ?t @ ?name @ ?q" "?pl"]
    by (simp add: properties_bytes_def bs d_def)
  have pl: "read_payload (d\<lparr>dec_offset := ?n3\<rparr>) = Ok (?pl, d\<lparr>dec_offset := length bs\<rparr>)"
    using reads_payload_end [of "d\<lparr>dec_offset := ?n3\<rparr>" "?h @ ?t @ ?name @ ?q @ ?pr" ?pl] len
    by (simp add: bs d_def)
  have hd: "dec_fixed_header d = ?fh" "fh_qos ?fh = pub_qos p" "fh_remaining_len ?fh = length (publish_body p)"
    "dec_offset d = length ?h" by (simp_all add: d_def header_of_def)
  have chk: "dec_check_remaining (length (publish_body p)) d = Ok ()"
    by (simp add: dec_check_remaining_def d_def bs_def publish_packet_def)
  let ?m = "\<lparr>msg_grant = g, msg_header = ?fh, msg_qos_pid = qos_pid_of (pub_qos p) (pub_pid p),
    msg_topic_name = (length ?h + 2, ?n1), msg_payload = (?n3, length bs), msg_properties = (?n2, ?n3)\<rparr>"
  have m: "message_try_new g bs = Ok ?m"
    using d chk topic qp pr pl by (simp add: message_try_new_def Let_def hd)
  have "in_range ((?h @ ?t) @ ?name @ (?q @ ?pr @ ?pl)) (length ?h + 2, ?n1) = ?name"
    by (rule in_range_middle) simp_all
  moreover have "in_range ((?h @ ?t @ ?name @ ?q) @ ?pr @ ?pl) (?n2, ?n3) = ?pr"
    by (rule in_range_middle) simp_all
  moreover have "in_range ((?h @ ?t @ ?name @ ?q @ ?pr) @ ?pl @ []) (?n3, length bs) = ?pl"
    by (rule in_range_middle) (simp_all add: bs)
  ultimately have "in_range bs (length ?h + 2, ?n1) = ?name" "in_range bs (?n2, ?n3) = ?pr"
    "in_range bs (?n3, length bs) = ?pl" by (simp_all only: bs append_assoc append_Nil2)
  moreover have "fh_dup ?fh = pub_dup p" "fh_retain ?fh = pub_retain p"
    by (cases "pub_qos p"; cases "pub_dup p"; cases "pub_retain p";
        simp add: header_of_def packet_type_byte_def publish_flags_def)+
  ultimately show ?thesis
    using m unfolding bs_def [symmetric]
    by (simp add: message_topic_name_def message_payload_def message_properties_def message_qos_pid_def
        message_dup_def message_retain_def)
qed

end
