(* ===== verification/Client.thy ===== *)
theory Client
  imports Stack Message
begin

text \<open>
  \<open>src/client.rs\<close>: \<open>MqttClient\<close> and \<open>Subscription\<close>, on the node they share with the stack.

  A future is a task that moves from one \<open>await\<close> to the next; a step of a task is one such move and
  finds the mutexes it needs free, as a task that finds one held is polled again later without having
  done anything.  Where the code uses \<open>try_lock\<close> and goes on without the lock, whether the lock was free
  is an argument.  \<open>with_timeout\<close> dropping the future is a step of its own.
\<close>

section \<open>Connection state\<close>

definition is_connected :: "Node \<Rightarrow> bool" where
  "is_connected nd \<longleftrightarrow> sh_connected (nd_shared nd) \<noteq> None"

definition wait_connected_poll :: "Node \<Rightarrow> bool \<times> Node" where
  "wait_connected_poll nd =
     (if sh_connected (nd_shared nd) \<noteq> None then (True, nd)
      else (False, with_shared (shared_wake RegisterConnection) nd))"

definition wait_connection_change_poll :: "bool option \<Rightarrow> Node \<Rightarrow> bool option \<times> bool option \<times> Node" where
  "wait_connection_change_poll prev_state nd =
     (let connected = sh_connected (nd_shared nd) in
      if prev_state \<noteq> connected then (Some (connected \<noteq> None), prev_state, nd)
      else (None, connected, with_shared (shared_wake RegisterStateChange) nd))"

section \<open>Sending\<close>

text \<open>The trait \<open>MqttEncode\<close>, as far as \<open>send\<close> uses it.\<close>

record 'p MqttEncode =
  me_type :: PacketType
  me_set_pid :: "Pid \<Rightarrow> 'p \<Rightarrow> 'p"
  me_get_qos :: "'p \<Rightarrow> QoS option"
  me_max_packet_size :: "'p \<Rightarrow> (EncodingError, nat) result"
  me_to_buffer :: "'p \<Rightarrow> enc_op"

definition publish_encode :: "Publish MqttEncode" where
  "publish_encode = \<lparr>me_type = PT_Publish, me_set_pid = publish_set_pid, me_get_qos = publish_get_qos,
     me_max_packet_size = publish_max_packet_size, me_to_buffer = publish_to_buffer\<rparr>"

definition subscribe_encode :: "Subscribe MqttEncode" where
  "subscribe_encode = \<lparr>me_type = PT_Subscribe, me_set_pid = subscribe_set_pid, me_get_qos = (\<lambda>_. None),
     me_max_packet_size = subscribe_max_packet_size, me_to_buffer = subscribe_to_buffer\<rparr>"

definition unsubscribe_encode :: "Unsubscribe MqttEncode" where
  "unsubscribe_encode = \<lparr>me_type = PT_Unsubscribe, me_set_pid = unsubscribe_set_pid, me_get_qos = (\<lambda>_. None),
     me_max_packet_size = unsubscribe_max_packet_size, me_to_buffer = unsubscribe_to_buffer\<rparr>"

text \<open>\<open>send\<close> up to the release of the first lock on the session.\<close>

definition send_begin :: "'p MqttEncode \<Rightarrow> 'p \<Rightarrow> Shared \<Rightarrow> (Error, Pid) result \<times> Shared" where
  "send_begin me p sh =
     (if me_get_qos me p \<noteq> None \<and> me_get_qos me p \<noteq> Some AtMostOnce \<and> length (sh_inflight_pub sh) = MAX_INFLIGHT
      then (Err MaxInflight, sh)
      else next_pid sh)"

text \<open>A poll of \<open>grant_async\<close>, with the mutex of the publisher held; \<open>None\<close> is pending.\<close>

definition send_grant :: "'p MqttEncode \<Rightarrow> 'p \<Rightarrow> Pid \<Rightarrow> Node \<Rightarrow> (Error, FrameGrantW) result option \<times> Node" where
  "send_grant me p pid nd =
     (case me_max_packet_size me (me_set_pid me pid p) of
        Ok n \<Rightarrow>
          (case grant_poll n (ch_state (nd_tx nd)) of
             (r, st) \<Rightarrow> (map_option (map_err (\<lambda>_. Overflow)) r, nd\<lparr>nd_tx := (nd_tx nd)\<lparr>ch_state := st\<rparr>\<rparr>))
      | Err e \<Rightarrow> (Some (Err (Encoding e)), nd)
      | Panic \<Rightarrow> (Some Panic, nd))"

text \<open>Recording the identifier in the session, per packet type.\<close>

definition send_record :: "'p MqttEncode \<Rightarrow> 'p \<Rightarrow> Pid \<Rightarrow> Shared \<Rightarrow> (Error, unit) result \<times> Shared" where
  "send_record me p pid sh =
     (case iset_insert MAX_INFLIGHT (pid_get pid) (sh_outgoing_pid sh) of
        None \<Rightarrow> (Err MaxInflight, sh)
      | Some (_, out) \<Rightarrow>
          (let sh1 = sh\<lparr>sh_outgoing_pid := out\<rparr> in
           case me_type me of
             PT_Publish \<Rightarrow>
               (if me_get_qos me p \<noteq> Some AtMostOnce then
                  (case iset_insert MAX_INFLIGHT (pid_get pid) (sh_inflight_pub sh1) of
                     None \<Rightarrow> (Panic, sh1)
                   | Some (_, inflight) \<Rightarrow> (Ok (), sh1\<lparr>sh_inflight_pub := inflight\<rparr>))
                else (Ok (), sh1))
           | PT_Subscribe \<Rightarrow>
               (case imap_insert MAX_SUBSCRIBERS (pid_get pid) AwaitingSubAck (sh_ack_status sh1) of
                  None \<Rightarrow> (Err MaxInflight, sh1)
                | Some acks \<Rightarrow> (Ok (), sh1\<lparr>sh_ack_status := acks\<rparr>))
           | PT_Unsubscribe \<Rightarrow>
               (case imap_insert MAX_SUBSCRIBERS (pid_get pid) (AwaitingUnsubAck True) (sh_ack_status sh1) of
                  None \<Rightarrow> (Err MaxInflight, sh1)
                | Some acks \<Rightarrow> (Ok (), sh1\<lparr>sh_ack_status := acks\<rparr>))
           | _ \<Rightarrow> (Ok (), sh1)))"

definition tx_drop :: "FrameGrantW \<Rightarrow> Node \<Rightarrow> Node" where
  "tx_drop g nd = nd\<lparr>nd_tx := (nd_tx nd)\<lparr>ch_state := grant_drop g (ch_state (nd_tx nd))\<rparr>\<rparr>"

text \<open>
  The rest of \<open>send\<close>.  An early return drops the grant.  What a failed encoding leaves in the granted
  bytes is not modelled: the dropped grant commits a frame of length zero, so no frame shows them.
\<close>

definition send_finish :: "'p MqttEncode \<Rightarrow> 'p \<Rightarrow> Pid \<Rightarrow> FrameGrantW \<Rightarrow> Node \<Rightarrow> (Error, Pid) result \<times> Node" where
  "send_finish me p pid g nd =
     (case me_to_buffer me (me_set_pid me pid p) (encoder_new (slice (ch_buf (nd_tx nd)) (gw_start g) (gw_size g))) of
        Err e \<Rightarrow> (Err (Encoding e), tx_drop g nd)
      | Panic \<Rightarrow> (Panic, tx_drop g nd)
      | Ok e \<Rightarrow>
          (let used = used_size e;
               nd1 = nd\<lparr>nd_tx := (nd_tx nd)\<lparr>ch_buf := splice (ch_buf (nd_tx nd)) (gw_start g) (enc_buf e)\<rparr>\<rparr>
           in case send_record me p pid (nd_shared nd1) of
                (Err e, sh) \<Rightarrow> (Err e, tx_drop g (nd1\<lparr>nd_shared := sh\<rparr>))
              | (Panic, sh) \<Rightarrow> (Panic, tx_drop g (nd1\<lparr>nd_shared := sh\<rparr>))
              | (Ok _, sh) \<Rightarrow>
                  (Ok pid, nd1\<lparr>nd_shared := sh,
                     nd_tx := (nd_tx nd1)\<lparr>ch_state := commit (grant_set_pid (pid_get pid) g) used (ch_state (nd_tx nd1))\<rparr>\<rparr>)))"

section \<open>Waiting for acknowledgements\<close>

text \<open>A poll of each wait: whether it is over.  The identifier has left the set it is waited for in.\<close>

definition wait_gone_poll :: "(Shared \<Rightarrow> u16 list) \<Rightarrow> Pid \<Rightarrow> Shared \<Rightarrow> bool \<times> Shared" where
  "wait_gone_poll field pid sh =
     (if iset_contains (pid_get pid) (field sh) then (False, register_tx_waker sh) else (True, sh))"

definition wait_tx_poll :: "Pid \<Rightarrow> Shared \<Rightarrow> bool \<times> Shared" where
  "wait_tx_poll pid sh = wait_gone_poll sh_outgoing_pid pid sh"

datatype PublishWait = AwaitTx | AwaitAck | AwaitComp

text \<open>\<open>wait_publish_tx\<close>: the next wait, or the result.\<close>

definition wait_publish_tx_step ::
  "QoS \<Rightarrow> Pid \<Rightarrow> PublishWait \<Rightarrow> Shared \<Rightarrow> (PublishWait + (Error, unit) result) \<times> Shared" where
  "wait_publish_tx_step qos pid w sh =
     (case w of
        AwaitTx \<Rightarrow>
          (case wait_tx_poll pid sh of
             (False, sh1) \<Rightarrow> (Inl AwaitTx, sh1)
           | (True, sh1) \<Rightarrow> (if qos = AtMostOnce then Inr (Ok ()) else Inl AwaitAck, sh1))
      | AwaitAck \<Rightarrow>
          (case wait_gone_poll sh_inflight_pub pid sh of
             (False, sh1) \<Rightarrow> (Inl AwaitAck, sh1)
           | (True, sh1) \<Rightarrow> (if qos = ExactlyOnce then Inl AwaitComp else Inr (Ok ()), sh1))
      | AwaitComp \<Rightarrow>
          (case wait_gone_poll sh_outgoing_rel pid sh of
             (False, sh1) \<Rightarrow> (Inl AwaitComp, sh1)
           | (True, sh1) \<Rightarrow> (Inr (Ok ()), sh1)))"

text \<open>The clean-up of a publish whose future is dropped; nothing is done when the lock is held.\<close>

definition publish_on_drop :: "bool \<Rightarrow> Pid \<Rightarrow> Shared \<Rightarrow> Shared" where
  "publish_on_drop free pid sh =
     (if \<not> free then sh
      else
        let sh1 =
          (case iset_remove (pid_get pid) (sh_inflight_pub sh) of
             (True, s) \<Rightarrow> sh\<lparr>sh_inflight_pub := s\<rparr>
           | (False, s) \<Rightarrow>
               sh\<lparr>sh_inflight_pub := s, sh_outgoing_pid := snd (iset_remove (pid_get pid) (sh_outgoing_pid sh))\<rparr>)
        in sh1\<lparr>sh_outgoing_rel := snd (iset_remove (pid_get pid) (sh_outgoing_rel sh1))\<rparr>)"

datatype SubscribeWait = AwaitSubTx | AwaitCodes

text \<open>The wait for the reason codes, which \<open>subscribe\<close> and \<open>unsubscribe\<close> share.\<close>

definition wait_codes_poll :: "Pid \<Rightarrow> Shared \<Rightarrow> u8 list option \<times> Shared" where
  "wait_codes_poll pid sh =
     (case imap_get (pid_get pid) (sh_ack_status sh) of
        Some (Acked codes) \<Rightarrow> (Some codes, sh\<lparr>sh_ack_status := snd (imap_remove (pid_get pid) (sh_ack_status sh))\<rparr>)
      | _ \<Rightarrow> (None, register_tx_waker sh))"

definition codes_result :: "u8 list \<Rightarrow> (Error, unit) result" where
  "codes_result codes = (if list_ex (\<lambda>c. 0x80 \<le> c) codes then Err BadTopicFilter else Ok ())"

definition subscribe_on_drop :: "bool \<Rightarrow> Pid \<Rightarrow> Shared \<Rightarrow> Shared" where
  "subscribe_on_drop free pid sh =
     (if free then
        sh\<lparr>sh_ack_status := snd (imap_remove (pid_get pid) (sh_ack_status sh)),
           sh_outgoing_pid := snd (iset_remove (pid_get pid) (sh_outgoing_pid sh))\<rparr>
      else sh)"

text \<open>\<open>wait_subscribe_tx\<close>; a refused subscription returns early and so runs the clean-up.\<close>

definition wait_subscribe_tx_step ::
  "Pid \<Rightarrow> SubscribeWait \<Rightarrow> Shared \<Rightarrow> (SubscribeWait + (Error, unit) result) \<times> Shared" where
  "wait_subscribe_tx_step pid w sh =
     (case w of
        AwaitSubTx \<Rightarrow> (case wait_tx_poll pid sh of (ready, sh1) \<Rightarrow> (Inl (if ready then AwaitCodes else AwaitSubTx), sh1))
      | AwaitCodes \<Rightarrow>
          (case wait_codes_poll pid sh of
             (None, sh1) \<Rightarrow> (Inl AwaitCodes, sh1)
           | (Some codes, sh1) \<Rightarrow>
               (Inr (codes_result codes), if is_ok (codes_result codes) then sh1 else subscribe_on_drop True pid sh1)))"

text \<open>The waits of \<open>unsubscribe\<close>, which has no clean-up.\<close>

definition wait_unsubscribe_step ::
  "Pid \<Rightarrow> SubscribeWait \<Rightarrow> Shared \<Rightarrow> (SubscribeWait + (Error, unit) result) \<times> Shared" where
  "wait_unsubscribe_step pid w sh =
     (case w of
        AwaitSubTx \<Rightarrow> (case wait_tx_poll pid sh of (ready, sh1) \<Rightarrow> (Inl (if ready then AwaitCodes else AwaitSubTx), sh1))
      | AwaitCodes \<Rightarrow>
          (case wait_codes_poll pid sh of
             (None, sh1) \<Rightarrow> (Inl AwaitCodes, sh1)
           | (Some codes, sh1) \<Rightarrow> (Inr (codes_result codes), sh1)))"

section \<open>Requests\<close>

text \<open>
  The task of a call of \<open>publish\<close>, \<open>subscribe\<close> or \<open>unsubscribe\<close>: the number of the attempt and the
  \<open>await\<close> it stands at.
\<close>

datatype 'w Task =
  Connecting nat
| Sending nat
| Locking nat Pid
| Granting nat Pid
| Waiting nat Pid 'w
| Finished "(Error, unit) result"

definition attempt_failed :: "nat \<Rightarrow> nat \<Rightarrow> Error \<Rightarrow> 'w Task" where
  "attempt_failed max_attempts a e = (if a = max_attempts then Finished (Err e) else Connecting (a + 1))"

definition attempt_result :: "nat \<Rightarrow> nat \<Rightarrow> (Error, unit) result \<Rightarrow> 'w Task" where
  "attempt_result max_attempts a r = (case r of Err e \<Rightarrow> attempt_failed max_attempts a e | _ \<Rightarrow> Finished r)"

fun request_step ::
  "'p MqttEncode \<Rightarrow> nat \<Rightarrow> 'w \<Rightarrow> (Pid \<Rightarrow> 'w \<Rightarrow> Shared \<Rightarrow> ('w + (Error, unit) result) \<times> Shared) \<Rightarrow> 'p \<Rightarrow>
   'w Task \<Rightarrow> Node \<Rightarrow> 'w Task \<times> Node" where
  "request_step me max_attempts w0 wait p (Connecting a) nd =
     (case wait_connected_poll nd of (ready, nd1) \<Rightarrow> (if ready then Sending a else Connecting a, nd1))"
| "request_step me max_attempts w0 wait p (Sending a) nd =
     (case send_begin me p (nd_shared nd) of
        (Ok pid, sh) \<Rightarrow> (Locking a pid, nd\<lparr>nd_shared := sh\<rparr>)
      | (Err e, sh) \<Rightarrow> (attempt_failed max_attempts a e, nd\<lparr>nd_shared := sh\<rparr>)
      | (Panic, sh) \<Rightarrow> (Finished Panic, nd\<lparr>nd_shared := sh\<rparr>))"
| "request_step me max_attempts w0 wait p (Locking a pid) nd =
     (if nd_tx_locked nd then (Locking a pid, nd) else (Granting a pid, nd\<lparr>nd_tx_locked := True\<rparr>))"
| "request_step me max_attempts w0 wait p (Granting a pid) nd =
     (case send_grant me p pid nd of
        (None, nd1) \<Rightarrow> (Granting a pid, nd1)
      | (Some (Err e), nd1) \<Rightarrow> (attempt_failed max_attempts a e, nd1\<lparr>nd_tx_locked := False\<rparr>)
      | (Some Panic, nd1) \<Rightarrow> (Finished Panic, nd1)
      | (Some (Ok g), nd1) \<Rightarrow>
          (case send_finish me p pid g nd1 of
             (Ok _, nd2) \<Rightarrow> (Waiting a pid w0, nd2\<lparr>nd_tx_locked := False\<rparr>)
           | (Err e, nd2) \<Rightarrow> (attempt_failed max_attempts a e, nd2\<lparr>nd_tx_locked := False\<rparr>)
           | (Panic, nd2) \<Rightarrow> (Finished Panic, nd2)))"
| "request_step me max_attempts w0 wait p (Waiting a pid w) nd =
     (case wait pid w (nd_shared nd) of
        (Inl w', sh) \<Rightarrow> (Waiting a pid w', nd\<lparr>nd_shared := sh\<rparr>)
      | (Inr r, sh) \<Rightarrow> (attempt_result max_attempts a r, nd\<lparr>nd_shared := sh\<rparr>))"
| "request_step me max_attempts w0 wait p (Finished r) nd = (Finished r, nd)"

text \<open>
  The timeout of the attempt: the future is dropped, with the mutex guard and the clean-up it holds.
  Waiting for the connection is not under the timeout.
\<close>

fun request_timeout :: "nat \<Rightarrow> (Pid \<Rightarrow> Shared \<Rightarrow> Shared) \<Rightarrow> 'w Task \<Rightarrow> Node \<Rightarrow> 'w Task \<times> Node" where
  "request_timeout max_attempts on_drop (Sending a) nd = (attempt_failed max_attempts a Timeout, nd)"
| "request_timeout max_attempts on_drop (Locking a pid) nd = (attempt_failed max_attempts a Timeout, nd)"
| "request_timeout max_attempts on_drop (Granting a pid) nd =
     (attempt_failed max_attempts a Timeout, nd\<lparr>nd_tx_locked := False\<rparr>)"
| "request_timeout max_attempts on_drop (Waiting a pid w) nd =
     (attempt_failed max_attempts a Timeout, with_shared (on_drop pid) nd)"
| "request_timeout max_attempts on_drop task nd = (task, nd)"

definition publish_step :: "Publish \<Rightarrow> PublishWait Task \<Rightarrow> Node \<Rightarrow> PublishWait Task \<times> Node" where
  "publish_step p = request_step publish_encode 6 AwaitTx (wait_publish_tx_step (pub_qos p)) p"

definition publish_timeout :: "bool \<Rightarrow> PublishWait Task \<Rightarrow> Node \<Rightarrow> PublishWait Task \<times> Node" where
  "publish_timeout free = request_timeout 6 (publish_on_drop free)"

definition subscribe_step :: "Subscribe \<Rightarrow> SubscribeWait Task \<Rightarrow> Node \<Rightarrow> SubscribeWait Task \<times> Node" where
  "subscribe_step p = request_step subscribe_encode 3 AwaitSubTx wait_subscribe_tx_step p"

definition subscribe_timeout :: "bool \<Rightarrow> SubscribeWait Task \<Rightarrow> Node \<Rightarrow> SubscribeWait Task \<times> Node" where
  "subscribe_timeout free = request_timeout 3 (subscribe_on_drop free)"

section \<open>Subscriptions\<close>

record Subscription =
  sub_topic_filters :: "TopicFilter list"
  sub_subscriber :: FrameSubscriber
  sub_created_clean_session_count :: u8

definition with_rx :: "State \<Rightarrow> Node \<Rightarrow> Node" where
  "with_rx st nd = nd\<lparr>nd_rx := (nd_rx nd)\<lparr>ch_state := st\<rparr>\<rparr>"

text \<open>\<open>subscribe\<close> before its loop, and after a loop that failed or succeeded.\<close>

definition subscribe_begin :: "Node \<Rightarrow> (Error, FrameSubscriber) result \<times> Node" where
  "subscribe_begin nd =
     (case channel_subscriber MAX_SUBSCRIBERS (ch_state (nd_rx nd)) of
        (r, st) \<Rightarrow> (map_err (\<lambda>_. StateMismatch) r, with_rx st nd))"

definition subscriber_gone :: "FrameSubscriber \<Rightarrow> Node \<Rightarrow> (Error, unit) result \<times> Node" where
  "subscriber_gone sub nd =
     (case subscriber_drop sub (ch_state (nd_rx nd)) of (r, st) \<Rightarrow> (map_err (\<lambda>_. StateMismatch) r, with_rx st nd))"

text \<open>\<open>collect::<Result<Vec<_, MAX_TOPICS>, _>>()\<close>: the first error, or a panic when the vector overflows.\<close>

fun collect_filters :: "nat \<Rightarrow> SubscribeTopic list \<Rightarrow> (Error, TopicFilter list) result" where
  "collect_filters room [] = Ok []"
| "collect_filters room (t # ts) =
     rbind (topic_filter_new (st_topic_path t)) (\<lambda>f.
     if room = 0 then Panic else rbind (collect_filters (room - 1) ts) (\<lambda>fs. Ok (f # fs)))"

definition subscribe_finish ::
  "nat \<Rightarrow> Subscribe \<Rightarrow> (Error, unit) result \<Rightarrow> FrameSubscriber \<Rightarrow> Node \<Rightarrow> (Error, Subscription) result \<times> Node" where
  "subscribe_finish MAX_TOPICS p r sub nd =
     (case rbind r (\<lambda>_. collect_filters MAX_TOPICS (sub_topics p)) of
        Ok filters \<Rightarrow>
          (Ok \<lparr>sub_topic_filters = filters, sub_subscriber = sub,
               sub_created_clean_session_count = sh_clean_session_count (nd_shared nd)\<rparr>, nd)
      | Err e \<Rightarrow> (case subscriber_gone sub nd of (Panic, nd1) \<Rightarrow> (Panic, nd1) | (_, nd1) \<Rightarrow> (Err e, nd1))
      | Panic \<Rightarrow> (Panic, nd))"

text \<open>\<open>poll_next\<close>, once the lock on the session is had.\<close>

datatype NextPoll = NextPending | NextNone | NextMessage Message | NextPanic

definition poll_next :: "Subscription \<Rightarrow> Node \<Rightarrow> NextPoll \<times> Subscription \<times> Node" where
  "poll_next sub nd =
     (let nd1 = with_shared (shared_wake RegisterStateChange) nd in
      if sh_clean_session_count (nd_shared nd1) \<noteq> sub_created_clean_session_count sub then (NextNone, sub, nd1)
      else
        case read_with_context True (sub_subscriber sub) (ch_state (nd_rx nd1)) of
          (Ok g, fs, st) \<Rightarrow>
            (let sub1 = sub\<lparr>sub_subscriber := fs\<rparr>;
                 frame = grant_bytes g (ch_buf (nd_rx nd1));
                 released = with_rx (read_grant_drop g st) nd1
             in case message_try_new g frame of
                  Ok m \<Rightarrow>
                    (if list_ex (\<lambda>f. is_match f (message_topic_name m frame)) (sub_topic_filters sub1)
                     then (NextMessage m, sub1, with_rx st nd1)
                     else (NextPending, sub1, released))
                | Err e \<Rightarrow> (NextPending, sub1, released)
                | Panic \<Rightarrow> (NextPanic, sub1, released))
        | (Err _, fs, st) \<Rightarrow> (NextPending, sub\<lparr>sub_subscriber := fs\<rparr>, with_rx st nd1)
        | (Panic, fs, st) \<Rightarrow> (NextPanic, sub\<lparr>sub_subscriber := fs\<rparr>, with_rx st nd1))"

definition message_drop :: "Message \<Rightarrow> Node \<Rightarrow> Node" where
  "message_drop m nd = with_rx (read_grant_drop (msg_grant m) (ch_state (nd_rx nd))) nd"

definition unsubscribe_packet :: "Subscription \<Rightarrow> Unsubscribe" where
  "unsubscribe_packet sub = unsubscribe_new (map tf_filter (sub_topic_filters sub))"

text \<open>\<open>unsubscribe\<close> sends once, without waiting for a connection; it starts at \<open>Sending 1\<close>.\<close>

definition unsubscribe_step :: "Subscription \<Rightarrow> SubscribeWait Task \<Rightarrow> Node \<Rightarrow> SubscribeWait Task \<times> Node" where
  "unsubscribe_step sub = request_step unsubscribe_encode 1 AwaitSubTx wait_unsubscribe_step (unsubscribe_packet sub)"

definition unsubscribe_finish :: "(Error, unit) result \<Rightarrow> Subscription \<Rightarrow> Subscription" where
  "unsubscribe_finish r sub = (if is_ok r then sub\<lparr>sub_topic_filters := []\<rparr> else sub)"

text \<open>
  \<open>Drop for Subscription\<close>, and then the drop of its subscriber.  \<open>free\<close> tells whether the lock on the
  session is free at the first and at the second \<open>try_lock\<close>.
\<close>

definition drop_pid :: "bool \<Rightarrow> Node \<Rightarrow> (Error, Pid) result \<times> Node" where
  "drop_pid free nd =
     (if free then (case next_pid (nd_shared nd) of (r, sh) \<Rightarrow> (r, nd\<lparr>nd_shared := sh\<rparr>)) else (Ok pid_new, nd))"

definition drop_unsubscribe :: "bool \<Rightarrow> Unsubscribe \<Rightarrow> Pid \<Rightarrow> FrameGrantW \<Rightarrow> Node \<Rightarrow> (Error, unit) result \<times> Node" where
  "drop_unsubscribe free packet pid g nd =
     (let nd1 =
        (if free then
           with_shared (\<lambda>sh.
             case imap_insert MAX_SUBSCRIBERS (pid_get pid) (AwaitingUnsubAck False) (sh_ack_status sh) of
               Some acks \<Rightarrow> sh\<lparr>sh_ack_status := acks\<rparr>
             | None \<Rightarrow> sh) nd
         else nd)
      in case unsubscribe_to_buffer packet (encoder_new (slice (ch_buf (nd_tx nd1)) (gw_start g) (gw_size g))) of
           Ok e \<Rightarrow>
             (Ok (), nd1\<lparr>nd_tx := \<lparr>ch_buf = splice (ch_buf (nd_tx nd1)) (gw_start g) (enc_buf e),
                ch_state = commit g (used_size e) (ch_state (nd_tx nd1))\<rparr>\<rparr>)
         | Err e \<Rightarrow> (Ok (), tx_drop g nd1)
         | Panic \<Rightarrow> (Panic, tx_drop g nd1))"

definition subscription_drop :: "bool \<Rightarrow> bool \<Rightarrow> Subscription \<Rightarrow> Node \<Rightarrow> (Error, unit) result \<times> Node" where
  "subscription_drop free1 free2 sub nd =
     (if sub_topic_filters sub = [] then subscriber_gone (sub_subscriber sub) nd
      else
        case drop_pid free1 nd of
          (Err e, nd1) \<Rightarrow> (Err e, nd1)
        | (Panic, nd1) \<Rightarrow> (Panic, nd1)
        | (Ok pid, nd1) \<Rightarrow>
            (if nd_tx_locked nd1 then subscriber_gone (sub_subscriber sub) nd1
             else
               let packet = unsubscribe_set_pid pid (unsubscribe_packet sub) in
               case unsubscribe_max_packet_size packet of
                 Err e \<Rightarrow> (Err (Encoding e), nd1)
               | Panic \<Rightarrow> (Panic, nd1)
               | Ok n \<Rightarrow>
                   (case grant n (ch_state (nd_tx nd1)) of
                      (Panic, st) \<Rightarrow> (Panic, nd1)
                    | (Err _, st) \<Rightarrow> subscriber_gone (sub_subscriber sub) (nd1\<lparr>nd_tx := (nd_tx nd1)\<lparr>ch_state := st\<rparr>\<rparr>)
                    | (Ok g, st) \<Rightarrow>
                        (case drop_unsubscribe free2 packet pid g (nd1\<lparr>nd_tx := (nd_tx nd1)\<lparr>ch_state := st\<rparr>\<rparr>) of
                           (Ok _, nd2) \<Rightarrow> subscriber_gone (sub_subscriber sub) nd2
                         | (r, nd2) \<Rightarrow> (r, nd2)))))"

end
