(* ===== verification/Session_Spec.thy ===== *)
theory Session_Spec
  imports Client
begin

text \<open>
  What the session promises, as an abstract machine over sets: which identifiers wait for transmission,
  for PUBACK or PUBREC, for PUBCOMP, for PUBREL, and which requests wait for SUBACK or UNSUBACK.
  \<open>session_step\<close> is what the crate does on an event, composed of the operations of the client and the
  stack; \<open>spec_step\<close> is the abstract machine; \<open>session_simulates\<close> shows that they answer alike and stay
  related by \<open>session_abs\<close>.
\<close>

section \<open>Events\<close>

datatype SessionEvent =
  BeginPublish Publish
| BeginSubscribe Subscribe
| BeginUnsubscribe Unsubscribe
| RecordPublish Publish Pid
| RecordSubscribe Subscribe Pid
| RecordUnsubscribe Unsubscribe Pid
| Transmitted u16
| GotPubAck PubAck
| GotPubRec PubRec
| GotPubComp PubComp
| GotPublish2 Pid
| GotPubRel PubRel
| GotSubAck Pid "u8 list"
| GotUnsubAck Pid "u8 list"
| TakeCodes Pid
| CancelPublish Pid
| CancelSubscribe Pid
| ResetSession

datatype SessionReply =
  Silent | Allotted u16 | SendPubRel u16 | SendPubComp u16 | Refused Error | Failed StateError | Codes "u8 list" | Crash

section \<open>The crate's session\<close>

fun reply_of :: "('a \<Rightarrow> SessionReply) \<Rightarrow> ('e \<Rightarrow> SessionReply) \<Rightarrow> ('e, 'a) result \<Rightarrow> SessionReply" where
  "reply_of f g (Ok x) = f x"
| "reply_of f g (Err e) = g e"
| "reply_of f g Panic = Crash"

definition answer :: "('a \<Rightarrow> SessionReply) \<Rightarrow> ('e \<Rightarrow> SessionReply) \<Rightarrow> ('e, 'a) result \<times> Shared \<Rightarrow> SessionReply \<times> Shared" where
  "answer f g r = (reply_of f g (fst r), snd r)"

fun session_step :: "SessionEvent \<Rightarrow> Shared \<Rightarrow> SessionReply \<times> Shared" where
  "session_step (BeginPublish p) sh = answer (\<lambda>pid. Allotted (pid_get pid)) Refused (send_begin publish_encode p sh)"
| "session_step (BeginSubscribe p) sh = answer (\<lambda>pid. Allotted (pid_get pid)) Refused (send_begin subscribe_encode p sh)"
| "session_step (BeginUnsubscribe p) sh = answer (\<lambda>pid. Allotted (pid_get pid)) Refused (send_begin unsubscribe_encode p sh)"
| "session_step (RecordPublish p pid) sh = answer (\<lambda>_. Silent) Refused (send_record publish_encode p pid sh)"
| "session_step (RecordSubscribe p pid) sh = answer (\<lambda>_. Silent) Refused (send_record subscribe_encode p pid sh)"
| "session_step (RecordUnsubscribe p pid) sh = answer (\<lambda>_. Silent) Refused (send_record unsubscribe_encode p pid sh)"
| "session_step (Transmitted pid) sh = (Silent, transmitted pid sh)"
| "session_step (GotPubAck p) sh = answer (\<lambda>_. Silent) Failed (handle_pub_ack p sh)"
| "session_step (GotPubRec p) sh = answer (\<lambda>r. SendPubRel (pid_get (pl_pid r))) Failed (handle_pub_rec p sh)"
| "session_step (GotPubComp p) sh = answer (\<lambda>_. Silent) Failed (handle_pub_comp p sh)"
| "session_step (GotPublish2 pid) sh = answer (\<lambda>_. Silent) Failed (record_incoming pid sh)"
| "session_step (GotPubRel p) sh = answer (\<lambda>r. SendPubComp (pid_get (pc_pid r))) Failed (handle_pub_rel p sh)"
| "session_step (GotSubAck pid codes) sh = answer (\<lambda>_. Silent) Failed (handle_sub_ack pid codes sh)"
| "session_step (GotUnsubAck pid codes) sh = answer (\<lambda>_. Silent) Failed (handle_unsub_ack pid codes sh)"
| "session_step (TakeCodes pid) sh =
     (case wait_codes_poll pid sh of (None, sh1) \<Rightarrow> (Silent, sh1) | (Some codes, sh1) \<Rightarrow> (Codes codes, sh1))"
| "session_step (CancelPublish pid) sh = (Silent, publish_on_drop True pid sh)"
| "session_step (CancelSubscribe pid) sh = (Silent, subscribe_on_drop True pid sh)"
| "session_step ResetSession sh = (Silent, shared_reset sh)"

section \<open>The abstract session\<close>

record Spec =
  sp_last :: nat
  sp_unsent :: "u16 set"
  sp_unacked :: "u16 set"
  sp_released :: "u16 set"
  sp_received :: "u16 set"
  sp_requests :: "u16 \<Rightarrow> AckStatus option"

definition spec_allot :: "Spec \<Rightarrow> SessionReply \<times> Spec" where
  "spec_allot sp = (let n = sp_last sp mod 65535 + 1 in (Allotted (of_nat n), sp\<lparr>sp_last := n\<rparr>))"

text \<open>A set with room for eight, and a map with room for eight.\<close>

definition no_room :: "'a \<Rightarrow> 'a set \<Rightarrow> bool" where
  "no_room x A \<longleftrightarrow> x \<notin> A \<and> card A = 8"

definition spec_request :: "u16 \<Rightarrow> AckStatus \<Rightarrow> Spec \<Rightarrow> SessionReply \<times> Spec" where
  "spec_request pid status sp =
     (if no_room pid (sp_unsent sp) then (Refused MaxInflight, sp)
      else
        let sp1 = sp\<lparr>sp_unsent := insert pid (sp_unsent sp)\<rparr> in
        if no_room pid (dom (sp_requests sp)) then (Refused MaxInflight, sp1)
        else (Silent, sp1\<lparr>sp_requests := (sp_requests sp)(pid \<mapsto> status)\<rparr>))"

fun spec_step :: "SessionEvent \<Rightarrow> Spec \<Rightarrow> SessionReply \<times> Spec" where
  "spec_step (BeginPublish p) sp =
     (if pub_qos p \<noteq> AtMostOnce \<and> card (sp_unacked sp) = 8 then (Refused MaxInflight, sp) else spec_allot sp)"
| "spec_step (BeginSubscribe p) sp = spec_allot sp"
| "spec_step (BeginUnsubscribe p) sp = spec_allot sp"
| "spec_step (RecordPublish p pid) sp =
     (if no_room (pid_get pid) (sp_unsent sp) then (Refused MaxInflight, sp)
      else
        let sp1 = sp\<lparr>sp_unsent := insert (pid_get pid) (sp_unsent sp)\<rparr> in
        if pub_qos p = AtMostOnce then (Silent, sp1)
        else if no_room (pid_get pid) (sp_unacked sp) then (Crash, sp1)
        else (Silent, sp1\<lparr>sp_unacked := insert (pid_get pid) (sp_unacked sp)\<rparr>))"
| "spec_step (RecordSubscribe p pid) sp = spec_request (pid_get pid) AwaitingSubAck sp"
| "spec_step (RecordUnsubscribe p pid) sp = spec_request (pid_get pid) (AwaitingUnsubAck True) sp"
| "spec_step (Transmitted pid) sp = (Silent, if pid = 0 then sp else sp\<lparr>sp_unsent := sp_unsent sp - {pid}\<rparr>)"
| "spec_step (GotPubAck p) sp = (Silent, sp\<lparr>sp_unacked := sp_unacked sp - {pid_get (pa_pid p)}\<rparr>)"
| "spec_step (GotPubRec p) sp =
     (let pid = pid_get (pr_pid p) in
      if pid \<notin> sp_unacked sp then (Failed (Unsolicited pid), sp)
      else
        let sp1 = sp\<lparr>sp_unacked := sp_unacked sp - {pid}\<rparr> in
        if no_room pid (sp_released sp) then (Crash, sp1)
        else (SendPubRel pid, sp1\<lparr>sp_released := insert pid (sp_released sp)\<rparr>))"
| "spec_step (GotPubComp p) sp = (Silent, sp\<lparr>sp_released := sp_released sp - {pid_get (pc_pid p)}\<rparr>)"
| "spec_step (GotPublish2 pid) sp =
     (if no_room (pid_get pid) (sp_received sp) then (Crash, sp)
      else (Silent, sp\<lparr>sp_received := insert (pid_get pid) (sp_received sp)\<rparr>))"
| "spec_step (GotPubRel p) sp =
     (let pid = pid_get (pl_pid p) in
      if pid \<in> sp_received sp then (SendPubComp pid, sp\<lparr>sp_received := sp_received sp - {pid}\<rparr>)
      else (Failed (Unsolicited pid), sp))"
| "spec_step (GotSubAck pid codes) sp =
     (Silent,
      if sp_requests sp (pid_get pid) = Some AwaitingSubAck
      then sp\<lparr>sp_requests := (sp_requests sp)(pid_get pid \<mapsto> Acked codes)\<rparr> else sp)"
| "spec_step (GotUnsubAck pid codes) sp =
     (Silent,
      if sp_requests sp (pid_get pid) = Some (AwaitingUnsubAck True)
      then sp\<lparr>sp_requests := (sp_requests sp)(pid_get pid \<mapsto> Acked codes)\<rparr>
      else if sp_requests sp (pid_get pid) = Some (AwaitingUnsubAck False)
      then sp\<lparr>sp_requests := (sp_requests sp)(pid_get pid := None)\<rparr>
      else sp)"
| "spec_step (TakeCodes pid) sp =
     (case sp_requests sp (pid_get pid) of
        Some (Acked codes) \<Rightarrow> (Codes codes, sp\<lparr>sp_requests := (sp_requests sp)(pid_get pid := None)\<rparr>)
      | _ \<Rightarrow> (Silent, sp))"
| "spec_step (CancelPublish pid) sp =
     (Silent,
      (if pid_get pid \<in> sp_unacked sp then sp\<lparr>sp_unacked := sp_unacked sp - {pid_get pid}\<rparr>
       else sp\<lparr>sp_unsent := sp_unsent sp - {pid_get pid}\<rparr>)\<lparr>sp_released := sp_released sp - {pid_get pid}\<rparr>)"
| "spec_step (CancelSubscribe pid) sp =
     (Silent, sp\<lparr>sp_requests := (sp_requests sp)(pid_get pid := None), sp_unsent := sp_unsent sp - {pid_get pid}\<rparr>)"
| "spec_step ResetSession sp =
     (Silent, sp\<lparr>sp_unsent := {}, sp_unacked := {}, sp_released := {}, sp_received := {}, sp_requests := (\<lambda>_. None)\<rparr>)"

section \<open>Abstraction\<close>

definition session_abs :: "Shared \<Rightarrow> Spec" where
  "session_abs sh =
     \<lparr>sp_last = unat (pid_get (sh_last_pid sh)), sp_unsent = set (sh_outgoing_pid sh),
      sp_unacked = set (sh_inflight_pub sh), sp_released = set (sh_outgoing_rel sh),
      sp_received = set (sh_incoming_pub sh), sp_requests = map_of (sh_ack_status sh)\<rparr>"

named_theorems session_simps \<open>the containers of the session, seen as sets and maps\<close>

lemma session_abs_wake [session_simps]:
  "session_abs (wake_tx sh) = session_abs sh" "session_abs (register_tx_waker sh) = session_abs sh"
  "session_abs (shared_wake w sh) = session_abs sh"
  by (simp_all add: session_abs_def wake_tx_def register_tx_waker_def)

lemma iset_card: "iset_ok N s \<Longrightarrow> card (set s) = length s"
  by (simp add: iset_ok_def distinct_card)

lemma iset_insert_abs:
  assumes "iset_ok MAX_INFLIGHT s"
  shows "no_room x (set s) \<Longrightarrow> iset_insert MAX_INFLIGHT x s = None"
    and "\<not> no_room x (set s) \<Longrightarrow>
      \<exists>new s'. iset_insert MAX_INFLIGHT x s = Some (new, s') \<and> set s' = insert x (set s) \<and> iset_ok MAX_INFLIGHT s'"
  using assms iset_card [OF assms]
  by (auto simp: no_room_def iset_insert_def iset_ok_def MAX_INFLIGHT_def)

lemma iset_insert_cases:
  assumes "iset_ok MAX_INFLIGHT s"
  obtains "no_room x (set s)" "iset_insert MAX_INFLIGHT x s = None"
  | new s' where "\<not> no_room x (set s)" "iset_insert MAX_INFLIGHT x s = Some (new, s')"
      "set s' = insert x (set s)" "iset_ok MAX_INFLIGHT s'"
  using iset_insert_abs [OF assms, of x] by (cases "no_room x (set s)") auto

lemma iset_remove1:
  "iset_ok N s \<Longrightarrow> set (remove1 x s) = set s - {x}" "iset_ok N s \<Longrightarrow> iset_ok N (remove1 x s)"
  by (auto simp: iset_ok_def length_remove1)

lemma iset_remove_abs:
  assumes "iset_ok N s"
  shows "\<exists>s'. iset_remove x s = (x \<in> set s, s') \<and> set s' = set s - {x} \<and> iset_ok N s'"
  using assms by (auto simp: iset_remove_def iset_ok_def length_remove1)

lemma imap_card: "imap_ok N m \<Longrightarrow> card (dom (map_of m)) = length m"
  by (metis dom_map_of_conv_image_fst distinct_card imap_ok_def length_map set_map)

lemma imap_insert_abs:
  assumes "imap_ok MAX_SUBSCRIBERS m"
  shows "no_room k (dom (map_of m)) \<Longrightarrow> imap_insert MAX_SUBSCRIBERS k v m = None"
    and "\<not> no_room k (dom (map_of m)) \<Longrightarrow>
      \<exists>m'. imap_insert MAX_SUBSCRIBERS k v m = Some m' \<and> map_of m' = (map_of m)(k \<mapsto> v) \<and> imap_ok MAX_SUBSCRIBERS m'"
proof -
  have n: "card (dom (map_of m)) = length m" "length m \<le> 8"
    using assms imap_card by (auto simp: imap_ok_def MAX_SUBSCRIBERS_def)
  show "no_room k (dom (map_of m)) \<Longrightarrow> imap_insert MAX_SUBSCRIBERS k v m = None"
    using n by (auto simp: no_room_def imap_insert_def imap_get_def MAX_SUBSCRIBERS_def)
  assume "\<not> no_room k (dom (map_of m))"
  then have "imap_insert MAX_SUBSCRIBERS k v m = Some (imap_put k v m)"
    using n by (auto simp: no_room_def imap_insert_def imap_get_def MAX_SUBSCRIBERS_def)
  with imap.insert_Some [OF assms this] show "\<exists>m'. imap_insert MAX_SUBSCRIBERS k v m = Some m' \<and>
      map_of m' = (map_of m)(k \<mapsto> v) \<and> imap_ok MAX_SUBSCRIBERS m'" by simp
qed

lemma imap_remove_abs:
  assumes "imap_ok N m"
  shows "\<exists>m'. imap_remove k m = (map_of m k, m') \<and> map_of m' = (map_of m)(k := None) \<and> imap_ok N m'"
proof -
  obtain m' where r: "imap_remove k m = (map_of m k, m')" by (simp add: imap_remove_def imap_get_def)
  with imap.remove [OF assms r] show ?thesis by (auto simp: imap_get_def fun_eq_iff)
qed

lemma imap_put_abs:
  assumes "imap_ok MAX_SUBSCRIBERS m" and "map_of m k = Some w"
  shows "imap_ok MAX_SUBSCRIBERS (imap_put k v m)"
proof -
  have "k \<in> fst ` set m" using assms(2) by (metis map_of_eq_None_iff option.distinct(1))
  then show ?thesis using assms(1) by (simp add: imap_ok_def length_imap_put distinct_imap_put)
qed

section \<open>Simulation\<close>

text \<open>
  The result of a step of the session, seen abstractly: the reply and the abstraction of the state, which
  is in order again.
\<close>

definition refines :: "SessionReply \<times> Shared \<Rightarrow> SessionReply \<times> Spec \<Rightarrow> bool" where
  "refines c a \<longleftrightarrow> fst c = fst a \<and> session_abs (snd c) = snd a \<and> shared_ok (snd c)"

lemma refines_answer:
  "refines (answer f g (r, sh)) (y, sp) \<longleftrightarrow> reply_of f g r = y \<and> session_abs sh = sp \<and> shared_ok sh"
  by (simp add: refines_def answer_def)

lemma allot_refines:
  assumes "shared_ok sh"
  shows "refines (answer (\<lambda>pid. Allotted (pid_get pid)) Refused (next_pid sh)) (spec_allot (session_abs sh))"
proof -
  obtain p where p: "next_pid sh = (Ok p, sh\<lparr>sh_last_pid := p\<rparr>)" "pid_ok p"
    "unat (pid_get p) = unat (pid_get (sh_last_pid sh)) mod 65535 + 1"
    using next_pid_ok [of sh] assms by (auto simp: shared_ok_def)
  then have "of_nat (unat (pid_get (sh_last_pid sh)) mod 65535 + 1) = pid_get p" by (metis word_of_nat_eq_iff of_nat_unat ucast_id)
  with p assms show ?thesis
    by (simp add: refines_answer spec_allot_def session_abs_def Let_def shared_ok_def)
qed

lemma request_refines:
  assumes "shared_ok sh" and "me_type me = PT_Subscribe \<and> status = AwaitingSubAck \<or> me_type me = PT_Unsubscribe \<and> status = AwaitingUnsubAck True"
  shows "refines (answer (\<lambda>_. Silent) Refused (send_record me p pid sh)) (spec_request (pid_get pid) status (session_abs sh))"
proof -
  let ?x = "pid_get pid"
  have ok: "iset_ok MAX_INFLIGHT (sh_outgoing_pid sh)" "imap_ok MAX_SUBSCRIBERS (sh_ack_status sh)"
    using assms(1) by (simp_all add: shared_ok_def)
  show ?thesis
  proof (cases "no_room ?x (set (sh_outgoing_pid sh))")
    case True
    with iset_insert_abs(1) [OF ok(1)] assms(1) show ?thesis
      by (simp add: send_record_def spec_request_def refines_answer session_abs_def)
  next
    case False
    then obtain new out where i: "iset_insert MAX_INFLIGHT ?x (sh_outgoing_pid sh) = Some (new, out)"
      "set out = insert ?x (set (sh_outgoing_pid sh))" "iset_ok MAX_INFLIGHT out"
      using iset_insert_abs(2) [OF ok(1)] by blast
    show ?thesis
    proof (cases "no_room ?x (dom (map_of (sh_ack_status sh)))")
      case True
      with False i imap_insert_abs(1) [OF ok(2) True] assms show ?thesis
        by (auto simp: send_record_def spec_request_def refines_answer session_abs_def Let_def shared_ok_def)
    next
      case room: False
      obtain m' where "imap_insert MAX_SUBSCRIBERS ?x status (sh_ack_status sh) = Some m'"
        "map_of m' = (map_of (sh_ack_status sh))(?x \<mapsto> status)" "imap_ok MAX_SUBSCRIBERS m'"
        using imap_insert_abs(2) [OF ok(2) room] by blast
      with False room i assms show ?thesis
        by (auto simp: send_record_def spec_request_def refines_answer session_abs_def Let_def shared_ok_def)
    qed
  qed
qed

lemma record_publish_refines:
  assumes "shared_ok sh"
  shows "refines (answer (\<lambda>_. Silent) Refused (send_record publish_encode p pid sh)) (spec_step (RecordPublish p pid) (session_abs sh))"
proof -
  let ?x = "pid_get pid"
  have ok: "iset_ok MAX_INFLIGHT (sh_outgoing_pid sh)" "iset_ok MAX_INFLIGHT (sh_inflight_pub sh)"
    using assms by (simp_all add: shared_ok_def)
  note defs = send_record_def publish_encode_def publish_get_qos_def refines_answer session_abs_def Let_def
  show ?thesis
  proof (cases "no_room ?x (set (sh_outgoing_pid sh))")
    case True
    with iset_insert_abs(1) [OF ok(1)] assms show ?thesis by (simp add: defs)
  next
    case False
    then obtain new out where i: "iset_insert MAX_INFLIGHT ?x (sh_outgoing_pid sh) = Some (new, out)"
      "set out = insert ?x (set (sh_outgoing_pid sh))" "iset_ok MAX_INFLIGHT out"
      using iset_insert_abs(2) [OF ok(1)] by blast
    from ok(2) show ?thesis
      by (cases rule: iset_insert_cases [where x = ?x]) (use False i assms in \<open>auto simp: defs shared_ok_def\<close>)
  qed
qed

lemma pub_rec_refines:
  assumes "shared_ok sh"
  shows "refines (session_step (GotPubRec p) sh) (spec_step (GotPubRec p) (session_abs sh))"
proof -
  let ?x = "pid_get (pr_pid p)"
  have ok: "iset_ok MAX_INFLIGHT (sh_outgoing_rel sh)" "iset_ok MAX_INFLIGHT (sh_inflight_pub sh)"
    using assms by (simp_all add: shared_ok_def)
  obtain s where r: "iset_remove ?x (sh_inflight_pub sh) = (?x \<in> set (sh_inflight_pub sh), s)"
    "set s = set (sh_inflight_pub sh) - {?x}" "iset_ok MAX_INFLIGHT s"
    using iset_remove_abs [OF ok(2)] by blast
  note defs = handle_pub_rec_def refines_answer Let_def session_simps
  from ok(1) show ?thesis
    by (cases rule: iset_insert_cases [where x = ?x]; cases "?x \<in> set (sh_inflight_pub sh)")
      (use r assms in \<open>simp_all add: defs session_abs_def shared_ok_def\<close>)
qed

lemma removal_refines:
  assumes "shared_ok sh"
  shows "refines (session_step (GotPubAck pa) sh) (spec_step (GotPubAck pa) (session_abs sh))"
    and "refines (session_step (GotPubComp pc) sh) (spec_step (GotPubComp pc) (session_abs sh))"
    and "refines (session_step (GotPubRel pl) sh) (spec_step (GotPubRel pl) (session_abs sh))"
    and "refines (session_step (Transmitted x) sh) (spec_step (Transmitted x) (session_abs sh))"
proof -
  note ok = shared_okD [OF assms]
  note defs = refines_def answer_def Let_def session_abs_def iset_remove_def iset_remove1 [OF ok(2)] iset_remove1 [OF ok(4)]
    iset_remove1 [OF ok(5)] iset_remove1 [OF ok(6)]
  show "refines (session_step (GotPubAck pa) sh) (spec_step (GotPubAck pa) (session_abs sh))"
    using assms by (simp add: defs handle_pub_ack_def shared_ok_def)
  show "refines (session_step (GotPubComp pc) sh) (spec_step (GotPubComp pc) (session_abs sh))"
    using assms by (cases "pid_get (pc_pid pc) \<in> set (sh_outgoing_rel sh)") (simp_all add: defs handle_pub_comp_def shared_ok_def)
  show "refines (session_step (GotPubRel pl) sh) (spec_step (GotPubRel pl) (session_abs sh))"
    using assms by (cases "pid_get (pl_pid pl) \<in> set (sh_incoming_pub sh)") (simp_all add: defs handle_pub_rel_def shared_ok_def)
  show "refines (session_step (Transmitted x) sh) (spec_step (Transmitted x) (session_abs sh))"
    using assms by (simp add: defs transmitted_def shared_ok_def)
qed

lemma publish2_refines:
  assumes "shared_ok sh"
  shows "refines (session_step (GotPublish2 pid) sh) (spec_step (GotPublish2 pid) (session_abs sh))"
proof -
  have "iset_ok MAX_INFLIGHT (sh_incoming_pub sh)" using assms by (simp add: shared_ok_def)
  then show ?thesis
    by (cases rule: iset_insert_cases [where x = "pid_get pid"])
      (use assms in \<open>simp_all add: refines_def answer_def session_abs_def record_incoming_def shared_ok_def\<close>)
qed

lemma ack_cases:
  obtains "x = None" | "x = Some AwaitingSubAck" | "x = Some (AwaitingUnsubAck True)" | "x = Some (AwaitingUnsubAck False)"
  | codes where "x = Some (Acked codes)"
  by (cases x) (auto intro: AckStatus.exhaust)

lemma acks_refines:
  assumes "shared_ok sh"
  shows "refines (session_step (GotSubAck pid codes) sh) (spec_step (GotSubAck pid codes) (session_abs sh))"
    and "refines (session_step (GotUnsubAck pid codes) sh) (spec_step (GotUnsubAck pid codes) (session_abs sh))"
    and "refines (session_step (TakeCodes pid) sh) (spec_step (TakeCodes pid) (session_abs sh))"
proof -
  let ?m = "sh_ack_status sh" and ?x = "pid_get pid"
  have ok: "imap_ok MAX_SUBSCRIBERS ?m" using assms by (simp add: shared_ok_def)
  obtain m' where r: "imap_remove ?x ?m = (map_of ?m ?x, m')" "map_of m' = (map_of ?m)(?x := None)" "imap_ok MAX_SUBSCRIBERS m'"
    using imap_remove_abs [OF ok] by blast
  note defs = refines_def answer_def session_abs_def imap_get_def shared_ok_def
  note put = imap_put_abs [OF ok]
  show "refines (session_step (GotSubAck pid codes) sh) (spec_step (GotSubAck pid codes) (session_abs sh))"
    using assms put by (cases "map_of ?m ?x" rule: ack_cases) (simp_all add: defs handle_sub_ack_def)
  show "refines (session_step (GotUnsubAck pid codes) sh) (spec_step (GotUnsubAck pid codes) (session_abs sh))"
    using assms r put by (cases "map_of ?m ?x" rule: ack_cases) (simp_all add: defs handle_unsub_ack_def)
  show "refines (session_step (TakeCodes pid) sh) (spec_step (TakeCodes pid) (session_abs sh))"
    using assms r by (cases "map_of ?m ?x" rule: ack_cases) (simp_all add: defs wait_codes_poll_def)
qed

lemma cancel_refines:
  assumes "shared_ok sh"
  shows "refines (session_step (CancelPublish pid) sh) (spec_step (CancelPublish pid) (session_abs sh))"
    and "refines (session_step (CancelSubscribe pid) sh) (spec_step (CancelSubscribe pid) (session_abs sh))"
    and "refines (session_step ResetSession sh) (spec_step ResetSession (session_abs sh))"
proof -
  let ?x = "pid_get pid"
  note ok = shared_okD [OF assms]
  note defs = refines_def session_abs_def Let_def shared_ok_def iset_remove_def iset_remove1 [OF ok(2)] iset_remove1 [OF ok(4)]
    iset_remove1 [OF ok(5)]
  obtain m where r: "imap_remove ?x (sh_ack_status sh) = (map_of (sh_ack_status sh) ?x, m)"
    "map_of m = (map_of (sh_ack_status sh))(?x := None)" "imap_ok MAX_SUBSCRIBERS m"
    using imap_remove_abs [OF ok(3)] by blast
  show "refines (session_step (CancelPublish pid) sh) (spec_step (CancelPublish pid) (session_abs sh))"
    using r assms by (cases "?x \<in> set (sh_inflight_pub sh)") (simp_all add: defs publish_on_drop_def)
  show "refines (session_step (CancelSubscribe pid) sh) (spec_step (CancelSubscribe pid) (session_abs sh))"
    using r assms by (simp add: defs subscribe_on_drop_def)
  show "refines (session_step ResetSession sh) (spec_step ResetSession (session_abs sh))"
    using assms by (simp add: defs shared_reset_def iset_ok_def imap_ok_def fun_eq_iff)
qed

lemma begin_refines:
  assumes "shared_ok sh"
  shows "refines (session_step (BeginPublish p) sh) (spec_step (BeginPublish p) (session_abs sh))"
    and "refines (session_step (BeginSubscribe s) sh) (spec_step (BeginSubscribe s) (session_abs sh))"
    and "refines (session_step (BeginUnsubscribe u) sh) (spec_step (BeginUnsubscribe u) (session_abs sh))"
proof -
  have "card (set (sh_inflight_pub sh)) = length (sh_inflight_pub sh)"
    by (rule iset_card [OF shared_okD(2) [OF assms]])
  then show "refines (session_step (BeginPublish p) sh) (spec_step (BeginPublish p) (session_abs sh))"
    using allot_refines [OF assms] assms
    by (auto simp: send_begin_def publish_encode_def publish_get_qos_def MAX_INFLIGHT_def session_abs_def refines_answer)
qed (use allot_refines [OF assms] in \<open>simp_all add: send_begin_def subscribe_encode_def unsubscribe_encode_def\<close>)

text \<open>Every event is answered as the abstract session answers it.\<close>

lemma session_simulates:
  assumes "shared_ok sh"
  shows "refines (session_step ev sh) (spec_step ev (session_abs sh))"
proof (cases ev)
  case (RecordSubscribe p pid)
  then show ?thesis using request_refines [OF assms, of subscribe_encode] by (simp add: subscribe_encode_def)
next
  case (RecordUnsubscribe p pid)
  then show ?thesis using request_refines [OF assms, of unsubscribe_encode] by (simp add: unsubscribe_encode_def)
next
  case (RecordPublish p pid)
  then show ?thesis using record_publish_refines [OF assms] by (simp only: session_step.simps)
qed (simp_all only: begin_refines removal_refines pub_rec_refines publish2_refines acks_refines cancel_refines assms)

fun run_events :: "(SessionEvent \<Rightarrow> 's \<Rightarrow> SessionReply \<times> 's) \<Rightarrow> SessionEvent list \<Rightarrow> 's \<Rightarrow> SessionReply list \<times> 's" where
  "run_events step [] s = ([], s)"
| "run_events step (ev # evs) s =
     (case step ev s of (r, s1) \<Rightarrow> case run_events step evs s1 of (rs, s2) \<Rightarrow> (r # rs, s2))"

lemma session_simulates_runs:
  assumes "shared_ok sh"
  shows "fst (run_events session_step evs sh) = fst (run_events spec_step evs (session_abs sh)) \<and>
    session_abs (snd (run_events session_step evs sh)) = snd (run_events spec_step evs (session_abs sh)) \<and>
    shared_ok (snd (run_events session_step evs sh))"
  using assms
proof (induction evs arbitrary: sh)
  case (Cons ev evs)
  from session_simulates [OF Cons.prems, of ev] Cons.IH [of "snd (session_step ev sh)"] show ?case
    by (simp add: refines_def split_beta)
qed simp

end
