(* ===== verification/Session_Properties.thy ===== *)
theory Session_Properties
  imports Session_Spec Topic_Filter
begin

text \<open>
  Properties of the session: it implements its abstract specification on every sequence of events, it
  hands out distinct identifiers, and it says exactly when an acknowledgement from the network makes the
  crate panic.
\<close>

section \<open>Refinement\<close>

text \<open>
  C3: The session implements its specification.  On every sequence of events - requests of the client,
  transmissions, acknowledgements from the broker, cancelled requests and resets, in any order - the crate
  gives the same replies as the abstract session over sets: the same identifiers, the same PUBREL and
  PUBCOMP answers, the same refusals and errors, and a panic exactly where the specification has one.  The
  session stays well-formed throughout: every container is duplicate free and within its capacity, and the
  last identifier is not the reserved 0.
\<close>

theorem session_refines_spec:
  "fst (run_events session_step evs shared_new) = fst (run_events spec_step evs (session_abs shared_new)) \<and>
   session_abs (snd (run_events session_step evs shared_new)) = snd (run_events spec_step evs (session_abs shared_new)) \<and>
   shared_ok (snd (run_events session_step evs shared_new)) \<and>
   session_abs shared_new =
     \<lparr>sp_last = 1, sp_unsent = {}, sp_unacked = {}, sp_released = {}, sp_received = {}, sp_requests = (\<lambda>_. None)\<rparr>"
  using session_simulates_runs [OF shared_new_ok, of evs]
  by (simp add: session_abs_def shared_new_def pid_new_def fun_eq_iff)

section \<open>Panics\<close>

definition qos2_publish :: Publish where
  "qos2_publish = \<lparr>pub_dup = False, pub_qos = ExactlyOnce, pub_retain = False, pub_pid = None,
     pub_topic_name = [97], pub_payload = PayloadBytes [1], pub_properties = Slice []\<rparr>"

definition pubrec_of :: "u16 \<Rightarrow> PubRec" where
  "pubrec_of n = \<lparr>pr_pid = Pid n, pr_reason_code = PR_Success, pr_properties = Slice []\<rparr>"

text \<open>A QoS 2 publish that is sent, and one that is also answered with PUBREC, PUBCOMP never coming.\<close>

definition sent_publish :: "nat \<Rightarrow> SessionEvent list" where
  "sent_publish n = [BeginPublish qos2_publish, RecordPublish qos2_publish (Pid (of_nat n)), Transmitted (of_nat n)]"

definition released_publish :: "nat \<Rightarrow> SessionEvent list" where
  "released_publish n = sent_publish n @ [GotPubRec (pubrec_of (of_nat n))]"

lemma run_events_append:
  "run_events step (xs @ ys) s =
     (case run_events step xs s of (rs, s1) \<Rightarrow> case run_events step ys s1 of (rs', s2) \<Rightarrow> (rs @ rs', s2))"
  by (induction xs arbitrary: s) (auto split: prod.splits)

text \<open>Everything transmitted, \<open>n\<close> the last identifier, \<open>xs\<close> in flight and \<open>ys\<close> released.\<close>

definition settled :: "nat \<Rightarrow> nat list \<Rightarrow> nat list \<Rightarrow> Shared \<Rightarrow> bool" where
  "settled n xs ys sh \<longleftrightarrow> sh_last_pid sh = Pid (of_nat n) \<and> sh_inflight_pub sh = map of_nat xs \<and>
     sh_outgoing_rel sh = map of_nat ys \<and> sh_outgoing_pid sh = []"

lemma pid_word [simp]:
  "m < 65536 \<Longrightarrow> unat (of_nat m :: u16) = m"
  "m < 65536 \<Longrightarrow> k < 65536 \<Longrightarrow> (of_nat m :: u16) = of_nat k \<longleftrightarrow> m = k"
  "0 < m \<Longrightarrow> m < 65536 \<Longrightarrow> (of_nat m :: u16) \<noteq> 0"
  by (auto simp: unsigned_of_nat take_bit_nat_eq_self word_of_nat_eq_iff word_of_nat_eq_0_iff dest: nat_dvd_not_less)

lemma begin_settled:
  assumes "settled n xs ys sh" and "0 < n" "n < 65535" and "length xs < 8"
  shows "session_step (BeginPublish qos2_publish) sh = (Allotted (of_nat (n + 1)), sh\<lparr>sh_last_pid := Pid (of_nat (n + 1))\<rparr>)"
proof -
  have "(of_nat n + 1 :: u16) = of_nat (n + 1)" by simp
  then have "next_pid sh = (Ok (Pid (of_nat (n + 1))), sh\<lparr>sh_last_pid := Pid (of_nat (n + 1))\<rparr>)"
    using assms pid_word(3) [of "n + 1"] by (simp add: next_pid_def pid_add_def nonzero_unwrap_def settled_def del: of_nat_Suc)
  then show ?thesis
    using assms by (simp add: answer_def send_begin_def publish_encode_def publish_get_qos_def MAX_INFLIGHT_def settled_def)
qed

lemma fresh_word: "n < 65536 \<Longrightarrow> \<forall>x \<in> set xs. x < n \<Longrightarrow> (of_nat n :: u16) \<notin> of_nat ` set xs"
  by force

lemma record_settled:
  assumes "settled m xs ys sh" and "n < 65536" and "\<forall>x \<in> set xs. x < n"
  shows "length xs < 8 \<Longrightarrow> fst (session_step (RecordPublish qos2_publish (Pid (of_nat n))) sh) = Silent \<and>
      (0 < n \<longrightarrow> settled m (xs @ [n]) ys (transmitted (of_nat n) (snd (session_step (RecordPublish qos2_publish (Pid (of_nat n))) sh))))"
    and "8 \<le> length xs \<Longrightarrow> fst (session_step (RecordPublish qos2_publish (Pid (of_nat n))) sh) = Crash"
  using assms fresh_word [OF assms(2,3)]
  by (simp_all add: answer_def send_record_def publish_encode_def publish_get_qos_def qos2_publish_def iset_insert_def
      iset_remove_def transmitted_def MAX_INFLIGHT_def settled_def Let_def)

lemma sent_settled:
  assumes "settled n xs ys sh" and "0 < n" "n < 65535" and "length xs < 8" and "\<forall>x \<in> set xs. x \<le> n"
  shows "\<exists>sh'. run_events session_step (sent_publish (n + 1)) sh = ([Allotted (of_nat (n + 1)), Silent, Silent], sh') \<and>
    settled (n + 1) (xs @ [n + 1]) ys sh'"
proof -
  let ?sh = "sh\<lparr>sh_last_pid := Pid (of_nat (n + 1))\<rparr>"
  have b: "session_step (BeginPublish qos2_publish) sh = (Allotted (of_nat (n + 1)), ?sh)"
    by (rule begin_settled [OF assms(1-4)])
  have "settled (n + 1) xs ys ?sh" using assms(1) by (simp add: settled_def)
  from record_settled(1) [OF this, of "n + 1"] assms(3-5)
  have r: "fst (session_step (RecordPublish qos2_publish (Pid (of_nat (n + 1)))) ?sh) = Silent"
    "settled (n + 1) (xs @ [n + 1]) ys
       (transmitted (of_nat (n + 1)) (snd (session_step (RecordPublish qos2_publish (Pid (of_nat (n + 1)))) ?sh)))"
    by force+
  then show ?thesis
    using b by (simp add: sent_publish_def split_beta del: of_nat_Suc of_nat_add session_step.simps(1-6))
qed

lemma released_settled:
  assumes "settled n [] ys sh" and "0 < n" "n < 65535" and "\<forall>y \<in> set ys. y \<le> n"
  shows "length ys < 8 \<Longrightarrow> \<exists>sh'. run_events session_step (released_publish (n + 1)) sh =
      ([Allotted (of_nat (n + 1)), Silent, Silent, SendPubRel (of_nat (n + 1))], sh') \<and> settled (n + 1) [] (ys @ [n + 1]) sh'"
    and "8 \<le> length ys \<Longrightarrow> last (fst (run_events session_step (released_publish (n + 1)) sh)) = Crash"
proof -
  obtain sh' where r: "run_events session_step (sent_publish (n + 1)) sh = ([Allotted (of_nat (n + 1)), Silent, Silent], sh')"
    "settled (n + 1) [n + 1] ys sh'" using sent_settled [OF assms(1-3)] by auto
  have f: "(of_nat (n + 1) :: u16) \<notin> of_nat ` set ys" using fresh_word [of "n + 1" ys] assms(3,4) by force
  note defs = released_publish_def run_events_append answer_def handle_pub_rec_def pubrec_of_def iset_insert_def
    iset_remove_def MAX_INFLIGHT_def settled_def Let_def
  show "length ys < 8 \<Longrightarrow> \<exists>sh'. run_events session_step (released_publish (n + 1)) sh =
      ([Allotted (of_nat (n + 1)), Silent, Silent, SendPubRel (of_nat (n + 1))], sh') \<and> settled (n + 1) [] (ys @ [n + 1]) sh'"
    using r f by (simp add: defs del: of_nat_Suc of_nat_add)
  show "8 \<le> length ys \<Longrightarrow> last (fst (run_events session_step (released_publish (n + 1)) sh)) = Crash"
    using r f by (simp add: defs del: of_nat_Suc of_nat_add)
qed

lemma new_settled: "settled 1 [] [] shared_new"
  by (simp add: settled_def shared_new_def pid_new_def)

lemma many_sent:
  "k \<le> 8 \<Longrightarrow> \<exists>sh. run_events session_step (concat (map sent_publish [2..<k + 2])) shared_new =
     (concat (map (\<lambda>n. [Allotted (of_nat n), Silent, Silent]) [2..<k + 2]), sh) \<and> settled (k + 1) [2..<k + 2] [] sh"
proof (induction k)
  case 0
  then show ?case using new_settled by simp
next
  case (Suc k)
  have side: "length [2..<k + 2] < 8" "\<forall>x \<in> set [2..<k + 2]. x \<le> k + 1" "0 < k + 1" "k + 1 < 65535"
    using Suc.prems by (simp_all del: upt_Suc)
  obtain sh where sh: "run_events session_step (concat (map sent_publish [2..<k + 2])) shared_new =
      (concat (map (\<lambda>n. [Allotted (of_nat n), Silent, Silent]) [2..<k + 2]), sh)" "settled (k + 1) [2..<k + 2] [] sh"
    using Suc by auto
  moreover from sent_settled [OF sh(2) side(3,4,1,2), unfolded add.assoc one_add_one] obtain sh' where
    "run_events session_step (sent_publish (k + 2)) sh = ([Allotted (of_nat (k + 2)), Silent, Silent], sh')"
    "settled (k + 2) ([2..<k + 2] @ [k + 2]) [] sh'" by blast
  moreover have "[2..<Suc k + 2] = [2..<k + 2] @ [k + 2]" by simp
  ultimately show ?case by (simp add: run_events_append del: of_nat_Suc of_nat_add upt_Suc)
qed

lemma many_released:
  "k \<le> 8 \<Longrightarrow> \<exists>sh. run_events session_step (concat (map released_publish [2..<k + 2])) shared_new =
     (concat (map (\<lambda>n. [Allotted (of_nat n), Silent, Silent, SendPubRel (of_nat n)]) [2..<k + 2]), sh) \<and>
     settled (k + 1) [] [2..<k + 2] sh"
proof (induction k)
  case 0
  then show ?case using new_settled by simp
next
  case (Suc k)
  have side: "length [2..<k + 2] < 8" "\<forall>x \<in> set [2..<k + 2]. x \<le> k + 1" "0 < k + 1" "k + 1 < 65535"
    using Suc.prems by (simp_all del: upt_Suc)
  obtain sh where sh: "run_events session_step (concat (map released_publish [2..<k + 2])) shared_new =
      (concat (map (\<lambda>n. [Allotted (of_nat n), Silent, Silent, SendPubRel (of_nat n)]) [2..<k + 2]), sh)"
    "settled (k + 1) [] [2..<k + 2] sh" using Suc by auto
  moreover from released_settled(1) [OF sh(2) side(3,4,2,1), unfolded add.assoc one_add_one] obtain sh' where
    "run_events session_step (released_publish (k + 2)) sh =
       ([Allotted (of_nat (k + 2)), Silent, Silent, SendPubRel (of_nat (k + 2))], sh')"
    "settled (k + 2) [] ([2..<k + 2] @ [k + 2]) sh'" by blast
  moreover have "[2..<Suc k + 2] = [2..<k + 2] @ [k + 2]" by simp
  ultimately show ?case by (simp add: run_events_append del: of_nat_Suc of_nat_add upt_Suc)
qed

text \<open>
  C33: A PUBREC makes the stack panic exactly when its identifier is in flight, not yet released, and eight
  others wait for their PUBCOMP; nine QoS 2 publishes that the broker answers with PUBREC only are such a
  sequence, and the limit on publishes in flight does not prevent it.
\<close>

theorem pub_rec_panics_iff_full:
  "(fst (handle_pub_rec p sh) = Panic \<longleftrightarrow>
      pid_get (pr_pid p) \<in> set (sh_inflight_pub sh) \<and> pid_get (pr_pid p) \<notin> set (sh_outgoing_rel sh) \<and>
      MAX_INFLIGHT \<le> length (sh_outgoing_rel sh)) \<and>
   last (fst (run_events session_step (concat (map released_publish [2, 3, 4, 5, 6, 7, 8, 9, 10])) shared_new)) = Crash"
proof (rule conjI)
  show "fst (handle_pub_rec p sh) = Panic \<longleftrightarrow>
      pid_get (pr_pid p) \<in> set (sh_inflight_pub sh) \<and> pid_get (pr_pid p) \<notin> set (sh_outgoing_rel sh) \<and>
      MAX_INFLIGHT \<le> length (sh_outgoing_rel sh)"
    by (cases "pid_get (pr_pid p) \<in> set (sh_inflight_pub sh)")
      (auto simp: handle_pub_rec_def iset_remove_def iset_insert_def Let_def)
  obtain sh8 rs where 8: "run_events session_step (concat (map released_publish [2..<10])) shared_new = (rs, sh8)"
    "settled 9 [] [2..<10] sh8" using many_released [of 8] by auto
  have "last (fst (run_events session_step (released_publish 10) sh8)) = Crash"
    using released_settled(2) [OF 8(2)] by simp
  moreover have "[2, 3, 4, 5, 6, 7, 8, 9, 10] = [2..<10] @ [10::nat]" by (simp add: upt_rec)
  moreover have "fst (run_events session_step (released_publish 10) sh8) \<noteq> []"
    by (simp add: released_publish_def sent_publish_def split_beta)
  ultimately show "last (fst (run_events session_step (concat (map released_publish [2, 3, 4, 5, 6, 7, 8, 9, 10])) shared_new)) = Crash"
    using 8(1) by (simp add: run_events_append split_beta del: upt_Suc)
qed

text \<open>Two requests that begin: the identifiers they get, and the record of the first one while the session has room.\<close>

lemma begins_two:
  assumes "shared_ok sh" and "length (sh_inflight_pub sh) < MAX_INFLIGHT" and "pids 2 sh = [a, b]"
  shows "session_step (BeginPublish p) sh = (Allotted a, sh\<lparr>sh_last_pid := Pid a\<rparr>)"
    and "session_step (BeginPublish q) (sh\<lparr>sh_last_pid := Pid a\<rparr>) = (Allotted b, sh\<lparr>sh_last_pid := Pid b\<rparr>)" and "a \<noteq> b"
proof -
  have ok: "pid_ok (sh_last_pid sh)" using assms(1) by (simp add: shared_ok_def)
  obtain p1 where 1: "next_pid sh = (Ok p1, sh\<lparr>sh_last_pid := p1\<rparr>)" "pid_ok p1" using next_pid_ok [OF ok] by blast
  obtain p2 where 2: "next_pid (sh\<lparr>sh_last_pid := p1\<rparr>) = (Ok p2, sh\<lparr>sh_last_pid := p2\<rparr>)"
    using next_pid_ok [of "sh\<lparr>sh_last_pid := p1\<rparr>"] 1(2) by auto
  have ab: "Pid a = p1" "Pid b = p2" using assms(3) 1 2 by (cases p1; cases p2; force simp: numeral_2_eq_2)+
  with 1 2 assms(2) show "session_step (BeginPublish p) sh = (Allotted a, sh\<lparr>sh_last_pid := Pid a\<rparr>)"
    "session_step (BeginPublish q) (sh\<lparr>sh_last_pid := Pid a\<rparr>) = (Allotted b, sh\<lparr>sh_last_pid := Pid b\<rparr>)"
    by (auto simp: answer_def send_begin_def)
  show "a \<noteq> b" using pids_distinct [OF ok, of 2] assms(3) by simp
qed

lemma records_publish:
  assumes "pub_qos p \<noteq> AtMostOnce" and "x \<notin> set (sh_inflight_pub sh)" and "x \<notin> set (sh_outgoing_pid sh)"
    and "length (sh_outgoing_pid sh) < MAX_INFLIGHT"
  shows "length (sh_inflight_pub sh) < MAX_INFLIGHT \<Longrightarrow> session_step (RecordPublish p (Pid x)) sh =
      (Silent, sh\<lparr>sh_outgoing_pid := sh_outgoing_pid sh @ [x], sh_inflight_pub := sh_inflight_pub sh @ [x]\<rparr>)"
    and "length (sh_inflight_pub sh) = MAX_INFLIGHT \<Longrightarrow> fst (session_step (RecordPublish p (Pid x)) sh) = Crash"
  using assms by (simp_all add: answer_def send_record_def publish_encode_def publish_get_qos_def iset_insert_def Let_def)

text \<open>
  C34: The check for a free slot and the use of the slot are two steps of \<open>send\<close>, with a wait for buffer space in
  between.  In every session with one slot left for publishes, room for the identifiers of two more requests that are not
  transmitted, and two next identifiers that are not in use: two publishes with an acknowledgement that start before either
  is recorded both pass the check, and the second one panics.  When the first one is recorded before the second one starts,
  the second one is refused with \<open>MaxInflight\<close>.
\<close>

theorem racing_publishes_panic:
  assumes "shared_ok sh" and "length (sh_inflight_pub sh) = MAX_INFLIGHT - 1" and "length (sh_outgoing_pid sh) + 2 \<le> MAX_INFLIGHT"
    and "pids 2 sh = [a, b]" and "{a, b} \<inter> (set (sh_inflight_pub sh) \<union> set (sh_outgoing_pid sh)) = {}"
    and "pub_qos p \<noteq> AtMostOnce" and "pub_qos q \<noteq> AtMostOnce"
  shows "fst (run_events session_step [BeginPublish p, BeginPublish q, RecordPublish p (Pid a), RecordPublish q (Pid b)] sh) =
      [Allotted a, Allotted b, Silent, Crash] \<and>
    fst (run_events session_step [BeginPublish p, RecordPublish p (Pid a), BeginPublish q] sh) = [Allotted a, Silent, Refused MaxInflight]"
proof -
  have room: "length (sh_inflight_pub sh) < MAX_INFLIGHT" "length (sh_outgoing_pid sh) < MAX_INFLIGHT"
    using assms(2,3) by (simp_all add: MAX_INFLIGHT_def)
  note b = begins_two [OF assms(1) room(1) assms(4)]
  let ?sh = "\<lambda>l. sh\<lparr>sh_last_pid := Pid l, sh_outgoing_pid := sh_outgoing_pid sh @ [a], sh_inflight_pub := sh_inflight_pub sh @ [a]\<rparr>"
  have r: "session_step (RecordPublish p (Pid a)) (sh\<lparr>sh_last_pid := Pid l\<rparr>) = (Silent, ?sh l)" for l
    using records_publish(1) [of p a "sh\<lparr>sh_last_pid := Pid l\<rparr>"] assms(5,6) room by simp
  have c: "fst (session_step (RecordPublish q (Pid b)) (?sh b)) = Crash"
    using records_publish(2) [of q b "?sh b"] assms b(3) by (simp add: MAX_INFLIGHT_def)
  have "session_step (BeginPublish q) (?sh a) = (Refused MaxInflight, ?sh a)"
    using assms(2,7) by (simp add: answer_def send_begin_def publish_encode_def publish_get_qos_def MAX_INFLIGHT_def)
  with b r c show ?thesis by (simp add: split_beta del: session_step.simps)
qed

text \<open>After seven publishes that were sent.\<close>

theorem racing_publishes_panic_witness:
  "\<exists>sh. run_events session_step (concat (map sent_publish [2..<9])) shared_new =
       (concat (map (\<lambda>n. [Allotted (of_nat n), Silent, Silent]) [2..<9]), sh) \<and>
     fst (run_events session_step [BeginPublish qos2_publish, BeginPublish qos2_publish, RecordPublish qos2_publish (Pid 9),
       RecordPublish qos2_publish (Pid 10)] sh) = [Allotted 9, Allotted 10, Silent, Crash]"
proof -
  obtain sh where sh: "run_events session_step (concat (map sent_publish [2..<9])) shared_new =
      (concat (map (\<lambda>n. [Allotted (of_nat n), Silent, Silent]) [2..<9]), sh)" "settled 8 [2..<9] [] sh"
    using many_sent [of 7] by auto
  have ok: "shared_ok sh" using session_simulates_runs [OF shared_new_ok, of "concat (map sent_publish [2..<9])"] sh(1) by simp
  have pids: "pids 2 sh = [9, 10]"
  proof -
    have two: "pids 2 s = pids (Suc (Suc 0)) s" for s by (simp only: numeral_2_eq_2)
    show ?thesis using sh(2) unfolding two by (simp add: settled_def next_pid_def pid_add_def nonzero_unwrap_def)
  qed
  have "sh_inflight_pub sh = [2, 3, 4, 5, 6, 7, 8]" "sh_outgoing_pid sh = []" using sh(2) by (simp_all add: settled_def upt_rec)
  with racing_publishes_panic [OF ok _ _ pids, of qos2_publish qos2_publish] sh(1) show ?thesis
    by (simp add: MAX_INFLIGHT_def qos2_publish_def del: session_step.simps)
qed

section \<open>Identifiers\<close>

text \<open>
  C28: The identifiers of up to 65535 consecutive requests are pairwise distinct and never the reserved 0,
  whatever the last identifier was.
\<close>

theorem pids_are_distinct:
  assumes "pid_ok (sh_last_pid sh)" and "n \<le> 65535"
  shows "length (pids n sh) = n \<and> distinct (pids n sh) \<and> 0 \<notin> set (pids n sh)"
  using pids_distinct [OF assms] next_pid_nth [OF assms(1), of n] by blast

theorem pids_are_distinct_witness:
  "length (pids 65535 shared_new) = 65535 \<and> distinct (pids 65535 shared_new) \<and> 0 \<notin> set (pids 65535 shared_new)"
  using pids_are_distinct [of shared_new 65535] by (simp add: shared_new_def pid_new_def pid_ok_def)

section \<open>Topic filters\<close>

text \<open>
  C20: A topic filter that \<open>new\<close> accepts matches exactly the topics given by a level by level specification:
  a plus stands for any one level, a hash as the last level for one or more remaining levels, and any other
  level for itself.  The shortcut for filters without wildcards agrees with the general rule.  (MQTT lets a
  final hash stand for no level as well, so that a filter \<open>a/#\<close> also covers the topic \<open>a\<close>; the code does not.)
\<close>

theorem topic_filter_matches_spec:
  assumes "topic_filter_new flt = Ok tf"
  shows "is_match tf topic \<longleftrightarrow> topic_matches (split_on c_slash flt) (split_on c_slash topic)"
  by (rule is_match_iff [OF assms])

theorem topic_filter_matches_spec_witness:
  "is_match \<lparr>tf_filter = ascii ''a/+/c/#'', tf_has_wildcards = True\<rparr> (ascii ''a/b/c/d/e'') \<longleftrightarrow>
     topic_matches [ascii ''a'', ascii ''+'', ascii ''c'', ascii ''#''] [ascii ''a'', ascii ''b'', ascii ''c'', ascii ''d'', ascii ''e'']"
proof -
  have "topic_filter_new (ascii ''a/+/c/#'') = Ok \<lparr>tf_filter = ascii ''a/+/c/#'', tf_has_wildcards = True\<rparr>"
    by code_simp
  moreover have "split_on c_slash (ascii ''a/+/c/#'') = [ascii ''a'', ascii ''+'', ascii ''c'', ascii ''#'']"
    "split_on c_slash (ascii ''a/b/c/d/e'') = [ascii ''a'', ascii ''b'', ascii ''c'', ascii ''d'', ascii ''e'']"
    by code_simp+
  ultimately show ?thesis using topic_filter_matches_spec [of "ascii ''a/+/c/#''" _ "ascii ''a/b/c/d/e''"] by (simp only:)
qed

end
