(* ===== verification/Transports.thy ===== *)
theory Transports
  imports Received_Packet Topic_Filter
begin

text \<open>
  Broker addresses (\<open>src/broker.rs\<close>) and transports (\<open>src/transport/\<close>).

  The network stack, the resolver and the TLS library are code of other crates: their operations
  (\<open>TcpConnect::connect\<close>, \<open>Dns::get_host_by_name\<close>, \<open>embedded_tls::TlsConnection::open\<close>) are arguments of
  the definitions that call them.  The contract of the crate's \<open>Transport\<close> trait is the locale
  \<open>transport\<close>; \<open>reconnecting\<close> adds what a transport with a socket of its own promises about
  \<open>disconnect\<close>.
\<close>

section \<open>Addresses\<close>

datatype IpAddr = V4 u32 | V6 "u16 list"

record SocketAddr =
  sa_ip :: IpAddr
  sa_port :: u16

fun is_unspecified :: "IpAddr \<Rightarrow> bool" where
  "is_unspecified (V4 a) = (a = 0)"
| "is_unspecified (V6 segs) = (\<forall>s \<in> set segs. s = 0)"

definition MQTT_DEFAULT_PORT :: "bool \<Rightarrow> u16" where
  "MQTT_DEFAULT_PORT embedded_tls = (if embedded_tls then 8883 else 1883)"

text \<open>\<open>str::split_once\<close>\<close>

definition split_once :: "u8 \<Rightarrow> str \<Rightarrow> (str \<times> str) option" where
  "split_once c s = map_option (\<lambda>i. (take i s, drop (i + 1) s)) (position (\<lambda>b. b = c) s)"

definition c_colon :: u8 where "c_colon = 0x3A"
definition c_dot :: u8 where "c_dot = 0x2E"

text \<open>\<open>u16::from_str\<close>: an optional plus sign and decimal digits, refusing the empty string and overflow.\<close>

definition digit :: "u8 \<Rightarrow> nat option" where
  "digit b = (if 0x30 \<le> b \<and> b \<le> 0x39 then Some (unat b - 0x30) else None)"

fun parse_digits :: "nat \<Rightarrow> nat \<Rightarrow> str \<Rightarrow> nat option" where
  "parse_digits limit n [] = Some n"
| "parse_digits limit n (b # bs) =
     (case digit b of
        None \<Rightarrow> None
      | Some d \<Rightarrow> if limit \<le> 10 * n + d then None else parse_digits limit (10 * n + d) bs)"

definition parse_u16 :: "str \<Rightarrow> u16 option" where
  "parse_u16 s =
     (let ds = (case s of b # bs \<Rightarrow> if b = 0x2B then bs else s | [] \<Rightarrow> s) in
      if ds = [] then None else map_option of_nat (parse_digits 65536 0 ds))"

text \<open>\<open>Ipv4Addr::from_str\<close>: four decimal octets of one to three digits, without leading zeros.\<close>

definition parse_octet :: "str \<Rightarrow> nat option" where
  "parse_octet s =
     (if s = [] \<or> 3 < length s \<or> (1 < length s \<and> hd s = 0x30) then None else parse_digits 256 0 s)"

definition parse_ipv4 :: "str \<Rightarrow> u32 option" where
  "parse_ipv4 s =
     (case map parse_octet (split_on c_dot s) of
        [Some a, Some b, Some c, Some d] \<Rightarrow> Some (of_nat (((a * 256 + b) * 256 + c) * 256 + d))
      | _ \<Rightarrow> None)"

definition ipv4_or_unspecified :: "str \<Rightarrow> IpAddr" where
  "ipv4_or_unspecified s = V4 (case parse_ipv4 s of Some a \<Rightarrow> a | None \<Rightarrow> 0)"

section \<open>Brokers\<close>

text \<open>
  \<open>DomainBroker<R, T>\<close>; \<open>parse_sock\<close> is the standard library's \<open>SocketAddr::from_str\<close>, \<open>T\<close> the capacity
  of the name.
\<close>

record DomainBroker =
  db_raw :: str
  db_addr :: SocketAddr

definition domain_broker_new ::
  "bool \<Rightarrow> (str \<Rightarrow> SocketAddr option) \<Rightarrow> nat \<Rightarrow> str \<Rightarrow> (unit, DomainBroker) result" where
  "domain_broker_new embedded_tls parse_sock T broker =
     (let addr =
        (case parse_sock broker of
           Some a \<Rightarrow> a
         | None \<Rightarrow>
             (let port =
                (case split_once c_colon broker of
                   Some (b, port) \<Rightarrow> (case parse_u16 port of Some p \<Rightarrow> p | None \<Rightarrow> MQTT_DEFAULT_PORT embedded_tls)
                 | None \<Rightarrow> MQTT_DEFAULT_PORT embedded_tls)
              in \<lparr>sa_ip = ipv4_or_unspecified broker, sa_port = port\<rparr>))
      in if T < length broker then Err () else Ok \<lparr>db_raw = broker, db_addr = addr\<rparr>)"

definition domain_broker_new_with_port :: "nat \<Rightarrow> str \<Rightarrow> u16 \<Rightarrow> (unit, DomainBroker) result" where
  "domain_broker_new_with_port T endpoint port =
     (if T < length endpoint then Err ()
      else Ok \<lparr>db_raw = endpoint, db_addr = \<lparr>sa_ip = ipv4_or_unspecified endpoint, sa_port = port\<rparr>\<rparr>)"

definition get_hostname :: "DomainBroker \<Rightarrow> str option" where
  "get_hostname db =
     Some (case split_once c_colon (db_raw db) of Some (h, _) \<Rightarrow> h | None \<Rightarrow> db_raw db)"

text \<open>\<open>get_address\<close>; the resolver gives an address or fails.\<close>

definition domain_get_address ::
  "(str \<Rightarrow> IpAddr option) \<Rightarrow> DomainBroker \<Rightarrow> SocketAddr option \<times> DomainBroker" where
  "domain_get_address get_host_by_name db =
     (let hostname = (case split_once c_colon (db_raw db) of Some (h, _) \<Rightarrow> h | None \<Rightarrow> db_raw db);
          db1 =
            (if is_unspecified (sa_ip (db_addr db)) then
               (case get_host_by_name hostname of
                  Some ip \<Rightarrow> db\<lparr>db_addr := (db_addr db)\<lparr>sa_ip := ip\<rparr>\<rparr>
                | None \<Rightarrow> db)
             else db)
      in (if \<not> is_unspecified (sa_ip (db_addr db1)) then Some (db_addr db1) else None, db1))"

record IpBroker =
  ib_addr :: SocketAddr

definition ip_broker_new :: "IpAddr \<Rightarrow> u16 \<Rightarrow> IpBroker" where
  "ip_broker_new broker port = \<lparr>ib_addr = \<lparr>sa_ip = broker, sa_port = port\<rparr>\<rparr>"

definition ip_get_address :: "IpBroker \<Rightarrow> SocketAddr option \<times> IpBroker" where
  "ip_get_address b = (Some (ib_addr b), b)"

definition ip_broker_from :: "SocketAddr \<Rightarrow> IpBroker" where
  "ip_broker_from addr = ip_broker_new (sa_ip addr) (sa_port addr)"

section \<open>The transport contract\<close>

locale transport =
  fixes connect :: "'t \<Rightarrow> (ConnectionError, unit) result \<times> 't"
    and disconnect :: "'t \<Rightarrow> (ConnectionError, unit) result \<times> 't"
    and is_connected :: "'t \<Rightarrow> bool"
    and socket :: "'t \<Rightarrow> (StateError, 's) result"
    and inv :: "'t \<Rightarrow> bool"
  assumes connect_ok: "inv t \<Longrightarrow> connect t = (Ok (), t') \<Longrightarrow> inv t' \<and> is_connected t'"
    and connect_inv: "inv t \<Longrightarrow> inv (snd (connect t))"
    and disconnect_ok: "inv t \<Longrightarrow> fst (disconnect t) = Ok () \<and> inv (snd (disconnect t))"
    and socket_iff: "inv t \<Longrightarrow> is_connected t \<longleftrightarrow> is_ok (socket t)"
    and socket_err: "inv t \<Longrightarrow> \<not> is_connected t \<Longrightarrow> socket t = Err (Io NotConnected)"
begin

lemma socket_after_connect: "inv t \<Longrightarrow> connect t = (Ok (), t') \<Longrightarrow> \<exists>s. socket t' = Ok s"
  using connect_ok [of t t'] socket_iff [of t'] by (auto simp: is_ok_iff)

end

locale reconnecting = transport +
  assumes disconnected: "inv t \<Longrightarrow> \<not> is_connected (snd (disconnect t))"
begin

lemma no_socket_after_disconnect: "inv t \<Longrightarrow> socket (snd (disconnect t)) = Err (Io NotConnected)"
  using disconnected disconnect_ok socket_err by blast

end

section \<open>TCP\<close>

text \<open>
  \<open>NalTransport\<close>: the broker's \<open>get_address\<close> and the network's \<open>connect\<close> are arguments; \<open>'b\<close> is the state
  of the broker, \<open>'s\<close> a socket.
\<close>

record ('b, 's) NalTransport =
  nal_broker :: 'b
  nal_socket :: "'s option"

definition nal_new :: "'b \<Rightarrow> ('b, 's) NalTransport" where
  "nal_new broker = \<lparr>nal_broker = broker, nal_socket = None\<rparr>"

definition nal_connect ::
  "('b \<Rightarrow> SocketAddr option \<times> 'b) \<Rightarrow> (SocketAddr \<Rightarrow> (ErrorKind, 's) result) \<Rightarrow>
   ('b, 's) NalTransport \<Rightarrow> (ConnectionError, unit) result \<times> ('b, 's) NalTransport" where
  "nal_connect get_address net t =
     (case get_address (nal_broker t) of
        (None, b) \<Rightarrow> (Err InvalidAddress, t\<lparr>nal_broker := b\<rparr>)
      | (Some addr, b) \<Rightarrow>
          (case net addr of
             Ok s \<Rightarrow> (Ok (), t\<lparr>nal_broker := b, nal_socket := Some s\<rparr>)
           | Err k \<Rightarrow> (Err (ConnIo k), t\<lparr>nal_broker := b\<rparr>)
           | Panic \<Rightarrow> (Panic, t\<lparr>nal_broker := b\<rparr>)))"

definition nal_disconnect :: "('b, 's) NalTransport \<Rightarrow> (ConnectionError, unit) result \<times> ('b, 's) NalTransport" where
  "nal_disconnect t = (Ok (), t\<lparr>nal_socket := None\<rparr>)"

definition nal_is_connected :: "('b, 's) NalTransport \<Rightarrow> bool" where
  "nal_is_connected t \<longleftrightarrow> nal_socket t \<noteq> None"

definition nal_get_socket :: "('b, 's) NalTransport \<Rightarrow> (StateError, 's) result" where
  "nal_get_socket t = (case nal_socket t of Some s \<Rightarrow> Ok s | None \<Rightarrow> Err (Io NotConnected))"

interpretation nal: reconnecting "nal_connect get_address net" nal_disconnect nal_is_connected nal_get_socket "\<lambda>_. True"
  by unfold_locales
    (auto simp: nal_connect_def nal_disconnect_def nal_is_connected_def nal_get_socket_def
      split: prod.splits option.splits result.splits)

section \<open>A connected socket\<close>

definition cs_connect :: "'s \<Rightarrow> (ConnectionError, unit) result \<times> 's" where
  "cs_connect t = (Ok (), t)"

definition cs_disconnect :: "'s \<Rightarrow> (ConnectionError, unit) result \<times> 's" where
  "cs_disconnect t = (Ok (), t)"

definition cs_is_connected :: "'s \<Rightarrow> bool" where
  "cs_is_connected t = True"

definition cs_socket :: "'s \<Rightarrow> (StateError, 's) result" where
  "cs_socket t = Ok t"

interpretation connected_socket: transport cs_connect cs_disconnect cs_is_connected cs_socket "\<lambda>_. True"
  by unfold_locales (auto simp: cs_connect_def cs_disconnect_def cs_is_connected_def cs_socket_def)

section \<open>TLS\<close>

text \<open>
  The buffer pool of \<open>TlsState\<close>: one flag per buffer; a pointer to buffer \<open>n\<close> is \<open>n\<close>.
\<close>

type_synonym Pool = "bool list"

definition pool_new :: "nat \<Rightarrow> Pool" where
  "pool_new N = replicate N False"

definition pool_alloc :: "Pool \<Rightarrow> nat option \<times> Pool" where
  "pool_alloc p =
     (case position (\<lambda>used. \<not> used) p of
        Some n \<Rightarrow> (Some n, p[n := True])
      | None \<Rightarrow> (None, p))"

definition pool_free :: "nat \<Rightarrow> Pool \<Rightarrow> ('e, Pool) result" where
  "pool_free n p = (if n < length p then Ok (p[n := False]) else Panic)"

record 's TlsConnection =
  tls_socket :: 's
  tls_bufs :: nat

record ('b, 's) TlsTransport =
  tt_broker :: 'b
  tt_socket :: "'s TlsConnection option"
  tt_pool :: Pool

definition tls_new :: "'b \<Rightarrow> Pool \<Rightarrow> ('b, 's) TlsTransport" where
  "tls_new broker pool = \<lparr>tt_broker = broker, tt_socket = None, tt_pool = pool\<rparr>"

text \<open>\<open>Drop for TlsConnection\<close>, on whatever the option holds.\<close>

definition tls_drop :: "'s TlsConnection option \<Rightarrow> Pool \<Rightarrow> ('e, Pool) result" where
  "tls_drop c p = (case c of None \<Rightarrow> Ok p | Some c \<Rightarrow> pool_free (tls_bufs c) p)"

text \<open>
  \<open>open\<close> is \<open>embedded_tls::TlsConnection::open\<close> under the five second timeout: \<open>None\<close> for the timeout, an
  error, or the opened connection.  A connection that is not stored is dropped, as is the one that the
  new connection replaces.
\<close>

definition tls_connect ::
  "('b \<Rightarrow> SocketAddr option \<times> 'b) \<Rightarrow> (SocketAddr \<Rightarrow> (ErrorKind, 's) result) \<Rightarrow>
   ('s \<Rightarrow> (ErrorKind, 's) result option) \<Rightarrow> ErrorKind \<Rightarrow>
   ('b, 's) TlsTransport \<Rightarrow> (ConnectionError, unit) result \<times> ('b, 's) TlsTransport" where
  "tls_connect get_address net open_tls insufficient t =
     (case get_address (tt_broker t) of
        (None, b) \<Rightarrow> (Err InvalidAddress, t\<lparr>tt_broker := b\<rparr>)
      | (Some addr, b) \<Rightarrow>
          (let t1 = t\<lparr>tt_broker := b\<rparr> in
           case net addr of
             Err k \<Rightarrow> (Err (ConnIo k), t1)
           | Panic \<Rightarrow> (Panic, t1)
           | Ok s \<Rightarrow>
               (case pool_alloc (tt_pool t1) of
                  (None, _) \<Rightarrow> (Err (ConnIo insufficient), t1)
                | (Some n, pool) \<Rightarrow>
                    (case open_tls s of
                       Some (Ok s') \<Rightarrow>
                         (case tls_drop (tt_socket t1) pool of
                            Ok pool' \<Rightarrow> (Ok (), t1\<lparr>tt_socket := Some \<lparr>tls_socket = s', tls_bufs = n\<rparr>, tt_pool := pool'\<rparr>)
                          | Err e \<Rightarrow> (Err e, t1)
                          | Panic \<Rightarrow> (Panic, t1))
                     | Some Panic \<Rightarrow> (Panic, t1)
                     | r \<Rightarrow>
                         (case pool_free n pool of
                            Ok pool' \<Rightarrow>
                              (Err (case r of Some (Err k) \<Rightarrow> ConnIo k | _ \<Rightarrow> NetworkTimeout), t1\<lparr>tt_pool := pool'\<rparr>)
                          | Err e \<Rightarrow> (Err e, t1)
                          | Panic \<Rightarrow> (Panic, t1))))))"

definition tls_disconnect :: "('b, 's) TlsTransport \<Rightarrow> (ConnectionError, unit) result \<times> ('b, 's) TlsTransport" where
  "tls_disconnect t =
     (case tls_drop (tt_socket t) (tt_pool t) of
        Ok pool \<Rightarrow> (Ok (), t\<lparr>tt_socket := None, tt_pool := pool\<rparr>)
      | Err e \<Rightarrow> (Err e, t)
      | Panic \<Rightarrow> (Panic, t))"

definition tls_is_connected :: "('b, 's) TlsTransport \<Rightarrow> bool" where
  "tls_is_connected t \<longleftrightarrow> tt_socket t \<noteq> None"

definition tls_get_socket :: "('b, 's) TlsTransport \<Rightarrow> (StateError, 's TlsConnection) result" where
  "tls_get_socket t = (case tt_socket t of Some s \<Rightarrow> Ok s | None \<Rightarrow> Err (Io NotConnected))"

text \<open>The buffer of the only connection is the only one in use.\<close>

definition tls_ok :: "('b, 's) TlsTransport \<Rightarrow> bool" where
  "tls_ok t \<longleftrightarrow> tt_pool t = [tt_socket t \<noteq> None] \<and> (\<forall>c. tt_socket t = Some c \<longrightarrow> tls_bufs c = 0)"

interpretation tls: reconnecting "tls_connect get_address net open_tls insufficient" tls_disconnect tls_is_connected
  tls_get_socket tls_ok
  by unfold_locales
    (auto simp: tls_connect_def tls_disconnect_def tls_is_connected_def tls_get_socket_def tls_ok_def tls_drop_def
      pool_alloc_def pool_free_def Let_def split: prod.splits option.splits result.splits if_splits)

lemma tls_new_ok: "tls_ok (tls_new b (pool_new 1))"
  by (simp add: tls_ok_def tls_new_def pool_new_def)

lemma tls_connect_not_Panic:
  assumes "tls_ok t" and "\<And>a. net a \<noteq> Panic" and "\<And>s. open_tls s \<noteq> Some Panic"
  shows "fst (tls_connect get_address net open_tls insufficient t) \<noteq> Panic"
  using assms
  by (auto simp: tls_connect_def tls_ok_def tls_drop_def pool_alloc_def pool_free_def Let_def
      split: prod.splits option.splits result.splits if_splits)

end
