(* ===== verification/Run.thy ===== *)
theory Run
  imports Stack Transports
begin

text \<open>
  \<open>MqttStack::run\<close> and \<open>disconnect\<close> of \<open>src/stack.rs\<close>: connecting, reconnecting with backoff, and one
  \<open>select\<close> after the other.

  What the environment decides is an argument of a step: which branch of \<open>select3\<close> is ready first and
  how far the dropped \<open>recv\<close> future had got, and where the timeout cuts a connection attempt, if it
  does.  A step that does not return (\<open>recv\<close> looping without an \<open>await\<close> that is pending) is \<open>None\<close>.
\<close>

section \<open>Transports\<close>

text \<open>
  The trait \<open>Transport\<close>.  \<open>socket\<close> gives a mutable reference; \<open>tr_set_socket\<close> writes the socket back
  when its user is done with it.
\<close>

record ('t, 's) Transport =
  tr_connect :: "'t \<Rightarrow> (ConnectionError, unit) result \<times> 't"
  tr_disconnect :: "'t \<Rightarrow> (ConnectionError, unit) result \<times> 't"
  tr_is_connected :: "'t \<Rightarrow> bool"
  tr_socket :: "'t \<Rightarrow> (StateError, 's) result"
  tr_set_socket :: "'s \<Rightarrow> 't \<Rightarrow> 't"

text \<open>The three implementations: TCP, a socket that is already connected, and TLS.\<close>

definition nal_transport ::
  "('b \<Rightarrow> SocketAddr option \<times> 'b) \<Rightarrow> (SocketAddr \<Rightarrow> (ErrorKind, 's) result) \<Rightarrow> (('b, 's) NalTransport, 's) Transport" where
  "nal_transport get_address net =
     \<lparr>tr_connect = nal_connect get_address net, tr_disconnect = nal_disconnect, tr_is_connected = nal_is_connected,
      tr_socket = nal_get_socket, tr_set_socket = (\<lambda>s t. t\<lparr>nal_socket := Some s\<rparr>)\<rparr>"

definition cs_transport :: "('s, 's) Transport" where
  "cs_transport =
     \<lparr>tr_connect = cs_connect, tr_disconnect = cs_disconnect, tr_is_connected = cs_is_connected,
      tr_socket = cs_socket, tr_set_socket = (\<lambda>s t. s)\<rparr>"

definition tls_transport ::
  "('b \<Rightarrow> SocketAddr option \<times> 'b) \<Rightarrow> (SocketAddr \<Rightarrow> (ErrorKind, 's) result) \<Rightarrow>
   ('s \<Rightarrow> (ErrorKind, 's) result option) \<Rightarrow> ErrorKind \<Rightarrow> (('b, 's) TlsTransport, 's TlsConnection) Transport" where
  "tls_transport get_address net open_tls insufficient =
     \<lparr>tr_connect = tls_connect get_address net open_tls insufficient, tr_disconnect = tls_disconnect,
      tr_is_connected = tls_is_connected, tr_socket = tls_get_socket, tr_set_socket = (\<lambda>s t. t\<lparr>tt_socket := Some s\<rparr>)\<rparr>"

section \<open>Dropped futures\<close>

text \<open>\<open>n\<close> rounds of the loop of \<open>recv\<close>, after which the future is dropped; a round that fails is the last.\<close>

fun read_chunks :: "'s Socket \<Rightarrow> nat \<Rightarrow> PacketReader \<Rightarrow> 's \<Rightarrow> PacketReader \<times> 's" where
  "read_chunks sk 0 pr s = (pr, s)"
| "read_chunks sk (Suc n) pr s =
     (if pr_packet_len pr \<noteq> None then (pr, s)
      else
        case read_chunk sk pr s of
          (Ok _, pr1, s1) \<Rightarrow> read_chunks sk n pr1 s1
        | (_, pr1, s1) \<Rightarrow> (pr1, s1))"

text \<open>\<open>recv\<close> polled, with \<open>n\<close> chunks read, and dropped; \<open>None\<close> when it was never polled.\<close>

fun recv_dropped :: "'s Socket \<Rightarrow> nat option \<Rightarrow> PacketReader \<Rightarrow> 's \<Rightarrow> PacketReader \<times> 's" where
  "recv_dropped sk None pr s = (pr, s)"
| "recv_dropped sk (Some n) pr s =
     read_chunks sk n (if pr_packet_len pr \<noteq> None then reader_reset pr else pr) s"

text \<open>
  Where \<open>with_timeout\<close> drops the connection attempt: never, while the transport connects (leaving it in
  some state), while CONNECT is written (leaving the socket in some state), or while waiting for CONNACK.
\<close>

datatype ('t, 's) Cut = NoCut | CutConnect 't | CutSend 's | CutRecv "nat option"

text \<open>The future under the timeout; the inner \<open>None\<close> is the timeout.\<close>

definition connect_attempt ::
  "('t, 's) Transport \<Rightarrow> 's Socket \<Rightarrow> ('t, 's) Cut \<Rightarrow> nat \<Rightarrow> Node \<Rightarrow> 't \<Rightarrow>
   ((ConnectionError, bool) result option \<times> Node \<times> 't) option" where
  "connect_attempt tr sk ct now nd t =
     (case ct of
        CutConnect t1 \<Rightarrow> Some (None, nd, t1)
      | _ \<Rightarrow>
          (case tr_connect tr t of
             (Err e, t1) \<Rightarrow> Some (Some (Err e), nd, t1)
           | (Panic, t1) \<Rightarrow> Some (Some Panic, nd, t1)
           | (Ok _, t1) \<Rightarrow>
               (case tr_socket tr t1 of
                  Err e \<Rightarrow> Some (Some (Err (MqttState e)), nd, t1)
                | Panic \<Rightarrow> Some (Some Panic, nd, t1)
                | Ok s \<Rightarrow>
                    (case ct of
                       CutSend s1 \<Rightarrow> Some (None, nd, tr_set_socket tr s1 t1)
                     | CutRecv n \<Rightarrow>
                         (case connect_send sk now nd s of
                            (Ok _, nd1, s1) \<Rightarrow>
                              (case recv_dropped sk n (nd_reader nd1) s1 of
                                 (pr, s2) \<Rightarrow> Some (None, nd1\<lparr>nd_reader := pr\<rparr>, tr_set_socket tr s2 t1))
                          | (Err e, nd1, s1) \<Rightarrow> Some (Some (Err e), nd1, tr_set_socket tr s1 t1)
                          | (Panic, nd1, s1) \<Rightarrow> Some (Some Panic, nd1, tr_set_socket tr s1 t1))
                     | _ \<Rightarrow>
                         map_option (\<lambda>(r, nd1, s1). (Some r, nd1, tr_set_socket tr s1 t1))
                           (connect_mqtt sk now nd s)))))"

text \<open>An attempt that does not succeed leaves the counter of the attempts and the backoff as they are.\<close>

lemma handle_connack_backoff: "handle_connack p cfg = (r, cfg') \<Longrightarrow> cfg_backoff_algo cfg' = cfg_backoff_algo cfg"
proof -
  have "cfg_backoff_algo (connack_property c x) = cfg_backoff_algo c" for c x by (cases "(c, x)" rule: connack_property.cases) simp_all
  then have "cfg_backoff_algo (foldl connack_property c xs) = cfg_backoff_algo c" for c xs by (induction xs arbitrary: c) simp_all
  then show "handle_connack p cfg = (r, cfg') \<Longrightarrow> ?thesis" by (auto simp: handle_connack_def Let_def split: result.splits if_splits)
qed

lemma connect_attempt_attempts:
  assumes "connect_attempt tr sk ct now nd t = Some (r, nd', t')" and "\<And>b. r \<noteq> Some (Ok b)"
  shows "nd_connect_attempts nd' = nd_connect_attempts nd" and "cfg_backoff_algo (nd_config nd') = cfg_backoff_algo (nd_config nd)"
  using assms
  by (auto simp: connect_attempt_def connect_mqtt_def connect_answer_def connect_send_def
      dest: handle_connack_backoff split: Cut.splits prod.splits result.splits ReceivedPacket.splits)

section \<open>\<open>select\<close>\<close>

text \<open>
  The branch of \<open>select3\<close> that completes first, and what the dropped \<open>recv\<close> had read by then.  The branches are polled
  in the order of the arguments: a TX frame that is ready at once means that \<open>recv\<close> is never polled (\<open>TxReady None\<close>);
  the timer is polled after \<open>recv\<close>, which was then polled at least once.
\<close>

datatype Branch = TxReady "nat option" | RxReady | KeepAliveExpired nat

definition select ::
  "'s Socket \<Rightarrow> Branch \<Rightarrow> nat \<Rightarrow> Node \<Rightarrow> 's \<Rightarrow> ((StateError, unit) result \<times> Node \<times> 's) option" where
  "select sk branch now nd s =
     (case branch of
        RxReady \<Rightarrow> select_rx sk now nd s
      | TxReady n \<Rightarrow>
          (case recv_dropped sk n (nd_reader nd) s of (pr, s1) \<Rightarrow> Some (select_tx sk now (nd\<lparr>nd_reader := pr\<rparr>) s1))
      | KeepAliveExpired n \<Rightarrow>
          (case recv_dropped sk (Some n) (nd_reader nd) s of
             (pr, s1) \<Rightarrow> Some (select_keep_alive sk now (nd\<lparr>nd_reader := pr\<rparr>) s1)))"

text \<open>When a branch can be the one that is ready: started at \<open>start\<close>, decided at \<open>now\<close>.\<close>

definition branch_ready :: "Branch \<Rightarrow> nat \<Rightarrow> nat \<Rightarrow> Node \<Rightarrow> bool" where
  "branch_ready branch start now nd =
     (case branch of
        RxReady \<Rightarrow> True
      | TxReady _ \<Rightarrow> is_ok (fst (read_with_context True (nd_tx_sub nd) (ch_state (nd_tx nd))))
      | KeepAliveExpired _ \<Rightarrow>
          start + calculate_keep_alive_sleep (nd_last_network_action nd) (cfg_keepalive_interval (nd_config nd)) start \<le> now)"

section \<open>\<open>run\<close>\<close>

text \<open>How one iteration of the loop ends: with the next one, with the next one after a backoff, or for good.\<close>

datatype RunOutcome = Again | AgainAfter duration | Stopped | Panicked

definition run_select ::
  "('t, 's) Transport \<Rightarrow> 's Socket \<Rightarrow> Branch \<Rightarrow> nat \<Rightarrow> Node \<Rightarrow> 't \<Rightarrow> (RunOutcome \<times> Node \<times> 't) option" where
  "run_select tr sk branch now nd t =
     (case tr_socket tr t of
        Panic \<Rightarrow> Some (Panicked, nd, t)
      | Err e \<Rightarrow> Some (Again, stack_reset nd, snd (tr_disconnect tr t))
      | Ok s \<Rightarrow>
          map_option (\<lambda>(r, nd1, s1).
            let t1 = tr_set_socket tr s1 t in
            case r of
              Ok _ \<Rightarrow> (Again, nd1, t1)
            | Err e \<Rightarrow> (Again, stack_reset nd1, snd (tr_disconnect tr t1))
            | Panic \<Rightarrow> (Panicked, nd1, t1))
            (select sk branch now nd s))"

definition connect_failed :: "('t, 's) Transport \<Rightarrow> Node \<Rightarrow> 't \<Rightarrow> RunOutcome \<times> Node \<times> 't" where
  "connect_failed tr nd t =
     (let t1 = snd (tr_disconnect tr t) in
      case cfg_backoff_algo (nd_config nd) (nd_connect_attempts nd) of
        None \<Rightarrow> (Stopped, nd, t1)
      | Some backoff \<Rightarrow>
          if unat (nd_connect_attempts nd) = 255 then (Panicked, nd, t1)
          else (AgainAfter backoff, nd\<lparr>nd_connect_attempts := nd_connect_attempts nd + 1\<rparr>, t1))"

definition run_step ::
  "('t, 's) Transport \<Rightarrow> 's Socket \<Rightarrow> ('t, 's) Cut \<Rightarrow> Branch \<Rightarrow> nat \<Rightarrow> Node \<Rightarrow> 't \<Rightarrow> (RunOutcome \<times> Node \<times> 't) option" where
  "run_step tr sk ct branch now nd t =
     (if tr_is_connected tr t then run_select tr sk branch now nd t
      else
        case connect_attempt tr sk ct now (with_shared (set_connected None) nd) t of
          None \<Rightarrow> None
        | Some (Some (Ok session_present), nd1, t1) \<Rightarrow>
            run_select tr sk branch now (with_shared (set_connected (Some session_present)) nd1) t1
        | Some (Some Panic, nd1, t1) \<Rightarrow> Some (Panicked, nd1, t1)
        | Some (_, nd1, t1) \<Rightarrow> Some (connect_failed tr nd1 t1))"

text \<open>
  The loop, driven by what the environment decides in each iteration: the outcomes so far, until it stops,
  panics or hangs, or the decisions run out.
\<close>

fun run ::
  "('t, 's) Transport \<Rightarrow> 's Socket \<Rightarrow> (('t, 's) Cut \<times> Branch \<times> nat) list \<Rightarrow> Node \<Rightarrow> 't \<Rightarrow>
   RunOutcome list \<times> Node \<times> 't" where
  "run tr sk [] nd t = ([], nd, t)"
| "run tr sk ((ct, branch, now) # ds) nd t =
     (case run_step tr sk ct branch now nd t of
        None \<Rightarrow> ([], nd, t)
      | Some (out, nd1, t1) \<Rightarrow>
          if out = Stopped \<or> out = Panicked then ([out], nd1, t1)
          else case run tr sk ds nd1 t1 of (outs, r) \<Rightarrow> (out # outs, r))"

section \<open>\<open>disconnect\<close>\<close>

definition stack_disconnect ::
  "('t, 's) Transport \<Rightarrow> 's Socket \<Rightarrow> Node \<Rightarrow> 't \<Rightarrow> (ConnectionError, unit) result \<times> Node \<times> 't" where
  "stack_disconnect tr sk nd t =
     (case encode_packet disconnect_to_buffer
             \<lparr>dc_reason_code = DR_Normal, dc_properties = Slice [SessionExpiryInterval 0]\<rparr> (nd_write_buf nd) of
        Err e \<Rightarrow> (Err (MqttState e), nd, t)
      | Panic \<Rightarrow> (Panic, nd, t)
      | Ok bs \<Rightarrow>
          (case tr_socket tr t of
             Err e \<Rightarrow> (Err (MqttState e), nd, t)
           | Panic \<Rightarrow> (Panic, nd, t)
           | Ok s \<Rightarrow>
               (case write_bytes sk bs s of
                  (Err e, s1) \<Rightarrow> (Err (MqttState e), nd, tr_set_socket tr s1 t)
                | (Panic, s1) \<Rightarrow> (Panic, nd, tr_set_socket tr s1 t)
                | (Ok _, s1) \<Rightarrow>
                    (case tr_disconnect tr (tr_set_socket tr s1 t) of
                       (Ok _, t1) \<Rightarrow> (Ok (), with_shared shared_reset nd, t1)
                     | (Err e, t1) \<Rightarrow> (Err e, nd, t1)
                     | (Panic, t1) \<Rightarrow> (Panic, nd, t1)))))"

end
