(* ===== verification/Delivery.thy ===== *)
theory Delivery
  imports Run Client Reader_Properties Pubsub_World
begin

text \<open>
  Both directions of a message through the node: a PUBLISH from the socket through the RX channel to a
  subscription, and a packet of the client through the TX channel to the socket.  \<open>commit_read\<close> is the
  step both share: what is committed is what the next reader gets.
\<close>

section \<open>Through a channel\<close>

definition chan_ok :: "Channel \<Rightarrow> FrameSubscriber list \<Rightarrow> bool" where
  "chan_ok ch subs \<longleftrightarrow> st_ok (ch_state ch) None subs \<and> ps_capacity (ch_state ch) = length (ch_buf ch)"

lemma commit_read:
  assumes ok: "st_ok st (Some g) subs" and k: "k < length subs"
    and next_: "fs_next_message_id (subs ! k) = ps_next_message_id st"
    and used: "used \<le> gw_size g" "used < 65536"
  shows "\<exists>gr sub' st'. read_with_context cx (subs ! k) (commit (g\<lparr>gw_pid := pid\<rparr>) used st) = (Ok gr, sub', st') \<and>
    gr_start gr = gw_start g \<and> gr_size gr = used \<and> gr_pid gr = pid \<and> gr_auto_release gr \<and>
    gr_message_id gr = ps_next_message_id st \<and> st_ok st' None (subs[k := sub'])"
proof -
  let ?g = "g\<lparr>gw_pid := pid\<rparr>"
  let ?st = "commit_inner ?g used st"
  have ok': "st_ok st (Some ?g) subs" using ok by (simp add: st_ok_def)
  have count: "ps_subscriber_count st \<noteq> 0" using st_okD(5) [OF ok] k by auto
  note push = commit_push [OF ok' count, of used]
  have ids: "ids_ok ?st" by (rule st_okD(4) [OF push(1)])
  have first: "first_id ?st = ps_next_message_id st - length (ps_messages st)" "length (ps_messages st) \<le> ps_next_message_id st"
    using push(2,3) st_okD(4) [OF ok] by (auto simp: first_id_def ids_ok_def)
  then have i: "fs_next_message_id (caught_up ?st (subs ! k)) - first_id ?st = length (ps_messages st)"
    using next_ by (simp only: caught_up_sel max.absorb1 diff_le_self diff_diff_cancel)
  have len: "unat (of_nat used :: u16) = used" using used(2) by (simp add: unsigned_of_nat take_bit_nat_eq_self)
  obtain r sub' st' where rd: "read_with_context cx (subs ! k) ?st = (r, sub', st')" by (metis prod_cases3)
  have "\<exists>gr. r = Ok gr \<and> gr_start gr = gw_start g \<and> gr_size gr = used \<and> gr_pid gr = pid \<and> gr_auto_release gr \<and>
      gr_message_id gr = ps_next_message_id st"
    using rd count used(1) unfolding read_unfold [OF ids] Let_def i push(2)
    by (auto simp: nth_append min_absorb2 len)
  with rd read_preserves(2) [OF push(1) k rd] show ?thesis by (auto simp: commit_def)
qed

text \<open>Once the reader has dropped its grant the channel is as calm as before, and the reader has again read everything.\<close>

lemma commit_read_drop:
  assumes ok: "st_ok st (Some g) subs" and k: "k < length subs"
    and next_: "fs_next_message_id (subs ! k) = ps_next_message_id st"
    and idle: "\<forall>m \<in> set (ps_messages st). \<not> h_read_in_progress m"
    and rd: "read_with_context cx (subs ! k) (commit g used st) = (Ok gr, sub', st')"
  shows "st_ok (read_grant_drop gr st') None (subs[k := sub'])"
    and "\<forall>m \<in> set (ps_messages (read_grant_drop gr st')). \<not> h_read_in_progress m"
    and "fs_next_message_id sub' = ps_next_message_id (read_grant_drop gr st')"
    and "ps_capacity (read_grant_drop gr st') = ps_capacity st"
proof -
  let ?st = "commit_inner g used st"
  have count: "ps_subscriber_count st \<noteq> 0" using st_okD(5) [OF ok] k by auto
  note push = commit_push [OF ok count, of used]
  have ids: "ids_ok ?st" by (rule st_okD(4) [OF push(1)])
  have first: "first_id ?st = ps_next_message_id st - length (ps_messages st)" "length (ps_messages st) \<le> ps_next_message_id st"
    using push(2,3) st_okD(4) [OF ok] by (auto simp: first_id_def ids_ok_def)
  then have i: "fs_next_message_id (caught_up ?st (subs ! k)) - first_id ?st = length (ps_messages st)"
    "fs_next_message_id (caught_up ?st (subs ! k)) = ps_next_message_id st"
    using next_ by (simp_all only: caught_up_sel max.absorb1 diff_le_self diff_diff_cancel)
  obtain h where st': "ps_messages st' = ps_messages st @ [h]" "h_message_id h = gr_message_id gr" "h_read_in_progress h"
    and gr: "gr_message_id gr = ps_next_message_id st" "gr_auto_release gr" "fs_next_message_id sub' = ps_next_message_id st + 1"
    using rd count unfolding commit_def read_unfold [OF ids] Let_def i(1) push(2)
    by (auto simp: nth_append i(2) i(2) [unfolded caught_up_sel] split: if_splits)
  have frame: "ps_capacity st' = ps_capacity st" "ps_next_message_id st' = ps_next_message_id st + 1"
    using read_frame [OF rd] push(3) by (simp_all add: commit_def commit_frame)
  have "h_message_id (ps_messages st ! j) \<noteq> gr_message_id gr" if "j < length (ps_messages st)" for j
    using ids_nth [OF st_okD(4) [OF ok] that] that first(2) gr(1) by simp
  then have pos: "position (\<lambda>m. h_message_id m = gr_message_id gr) (ps_messages st') = Some (length (ps_messages st))"
    by (auto simp: position_Some_iff st'(1,2) nth_append)
  then have "ps_messages (read_grant_drop gr st') = ps_messages st @ [h\<lparr>h_read_in_progress := False\<rparr>] \<or> ps_messages (read_grant_drop gr st') = []"
    using st' gr(2) by (auto simp: read_grant_drop_def release_inner_def Let_def)
  with idle show "\<forall>m \<in> set (ps_messages (read_grant_drop gr st')). \<not> h_read_in_progress m" by auto
  have "st_ok st' None (subs[k := sub'])" by (rule read_preserves(2) [OF push(1) k rd [unfolded commit_def]])
  then show "st_ok (read_grant_drop gr st') None (subs[k := sub'])" using gr(2) by (simp add: read_grant_drop_def release_ok)
  show "fs_next_message_id sub' = ps_next_message_id (read_grant_drop gr st')" "ps_capacity (read_grant_drop gr st') = ps_capacity st"
    using gr(2,3) frame by (simp_all add: read_grant_drop_def release_frame)
qed

section \<open>Receiving\<close>

lemma rx_store_Ok:
  assumes chan: "chan_ok (nd_rx nd) subs" and fits: "pp_packet_len pp \<le> length (ch_buf (nd_rx nd))"
    and idle: "\<forall>m \<in> set (ps_messages (ch_state (nd_rx nd))). \<not> h_read_in_progress m"
    and copy: "\<And>b. length b = pp_packet_len pp \<Longrightarrow> copy_all sk pp b s = (Ok pkt, s1)"
  shows "\<exists>g st. rx_store sk pp nd s =
      (Ok True, nd\<lparr>nd_rx := \<lparr>ch_buf = splice (ch_buf (nd_rx nd)) (gw_start g) pkt, ch_state = commit g (pp_packet_len pp) st\<rparr>\<rparr>, s1) \<and>
    st_ok st (Some g) subs \<and> gw_size g = pp_packet_len pp \<and> gw_start g + pp_packet_len pp \<le> length (ch_buf (nd_rx nd)) \<and>
    ps_next_message_id st = ps_next_message_id (ch_state (nd_rx nd)) \<and> ps_capacity st = length (ch_buf (nd_rx nd)) \<and>
    (\<forall>m \<in> set (ps_messages st). \<not> h_read_in_progress m)"
proof -
  let ?st = "ch_state (nd_rx nd)" and ?n = "pp_packet_len pp"
  have ok: "st_ok ?st None subs" "ps_capacity ?st = length (ch_buf (nd_rx nd))" using chan by (simp_all add: chan_ok_def)
  obtain g st where g: "grant_immediate ?n ?st = (Ok g, st)" "gw_size g = ?n" "gw_start g + ?n \<le> length (ch_buf (nd_rx nd))"
    using grant_immediate_Ok [OF ok(1) _ idle, of ?n] fits ok(2) by auto
  have "length (slice (ch_buf (nd_rx nd)) (gw_start g) (gw_size g)) = ?n" using g(2,3) by simp
  then have "copy_all sk pp (slice (ch_buf (nd_rx nd)) (gw_start g) (gw_size g)) s = (Ok pkt, s1)" by (rule copy)
  moreover have "st_ok st (Some g) subs" "ps_next_message_id st = ps_next_message_id ?st" "ps_capacity st = length (ch_buf (nd_rx nd))"
    using grant_immediate_preserves [OF ok(1) g(1)] ok(2) by auto
  moreover have "\<forall>m \<in> set (ps_messages st). \<not> h_read_in_progress m"
    using grant_immediate_preserves(4) [OF ok(1) g(1)] idle by (metis in_set_dropD)
  ultimately show ?thesis using g by (auto simp: rx_store_def)
qed

text \<open>The acknowledgement of a received PUBLISH, on the wire.\<close>

fun ack_packet :: "QosPid \<Rightarrow> bytes" where
  "ack_packet QP_AtMostOnce = []"
| "ack_packet (QP_AtLeastOnce pid) = [0x40, 2] @ u16_to_be (pid_get pid)"
| "ack_packet (QP_ExactlyOnce pid) = [0x50, 2] @ u16_to_be (pid_get pid)"

lemma ack_header: "fixed_header_bytes t 0 2 = [t, 2]"
proof -
  have "varint_bytes 2 = [2]" by code_simp
  then show ?thesis by (simp add: fixed_header_bytes_def)
qed

lemma encode_puback:
  "length buf = 32 \<Longrightarrow> pid_ok pid \<Longrightarrow>
   encode_packet puback_to_buffer \<lparr>pa_pid = pid, pa_reason_code = PA_Success, pa_properties = Slice []\<rparr> buf =
     Ok ([0x40, 2] @ u16_to_be (pid_get pid))"
  using puback.to_buffer_fits [of "\<lparr>pa_pid = pid, pa_reason_code = PA_Success, pa_properties = Slice []\<rparr>" buf]
  by (auto simp: encode_packet_def puback_ok_def puback_body_def ack_body_def packet_type_byte_def default_flags_def
      MAX_MQTT_HEADER_LEN_def ack_header props_ok_def)

lemma encode_pubrec:
  "length buf = 32 \<Longrightarrow> pid_ok pid \<Longrightarrow>
   encode_packet pubrec_to_buffer \<lparr>pr_pid = pid, pr_reason_code = PR_Success, pr_properties = Slice []\<rparr> buf =
     Ok ([0x50, 2] @ u16_to_be (pid_get pid))"
  using pubrec.to_buffer_fits [of "\<lparr>pr_pid = pid, pr_reason_code = PR_Success, pr_properties = Slice []\<rparr>" buf]
  by (auto simp: encode_packet_def pubrec_ok_def pubrec_body_def ack_body_def packet_type_byte_def default_flags_def
      MAX_MQTT_HEADER_LEN_def ack_header props_ok_def)

text \<open>When the acknowledgement finds room: always, except for a new QoS 2 identifier in a full set.\<close>

fun ack_room :: "QosPid \<Rightarrow> Shared \<Rightarrow> bool" where
  "ack_room (QP_ExactlyOnce pid) sh = (iset_insert MAX_INFLIGHT (pid_get pid) (sh_incoming_pub sh) \<noteq> None)"
| "ack_room _ sh = True"

text \<open>What the session remembers of it: a QoS 2 identifier, until its PUBREL.\<close>

fun incoming_recorded :: "QosPid \<Rightarrow> Shared \<Rightarrow> bool" where
  "incoming_recorded (QP_ExactlyOnce pid) sh \<longleftrightarrow> pid_get pid \<in> set (sh_incoming_pub sh)"
| "incoming_recorded _ sh \<longleftrightarrow> True"

lemma recorded_room: "incoming_recorded qp sh \<Longrightarrow> ack_room qp sh"
  by (cases qp) (simp_all add: iset_insert_def)

definition qp_ok :: "QosPid \<Rightarrow> bool" where
  "qp_ok qp \<longleftrightarrow> (\<forall>pid. qospid_pid qp = Some pid \<longrightarrow> pid_ok pid)"

lemma acknowledge_stream:
  assumes "length (nd_write_buf nd) = 32" and "ack_room qp (nd_shared nd)" and "qp_ok qp"
  shows "\<exists>sh. acknowledge stream_socket qp nd (inp, out) = (Ok (), nd\<lparr>nd_shared := sh\<rparr>, (inp, out @ ack_packet qp)) \<and>
    sh_clean_session_count sh = sh_clean_session_count (nd_shared nd) \<and> incoming_recorded qp sh"
proof (cases qp)
  case QP_AtMostOnce
  then show ?thesis by (intro exI [of _ "nd_shared nd"]) (simp add: acknowledge_def)
next
  case (QP_AtLeastOnce pid)
  with assms show ?thesis
    by (intro exI [of _ "nd_shared nd"]) (simp add: acknowledge_def send_packet_def encode_puback qp_ok_def)
next
  case (QP_ExactlyOnce pid)
  with assms obtain b s where "iset_insert MAX_INFLIGHT (pid_get pid) (sh_incoming_pub (nd_shared nd)) = Some (b, s)" by auto
  moreover from this have "pid_get pid \<in> set s" by (auto simp: iset_insert_def split: if_splits)
  ultimately show ?thesis using QP_ExactlyOnce assms
    by (intro exI [of _ "(nd_shared nd)\<lparr>sh_incoming_pub := s\<rparr>"])
      (simp add: acknowledge_def record_incoming_def send_packet_def encode_pubrec qp_ok_def)
qed

text \<open>One PUBLISH from the stream: buffered whole, and acknowledged.\<close>

lemma select_rx_publish:
  assumes "publish_ok p" and "length (publish_body p) < 268435456" and "length (pub_topic_name p) \<le> MAX_TOPIC_LEN"
    and "pub_qos p \<noteq> AtMostOnce \<or> payload_bytes (pub_payload p) \<noteq> []"
    and "reader_idle (nd_reader nd)" and chan: "chan_ok (nd_rx nd) subs"
    and fits: "length (publish_packet p) \<le> length (ch_buf (nd_rx nd))"
    and idle: "\<forall>m \<in> set (ps_messages (ch_state (nd_rx nd))). \<not> h_read_in_progress m"
    and wb: "length (nd_write_buf nd) = 32" and room: "ack_room (qos_pid_of (pub_qos p) (pub_pid p)) (nd_shared nd)"
  shows "\<exists>nd' g st. select_rx stream_socket now nd (publish_packet p @ rest, out) =
      Some (Ok (), nd', (rest, out @ ack_packet (qos_pid_of (pub_qos p) (pub_pid p)))) \<and>
    nd_rx nd' = \<lparr>ch_buf = splice (ch_buf (nd_rx nd)) (gw_start g) (publish_packet p),
      ch_state = commit g (length (publish_packet p)) st\<rparr> \<and>
    st_ok st (Some g) subs \<and> gw_size g = length (publish_packet p) \<and>
    gw_start g + length (publish_packet p) \<le> length (ch_buf (nd_rx nd)) \<and>
    ps_next_message_id st = ps_next_message_id (ch_state (nd_rx nd)) \<and>
    sh_clean_session_count (nd_shared nd') = sh_clean_session_count (nd_shared nd) \<and>
    ps_capacity st = length (ch_buf (nd_rx nd)) \<and> (\<forall>m \<in> set (ps_messages st). \<not> h_read_in_progress m) \<and>
    reader_idle (nd_reader nd') \<and> nd_write_buf nd' = nd_write_buf nd \<and>
    incoming_recorded (qos_pid_of (pub_qos p) (pub_pid p)) (nd_shared nd')"
proof -
  let ?pkt = "publish_packet p" and ?qp = "qos_pid_of (pub_qos p) (pub_pid p)"
  have pkt: "?pkt = fixed_header_bytes 0x30 (publish_flags p) (length (publish_body p)) @ publish_body p"
    by (simp add: publish_packet_def packet_type_byte_def)
  note stream = recv_publish_stream [OF assms(1-4) pkt assms(5)]
  obtain pr' pp s where r: "recv stream_socket (nd_reader nd) (?pkt @ rest, out) =
      Some (Ok (RP_PartialPublish ?qp (pub_topic_name p) pp), pr', s)" and len: "pp_packet_len pp = length ?pkt" and pr': "reader_idle pr'"
    using stream [of "replicate (length ?pkt) 0" rest out] by auto
  have copy: "copy_all stream_socket pp b s = (Ok ?pkt, (rest, out))" if lb: "length b = pp_packet_len pp" for b
  proof -
    obtain pr2 pp2 s2 where "recv stream_socket (nd_reader nd) (?pkt @ rest, out) =
        Some (Ok (RP_PartialPublish ?qp (pub_topic_name p) pp2), pr2, s2)"
      "copy_all stream_socket pp2 b s2 = (Ok (?pkt @ drop (length ?pkt) b), (rest, out))"
      using stream [of b rest out] lb len by auto
    with r lb len show ?thesis by simp
  qed
  let ?nd = "nd\<lparr>nd_reader := pr'\<rparr>"
  obtain g st where g: "rx_store stream_socket pp ?nd s = (Ok True,
      ?nd\<lparr>nd_rx := \<lparr>ch_buf = splice (ch_buf (nd_rx nd)) (gw_start g) ?pkt, ch_state = commit g (length ?pkt) st\<rparr>\<rparr>, (rest, out))"
    "st_ok st (Some g) subs" "gw_size g = length ?pkt" "gw_start g + length ?pkt \<le> length (ch_buf (nd_rx nd))"
    "ps_next_message_id st = ps_next_message_id (ch_state (nd_rx nd))" "ps_capacity st = length (ch_buf (nd_rx nd))"
    "\<forall>m \<in> set (ps_messages st). \<not> h_read_in_progress m"
    using rx_store_Ok [OF _ _ _ copy, of ?nd subs] chan fits idle len by auto
  have qp: "qp_ok ?qp" using assms(1) by (cases "pub_qos p") (auto simp: qp_ok_def qos_pid_of_def publish_ok_def pid_or_default_def)
  let ?nd1 = "?nd\<lparr>nd_rx := \<lparr>ch_buf = splice (ch_buf (nd_rx nd)) (gw_start g) ?pkt, ch_state = commit g (length ?pkt) st\<rparr>\<rparr>"
  obtain sh where "acknowledge stream_socket ?qp ?nd1 (rest, out) = (Ok (), ?nd1\<lparr>nd_shared := sh\<rparr>, (rest, out @ ack_packet ?qp))"
    "sh_clean_session_count sh = sh_clean_session_count (nd_shared nd)" "incoming_recorded ?qp sh"
    using acknowledge_stream [OF _ _ qp, of ?nd1 rest out] wb room by auto
  with r g pr' show ?thesis
    by (auto simp: select_rx_def on_packet_def on_publish_def finish_select_def Let_def)
qed

text \<open>The subscription that has read everything gets the frame that was just committed.\<close>

lemma poll_next_committed:
  assumes ok: "st_ok st (Some g) subs" and k: "k < length subs" "subs ! k = sub_subscriber sub"
    and next_: "fs_next_message_id (sub_subscriber sub) = ps_next_message_id st"
    and rx: "nd_rx nd = \<lparr>ch_buf = splice buf (gw_start g) frame, ch_state = commit g (length frame) st\<rparr>"
    and len: "gw_size g = length frame" "gw_start g + length frame \<le> length buf" "length frame < 65536"
    and count: "sh_clean_session_count (nd_shared nd) = sub_created_clean_session_count sub"
    and msg: "\<And>gr. \<exists>m. message_try_new gr frame = Ok m \<and> msg_grant m = gr \<and> P m"
    and matches: "\<And>m. P m \<Longrightarrow> list_ex (\<lambda>f. is_match f (message_topic_name m frame)) (sub_topic_filters sub)"
  shows "\<exists>m sub' nd' st'. poll_next sub nd = (NextMessage m, sub', nd') \<and> P m \<and>
    grant_bytes (msg_grant m) (ch_buf (nd_rx nd')) = frame \<and>
    nd' = with_rx st' (with_shared (shared_wake RegisterStateChange) nd) \<and> sub' = sub\<lparr>sub_subscriber := sub_subscriber sub'\<rparr> \<and>
    read_with_context True (sub_subscriber sub) (commit g (length frame) st) = (Ok (msg_grant m), sub_subscriber sub', st')"
proof -
  have g: "g\<lparr>gw_pid := gw_pid g\<rparr> = g" by (cases g) simp
  obtain gr sub' st' where rd: "read_with_context True (sub_subscriber sub) (commit g (length frame) st) = (Ok gr, sub', st')"
    "gr_start gr = gw_start g" "gr_size gr = length frame"
    using commit_read [OF ok k(1) _ _ len(3), of True "gw_pid g"] k(2) next_ len(1) g by auto
  have bytes: "grant_bytes gr (splice buf (gw_start g) frame) = frame"
    using rd(2,3) len(2) by (simp add: grant_bytes_def slice_splice_same)
  obtain m where m: "message_try_new gr frame = Ok m" "msg_grant m = gr" "P m" using msg by blast
  show ?thesis
    using rd(1) bytes m matches [OF m(3)] count
    by (simp add: poll_next_def Let_def rx with_shared_def with_rx_def)
qed

end
