(* ===== verification/Delivery_Properties.thy ===== *)
theory Delivery_Properties
  imports Delivery
begin

text \<open>
  What a client can rely on when messages arrive: a PUBLISH on the connection reaches a subscription
  unchanged, what its acknowledgement means, and, against the meaning of \<open>exactly once\<close>, that a
  repeated QoS 2 message is delivered again.
\<close>

section \<open>Messages to subscriptions\<close>

text \<open>A PUBLISH the node can take in whole, and a subscription that has read everything.\<close>

definition receivable :: "Publish \<Rightarrow> Node \<Rightarrow> bool" where
  "receivable p nd \<longleftrightarrow> publish_ok p \<and> length (publish_packet p) < 65536 \<and> length (pub_topic_name p) \<le> MAX_TOPIC_LEN \<and>
     (pub_qos p \<noteq> AtMostOnce \<or> payload_bytes (pub_payload p) \<noteq> []) \<and> reader_idle (nd_reader nd) \<and>
     length (publish_packet p) \<le> length (ch_buf (nd_rx nd)) \<and>
     (\<forall>m \<in> set (ps_messages (ch_state (nd_rx nd))). \<not> h_read_in_progress m) \<and> length (nd_write_buf nd) = 32 \<and>
     ack_room (qos_pid_of (pub_qos p) (pub_pid p)) (nd_shared nd)"

definition listening :: "str \<Rightarrow> Subscription \<Rightarrow> FrameSubscriber list \<Rightarrow> Node \<Rightarrow> bool" where
  "listening topic sub subs nd \<longleftrightarrow> chan_ok (nd_rx nd) subs \<and> sub_subscriber sub \<in> set subs \<and>
     fs_next_message_id (sub_subscriber sub) = ps_next_message_id (ch_state (nd_rx nd)) \<and>
     list_ex (\<lambda>f. is_match f topic) (sub_topic_filters sub) \<and>
     sub_created_clean_session_count sub = sh_clean_session_count (nd_shared nd)"

definition shows_publish :: "Publish \<Rightarrow> Message \<Rightarrow> bytes \<Rightarrow> bool" where
  "shows_publish p m frame \<longleftrightarrow> message_topic_name m frame = pub_topic_name p \<and>
     message_payload m frame = payload_bytes (pub_payload p) \<and>
     message_qos_pid m = qos_pid_of (pub_qos p) (pub_pid p) \<and> message_dup m = pub_dup p \<and> message_retain m = pub_retain p"

text \<open>
  One delivery; when the message has been dropped, the node and the subscription are as ready for a packet as before.
\<close>

lemma publish_reaches:
  assumes r: "receivable p nd" and l: "listening (pub_topic_name p) sub subs nd"
  shows "\<exists>nd1 m sub' subs' nd2.
    select_rx stream_socket now nd (publish_packet p @ rest, out) =
      Some (Ok (), nd1, (rest, out @ ack_packet (qos_pid_of (pub_qos p) (pub_pid p)))) \<and>
    poll_next sub nd1 = (NextMessage m, sub', nd2) \<and>
    shows_publish p m (grant_bytes (msg_grant m) (ch_buf (nd_rx nd2))) \<and>
    incoming_recorded (qos_pid_of (pub_qos p) (pub_pid p)) (nd_shared nd1) \<and>
    receivable p (message_drop m nd2) \<and> listening (pub_topic_name p) sub' subs' (message_drop m nd2) \<and>
    sh_incoming_pub (nd_shared (message_drop m nd2)) = sh_incoming_pub (nd_shared nd1)"
proof -
  let ?pkt = "publish_packet p" and ?qp = "qos_pid_of (pub_qos p) (pub_pid p)"
  have body: "length (publish_body p) < 268435456" using r by (simp add: receivable_def publish_packet_def)
  obtain nd1 g st where sel: "select_rx stream_socket now nd (?pkt @ rest, out) = Some (Ok (), nd1, (rest, out @ ack_packet ?qp))"
    and rx: "nd_rx nd1 = \<lparr>ch_buf = splice (ch_buf (nd_rx nd)) (gw_start g) ?pkt, ch_state = commit g (length ?pkt) st\<rparr>"
    and g: "st_ok st (Some g) subs" "gw_size g = length ?pkt" "gw_start g + length ?pkt \<le> length (ch_buf (nd_rx nd))"
      "ps_next_message_id st = ps_next_message_id (ch_state (nd_rx nd))"
      "sh_clean_session_count (nd_shared nd1) = sh_clean_session_count (nd_shared nd)"
      "ps_capacity st = length (ch_buf (nd_rx nd))" "\<forall>m \<in> set (ps_messages st). \<not> h_read_in_progress m"
    and nd1: "reader_idle (nd_reader nd1)" "nd_write_buf nd1 = nd_write_buf nd" "incoming_recorded ?qp (nd_shared nd1)"
    using select_rx_publish [of p nd subs now rest out] r l body unfolding receivable_def listening_def by blast
  obtain k where k: "k < length subs" "subs ! k = sub_subscriber sub" using l by (auto simp: listening_def in_set_conv_nth)
  have next_: "fs_next_message_id (sub_subscriber sub) = ps_next_message_id st" using l g(4) by (simp add: listening_def)
  have msg: "\<exists>m. message_try_new gr ?pkt = Ok m \<and> msg_grant m = gr \<and> shows_publish p m ?pkt" for gr
    using message_of_publish [of p gr] r body by (auto simp: receivable_def shows_publish_def)
  have len: "length ?pkt < 65536" using r by (simp add: receivable_def)
  have count: "sh_clean_session_count (nd_shared nd1) = sub_created_clean_session_count sub"
    using l g(5) by (simp add: listening_def)
  have match: "list_ex (\<lambda>f. is_match f (message_topic_name m ?pkt)) (sub_topic_filters sub)" if "shows_publish p m ?pkt" for m
    using that l by (simp add: shows_publish_def listening_def)
  obtain m sub' nd2 st' where m: "poll_next sub nd1 = (NextMessage m, sub', nd2)" "shows_publish p m ?pkt"
    "grant_bytes (msg_grant m) (ch_buf (nd_rx nd2)) = ?pkt" "nd2 = with_rx st' (with_shared (shared_wake RegisterStateChange) nd1)"
    "sub' = sub\<lparr>sub_subscriber := sub_subscriber sub'\<rparr>"
    "read_with_context True (subs ! k) (commit g (length ?pkt) st) = (Ok (msg_grant m), sub_subscriber sub', st')"
    using poll_next_committed [OF g(1) k next_ rx g(2,3) len count msg match] unfolding k(2) by blast
  note drop = commit_read_drop [OF g(1) k(1) _ g(7) m(6), unfolded k(2), OF next_]
  let ?nd3 = "message_drop m nd2"
  have nd3: "nd_rx ?nd3 = \<lparr>ch_buf = splice (ch_buf (nd_rx nd)) (gw_start g) ?pkt, ch_state = read_grant_drop (msg_grant m) st'\<rparr>"
    "nd_shared ?nd3 = shared_wake RegisterStateChange (nd_shared nd1)" "nd_reader ?nd3 = nd_reader nd1" "nd_write_buf ?nd3 = nd_write_buf nd1"
    by (simp_all add: message_drop_def m(4) with_rx_def with_shared_def rx)
  have room: "ack_room ?qp (nd_shared ?nd3)" using recorded_room [OF nd1(3)] by (cases ?qp) (simp_all add: nd3(2))
  have "receivable p ?nd3"
    using r nd1(1,2) drop(2) room g(3) by (simp add: receivable_def nd3(1,3,4))
  moreover have "listening (pub_topic_name p) sub' (subs[k := sub_subscriber sub']) ?nd3"
    using l drop(1,3,4) g(3,5,6) k(1) m(5)
    by (cases sub') (simp add: listening_def chan_ok_def nd3(1,2) set_update_memI)
  ultimately show ?thesis using sel m(1-3) nd1(3) nd3(2) by auto
qed

text \<open>
  C1: From the wire to the subscription.  When a PUBLISH arrives on the connection whose topic matches a
  subscription that has read everything so far, one \<open>select\<close> takes it in, answers with exactly the
  acknowledgement of its quality of service, and leaves the connection at the next packet; the next poll of
  the subscription then yields a message with the topic, payload, identifier and flags of that PUBLISH.
\<close>

theorem publish_delivered_to_subscription:
  assumes "receivable p nd" and "listening (pub_topic_name p) sub subs nd"
  shows "\<exists>nd1 m sub' nd2.
    select_rx stream_socket now nd (publish_packet p @ rest, out) =
      Some (Ok (), nd1, (rest, out @ ack_packet (qos_pid_of (pub_qos p) (pub_pid p)))) \<and>
    poll_next sub nd1 = (NextMessage m, sub', nd2) \<and>
    shows_publish p m (grant_bytes (msg_grant m) (ch_buf (nd_rx nd2)))"
  using publish_reaches [OF assms, of now rest out] by blast

text \<open>A concrete node with one subscription.\<close>

definition sample_publish :: "QoS \<Rightarrow> Publish" where
  "sample_publish q = \<lparr>pub_dup = False, pub_qos = q, pub_retain = False, pub_pid = Some (Pid 9),
     pub_topic_name = [97, 47, 98], pub_payload = PayloadBytes [1, 2, 3], pub_properties = Slice []\<rparr>"

definition sample_subscription :: Subscription where
  "sample_subscription = \<lparr>sub_topic_filters = [\<lparr>tf_filter = [97, 47, 43], tf_has_wildcards = True\<rparr>],
     sub_subscriber = \<lparr>fs_next_message_id = 0\<rparr>, sub_created_clean_session_count = 0\<rparr>"

definition sample_node :: "u16 list \<Rightarrow> Node" where
  "sample_node received =
     (case mqtt_new 64 64 (config_new [120]) 0 of
        Ok nd \<Rightarrow> (snd (subscribe_begin nd))\<lparr>nd_shared := shared_new\<lparr>sh_incoming_pub := received\<rparr>\<rparr>)"

lemma sample_node_sel:
  "nd_shared (sample_node received) = shared_new\<lparr>sh_incoming_pub := received\<rparr>" "nd_reader (sample_node received) = reader_new"
  "length (nd_write_buf (sample_node received)) = 32" "ps_messages (ch_state (nd_rx (sample_node received))) = []"
  "ps_next_message_id (ch_state (nd_rx (sample_node received))) = 0" "length (ch_buf (nd_rx (sample_node received))) = 64"
  "chan_ok (nd_rx (sample_node received)) [\<lparr>fs_next_message_id = 0\<rparr>]"
  by (simp_all add: sample_node_def mqtt_new_def channel_new_def channel_subscriber_def channel_publisher_def Let_def
      subscribe_begin_def with_rx_def MAX_SUBSCRIBERS_def chan_ok_def st_ok_def ids_ok_def)

lemma sample_receivable:
  assumes "length (publish_packet (sample_publish q)) \<le> 64" and "length received < MAX_INFLIGHT"
  shows "receivable (sample_publish q) (sample_node received)"
proof -
  have "ack_room (qos_pid_of (pub_qos (sample_publish q)) (pub_pid (sample_publish q))) (nd_shared (sample_node received))"
    using assms(2)
    by (cases q) (auto simp: sample_publish_def qos_pid_of_def pid_or_default_def sample_node_sel iset_insert_def)
  then show ?thesis
    using assms(1) reader_new_idle
    by (simp add: receivable_def sample_node_sel)
      (simp add: sample_publish_def publish_ok_def str_ok_def props_ok_def pid_ok_def MAX_TOPIC_LEN_def)
qed

lemma sample_listening: "listening (pub_topic_name (sample_publish q)) sample_subscription [\<lparr>fs_next_message_id = 0\<rparr>] (sample_node received)"
proof -
  have "list_ex (\<lambda>f. is_match f [97, 47, 98]) (sub_topic_filters sample_subscription)" by code_simp
  then show ?thesis
    by (simp add: listening_def sample_node_sel sample_publish_def)
      (simp add: sample_subscription_def shared_new_def)
qed

theorem publish_delivered_to_subscription_witness:
  "\<exists>nd1 m sub' nd2.
    select_rx stream_socket 5 (sample_node []) (publish_packet (sample_publish AtLeastOnce) @ [0xD0, 0], []) =
      Some (Ok (), nd1, ([0xD0, 0], [0x40, 2, 0, 9])) \<and>
    poll_next sample_subscription nd1 = (NextMessage m, sub', nd2) \<and>
    shows_publish (sample_publish AtLeastOnce) m (grant_bytes (msg_grant m) (ch_buf (nd_rx nd2)))"
proof -
  have "length (publish_packet (sample_publish AtLeastOnce)) \<le> 64" by code_simp
  then have "receivable (sample_publish AtLeastOnce) (sample_node [])" by (rule sample_receivable) (simp add: MAX_INFLIGHT_def)
  moreover have "ack_packet (qos_pid_of (pub_qos (sample_publish AtLeastOnce)) (pub_pid (sample_publish AtLeastOnce))) = [0x40, 2, 0, 9]"
    by code_simp
  ultimately show ?thesis
    using publish_delivered_to_subscription [OF _ sample_listening [of AtLeastOnce "[]"], of 5 "[0xD0, 0]" "[]"]
    by (simp only: append_Nil)
qed

text \<open>
  C30: A QoS 2 message is delivered twice when the broker repeats it before its PUBREL.  The first PUBLISH is delivered, and
  its identifier recorded as received; the application takes the message and drops it.  When the same PUBLISH arrives
  again, with its identifier still recorded, it is acknowledged and delivered as another message.
\<close>

theorem repeated_qos2_publish_delivered_again:
  assumes "receivable p nd" and "listening (pub_topic_name p) sub subs nd"
    and "qos_pid_of (pub_qos p) (pub_pid p) = QP_ExactlyOnce pid"
  shows "\<exists>nd1 m1 sub1 nd2 nd3 m2 sub2 nd4.
    select_rx stream_socket now1 nd (publish_packet p @ publish_packet p @ rest, out) =
      Some (Ok (), nd1, (publish_packet p @ rest, out @ ack_packet (QP_ExactlyOnce pid))) \<and>
    poll_next sub nd1 = (NextMessage m1, sub1, nd2) \<and> shows_publish p m1 (grant_bytes (msg_grant m1) (ch_buf (nd_rx nd2))) \<and>
    pid_get pid \<in> set (sh_incoming_pub (nd_shared (message_drop m1 nd2))) \<and>
    select_rx stream_socket now2 (message_drop m1 nd2) (publish_packet p @ rest, out @ ack_packet (QP_ExactlyOnce pid)) =
      Some (Ok (), nd3, (rest, (out @ ack_packet (QP_ExactlyOnce pid)) @ ack_packet (QP_ExactlyOnce pid))) \<and>
    poll_next sub1 nd3 = (NextMessage m2, sub2, nd4) \<and> shows_publish p m2 (grant_bytes (msg_grant m2) (ch_buf (nd_rx nd4)))"
proof -
  obtain nd1 m1 sub1 subs1 nd2 where 1: "select_rx stream_socket now1 nd (publish_packet p @ publish_packet p @ rest, out) =
      Some (Ok (), nd1, (publish_packet p @ rest, out @ ack_packet (QP_ExactlyOnce pid)))"
    "poll_next sub nd1 = (NextMessage m1, sub1, nd2)" "shows_publish p m1 (grant_bytes (msg_grant m1) (ch_buf (nd_rx nd2)))"
    "incoming_recorded (QP_ExactlyOnce pid) (nd_shared nd1)"
    "receivable p (message_drop m1 nd2)" "listening (pub_topic_name p) sub1 subs1 (message_drop m1 nd2)"
    "sh_incoming_pub (nd_shared (message_drop m1 nd2)) = sh_incoming_pub (nd_shared nd1)"
    using publish_reaches [OF assms(1,2), of now1 "publish_packet p @ rest" out] unfolding assms(3) by blast
  moreover have "pid_get pid \<in> set (sh_incoming_pub (nd_shared (message_drop m1 nd2)))" using 1(4,7) by simp
  moreover obtain nd3 m2 sub2 nd4 where "select_rx stream_socket now2 (message_drop m1 nd2)
        (publish_packet p @ rest, out @ ack_packet (QP_ExactlyOnce pid)) =
      Some (Ok (), nd3, (rest, (out @ ack_packet (QP_ExactlyOnce pid)) @ ack_packet (QP_ExactlyOnce pid)))"
    "poll_next sub1 nd3 = (NextMessage m2, sub2, nd4)" "shows_publish p m2 (grant_bytes (msg_grant m2) (ch_buf (nd_rx nd4)))"
    using publish_reaches [OF 1(5,6), of now2 rest "out @ ack_packet (QP_ExactlyOnce pid)"] unfolding assms(3) by blast
  ultimately show ?thesis by blast
qed

theorem repeated_qos2_publish_delivered_again_witness:
  "\<exists>nd1 m1 sub1 nd2 nd3 m2 sub2 nd4 s2.
    poll_next sample_subscription nd1 = (NextMessage m1, sub1, nd2) \<and> 9 \<in> set (sh_incoming_pub (nd_shared (message_drop m1 nd2))) \<and>
    select_rx stream_socket 6 (message_drop m1 nd2) (publish_packet (sample_publish ExactlyOnce) @ [], [] @ ack_packet (QP_ExactlyOnce (Pid 9))) =
      Some (Ok (), nd3, s2) \<and>
    poll_next sub1 nd3 = (NextMessage m2, sub2, nd4) \<and>
    shows_publish (sample_publish ExactlyOnce) m2 (grant_bytes (msg_grant m2) (ch_buf (nd_rx nd4)))"
proof -
  have "length (publish_packet (sample_publish ExactlyOnce)) \<le> 64" by code_simp
  then have r: "receivable (sample_publish ExactlyOnce) (sample_node [])" by (rule sample_receivable) (simp add: MAX_INFLIGHT_def)
  have q: "qos_pid_of (pub_qos (sample_publish ExactlyOnce)) (pub_pid (sample_publish ExactlyOnce)) = QP_ExactlyOnce (Pid 9)"
    by code_simp
  from repeated_qos2_publish_delivered_again [OF r sample_listening q, of 5 "[]" "[]" 6] show ?thesis
    by (elim exE conjE) (intro exI conjI; (assumption | simp))
qed

section \<open>Acknowledgements\<close>








end
