(* ===== verification/Requests.thy ===== *)
theory Requests
  imports Delivery Session_Spec
begin

text \<open>
  What the requests of the client - publish, subscribe and unsubscribe - have in common: the packet gets an
  identifier, is encoded into the TX channel, and is written to the connection by the stack.  The locale
  \<open>mqtt_encode\<close> is the contract of the trait \<open>MqttEncode\<close> that \<open>send\<close> relies on; the three packets interpret it.
\<close>

section \<open>Tasks\<close>

fun task_steps :: "nat \<Rightarrow> ('t \<Rightarrow> Node \<Rightarrow> 't \<times> Node) \<Rightarrow> 't \<times> Node \<Rightarrow> 't \<times> Node" where
  "task_steps 0 f x = x"
| "task_steps (Suc n) f (task, nd) = task_steps n f (f task nd)"

fun on_packets ::
  "'s Socket \<Rightarrow> ReceivedPacket list \<Rightarrow> Node \<Rightarrow> 's \<Rightarrow> (StateError, unit) result \<times> Node \<times> 's" where
  "on_packets sk [] nd s = (Ok (), nd, s)"
| "on_packets sk (pk # pks) nd s =
     (case on_packet sk pk nd s of
        (Ok _, nd1, s1) \<Rightarrow> on_packets sk pks nd1 s1
      | r \<Rightarrow> r)"

section \<open>The TX channel\<close>

text \<open>The TX channel is empty and the stack is its only reader.\<close>

definition tx_idle :: "Node \<Rightarrow> bool" where
  "tx_idle nd \<longleftrightarrow> chan_ok (nd_tx nd) [nd_tx_sub nd] \<and> ps_messages (ch_state (nd_tx nd)) = [] \<and>
     fs_next_message_id (nd_tx_sub nd) = ps_next_message_id (ch_state (nd_tx nd))"

lemma grant_empty:
  assumes "chan_ok ch subs" and "ps_messages (ch_state ch) = []" and "n \<le> length (ch_buf ch)"
  shows "\<exists>g st. grant_poll n (ch_state ch) = (Some (Ok g), st) \<and> st_ok st (Some g) subs \<and> gw_size g = n \<and>
    gw_start g + n \<le> length (ch_buf ch) \<and> ps_next_message_id st = ps_next_message_id (ch_state ch)"
proof -
  have ok: "st_ok (ch_state ch) None subs" "ps_capacity (ch_state ch) = length (ch_buf ch)"
    using assms(1) by (simp_all add: chan_ok_def)
  have f: "free_space (ch_state ch) = (Ok (length (ch_buf ch)) :: (PubSubError, nat) result)"
    using assms(2) ok(2) by (simp add: free_space_def)
  have m: "\<not> messages_full (ch_state ch)" using assms(2) by (simp add: messages_full_def MAX_PUBSUB_MESSAGES_def)
  obtain g where g: "grant_with_context n True (ch_state ch) = (Ok g, (ch_state ch)\<lparr>ps_write_in_progress := True\<rparr>)"
    "gw_size g = n" "gw_start g + n \<le> ps_capacity (ch_state ch)"
    "st_ok ((ch_state ch)\<lparr>ps_write_in_progress := True\<rparr>) (Some g) subs"
    using grant_Ok [OF ok(1) f assms(3) m, of True] by blast
  then show ?thesis using ok(2) by (auto simp: grant_poll_def)
qed

text \<open>The frame of the packet in the TX channel, after \<open>send\<close> and before the stack reads it.\<close>

definition queued :: "bytes \<Rightarrow> Pid \<Rightarrow> Node \<Rightarrow> bool" where
  "queued pkt pid nd \<longleftrightarrow> (\<exists>gr sub st. read_with_context True (nd_tx_sub nd) (ch_state (nd_tx nd)) = (Ok gr, sub, st) \<and>
     grant_bytes gr (ch_buf (nd_tx nd)) = pkt \<and> gr_pid gr = pid_get pid)"

text \<open>The stack puts the queued packet on the wire and reports it.\<close>

lemma select_tx_queued:
  assumes "queued pkt pid nd" and "pid_ok pid" and "distinct (sh_outgoing_pid (nd_shared nd))"
  shows "\<exists>nd'. select_tx stream_socket now nd (inp, out) = (Ok (), nd', (inp, out @ pkt)) \<and>
    nd_shared nd' = transmitted (pid_get pid) (nd_shared nd) \<and> nd_write_buf nd' = nd_write_buf nd \<and>
    pid_get pid \<notin> set (sh_outgoing_pid (nd_shared nd')) \<and> nd_rx nd' = nd_rx nd"
  using assms
  by (auto simp: queued_def select_tx_def Let_def tx_release_def transmitted_def pid_ok_def iset_remove_def)

section \<open>The contract of a packet that can be sent\<close>

text \<open>The announced size of a packet is enough, and the TX channel and the header of a frame can hold it.\<close>

definition size_fits :: "'p MqttEncode \<Rightarrow> ('p \<Rightarrow> bytes) \<Rightarrow> 'p \<Rightarrow> Node \<Rightarrow> bool" where
  "size_fits me body p nd \<longleftrightarrow>
     (\<exists>n. me_max_packet_size me p = Ok n \<and> MAX_MQTT_HEADER_LEN + length (body (me_set_pid me pid_new p)) \<le> n \<and>
        n \<le> length (ch_buf (nd_tx nd)) \<and> n < 65536)"

locale mqtt_encode = packet_encoder "me_to_buffer me" ok body "me_type me" flags
  for me :: "'p MqttEncode" and ok body flags +
  assumes set_pid_ok: "ok (me_set_pid me q p) \<Longrightarrow> pid_ok pid \<Longrightarrow> ok (me_set_pid me pid p)"
    and set_pid_length: "length (body (me_set_pid me pid p)) = length (body (me_set_pid me q p))"
    and set_pid_size: "me_max_packet_size me (me_set_pid me pid p) = me_max_packet_size me p"
begin

lemma send_queues:
  assumes ok: "ok (me_set_pid me pid_new p)" and pid: "pid_ok pid" and idle: "tx_idle nd" and fits: "size_fits me body p nd"
    and rec: "send_record me p pid (nd_shared nd) = (Ok (), sh)"
  shows "\<exists>nd'. request_step me max_attempts w wait p (Granting a pid) nd = (Waiting a pid w, nd') \<and>
    queued (fixed_header_bytes (packet_type_byte (me_type me)) (flags (me_set_pid me pid p)) (length (body (me_set_pid me pid p)))
      @ body (me_set_pid me pid p)) pid nd' \<and>
    nd_shared nd' = sh \<and> nd_write_buf nd' = nd_write_buf nd \<and> nd_rx nd' = nd_rx nd"
proof -
  let ?p = "me_set_pid me pid p"
  let ?pkt = "fixed_header_bytes (packet_type_byte (me_type me)) (flags ?p) (length (body ?p)) @ body ?p"
  obtain n where n: "me_max_packet_size me ?p = Ok n" "MAX_MQTT_HEADER_LEN + length (body ?p) \<le> n"
    "n \<le> length (ch_buf (nd_tx nd))" "n < 65536"
    using fits set_pid_length [of pid p pid_new] set_pid_size [of pid p] by (auto simp: size_fits_def)
  obtain g st where g: "grant_poll n (ch_state (nd_tx nd)) = (Some (Ok g), st)" "st_ok st (Some g) [nd_tx_sub nd]"
    "gw_size g = n" "gw_start g + n \<le> length (ch_buf (nd_tx nd))" "ps_next_message_id st = ps_next_message_id (ch_state (nd_tx nd))"
    using grant_empty [of "nd_tx nd" "[nd_tx_sub nd]" n] idle n(3) by (auto simp: tx_idle_def)
  let ?slice = "slice (ch_buf (nd_tx nd)) (gw_start g) (gw_size g)"
  have len: "length ?slice = n" using g by simp
  obtain e where e: "me_to_buffer me ?p (encoder_new ?slice) = Ok e" "used_size e \<le> n" "length (enc_buf e) = n"
    "take (used_size e) (enc_buf e) = ?pkt"
    using to_buffer_fits [OF set_pid_ok [OF ok pid], of ?slice] n len by auto
  have sub: "fs_next_message_id (nd_tx_sub nd) = ps_next_message_id st" using idle g(5) by (simp add: tx_idle_def)
  obtain gr sub' st' where rd: "read_with_context True (nd_tx_sub nd) (commit (g\<lparr>gw_pid := pid_get pid\<rparr>) (used_size e) st) = (Ok gr, sub', st')"
    "gr_start gr = gw_start g" "gr_size gr = used_size e" "gr_pid gr = pid_get pid"
    using commit_read [OF g(2), of 0 "used_size e" True "pid_get pid"] sub e(2) g(3) n(4) by auto
  have "slice (splice (ch_buf (nd_tx nd)) (gw_start g) (enc_buf e)) (gw_start g) (used_size e) = take (used_size e) (enc_buf e)"
    using e(2,3) g(4) by (simp add: slice_def splice_def min_absorb1)
  then have q: "queued ?pkt pid nd'"
    if "nd_tx_sub nd' = nd_tx_sub nd" "ch_buf (nd_tx nd') = splice (ch_buf (nd_tx nd)) (gw_start g) (enc_buf e)"
      "ch_state (nd_tx nd') = commit (g\<lparr>gw_pid := pid_get pid\<rparr>) (used_size e) st" for nd'
    using rd e(4) that by (simp add: queued_def grant_bytes_def)
  show ?thesis
    using n(1) g(1) e(1) rec by (auto simp: send_grant_def send_finish_def Let_def grant_set_pid_def intro!: q)
qed

text \<open>From the begin of an attempt to the wait for the transmission.\<close>

lemma request_queues:
  assumes "ok (me_set_pid me pid_new p)" and pid: "pid_ok pid" and "tx_idle nd" and "size_fits me body p nd"
    and free: "\<not> nd_tx_locked nd"
    and begin1: "send_begin me p (nd_shared nd) = (Ok pid, sh0)" and "send_record me p pid sh0 = (Ok (), sh)"
  shows "\<exists>nd'. task_steps 3 (request_step me max_attempts w wait p) (Sending a, nd) = (Waiting a pid w, nd') \<and>
    queued (fixed_header_bytes (packet_type_byte (me_type me)) (flags (me_set_pid me pid p)) (length (body (me_set_pid me pid p)))
      @ body (me_set_pid me pid p)) pid nd' \<and>
    nd_shared nd' = sh \<and> nd_write_buf nd' = nd_write_buf nd \<and> nd_rx nd' = nd_rx nd"
proof -
  let ?begun = "nd\<lparr>nd_shared := sh0\<rparr>"
  let ?nd = "?begun\<lparr>nd_tx_locked := True\<rparr>"
  have "tx_idle ?nd" "size_fits me body p ?nd" using assms(3,4) by (simp_all add: tx_idle_def size_fits_def)
  from send_queues [OF assms(1) pid this, of sh max_attempts w wait a] assms(7) obtain nd' where
    nd': "request_step me max_attempts w wait p (Granting a pid) ?nd = (Waiting a pid w, nd')"
    "queued (fixed_header_bytes (packet_type_byte (me_type me)) (flags (me_set_pid me pid p)) (length (body (me_set_pid me pid p)))
      @ body (me_set_pid me pid p)) pid nd'"
    "nd_shared nd' = sh" "nd_write_buf nd' = nd_write_buf nd" "nd_rx nd' = nd_rx nd" by auto
  have "request_step me max_attempts w wait p (Sending a) nd = (Locking a pid, ?begun)" using begin1 by simp
  moreover have "request_step me max_attempts w wait p (Locking a pid) ?begun = (Granting a pid, ?nd)" using free by simp
  ultimately have "task_steps 3 (request_step me max_attempts w wait p) (Sending a, nd) = (Waiting a pid w, nd')"
    using nd'(1) by (simp add: numeral_nat del: request_step.simps)
  with nd'(2-5) show ?thesis by blast
qed

end

interpretation pub: mqtt_encode publish_encode publish_ok publish_body publish_flags
  by unfold_locales
    (use publish.to_buffer_writes in \<open>auto simp: publish_encode_def publish_ok_def publish_set_pid_def publish_body_def
      qos_pid_bytes_def publish_max_packet_size_def\<close>)

interpretation subs: mqtt_encode subscribe_encode subscribe_ok subscribe_body subscribe_flags
  by unfold_locales
    (use subscribe.to_buffer_writes in \<open>auto simp: subscribe_encode_def subscribe_ok_def subscribe_set_pid_def subscribe_body_def
      subscribe_max_packet_size_def\<close>)

interpretation unsub: mqtt_encode unsubscribe_encode unsubscribe_ok unsubscribe_body unsubscribe_flags
  by unfold_locales
    (use unsubscribe.to_buffer_writes in \<open>auto simp: unsubscribe_encode_def unsubscribe_ok_def unsubscribe_set_pid_def
      unsubscribe_body_def unsubscribe_max_packet_size_def\<close>)

section \<open>A connected node\<close>

definition connected_node :: Node where
  "connected_node =
     (case mqtt_new 64 64 (config_new [120]) 0 of Ok nd \<Rightarrow> with_shared (set_connected (Some False)) nd)"

lemmas mqtt_new_unfold = mqtt_new_def channel_new_def channel_subscriber_def channel_publisher_def Let_def

lemma connected_node_shared: "nd_shared connected_node = set_connected (Some False) shared_new"
  by (simp add: connected_node_def mqtt_new_unfold with_shared_def)

lemma connected_node_sel [simp]:
  "shared_ok (nd_shared connected_node)" "tx_idle connected_node" "\<not> nd_tx_locked connected_node"
  "length (nd_write_buf connected_node) = 32" "length (ch_buf (nd_tx connected_node)) = 64"
  "chan_ok (nd_rx connected_node) []"
  by (simp_all add: connected_node_def mqtt_new_unfold with_shared_def shared_new_ok chan_ok_def st_ok_def ids_ok_def tx_idle_def)

lemma connected_node_session [simp]:
  "sh_connected (nd_shared connected_node) = Some False" "sh_inflight_pub (nd_shared connected_node) = []"
  "sh_outgoing_pid (nd_shared connected_node) = []" "sh_outgoing_rel (nd_shared connected_node) = []"
  "sh_ack_status (nd_shared connected_node) = []"
  by (simp_all add: connected_node_shared) (simp_all add: shared_new_def)

end
