(* ===== verification/Publish_Properties.thy ===== *)
theory Publish_Properties
  imports Requests
begin

text \<open>
  The life of a publish: from the call of the client through the TX channel to the wire, and through the
  acknowledgements of the broker back to the client.
\<close>

section \<open>Sending\<close>

text \<open>
  The node is connected and idle, with room in the session and in the TX channel for the packet, whose
  announced size is enough for its encoding.
\<close>

definition has_room :: "Publish \<Rightarrow> Node \<Rightarrow> bool" where
  "has_room p nd \<longleftrightarrow> shared_ok (nd_shared nd) \<and>
     length (sh_inflight_pub (nd_shared nd)) < MAX_INFLIGHT \<and> length (sh_outgoing_pid (nd_shared nd)) < MAX_INFLIGHT \<and>
     length (sh_outgoing_rel (nd_shared nd)) < MAX_INFLIGHT \<and> tx_idle nd \<and>
     publish_ok (publish_set_pid pid_new p) \<and> length (nd_write_buf nd) = 32 \<and> size_fits publish_encode publish_body p nd"

definition publishable :: "Publish \<Rightarrow> Node \<Rightarrow> bool" where
  "publishable p nd \<longleftrightarrow> sh_connected (nd_shared nd) \<noteq> None \<and> \<not> nd_tx_locked nd \<and> has_room p nd"

lemma send_record_publish:
  assumes "length (sh_outgoing_pid sh) < MAX_INFLIGHT" and "length (sh_inflight_pub sh) < MAX_INFLIGHT"
  shows "\<exists>sh'. send_record publish_encode p pid sh = (Ok (), sh') \<and> pid_get pid \<in> set (sh_outgoing_pid sh') \<and>
    (pub_qos p \<noteq> AtMostOnce \<longrightarrow> pid_get pid \<in> set (sh_inflight_pub sh')) \<and> sh_outgoing_rel sh' = sh_outgoing_rel sh \<and>
    (shared_ok sh \<longrightarrow> shared_ok sh')"
  using assms record_publish_refines [of sh p pid]
  by (auto simp: refines_def answer_def send_record_def publish_encode_def publish_get_qos_def iset_insert_def Let_def)

lemma wait_unfold:
  "publish_step p (Waiting a pid w) nd =
     (case wait_publish_tx_step (pub_qos p) pid w (nd_shared nd) of
        (Inl w', sh) \<Rightarrow> (Waiting a pid w', nd\<lparr>nd_shared := sh\<rparr>)
      | (Inr r, sh) \<Rightarrow> (attempt_result 6 a r, nd\<lparr>nd_shared := sh\<rparr>))"
  by (simp add: publish_step_def)

lemmas wait_defs = wait_unfold wait_publish_tx_step_def wait_tx_poll_def wait_gone_poll_def iset_contains_def attempt_result_def

lemma publish_begins:
  assumes "publishable p nd"
  shows "\<exists>pid nd'. pid_ok pid \<and> fst (next_pid (nd_shared nd)) = Ok pid \<and>
    task_steps 4 (publish_step p) (Connecting 1, nd) = (Waiting 1 pid AwaitTx, nd') \<and> queued (publish_packet (publish_set_pid pid p)) pid nd' \<and> nd_write_buf nd' = nd_write_buf nd \<and>
    sh_outgoing_rel (nd_shared nd') = sh_outgoing_rel (nd_shared nd) \<and>
    pid_get pid \<in> set (sh_outgoing_pid (nd_shared nd')) \<and>
    (pub_qos p \<noteq> AtMostOnce \<longrightarrow> pid_get pid \<in> set (sh_inflight_pub (nd_shared nd'))) \<and> shared_ok (nd_shared nd')"
proof -
  let ?w = "wait_publish_tx_step (pub_qos p)"
  obtain pid where pid: "next_pid (nd_shared nd) = (Ok pid, (nd_shared nd)\<lparr>sh_last_pid := pid\<rparr>)" "pid_ok pid"
    using next_pid_ok [of "nd_shared nd"] assms by (auto simp: publishable_def has_room_def shared_ok_def)
  let ?sh = "(nd_shared nd)\<lparr>sh_last_pid := pid\<rparr>"
  have ok: "shared_ok ?sh" using assms pid(2) by (simp add: publishable_def has_room_def shared_ok_def)
  have b: "send_begin publish_encode p (nd_shared nd) = (Ok pid, ?sh)"
    using assms pid(1) by (auto simp: send_begin_def publishable_def has_room_def)
  obtain sh where s: "send_record publish_encode p pid ?sh = (Ok (), sh)"
    "pub_qos p \<noteq> AtMostOnce \<longrightarrow> pid_get pid \<in> set (sh_inflight_pub sh)" "sh_outgoing_rel sh = sh_outgoing_rel (nd_shared nd)" "shared_ok sh"
    "pid_get pid \<in> set (sh_outgoing_pid sh)"
    using send_record_publish [of ?sh p pid] assms ok by (auto simp: publishable_def has_room_def)
  have me: "me_set_pid publish_encode = publish_set_pid" "me_type publish_encode = PT_Publish" by (simp_all add: publish_encode_def)
  obtain nd' where nd': "task_steps 3 (publish_step p) (Sending 1, nd) = (Waiting 1 pid AwaitTx, nd')"
    "queued (publish_packet (publish_set_pid pid p)) pid nd'" "nd_shared nd' = sh" "nd_write_buf nd' = nd_write_buf nd"
    using pub.request_queues [OF _ pid(2) _ _ _ b s(1), of 6 AwaitTx ?w 1] assms
    unfolding publishable_def has_room_def publish_step_def me publish_packet_def by auto
  have "publish_step p (Connecting 1) nd = (Sending 1, nd)"
    using assms by (auto simp: publish_step_def wait_connected_poll_def publishable_def)
  with nd'(1) have "task_steps 4 (publish_step p) (Connecting 1, nd) = (Waiting 1 pid AwaitTx, nd')" by (simp add: numeral_nat)
  moreover have "fst (next_pid (nd_shared nd)) = Ok pid" using pid(1) by simp
  ultimately show ?thesis using pid(2) nd'(2-4) s(2-5) by blast
qed

section \<open>Acknowledgements\<close>

text \<open>The acknowledgements of the broker for each quality of service, and what the stack answers to them.\<close>

fun broker_acks :: "QoS \<Rightarrow> Pid \<Rightarrow> ReceivedPacket list" where
  "broker_acks AtMostOnce pid = []"
| "broker_acks AtLeastOnce pid =
     [RP_PubAck \<lparr>pa_pid = pid, pa_reason_code = PA_Success, pa_properties = DataBlock []\<rparr>]"
| "broker_acks ExactlyOnce pid =
     [RP_PubRec \<lparr>pr_pid = pid, pr_reason_code = PR_Success, pr_properties = DataBlock []\<rparr>,
      RP_PubComp \<lparr>pc_pid = pid, pc_reason_code = PC_Success, pc_properties = DataBlock []\<rparr>]"

fun broker_answers :: "QoS \<Rightarrow> Pid \<Rightarrow> bytes" where
  "broker_answers ExactlyOnce pid = [0x60, 2] @ u16_to_be (pid_get pid)"
| "broker_answers _ pid = []"

lemma encode_pubrel:
  "length buf = 32 \<Longrightarrow> pid_ok pid \<Longrightarrow>
   encode_packet pubrel_to_buffer \<lparr>pl_pid = pid, pl_reason_code = PL_Success, pl_properties = Slice []\<rparr> buf =
     Ok ([0x60, 2] @ u16_to_be (pid_get pid))"
  using pubrel.to_buffer_fits [of "\<lparr>pl_pid = pid, pl_reason_code = PL_Success, pl_properties = Slice []\<rparr>" buf]
  by (auto simp: encode_packet_def pubrel_ok_def pubrel_body_def ack_body_def packet_type_byte_def default_flags_def
      MAX_MQTT_HEADER_LEN_def ack_header props_ok_def)

text \<open>One acknowledgement, for a publish it belongs to.\<close>

lemma ack_settles:
  assumes ok: "shared_ok (nd_shared nd)" and pid: "pid_ok pid" and wb: "length (nd_write_buf nd) = 32"
  defines "x \<equiv> pid_get pid"
  shows "\<exists>nd'. on_packet stream_socket (RP_PubAck \<lparr>pa_pid = pid, pa_reason_code = PA_Success, pa_properties = DataBlock []\<rparr>) nd (inp, out) =
      (Ok (), nd', (inp, out)) \<and> sh_outgoing_pid (nd_shared nd') = sh_outgoing_pid (nd_shared nd) \<and> x \<notin> set (sh_inflight_pub (nd_shared nd'))"
    and "x \<in> set (sh_inflight_pub (nd_shared nd)) \<Longrightarrow> length (sh_outgoing_rel (nd_shared nd)) < MAX_INFLIGHT \<Longrightarrow>
      \<exists>nd'. on_packet stream_socket (RP_PubRec \<lparr>pr_pid = pid, pr_reason_code = PR_Success, pr_properties = DataBlock []\<rparr>) nd (inp, out) =
        (Ok (), nd', (inp, out @ [0x60, 2] @ u16_to_be x)) \<and> sh_outgoing_pid (nd_shared nd') = sh_outgoing_pid (nd_shared nd) \<and>
        x \<notin> set (sh_inflight_pub (nd_shared nd')) \<and> x \<in> set (sh_outgoing_rel (nd_shared nd')) \<and>
        shared_ok (nd_shared nd') \<and> nd_write_buf nd' = nd_write_buf nd"
    and "\<exists>nd'. on_packet stream_socket (RP_PubComp \<lparr>pc_pid = pid, pc_reason_code = PC_Success, pc_properties = DataBlock []\<rparr>) nd (inp, out) =
      (Ok (), nd', (inp, out)) \<and> sh_outgoing_pid (nd_shared nd') = sh_outgoing_pid (nd_shared nd) \<and>
      sh_inflight_pub (nd_shared nd') = sh_inflight_pub (nd_shared nd) \<and> x \<notin> set (sh_outgoing_rel (nd_shared nd'))"
proof -
  have d: "distinct (sh_inflight_pub (nd_shared nd))" "distinct (sh_outgoing_rel (nd_shared nd))"
    using ok by (simp_all add: shared_ok_def iset_ok_def)
  show "\<exists>nd'. on_packet stream_socket (RP_PubAck \<lparr>pa_pid = pid, pa_reason_code = PA_Success, pa_properties = DataBlock []\<rparr>) nd (inp, out) =
      (Ok (), nd', (inp, out)) \<and> sh_outgoing_pid (nd_shared nd') = sh_outgoing_pid (nd_shared nd) \<and> x \<notin> set (sh_inflight_pub (nd_shared nd'))"
    using d by (simp add: on_packet_def handle_pub_ack_def iset_remove_def quiet_def Let_def x_def)
  show "\<exists>nd'. on_packet stream_socket (RP_PubComp \<lparr>pc_pid = pid, pc_reason_code = PC_Success, pc_properties = DataBlock []\<rparr>) nd (inp, out) =
      (Ok (), nd', (inp, out)) \<and> sh_outgoing_pid (nd_shared nd') = sh_outgoing_pid (nd_shared nd) \<and>
      sh_inflight_pub (nd_shared nd') = sh_inflight_pub (nd_shared nd) \<and> x \<notin> set (sh_outgoing_rel (nd_shared nd'))"
    using d by (simp add: on_packet_def handle_pub_comp_def iset_remove_def quiet_def Let_def x_def split: bool.splits)
  let ?rec = "\<lparr>pr_pid = pid, pr_reason_code = PR_Success, pr_properties = DataBlock []\<rparr>"
  assume rec: "x \<in> set (sh_inflight_pub (nd_shared nd))" "length (sh_outgoing_rel (nd_shared nd)) < MAX_INFLIGHT"
  obtain b rel where rel: "iset_insert MAX_INFLIGHT x (sh_outgoing_rel (nd_shared nd)) = Some (b, rel)" "x \<in> set rel"
      "iset_ok MAX_INFLIGHT rel"
    using rec(2) ok that by (cases "x \<in> set (sh_outgoing_rel (nd_shared nd))") (auto simp: iset_insert_def shared_ok_def iset_ok_def)
  have h: "handle_pub_rec ?rec (nd_shared nd) =
      (Ok \<lparr>pl_pid = pid, pl_reason_code = PL_Success, pl_properties = Slice []\<rparr>,
       wake_tx ((nd_shared nd)\<lparr>sh_inflight_pub := remove1 x (sh_inflight_pub (nd_shared nd)), sh_outgoing_rel := rel\<rparr>))"
    using rec(1) rel(1) by (simp add: handle_pub_rec_def iset_remove_def Let_def x_def)
  have "iset_ok MAX_INFLIGHT (remove1 x (sh_inflight_pub (nd_shared nd)))"
    using ok by (auto simp: shared_ok_def iset_ok_def length_remove1)
  then show "\<exists>nd'. on_packet stream_socket (RP_PubRec ?rec) nd (inp, out) =
        (Ok (), nd', (inp, out @ [0x60, 2] @ u16_to_be x)) \<and> sh_outgoing_pid (nd_shared nd') = sh_outgoing_pid (nd_shared nd) \<and>
        x \<notin> set (sh_inflight_pub (nd_shared nd')) \<and> x \<in> set (sh_outgoing_rel (nd_shared nd')) \<and>
        shared_ok (nd_shared nd') \<and> nd_write_buf nd' = nd_write_buf nd"
    using d rel(2,3) ok pid wb by (simp add: on_packet_def h reply_def send_packet_def encode_pubrel x_def shared_ok_def)
qed

section \<open>Completion\<close>

lemma finished_stays: "task_steps n (publish_step p) (Finished r, nd) = (Finished r, nd)"
  by (induction n) (simp_all add: publish_step_def)

lemma task_steps_add: "task_steps (m + n) f x = task_steps n f (task_steps m f x)"
proof (induction m arbitrary: x)
  case (Suc m)
  obtain t nd where "x = (t, nd)" by force
  moreover obtain t1 nd1 where "f t nd = (t1, nd1)" by force
  ultimately show ?case using Suc.IH [of "(t1, nd1)"] by simp
qed simp

text \<open>Polls change nothing but the wakers of the session.\<close>

definition same_ids :: "Node \<Rightarrow> Node \<Rightarrow> bool" where
  "same_ids nd nd' \<longleftrightarrow> (\<exists>sh. nd' = nd\<lparr>nd_shared := sh\<rparr> \<and> sh_inflight_pub sh = sh_inflight_pub (nd_shared nd) \<and>
     sh_outgoing_pid sh = sh_outgoing_pid (nd_shared nd) \<and> sh_outgoing_rel sh = sh_outgoing_rel (nd_shared nd) \<and>
     (shared_ok sh \<longleftrightarrow> shared_ok (nd_shared nd)))"

lemma same_ids_refl: "same_ids nd nd"
  by (auto simp: same_ids_def intro: exI [of _ "nd_shared nd"])

lemma same_ids_trans: "same_ids nd nd1 \<Longrightarrow> same_ids nd1 nd2 \<Longrightarrow> same_ids nd nd2"
  by (auto simp: same_ids_def)

lemma same_idsD:
  assumes "same_ids nd nd'"
  shows "sh_inflight_pub (nd_shared nd') = sh_inflight_pub (nd_shared nd)" "sh_outgoing_pid (nd_shared nd') = sh_outgoing_pid (nd_shared nd)"
    "sh_outgoing_rel (nd_shared nd') = sh_outgoing_rel (nd_shared nd)" "shared_ok (nd_shared nd') = shared_ok (nd_shared nd)"
    "nd_write_buf nd' = nd_write_buf nd" "queued pkt pid nd' = queued pkt pid nd"
  using assms by (auto simp: same_ids_def queued_def)

text \<open>
  What holds a publish back: before the packet is written its own entry, after it the entry of the acknowledgement that is
  still to come.
\<close>

definition held_back :: "QoS \<Rightarrow> Pid \<Rightarrow> PublishWait \<Rightarrow> Node \<Rightarrow> bool" where
  "held_back q pid w nd \<longleftrightarrow>
     (w = AwaitTx \<and> pid_get pid \<in> set (sh_outgoing_pid (nd_shared nd))) \<or>
     (q \<noteq> AtMostOnce \<and> w \<noteq> AwaitComp \<and> pid_get pid \<in> set (sh_inflight_pub (nd_shared nd))) \<or>
     (q = ExactlyOnce \<and> pid_get pid \<in> set (sh_outgoing_rel (nd_shared nd)))"

lemma same_ids_waker: "same_ids nd (nd\<lparr>nd_shared := register_tx_waker (nd_shared nd)\<rparr>)"
  unfolding same_ids_def by (intro exI [of _ "register_tx_waker (nd_shared nd)"]) simp

lemma poll_waits:
  assumes "held_back (pub_qos p) pid w nd"
  shows "\<exists>w1 nd1. publish_step p (Waiting a pid w) nd = (Waiting a pid w1, nd1) \<and> same_ids nd nd1 \<and>
    (pid_get pid \<in> set (sh_outgoing_pid (nd_shared nd)) \<longrightarrow> w = AwaitTx \<longrightarrow> w1 = AwaitTx) \<and>
    (pid_get pid \<in> set (sh_inflight_pub (nd_shared nd)) \<longrightarrow> w \<noteq> AwaitComp \<longrightarrow> w1 \<noteq> AwaitComp) \<and>
    held_back (pub_qos p) pid w1 nd1"
  using assms same_ids_refl [of nd] same_ids_waker [of nd]
  by (cases w; cases "pid_get pid \<in> set (sh_outgoing_pid (nd_shared nd))"; cases "pid_get pid \<in> set (sh_inflight_pub (nd_shared nd))";
      cases "pid_get pid \<in> set (sh_outgoing_rel (nd_shared nd))"; cases "pub_qos p")
    (simp_all add: held_back_def wait_defs)

lemma polls_wait:
  assumes "held_back (pub_qos p) pid w nd"
  shows "\<exists>w' nd'. task_steps n (publish_step p) (Waiting a pid w, nd) = (Waiting a pid w', nd') \<and> same_ids nd nd' \<and>
    (pid_get pid \<in> set (sh_outgoing_pid (nd_shared nd)) \<longrightarrow> w = AwaitTx \<longrightarrow> w' = AwaitTx) \<and>
    (pid_get pid \<in> set (sh_inflight_pub (nd_shared nd)) \<longrightarrow> w \<noteq> AwaitComp \<longrightarrow> w' \<noteq> AwaitComp)"
  using assms
proof (induction n arbitrary: nd w)
  case 0
  then show ?case by (simp add: same_ids_refl)
next
  case (Suc n)
  obtain w1 nd1 where s: "publish_step p (Waiting a pid w) nd = (Waiting a pid w1, nd1)" "same_ids nd nd1"
    "pid_get pid \<in> set (sh_outgoing_pid (nd_shared nd)) \<longrightarrow> w = AwaitTx \<longrightarrow> w1 = AwaitTx"
    "pid_get pid \<in> set (sh_inflight_pub (nd_shared nd)) \<longrightarrow> w \<noteq> AwaitComp \<longrightarrow> w1 \<noteq> AwaitComp" "held_back (pub_qos p) pid w1 nd1"
    using poll_waits [OF Suc.prems, of a] by blast
  from Suc.IH [OF s(5)] same_idsD(1,2) [OF s(2)] s show ?case by (auto intro: same_ids_trans)
qed

lemma after_acks:
  assumes "pid_get pid \<notin> set (sh_outgoing_pid (nd_shared nd))"
    and "pub_qos p \<noteq> AtMostOnce \<or> w \<noteq> AwaitTx \<longrightarrow> pid_get pid \<notin> set (sh_inflight_pub (nd_shared nd))"
    and "pub_qos p = ExactlyOnce \<or> w = AwaitComp \<longrightarrow> pid_get pid \<notin> set (sh_outgoing_rel (nd_shared nd))"
    and "3 \<le> n"
  shows "task_steps n (publish_step p) (Waiting a pid w, nd) = (Finished (Ok ()), nd)"
proof -
  have f: "publish_step p (Finished r) nd = (Finished r, nd)" for r nd by (simp add: publish_step_def)
  have "task_steps 3 (publish_step p) (Waiting a pid w, nd) = (Finished (Ok ()), nd)"
    using assms(1-3) by (cases w; cases "pub_qos p") (simp_all add: eval_nat_numeral wait_defs f)
  with task_steps_add [of 3 "n - 3" "publish_step p" "(Waiting a pid w, nd)"] finished_stays assms(4) show ?thesis by simp
qed

text \<open>Acknowledgements arrive one after the other, and after each of them the call is polled any number of times.\<close>

fun answered ::
  "'s Socket \<Rightarrow> Publish \<Rightarrow> (ReceivedPacket \<times> nat) list \<Rightarrow> PublishWait Task \<times> Node \<Rightarrow> 's \<Rightarrow>
   (StateError, unit) result \<times> (PublishWait Task \<times> Node) \<times> 's" where
  "answered sk p [] x s = (Ok (), x, s)"
| "answered sk p ((packet, n) # packets) (task, nd) s =
     (case on_packet sk packet nd s of
        (Ok _, nd1, s1) \<Rightarrow> answered sk p packets (task_steps n (publish_step p) (task, nd1)) s1
      | (r, nd1, s1) \<Rightarrow> (r, (task, nd1), s1))"

text \<open>A publish that is written to the connection, polled, and acknowledged as far as \<open>ns\<close> has counts of polls.\<close>

definition acked :: "Publish \<Rightarrow> Pid \<Rightarrow> nat \<Rightarrow> nat list \<Rightarrow> Node \<Rightarrow> bytes \<times> bytes \<Rightarrow>
    (StateError, unit) result \<times> (PublishWait Task \<times> Node) \<times> bytes \<times> bytes" where
  "acked p pid n ns nd s =
     answered stream_socket p (zip (broker_acks (pub_qos p) pid) ns) (task_steps n (publish_step p) (Waiting 1 pid AwaitTx, nd)) s"

text \<open>The publish has been written to the connection.\<close>

definition written :: "Publish \<Rightarrow> Pid \<Rightarrow> Node \<Rightarrow> bool" where
  "written p pid nd \<longleftrightarrow> pid_ok pid \<and> shared_ok (nd_shared nd) \<and> length (nd_write_buf nd) = 32 \<and>
     length (sh_outgoing_rel (nd_shared nd)) < MAX_INFLIGHT \<and> pid_get pid \<notin> set (sh_outgoing_pid (nd_shared nd)) \<and>
     (pub_qos p \<noteq> AtMostOnce \<longrightarrow> pid_get pid \<in> set (sh_inflight_pub (nd_shared nd)))"

lemma written_polls:
  assumes "written p pid nd" and "pub_qos p \<noteq> AtMostOnce"
  shows "\<exists>w nd'. task_steps n (publish_step p) (Waiting 1 pid AwaitTx, nd) = (Waiting 1 pid w, nd') \<and> written p pid nd'"
proof -
  have "held_back (pub_qos p) pid AwaitTx nd" using assms by (simp add: held_back_def written_def)
  from polls_wait [OF this, of n 1] obtain w nd' where
    w: "task_steps n (publish_step p) (Waiting 1 pid AwaitTx, nd) = (Waiting 1 pid w, nd')" "same_ids nd nd'" by blast
  with assms(1) same_idsD [OF w(2)] show ?thesis by (auto simp: written_def)
qed

lemma acked_at_least_once:
  assumes "written p pid nd" and q: "pub_qos p = AtLeastOnce"
  shows "\<exists>w nd'. acked p pid n [] nd (inp, out) = (Ok (), (Waiting 1 pid w, nd'), (inp, out))"
    and "\<exists>x. acked p pid n [m] nd (inp, out) = (Ok (), x, (inp, out)) \<and> (3 \<le> m \<longrightarrow> fst x = Finished (Ok ()))"
proof -
  obtain w nd1 where w: "task_steps n (publish_step p) (Waiting 1 pid AwaitTx, nd) = (Waiting 1 pid w, nd1)" "written p pid nd1"
    using written_polls [OF assms(1), of n] q by auto
  then show "\<exists>w nd'. acked p pid n [] nd (inp, out) = (Ok (), (Waiting 1 pid w, nd'), (inp, out))" by (simp add: acked_def)
  obtain nd2 where a: "on_packet stream_socket (RP_PubAck \<lparr>pa_pid = pid, pa_reason_code = PA_Success, pa_properties = DataBlock []\<rparr>) nd1 (inp, out) =
      (Ok (), nd2, (inp, out))" "pid_get pid \<notin> set (sh_outgoing_pid (nd_shared nd2))" "pid_get pid \<notin> set (sh_inflight_pub (nd_shared nd2))"
    using ack_settles(1) [of nd1 pid inp out] w(2) by (auto simp: written_def)
  have "w \<noteq> AwaitComp"
    using polls_wait [of p pid AwaitTx nd n 1] assms w(1) by (auto simp: held_back_def written_def)
  with after_acks [OF a(2), of p w m 1] a(3) q have "3 \<le> m \<Longrightarrow> task_steps m (publish_step p) (Waiting 1 pid w, nd2) = (Finished (Ok ()), nd2)"
    by simp
  then show "\<exists>x. acked p pid n [m] nd (inp, out) = (Ok (), x, (inp, out)) \<and> (3 \<le> m \<longrightarrow> fst x = Finished (Ok ()))"
    using w(1) a(1) q by (simp add: acked_def)
qed

lemma acked_exactly_once:
  assumes "written p pid nd" and q: "pub_qos p = ExactlyOnce"
  shows "\<exists>w nd'. acked p pid n [] nd (inp, out) = (Ok (), (Waiting 1 pid w, nd'), (inp, out))"
    and "\<exists>w nd'. acked p pid n [m] nd (inp, out) = (Ok (), (Waiting 1 pid w, nd'), (inp, out @ [0x60, 2] @ u16_to_be (pid_get pid)))"
    and "\<exists>x. acked p pid n [m, l] nd (inp, out) = (Ok (), x, (inp, out @ [0x60, 2] @ u16_to_be (pid_get pid))) \<and>
      (3 \<le> l \<longrightarrow> fst x = Finished (Ok ()))"
proof -
  let ?rec = "RP_PubRec \<lparr>pr_pid = pid, pr_reason_code = PR_Success, pr_properties = DataBlock []\<rparr>"
  let ?comp = "RP_PubComp \<lparr>pc_pid = pid, pc_reason_code = PC_Success, pc_properties = DataBlock []\<rparr>"
  let ?out = "out @ [0x60, 2] @ u16_to_be (pid_get pid)"
  obtain w nd1 where w: "task_steps n (publish_step p) (Waiting 1 pid AwaitTx, nd) = (Waiting 1 pid w, nd1)" "written p pid nd1"
    using written_polls [OF assms(1), of n] q by auto
  then show "\<exists>w nd'. acked p pid n [] nd (inp, out) = (Ok (), (Waiting 1 pid w, nd'), (inp, out))" by (simp add: acked_def)
  obtain nd2 where r: "on_packet stream_socket ?rec nd1 (inp, out) = (Ok (), nd2, (inp, ?out))"
    "pid_get pid \<notin> set (sh_outgoing_pid (nd_shared nd2))" "pid_get pid \<notin> set (sh_inflight_pub (nd_shared nd2))"
    "pid_get pid \<in> set (sh_outgoing_rel (nd_shared nd2))" "shared_ok (nd_shared nd2)" "length (nd_write_buf nd2) = 32"
    using ack_settles(2) [of nd1 pid inp out] w(2) q by (auto simp: written_def)
  obtain w2 nd3 where w2: "task_steps m (publish_step p) (Waiting 1 pid w, nd2) = (Waiting 1 pid w2, nd3)" "same_ids nd2 nd3"
    using polls_wait [of p pid w nd2 m 1] r(4) q by (auto simp: held_back_def)
  then show "\<exists>w nd'. acked p pid n [m] nd (inp, out) = (Ok (), (Waiting 1 pid w, nd'), (inp, ?out))"
    using w(1) r(1) q by (simp add: acked_def)
  obtain nd4 where c: "on_packet stream_socket ?comp nd3 (inp, ?out) = (Ok (), nd4, (inp, ?out))"
    "pid_get pid \<notin> set (sh_outgoing_pid (nd_shared nd4))" "pid_get pid \<notin> set (sh_inflight_pub (nd_shared nd4))"
    "pid_get pid \<notin> set (sh_outgoing_rel (nd_shared nd4))"
    using ack_settles(3) [of nd3 pid inp ?out] w(2) r(2-6) same_idsD [OF w2(2)] by (auto simp: written_def)
  with after_acks [OF c(2), of p w2 l 1] have "3 \<le> l \<Longrightarrow> task_steps l (publish_step p) (Waiting 1 pid w2, nd4) = (Finished (Ok ()), nd4)"
    by simp
  then show "\<exists>x. acked p pid n [m, l] nd (inp, out) = (Ok (), x, (inp, ?out)) \<and> (3 \<le> l \<longrightarrow> fst x = Finished (Ok ()))"
    using w(1) r(1) w2(1) c(1) q by (simp add: acked_def)
qed

lemma acked_waits:
  assumes "written p pid nd" and "length ns < length (broker_acks (pub_qos p) pid)"
  shows "\<exists>w nd' s'. acked p pid n ns nd (inp, out) = (Ok (), (Waiting 1 pid w, nd'), s')"
proof (cases "pub_qos p")
  case AtLeastOnce
  with assms(2) have "ns = []" by simp
  with acked_at_least_once(1) [OF assms(1) AtLeastOnce, of n inp out] show ?thesis by blast
next
  case ExactlyOnce
  with assms(2) have "ns = [] \<or> (\<exists>m. ns = [m])" by (cases ns) auto
  with acked_exactly_once(1,2) [OF assms(1) ExactlyOnce] show ?thesis by metis
qed (use assms(2) in simp)

lemma acked_returns:
  assumes "written p pid nd" and "length ns = length (broker_acks (pub_qos p) pid)"
  shows "\<exists>x. acked p pid n ns nd (inp, out) = (Ok (), x, (inp, out @ broker_answers (pub_qos p) pid)) \<and>
    (3 \<le> last (n # ns) \<longrightarrow> fst x = Finished (Ok ()))"
proof (cases "pub_qos p")
  case AtMostOnce
  with assms after_acks [of pid nd p AwaitTx n 1] show ?thesis by (auto simp: acked_def written_def)
next
  case AtLeastOnce
  with assms(2) obtain m where "ns = [m]" by (auto simp: length_Suc_conv)
  with acked_at_least_once(2) [OF assms(1) AtLeastOnce] AtLeastOnce show ?thesis by simp
next
  case ExactlyOnce
  with assms(2) obtain m l where "ns = [m, l]" by (auto simp: length_Suc_conv)
  with acked_exactly_once(3) [OF assms(1) ExactlyOnce] ExactlyOnce show ?thesis by simp
qed

text \<open>
  C2: A publish is carried out.  On a connected, idle node the call of the client queues the packet under the next packet
  identifier of the session and then waits, however often it is polled, for its transmission; the stack writes exactly the
  encoded packet to the connection.  The broker then sends its acknowledgements - PUBACK for QoS 1, PUBREC and PUBCOMP for
  QoS 2 - with any number of polls before, between and after them: before the last of them is handled the call still
  waits, the stack answers a PUBREC with PUBREL and the other two with nothing, and once the last has been handled, or
  for QoS 0 once the packet is written, the call returns \<open>Ok\<close> within three polls.
\<close>

theorem publish_completes:
  assumes "publishable p nd"
  shows "\<exists>pid nd1. fst (next_pid (nd_shared nd)) = Ok pid \<and>
    task_steps 4 (publish_step p) (Connecting 1, nd) = (Waiting 1 pid AwaitTx, nd1) \<and>
    (\<forall>k. \<exists>nd2 nd3. task_steps k (publish_step p) (Waiting 1 pid AwaitTx, nd1) = (Waiting 1 pid AwaitTx, nd2) \<and>
      select_tx stream_socket now nd2 (inp, out) = (Ok (), nd3, (inp, out @ publish_packet (publish_set_pid pid p))) \<and>
      (\<forall>n ns. length ns < length (broker_acks (pub_qos p) pid) \<longrightarrow>
        (\<exists>w nd' s'. acked p pid n ns nd3 (inp', out') = (Ok (), (Waiting 1 pid w, nd'), s'))) \<and>
      (\<forall>n ns. length ns = length (broker_acks (pub_qos p) pid) \<longrightarrow>
        (\<exists>x. acked p pid n ns nd3 (inp', out') = (Ok (), x, (inp', out' @ broker_answers (pub_qos p) pid)) \<and>
          (3 \<le> last (n # ns) \<longrightarrow> fst x = Finished (Ok ())))))"
proof -
  obtain pid nd1 where pid: "pid_ok pid" "fst (next_pid (nd_shared nd)) = Ok pid"
    and b: "task_steps 4 (publish_step p) (Connecting 1, nd) = (Waiting 1 pid AwaitTx, nd1)"
    "queued (publish_packet (publish_set_pid pid p)) pid nd1" "nd_write_buf nd1 = nd_write_buf nd"
    "sh_outgoing_rel (nd_shared nd1) = sh_outgoing_rel (nd_shared nd)" "pid_get pid \<in> set (sh_outgoing_pid (nd_shared nd1))"
    "pub_qos p \<noteq> AtMostOnce \<longrightarrow> pid_get pid \<in> set (sh_inflight_pub (nd_shared nd1))" "shared_ok (nd_shared nd1)"
    using publish_begins [OF assms] by blast
  have "\<exists>nd2 nd3. task_steps k (publish_step p) (Waiting 1 pid AwaitTx, nd1) = (Waiting 1 pid AwaitTx, nd2) \<and>
      select_tx stream_socket now nd2 (inp, out) = (Ok (), nd3, (inp, out @ publish_packet (publish_set_pid pid p))) \<and> written p pid nd3" for k
  proof -
    obtain nd2 where w: "task_steps k (publish_step p) (Waiting 1 pid AwaitTx, nd1) = (Waiting 1 pid AwaitTx, nd2)" "same_ids nd1 nd2"
      using polls_wait [of p pid AwaitTx nd1 k 1] b(5) by (auto simp: held_back_def)
    note same = same_idsD [OF w(2)]
    have "distinct (sh_outgoing_pid (nd_shared nd2))" "queued (publish_packet (publish_set_pid pid p)) pid nd2"
      using b(2,7) same(2,6) by (simp_all add: shared_ok_def iset_ok_def)
    then obtain nd3 where t: "select_tx stream_socket now nd2 (inp, out) = (Ok (), nd3, (inp, out @ publish_packet (publish_set_pid pid p)))"
      "nd_shared nd3 = transmitted (pid_get pid) (nd_shared nd2)" "nd_write_buf nd3 = nd_write_buf nd2"
      "pid_get pid \<notin> set (sh_outgoing_pid (nd_shared nd3))"
      using select_tx_queued [of _ pid nd2 now inp out] pid(1) by blast
    have "shared_ok (nd_shared nd3)"
      using removal_refines(4) [of "nd_shared nd2" "pid_get pid"] same(4) b(7) t(2) by (simp add: refines_def)
    moreover have "sh_inflight_pub (nd_shared nd3) = sh_inflight_pub (nd_shared nd1)" "sh_outgoing_rel (nd_shared nd3) = sh_outgoing_rel (nd_shared nd)"
      using same(1,3) b(4) by (simp_all add: t(2) transmitted_def)
    moreover have "length (nd_write_buf nd3) = 32" "length (sh_outgoing_rel (nd_shared nd)) < MAX_INFLIGHT"
      using assms t(3) same(5) b(3) by (simp_all add: publishable_def has_room_def)
    ultimately have "written p pid nd3" using t(4) b(6) pid(1) by (simp add: written_def)
    with w(1) t(1) show ?thesis by blast
  qed
  with pid(2) b(1) acked_waits acked_returns show ?thesis by metis
qed

definition qos2_request :: Publish where
  "qos2_request = \<lparr>pub_dup = False, pub_qos = ExactlyOnce, pub_retain = False, pub_pid = None,
     pub_topic_name = [97], pub_payload = PayloadBytes [1], pub_properties = Slice []\<rparr>"

theorem publish_completes_witness:
  "\<exists>nd1 nd3 w nd' s' nd''. task_steps 4 (publish_step qos2_request) (Connecting 1, connected_node) = (Waiting 1 (Pid 2) AwaitTx, nd1) \<and>
    select_tx stream_socket 7 nd1 ([], []) = (Ok (), nd3, ([], publish_packet (publish_set_pid (Pid 2) qos2_request))) \<and>
    acked qos2_request (Pid 2) 9 [9] nd3 ([], []) = (Ok (), (Waiting 1 (Pid 2) w, nd'), s') \<and>
    acked qos2_request (Pid 2) 0 [0, 3] nd3 ([], []) = (Ok (), (Finished (Ok ()), nd''), ([], [0x60, 2, 0, 2]))"
proof -
  have "publish_ok (publish_set_pid pid_new qos2_request)"
    by (simp add: qos2_request_def publish_ok_def publish_set_pid_def str_ok_def props_ok_def pid_ok_def pid_new_def)
  moreover have "publish_max_packet_size qos2_request = Ok 12" by code_simp
  moreover have "MAX_MQTT_HEADER_LEN + length (publish_body (publish_set_pid pid_new qos2_request)) \<le> 12" by code_simp
  ultimately have "publishable qos2_request connected_node"
    by (simp add: publishable_def has_room_def size_fits_def publish_encode_def MAX_INFLIGHT_def)
  from publish_completes [OF this, of 7 "[]" "[]" "[]" "[]"] obtain pid nd1 where
    p: "fst (next_pid (nd_shared connected_node)) = Ok pid"
      "task_steps 4 (publish_step qos2_request) (Connecting 1, connected_node) = (Waiting 1 pid AwaitTx, nd1)"
    and all: "\<forall>k. \<exists>nd2 nd3. task_steps k (publish_step qos2_request) (Waiting 1 pid AwaitTx, nd1) = (Waiting 1 pid AwaitTx, nd2) \<and>
      select_tx stream_socket 7 nd2 ([], []) = (Ok (), nd3, ([], [] @ publish_packet (publish_set_pid pid qos2_request))) \<and>
      (\<forall>n ns. length ns < length (broker_acks (pub_qos qos2_request) pid) \<longrightarrow>
        (\<exists>w nd' s'. acked qos2_request pid n ns nd3 ([], []) = (Ok (), (Waiting 1 pid w, nd'), s'))) \<and>
      (\<forall>n ns. length ns = length (broker_acks (pub_qos qos2_request) pid) \<longrightarrow>
        (\<exists>x. acked qos2_request pid n ns nd3 ([], []) = (Ok (), x, ([], [] @ broker_answers (pub_qos qos2_request) pid)) \<and>
          (3 \<le> last (n # ns) \<longrightarrow> fst x = Finished (Ok ()))))" by - (elim exE conjE, rule that)
  have "pid_add pid_new 1 = (Ok (Pid 2) :: (Error, Pid) result)" by (simp add: pid_add_def pid_new_def nonzero_unwrap_def)
  then have pid: "pid = Pid 2" using p(1) by (simp add: connected_node_shared next_pid_def shared_new_def)
  have q: "pub_qos qos2_request = ExactlyOnce" by (simp add: qos2_request_def)
  have two: "u16_to_be 2 = [0, 2]" by code_simp
  from spec [OF all, of 0] obtain nd3 where t: "select_tx stream_socket 7 nd1 ([], []) =
      (Ok (), nd3, ([], publish_packet (publish_set_pid pid qos2_request)))"
    and w: "\<forall>n ns. length ns < length (broker_acks ExactlyOnce pid) \<longrightarrow>
        (\<exists>w nd' s'. acked qos2_request pid n ns nd3 ([], []) = (Ok (), (Waiting 1 pid w, nd'), s'))"
      "\<forall>n ns. length ns = length (broker_acks ExactlyOnce pid) \<longrightarrow>
        (\<exists>x. acked qos2_request pid n ns nd3 ([], []) = (Ok (), x, ([], broker_answers ExactlyOnce pid)) \<and>
          (3 \<le> last (n # ns) \<longrightarrow> fst x = Finished (Ok ())))" unfolding q by auto
  obtain w1 nd' s' where "acked qos2_request pid 9 [9] nd3 ([], []) = (Ok (), (Waiting 1 pid w1, nd'), s')"
    using w(1) [rule_format, of "[9]" 9] by auto
  moreover obtain x where "acked qos2_request pid 0 [0, 3] nd3 ([], []) = (Ok (), x, ([], broker_answers ExactlyOnce pid))"
    "fst x = Finished (Ok ())" using w(2) [rule_format, of "[0, 3]" 0] by auto
  ultimately show ?thesis using p(2) t two unfolding pid by (cases x) auto
qed

text \<open>
  C31: A lost connection makes every waiting publish succeed.  When the stack resets the session, whatever a
  publish is waiting for, and whatever its quality of service, its next polls return \<open>Ok\<close>, although the
  packet may never have been sent and the broker never acknowledged it.
\<close>

theorem reset_completes_waiting_publish:
  "task_steps 3 (publish_step p) (Waiting a pid w, stack_reset nd) = (Finished (Ok ()), stack_reset nd)"
  by (rule after_acks) (simp_all add: stack_reset_def shared_reset_def)

end
