(* ===== verification/Subscribe_Properties.thy ===== *)
theory Subscribe_Properties
  imports Delivery_Properties Requests
begin

text \<open>
  The life of a subscription: the request of the client, its acknowledgement by the broker, and the
  subscription that comes of it.
\<close>

section \<open>Requesting\<close>

definition subscribe_packet :: "Subscribe \<Rightarrow> bytes" where
  "subscribe_packet p = fixed_header_bytes 0x80 2 (length (subscribe_body p)) @ subscribe_body p"

text \<open>
  The node is connected and idle, with room for the request and for one more subscriber, and the topics of the
  request are valid filters.
\<close>

definition subscribe_ready :: "Subscribe \<Rightarrow> Node \<Rightarrow> bool" where
  "subscribe_ready p nd \<longleftrightarrow> sh_connected (nd_shared nd) \<noteq> None \<and> \<not> nd_tx_locked nd \<and>
     shared_ok (nd_shared nd) \<and> length (sh_outgoing_pid (nd_shared nd)) < MAX_INFLIGHT \<and>
     length (sh_ack_status (nd_shared nd)) < MAX_SUBSCRIBERS \<and> tx_idle nd \<and> props_ok (sub_properties p) \<and>
     size_fits subscribe_encode subscribe_body p nd"

definition subscribable :: "nat \<Rightarrow> Subscribe \<Rightarrow> FrameSubscriber list \<Rightarrow> Node \<Rightarrow> bool" where
  "subscribable MAX_TOPICS p subs nd \<longleftrightarrow> subscribe_ready p nd \<and> chan_ok (nd_rx nd) subs \<and> length subs < MAX_SUBSCRIBERS \<and>
     (\<forall>t \<in> set (sub_topics p). is_ok (topic_filter_new (st_topic_path t))) \<and> length (sub_topics p) \<le> MAX_TOPICS"

lemma send_record_subscribe:
  assumes "shared_ok sh" "length (sh_outgoing_pid sh) < MAX_INFLIGHT" and "length (sh_ack_status sh) < MAX_SUBSCRIBERS"
  shows "\<exists>sh'. send_record subscribe_encode p pid sh = (Ok (), sh') \<and> shared_ok sh' \<and>
    imap_get (pid_get pid) (sh_ack_status sh') = Some AwaitingSubAck \<and>
    sh_clean_session_count sh' = sh_clean_session_count sh"
  using assms request_refines [of sh subscribe_encode AwaitingSubAck p pid]
  by (auto simp: refines_def answer_def send_record_def subscribe_encode_def iset_insert_def imap_insert_def imap_get_def Let_def)

lemma subscribe_begin_Ok:
  assumes "chan_ok (nd_rx nd) subs" and "length subs < MAX_SUBSCRIBERS"
  shows "\<exists>fs st. subscribe_begin nd = (Ok fs, with_rx st nd) \<and> st_ok st None (subs @ [fs]) \<and>
    ps_capacity st = length (ch_buf (nd_rx nd)) \<and> fs_next_message_id fs = ps_next_message_id st"
proof -
  let ?st = "ch_state (nd_rx nd)"
  have ok: "st_ok ?st None subs" "ps_capacity ?st = length (ch_buf (nd_rx nd))" using assms(1) by (simp_all add: chan_ok_def)
  have c: "unat (ps_subscriber_count ?st) < 8" using st_okD(5) [OF ok(1)] assms(2) by (simp add: MAX_SUBSCRIBERS_def)
  then have "\<not> (of_nat MAX_SUBSCRIBERS :: u8) \<le> ps_subscriber_count ?st" by (simp add: MAX_SUBSCRIBERS_def word_le_nat_alt)
  with c have s: "channel_subscriber MAX_SUBSCRIBERS ?st =
      (Ok \<lparr>fs_next_message_id = ps_next_message_id ?st\<rparr>, ?st\<lparr>ps_subscriber_count := ps_subscriber_count ?st + 1\<rparr>)"
    by (simp add: channel_subscriber_def)
  from subscribe_ok(2) [OF ok(1) _ s refl] s ok(2) show ?thesis
    by (auto simp: subscribe_begin_def MAX_SUBSCRIBERS_def)
qed

lemma subscribe_begins:
  assumes "subscribe_ready p nd"
  shows "\<exists>pid nd'. pid_ok pid \<and> task_steps 4 (subscribe_step p) (Connecting 1, nd) = (Waiting 1 pid AwaitSubTx, nd') \<and>
    queued (subscribe_packet (subscribe_set_pid pid p)) pid nd' \<and> shared_ok (nd_shared nd') \<and>
    imap_get (pid_get pid) (sh_ack_status (nd_shared nd')) = Some AwaitingSubAck \<and> nd_rx nd' = nd_rx nd \<and>
    sh_clean_session_count (nd_shared nd') = sh_clean_session_count (nd_shared nd)"
proof -
  obtain pid where pid: "next_pid (nd_shared nd) = (Ok pid, (nd_shared nd)\<lparr>sh_last_pid := pid\<rparr>)" "pid_ok pid"
    using next_pid_ok [of "nd_shared nd"] assms by (auto simp: subscribe_ready_def shared_ok_def)
  let ?sh = "(nd_shared nd)\<lparr>sh_last_pid := pid\<rparr>"
  have ok: "shared_ok ?sh" using assms pid(2) by (simp add: subscribe_ready_def shared_ok_def)
  have b: "send_begin subscribe_encode p (nd_shared nd) = (Ok pid, ?sh)"
    using pid(1) by (simp add: send_begin_def subscribe_encode_def)
  obtain sh where s: "send_record subscribe_encode p pid ?sh = (Ok (), sh)" "shared_ok sh"
    "imap_get (pid_get pid) (sh_ack_status sh) = Some AwaitingSubAck" "sh_clean_session_count sh = sh_clean_session_count (nd_shared nd)"
    using send_record_subscribe [OF ok, of p pid] assms by (auto simp: subscribe_ready_def)
  have me: "me_set_pid subscribe_encode = subscribe_set_pid" "me_type subscribe_encode = PT_Subscribe"
    by (simp_all add: subscribe_encode_def)
  have p: "subscribe_ok (subscribe_set_pid pid_new p)"
    using assms by (simp add: subscribe_ready_def subscribe_ok_def subscribe_set_pid_def)
  obtain nd' where nd': "task_steps 3 (subscribe_step p) (Sending 1, nd) = (Waiting 1 pid AwaitSubTx, nd')"
    "queued (subscribe_packet (subscribe_set_pid pid p)) pid nd'" "nd_shared nd' = sh" "nd_rx nd' = nd_rx nd"
    using subs.request_queues [OF _ pid(2) _ _ _ b s(1), of 3 AwaitSubTx wait_subscribe_tx_step 1] assms p
    unfolding subscribe_ready_def subscribe_step_def me subscribe_packet_def subscribe_flags_def by (auto simp: packet_type_byte_def)
  have "subscribe_step p (Connecting 1) nd = (Sending 1, nd)"
    using assms by (auto simp: subscribe_step_def wait_connected_poll_def subscribe_ready_def)
  with nd'(1) have "task_steps 4 (subscribe_step p) (Connecting 1, nd) = (Waiting 1 pid AwaitSubTx, nd')" by (simp add: numeral_nat)
  with pid(2) nd'(2-4) s(2-4) show ?thesis by blast
qed

section \<open>Waiting\<close>

lemma subscribe_wait:
  "subscribe_step p (Waiting a pid w) nd =
     (case wait_subscribe_tx_step pid w (nd_shared nd) of
        (Inl w', sh) \<Rightarrow> (Waiting a pid w', nd\<lparr>nd_shared := sh\<rparr>)
      | (Inr r, sh) \<Rightarrow> (attempt_result 3 a r, nd\<lparr>nd_shared := sh\<rparr>))"
  by (simp add: subscribe_step_def)

lemmas subscribe_wait_defs = subscribe_wait wait_subscribe_tx_step_def wait_tx_poll_def wait_gone_poll_def
  wait_codes_poll_def iset_contains_def

lemma no_codes_yet:
  assumes "imap_get (pid_get pid) (sh_ack_status (nd_shared nd)) = Some AwaitingSubAck"
  shows "\<exists>w' nd'. task_steps n (subscribe_step p) (Waiting a pid w, nd) = (Waiting a pid w', nd')"
  using assms
proof (induction n arbitrary: nd w)
  case (Suc n)
  obtain w1 nd1 where "subscribe_step p (Waiting a pid w) nd = (Waiting a pid w1, nd1)"
    "imap_get (pid_get pid) (sh_ack_status (nd_shared nd1)) = Some AwaitingSubAck"
    using Suc.prems
    by (cases w; cases "pid_get pid \<in> set (sh_outgoing_pid (nd_shared nd))") (auto simp: subscribe_wait_defs)
  with Suc.IH show ?case by simp
qed simp

lemma codes_arrive:
  assumes "imap_get (pid_get pid) (sh_ack_status (nd_shared nd)) = Some (Acked codes)"
    and "pid_get pid \<notin> set (sh_outgoing_pid (nd_shared nd))"
  shows "\<exists>nd'. task_steps 2 (subscribe_step p) (Waiting 1 pid AwaitSubTx, nd) =
      (if list_ex (\<lambda>c. 0x80 \<le> c) codes then Connecting 2 else Finished (Ok ()), nd') \<and> nd_rx nd' = nd_rx nd \<and>
    imap_get (pid_get pid) (sh_ack_status (nd_shared nd')) = None \<and>
    sh_clean_session_count (nd_shared nd') = sh_clean_session_count (nd_shared nd)"
  using assms
  by (auto simp: numeral_nat subscribe_wait_defs codes_result_def attempt_result_def attempt_failed_def subscribe_on_drop_def
      imap_remove_def imap_get_def map_of_eq_None_iff)

section \<open>The subscription\<close>

lemma collect_filters_Ok:
  assumes "\<forall>t \<in> set ts. is_ok (topic_filter_new (st_topic_path t))" and "length ts \<le> room"
  shows "\<exists>fs. collect_filters room ts = Ok fs \<and>
    list_all2 (\<lambda>t f. topic_filter_new (st_topic_path t) = Ok f) ts fs"
  using assms
proof (induction ts arbitrary: room)
  case (Cons t ts)
  obtain f where "topic_filter_new (st_topic_path t) = Ok f" using Cons.prems(1) by (auto simp: is_ok_iff)
  moreover have "length ts \<le> room - 1" "room \<noteq> 0" using Cons.prems(2) by auto
  ultimately show ?case using Cons.IH [of "room - 1"] Cons.prems(1) by fastforce
qed simp

lemma filters_match:
  assumes "list_all2 (\<lambda>t f. topic_filter_new (st_topic_path t) = Ok f) ts fs"
    and "t \<in> set ts" and "topic_matches (split_on c_slash (st_topic_path t)) (split_on c_slash topic)"
  shows "list_ex (\<lambda>f. is_match f topic) fs"
proof -
  obtain i where i: "i < length ts" "t = ts ! i" using assms(2) by (auto simp: in_set_conv_nth)
  then have "topic_filter_new (st_topic_path t) = Ok (fs ! i)" "fs ! i \<in> set fs"
    using assms(1) by (simp_all add: list_all2_conv_all_nth)
  with assms(3) show ?thesis using is_match_iff [of "st_topic_path t" "fs ! i" topic] by (auto simp: list_ex_iff)
qed

lemma subscribe_finish_Ok:
  assumes "\<forall>t \<in> set (sub_topics p). is_ok (topic_filter_new (st_topic_path t))" and "length (sub_topics p) \<le> MAX_TOPICS"
    and rx: "nd_rx nd = \<lparr>ch_buf = buf, ch_state = st\<rparr>" "st_ok st None (subs @ [fs])" "ps_capacity st = length buf"
    and next_: "fs_next_message_id fs = ps_next_message_id st"
  shows "\<exists>sub. subscribe_finish MAX_TOPICS p (Ok ()) fs nd = (Ok sub, nd) \<and>
    (\<forall>t \<in> set (sub_topics p). \<forall>topic. topic_matches (split_on c_slash (st_topic_path t)) (split_on c_slash topic) \<longrightarrow>
       listening topic sub (subs @ [fs]) nd)"
proof -
  obtain flts where f: "collect_filters MAX_TOPICS (sub_topics p) = Ok flts"
    "list_all2 (\<lambda>t f. topic_filter_new (st_topic_path t) = Ok f) (sub_topics p) flts"
    using collect_filters_Ok [OF assms(1,2)] by blast
  let ?sub = "\<lparr>sub_topic_filters = flts, sub_subscriber = fs, sub_created_clean_session_count = sh_clean_session_count (nd_shared nd)\<rparr>"
  have "subscribe_finish MAX_TOPICS p (Ok ()) fs nd = (Ok ?sub, nd)" using f(1) by (simp add: subscribe_finish_def)
  moreover have "listening topic ?sub (subs @ [fs]) nd" if "list_ex (\<lambda>f. is_match f topic) flts" for topic
    using that rx next_ by (simp add: listening_def chan_ok_def)
  ultimately show ?thesis using filters_match [OF f(2)] by blast
qed

text \<open>
  C9: A subscribe request is carried out.  On a connected, idle node with room for one more subscriber, the
  request is queued under a fresh identifier and written to the connection as encoded; the call waits, however
  often it is polled, until the broker's SUBACK; when a reason code refuses a topic, it starts its second
  attempt, and otherwise it succeeds.  The subscription it then returns is listening, from that moment on, to
  every topic that one of the requested filters covers.
\<close>

theorem subscribe_completes:
  assumes "subscribable MAX_TOPICS p subs nd"
  shows "\<exists>fs nd0 pid nd1 nd2 nd3 nd4 sub. subscribe_begin nd = (Ok fs, nd0) \<and> pid_ok pid \<and>
    task_steps 4 (subscribe_step p) (Connecting 1, nd0) = (Waiting 1 pid AwaitSubTx, nd1) \<and>
    select_tx stream_socket now nd1 (inp, out) = (Ok (), nd2, (inp, out @ subscribe_packet (subscribe_set_pid pid p))) \<and>
    (\<forall>n. \<exists>w nd'. task_steps n (subscribe_step p) (Waiting 1 pid AwaitSubTx, nd2) = (Waiting 1 pid w, nd')) \<and>
    on_packet sk (RP_SubAck \<lparr>sa_pid = pid, sa_properties = props, sa_codes = codes\<rparr>) nd2 s = (Ok (), nd3, s) \<and>
    task_steps 2 (subscribe_step p) (Waiting 1 pid AwaitSubTx, nd3) =
      (if list_ex (\<lambda>c. 0x80 \<le> suback_reason_to_u8 c) codes then Connecting 2 else Finished (Ok ()), nd4) \<and>
    subscribe_finish MAX_TOPICS p (Ok ()) fs nd4 = (Ok sub, nd4) \<and>
    (\<forall>t \<in> set (sub_topics p). \<forall>topic. topic_matches (split_on c_slash (st_topic_path t)) (split_on c_slash topic) \<longrightarrow>
       listening topic sub (subs @ [fs]) nd4)"
proof -
  have rx: "chan_ok (nd_rx nd) subs" "length subs < MAX_SUBSCRIBERS" using assms by (simp_all add: subscribable_def)
  obtain fs st where b: "subscribe_begin nd = (Ok fs, with_rx st nd)" "st_ok st None (subs @ [fs])"
    "ps_capacity st = length (ch_buf (nd_rx nd))" "fs_next_message_id fs = ps_next_message_id st"
    using subscribe_begin_Ok [OF rx] by blast
  let ?nd0 = "with_rx st nd"
  obtain pid nd1 where q: "pid_ok pid" "task_steps 4 (subscribe_step p) (Connecting 1, ?nd0) = (Waiting 1 pid AwaitSubTx, nd1)"
    "queued (subscribe_packet (subscribe_set_pid pid p)) pid nd1" "shared_ok (nd_shared nd1)"
    "imap_get (pid_get pid) (sh_ack_status (nd_shared nd1)) = Some AwaitingSubAck" "nd_rx nd1 = nd_rx ?nd0"
    using subscribe_begins [of p ?nd0] assms by (auto simp: subscribe_ready_def subscribable_def with_rx_def tx_idle_def size_fits_def)
  have d: "distinct (sh_outgoing_pid (nd_shared nd1))" using q(4) by (simp add: shared_ok_def iset_ok_def)
  obtain nd2 where t: "select_tx stream_socket now nd1 (inp, out) = (Ok (), nd2, (inp, out @ subscribe_packet (subscribe_set_pid pid p)))"
    "nd_shared nd2 = transmitted (pid_get pid) (nd_shared nd1)" "pid_get pid \<notin> set (sh_outgoing_pid (nd_shared nd2))" "nd_rx nd2 = nd_rx nd1"
    using select_tx_queued [OF q(3,1) d] by blast
  have w: "imap_get (pid_get pid) (sh_ack_status (nd_shared nd2)) = Some AwaitingSubAck" using q(5) t(2) by (auto simp: transmitted_def)
  let ?codes = "map suback_reason_to_u8 codes"
  let ?sh = "wake_tx ((nd_shared nd2)\<lparr>sh_ack_status := imap_put (pid_get pid) (Acked ?codes) (sh_ack_status (nd_shared nd2))\<rparr>)"
  let ?nd3 = "nd2\<lparr>nd_shared := ?sh\<rparr>"
  have a: "on_packet sk (RP_SubAck \<lparr>sa_pid = pid, sa_properties = props, sa_codes = codes\<rparr>) nd2 s = (Ok (), ?nd3, s)"
    using w by (simp add: on_packet_def handle_sub_ack_def quiet_def Let_def)
  obtain nd4 where e: "task_steps 2 (subscribe_step p) (Waiting 1 pid AwaitSubTx, ?nd3) =
      (if list_ex (\<lambda>c. 0x80 \<le> c) ?codes then Connecting 2 else Finished (Ok ()), nd4)" "nd_rx nd4 = nd_rx nd2"
    using codes_arrive [of pid ?nd3 ?codes p] t(3) by (auto simp: imap_get_def)
  have c: "list_ex (\<lambda>c. 0x80 \<le> c) ?codes = list_ex (\<lambda>c. 0x80 \<le> suback_reason_to_u8 c) codes" by (simp add: list_ex_iff)
  have "nd_rx nd4 = \<lparr>ch_buf = ch_buf (nd_rx nd), ch_state = st\<rparr>" using e(2) t(4) q(6) by (simp add: with_rx_def)
  from subscribe_finish_Ok [OF _ _ this b(2-4), of p MAX_TOPICS] assms obtain sub where
    "subscribe_finish MAX_TOPICS p (Ok ()) fs nd4 = (Ok sub, nd4)"
    "\<forall>t \<in> set (sub_topics p). \<forall>topic. topic_matches (split_on c_slash (st_topic_path t)) (split_on c_slash topic) \<longrightarrow>
       listening topic sub (subs @ [fs]) nd4" by (auto simp: subscribable_def)
  with b(1) q(1,2) t(1) no_codes_yet [OF w, of _ p 1 AwaitSubTx] a e(1) [unfolded c] show ?thesis
    by blast
qed

definition subscribe_request :: Subscribe where
  "subscribe_request = \<lparr>sub_pid = None, sub_properties = Slice [], sub_topics = [subscribe_topic_from [97, 47, 43]]\<rparr>"

lemma subscribe_request_ok: "subscribable 2 subscribe_request [] connected_node"
proof -
  have "subscribe_max_packet_size subscribe_request = Ok 14" by code_simp
  moreover have "MAX_MQTT_HEADER_LEN + length (subscribe_body (subscribe_set_pid pid_new subscribe_request)) \<le> 14" by code_simp
  moreover have "is_ok (topic_filter_new [97, 47, 43])" by code_simp
  ultimately show ?thesis
    by (simp add: subscribable_def subscribe_ready_def size_fits_def subscribe_encode_def MAX_INFLIGHT_def MAX_SUBSCRIBERS_def)
      (simp add: subscribe_request_def subscribe_topic_from_def props_ok_def)
qed

theorem subscribe_completes_witness:
  "\<exists>fs nd0 pid nd1 nd2 nd3 nd4 sub. subscribe_begin connected_node = (Ok fs, nd0) \<and>
    task_steps 4 (subscribe_step subscribe_request) (Connecting 1, nd0) = (Waiting 1 pid AwaitSubTx, nd1) \<and>
    select_tx stream_socket 7 nd1 ([], []) = (Ok (), nd2, ([], [] @ subscribe_packet (subscribe_set_pid pid subscribe_request))) \<and>
    on_packet stream_socket (RP_SubAck \<lparr>sa_pid = pid, sa_properties = DataBlock [], sa_codes = [SA_GrantedQoS1]\<rparr>) nd2 ([], []) =
      (Ok (), nd3, ([], [])) \<and>
    task_steps 2 (subscribe_step subscribe_request) (Waiting 1 pid AwaitSubTx, nd3) = (Finished (Ok ()), nd4) \<and>
    subscribe_finish 2 subscribe_request (Ok ()) fs nd4 = (Ok sub, nd4) \<and> listening [97, 47, 98] sub ([] @ [fs]) nd4"
proof -
  have t: "topic_matches (split_on c_slash [97, 47, 43]) (split_on c_slash [97, 47, 98])" by code_simp
  have c: "\<not> 0x80 \<le> suback_reason_to_u8 SA_GrantedQoS1" by code_simp
  from subscribe_completes [OF subscribe_request_ok, of 7 "[]" "[]" stream_socket "DataBlock []" "[SA_GrantedQoS1]" "([], [])"]
  show ?thesis using t c by (fastforce simp: subscribe_request_def subscribe_topic_from_def)
qed

end
