(* ===== verification/Run_Properties.thy ===== *)
theory Run_Properties
  imports Delivery
begin

text \<open>
  The life of the stack: a run whose attempts to connect all fail, with the backoff in between; it notices a dead
  connection by its keep-alive, and after an error the node is back where a new connection starts.
\<close>

section \<open>Giving up\<close>

text \<open>The waiting times of the default backoff before it ends.\<close>

definition default_backoffs :: "duration list" where
  "default_backoffs = [500, 1000, 2000, 4000, 8000, 16000, 32000, 64000, 128000, 180000]"

lemma default_backoffs_nth: "i < 10 \<Longrightarrow> DEFAULT_BACKOFF (of_nat i) = Some (default_backoffs ! i)"
proof -
  assume i: "i < 10"
  then have u: "unat (of_nat i :: u8) = i" by (simp add: unsigned_of_nat take_bit_nat_eq_self)
  then have "(of_nat i :: u8) < 10" using i by (simp add: word_less_nat_alt)
  moreover have "i \<in> {0, 1, 2, 3, 4, 5, 6, 7, 8, 9}" using i by auto
  ultimately show ?thesis using default_backoff_value [of "of_nat i"] u by (auto simp: default_backoffs_def)
qed

text \<open>
  The attempts of a run that all fail: the transport does not connect, CONNECT is not written, the answer is not a
  CONNACK or one that refuses, or the timeout strikes; the transport can be closed after each of them.
\<close>

fun attempts_fail ::
  "('t, 's) Transport \<Rightarrow> 's Socket \<Rightarrow> (('t, 's) Cut \<times> Branch \<times> nat) list \<Rightarrow> Node \<Rightarrow> 't \<Rightarrow> bool" where
  "attempts_fail tr sk [] nd t \<longleftrightarrow> True"
| "attempts_fail tr sk ((ct, branch, now) # ds) nd t \<longleftrightarrow>
     (case connect_attempt tr sk ct now (with_shared (set_connected None) nd) t of
        None \<Rightarrow> False
      | Some (Some (Ok _), x) \<Rightarrow> False
      | Some (Some Panic, x) \<Rightarrow> False
      | Some (_, nd1, t1) \<Rightarrow>
          fst (tr_disconnect tr t1) = Ok () \<and>
          (case connect_failed tr nd1 t1 of (out, nd2, t2) \<Rightarrow> out = Stopped \<or> attempts_fail tr sk ds nd2 t2))"

text \<open>Closing a transport disconnects it; so do TCP and TLS.\<close>

definition closes :: "('t, 's) Transport \<Rightarrow> bool" where
  "closes tr \<longleftrightarrow> (\<forall>t t'. tr_disconnect tr t = (Ok (), t') \<longrightarrow> \<not> tr_is_connected tr t')"

lemma closing_transports: "closes (nal_transport get_address net)" "closes (tls_transport get_address net open_tls insufficient)"
  by (auto simp: closes_def nal_transport_def nal_disconnect_def nal_is_connected_def tls_transport_def tls_disconnect_def
      tls_is_connected_def split: result.splits)

lemma failing_step:
  assumes "closes tr" and "\<not> tr_is_connected tr t" and "attempts_fail tr sk ((ct, branch, now) # ds) nd t"
  shows "\<exists>nd' t'. run_step tr sk ct branch now nd t = Some (connect_failed tr nd' t') \<and>
    nd_connect_attempts nd' = nd_connect_attempts nd \<and> cfg_backoff_algo (nd_config nd') = cfg_backoff_algo (nd_config nd) \<and>
    \<not> tr_is_connected tr (snd (tr_disconnect tr t')) \<and>
    (case connect_failed tr nd' t' of (out, nd2, t2) \<Rightarrow> out = Stopped \<or> attempts_fail tr sk ds nd2 t2)"
proof -
  let ?nd = "with_shared (set_connected None) nd"
  obtain r nd1 t1 where a1: "connect_attempt tr sk ct now ?nd t = Some (r, nd1, t1)"
    using assms(3) by (cases "connect_attempt tr sk ct now ?nd t") auto
  have r: "r = None \<or> (\<exists>e. r = Some (Err e))"
  proof (cases r)
    case (Some x)
    with assms(3) a1 show ?thesis by (cases x) simp_all
  qed simp
  with assms(3) a1 have a: "connect_attempt tr sk ct now ?nd t = Some (r, nd1, t1)" "\<And>b. r \<noteq> Some (Ok b)" "r \<noteq> Some Panic"
    "fst (tr_disconnect tr t1) = Ok ()" "case connect_failed tr nd1 t1 of (out, nd2, t2) \<Rightarrow> out = Stopped \<or> attempts_fail tr sk ds nd2 t2"
    by auto
  have "run_step tr sk ct branch now nd t = Some (connect_failed tr nd1 t1)"
    using assms(2) a(1) r by (auto simp: run_step_def)
  moreover have "\<not> tr_is_connected tr (snd (tr_disconnect tr t1))"
    using assms(1) a(4) by (cases "tr_disconnect tr t1") (auto simp: closes_def)
  moreover have "nd_connect_attempts nd1 = nd_connect_attempts nd" "cfg_backoff_algo (nd_config nd1) = cfg_backoff_algo (nd_config nd)"
    using connect_attempt_attempts [OF a(1,2)] by (simp_all add: with_shared_def)
  ultimately show ?thesis using a(5) by (intro exI [of _ nd1] exI [of _ t1] conjI)
qed

lemma gives_up:
  assumes "closes tr" and "cfg_backoff_algo (nd_config nd) = DEFAULT_BACKOFF" and "\<not> tr_is_connected tr t"
    and "nd_connect_attempts nd = of_nat i" and "i \<le> 10" and "10 - i < length ds" and "attempts_fail tr sk ds nd t"
  shows "fst (run tr sk ds nd t) = map AgainAfter (drop i default_backoffs) @ [Stopped]"
  using assms(2-7)
proof (induction "10 - i" arbitrary: i ds nd t)
  case 0
  then have i: "i = 10" by simp
  obtain ct branch now ds' where ds: "ds = (ct, branch, now) # ds'" using 0 by (cases ds) auto
  obtain nd' t' where s: "run_step tr sk ct branch now nd t = Some (connect_failed tr nd' t')"
    "nd_connect_attempts nd' = 10" "cfg_backoff_algo (nd_config nd') = DEFAULT_BACKOFF"
    using failing_step [OF assms(1), of t sk ct branch now ds' nd] 0 i ds by auto
  then have "fst (connect_failed tr nd' t') = Stopped" by (simp add: connect_failed_def DEFAULT_BACKOFF_def)
  with s(1) show ?case by (cases "connect_failed tr nd' t'") (simp add: ds i default_backoffs_def)
next
  case (Suc k)
  then have i: "i < 10" "k = 10 - Suc i" by auto
  obtain ct branch now ds' where ds: "ds = (ct, branch, now) # ds'" using Suc.prems by (cases ds) auto
  obtain nd' t' where s: "run_step tr sk ct branch now nd t = Some (connect_failed tr nd' t')"
    "nd_connect_attempts nd' = of_nat i" "cfg_backoff_algo (nd_config nd') = DEFAULT_BACKOFF"
    "\<not> tr_is_connected tr (snd (tr_disconnect tr t'))"
    "case connect_failed tr nd' t' of (out, nd2, t2) \<Rightarrow> out = Stopped \<or> attempts_fail tr sk ds' nd2 t2"
    using failing_step [OF assms(1) Suc.prems(2) Suc.prems(6) [unfolded ds]] Suc.prems(1,3) by metis
  have u: "unat (of_nat i :: u8) = i" using i by (simp add: unsigned_of_nat take_bit_nat_eq_self)
  let ?nd = "nd'\<lparr>nd_connect_attempts := of_nat i + 1\<rparr>"
  have f: "connect_failed tr nd' t' = (AgainAfter (default_backoffs ! i), ?nd, snd (tr_disconnect tr t'))"
    using s(2,3) default_backoffs_nth [OF i(1)] u i(1) by (simp add: connect_failed_def)
  have "fst (run tr sk ds' ?nd (snd (tr_disconnect tr t'))) = map AgainAfter (drop (Suc i) default_backoffs) @ [Stopped]"
    by (rule Suc.hyps(1) [OF i(2)]) (use Suc.prems s(3-5) f ds i in auto)
  moreover have "drop i default_backoffs = default_backoffs ! i # drop (Suc i) default_backoffs"
    using i(1) by (intro Cons_nth_drop_Suc [symmetric]) (simp add: default_backoffs_def)
  ultimately show ?case using s(1) f by (simp add: ds split_beta)
qed

section \<open>A new node\<close>

definition fresh_node :: Node where
  "fresh_node = (case mqtt_new 64 64 (config_new [120]) 0 of Ok nd \<Rightarrow> nd)"

lemma fresh_node_sel:
  "cfg_backoff_algo (nd_config fresh_node) = DEFAULT_BACKOFF" "nd_connect_attempts fresh_node = 0"
  "length (nd_write_buf fresh_node) = 32" "\<not> nd_awaiting_pingresp fresh_node"
  "nd_last_network_action fresh_node = 0" "cfg_keepalive_interval (nd_config fresh_node) = 59000"
  by (simp_all add: fresh_node_def mqtt_new_def channel_new_def channel_subscriber_def channel_publisher_def Let_def config_new_def)

section \<open>Keep alive\<close>

lemma encode_pingreq: "length buf = 32 \<Longrightarrow> encode_packet pingreq_to_buffer PingReq buf = Ok [0xC0, 0]"
proof -
  have "varint_bytes 0 = [0]" by code_simp
  then show "length buf = 32 \<Longrightarrow> ?thesis"
    using pingreq.to_buffer_fits [of buf PingReq]
    by (auto simp: encode_packet_def packet_type_byte_def default_flags_def MAX_MQTT_HEADER_LEN_def fixed_header_bytes_def)
qed

lemma reader_reset_idem [simp]: "reader_reset (reader_reset pr) = reader_reset pr"
  by (simp add: reader_reset_def)

text \<open>
  C21: A dead connection is noticed.  The keep-alive branch of \<open>select\<close> is ready once the interval has passed
  since the last network action.  When that happens twice without anything arriving, the first time the
  stack writes exactly one PINGREQ, and the second time it drops the connection: the socket is gone, the
  session is reset and disconnected, and the next iteration starts a new connection.
\<close>

theorem keep_alive_drops_dead_connection:
  assumes "nal_socket t = Some (inp, out)" and "\<not> nd_awaiting_pingresp nd" and "length (nd_write_buf nd) = 32"
    and "start \<le> now1" "nd_last_network_action nd + cfg_keepalive_interval (nd_config nd) \<le> now1"
    and "now1 + cfg_keepalive_interval (nd_config nd) \<le> now2"
  shows "\<exists>nd1 nd2 t2. branch_ready (KeepAliveExpired 0) start now1 nd \<and> branch_ready (KeepAliveExpired 0) now1 now2 nd1 \<and>
    run_step (nal_transport get_address net) stream_socket ct (KeepAliveExpired 0) now1 nd t =
      Some (Again, nd1, t\<lparr>nal_socket := Some (inp, out @ [0xC0, 0])\<rparr>) \<and>
    run_step (nal_transport get_address net) stream_socket ct (KeepAliveExpired 0) now2 nd1
        (t\<lparr>nal_socket := Some (inp, out @ [0xC0, 0])\<rparr>) = Some (Again, nd2, t2) \<and>
    \<not> nal_is_connected t2 \<and> sh_connected (nd_shared nd2) = None \<and> nd2 = stack_reset nd1"
  using assms
  by (simp add: run_step_def run_select_def select_def select_keep_alive_def handle_keep_alive_def send_packet_def encode_pingreq
      finish_select_def nal_transport_def nal_is_connected_def nal_get_socket_def nal_disconnect_def Let_def
      stack_reset_def shared_reset_def branch_ready_def calculate_keep_alive_sleep_def)

theorem keep_alive_drops_dead_connection_witness:
  "\<exists>nd1 nd2 t2.
    run_step (nal_transport (\<lambda>b. (None, b)) (\<lambda>_. Err NotConnected)) stream_socket NoCut (KeepAliveExpired 0) 59000 fresh_node
        \<lparr>nal_broker = (), nal_socket = Some ([], [])\<rparr> =
      Some (Again, nd1, \<lparr>nal_broker = (), nal_socket = Some ([], [] @ [0xC0, 0])\<rparr>) \<and>
    run_step (nal_transport (\<lambda>b. (None, b)) (\<lambda>_. Err NotConnected)) stream_socket NoCut (KeepAliveExpired 0) 118000 nd1
        \<lparr>nal_broker = (), nal_socket = Some ([], [] @ [0xC0, 0])\<rparr> = Some (Again, nd2, t2) \<and>
    \<not> nal_is_connected t2 \<and> sh_connected (nd_shared nd2) = None"
  using keep_alive_drops_dead_connection [of "\<lparr>nal_broker = (), nal_socket = Some ([], [])\<rparr>" "[]" "[]" fresh_node
      0 59000 118000 "\<lambda>b. (None, b)" "\<lambda>_. Err NotConnected" NoCut] fresh_node_sel by auto

end
