(* ===== verification/Connect_Properties.thy ===== *)
theory Connect_Properties
  imports Run_Properties Delivery_Properties
begin

text \<open>
  Connecting: the handshake from the opening of the socket to the connected session, what the broker's
  answer changes, what a new session means for the subscriptions that exist, and when \<open>run\<close> gives up.
\<close>

section \<open>The packets of the handshake\<close>

definition connect_bytes :: "Node \<Rightarrow> bytes" where
  "connect_bytes nd =
     (let p = connect_packet nd in fixed_header_bytes 0x10 0 (length (connect_body p)) @ connect_body p)"

definition connack_bytes :: "ConnAck \<Rightarrow> bytes" where
  "connack_bytes p = fixed_header_bytes 0x20 0 (length (connack_body p)) @ connack_body p"

text \<open>The CONNECT packet of the node fits the buffer on the stack, and no packet is half read.\<close>

definition connectable :: "Node \<Rightarrow> bool" where
  "connectable nd \<longleftrightarrow> reader_idle (nd_reader nd) \<and> connect_ok (connect_packet nd) \<and>
     MAX_MQTT_HEADER_LEN + length (connect_body (connect_packet nd)) \<le> 1024"

lemma connect_send_stream:
  assumes "connectable nd"
  shows "connect_send stream_socket now nd (inp, out) =
    (Ok (), nd\<lparr>nd_last_network_action := now\<rparr>, (inp, out @ connect_bytes nd))"
proof -
  let ?p = "connect_packet nd"
  have "connect_ok ?p" "MAX_MQTT_HEADER_LEN + length (connect_body ?p) \<le> 1024" using assms by (simp_all add: connectable_def)
  then obtain e where "connect_to_buffer ?p (encoder_new (replicate 1024 0)) = Ok e"
    "packet_bytes e = (Ok (fixed_header_bytes 0x10 0 (length (connect_body ?p)) @ connect_body ?p) :: (EncodingError, bytes) result)"
    using connect.to_buffer_fits [of ?p "replicate 1024 0"] by (auto simp: packet_type_byte_def default_flags_def MAX_MQTT_HEADER_LEN_def)
  then show ?thesis by (simp add: connect_send_def encode_packet_def connect_bytes_def Let_def)
qed

lemma connack_received:
  assumes "connack_ok p" and "length (connack_bytes p) \<le> READ_BUF_LEN" and "reader_idle pr"
  shows "\<exists>pr'. recv stream_socket pr (connack_bytes p @ rest, out) = Some (Ok (RP_ConnAck (connack_view p)), pr', (rest, out)) \<and>
    reader_idle pr'"
proof -
  have len: "length (connack_body p) < 268435456"
    using assms(2) by (simp add: connack_bytes_def READ_BUF_LEN_def MAX_TOPIC_LEN_def MAX_MQTT_HEADER_LEN_def)
  have "from_buffer (connack_bytes p) = Ok (RP_ConnAck (connack_view p))"
    using connack.decode_encoded [OF assms(1) len]
    by (force simp: from_buffer_def Let_def connack_bytes_def packet_type_byte_def default_flags_def)
  moreover have "control_frame (connack_bytes p)"
    using connack.ptype_header len assms(2) unfolding control_frame_def control_packet_def connack_bytes_def
    by (force simp: packet_type_byte_def)
  ultimately show ?thesis using recv_control_frame [OF _ assms(3)] by force
qed

section \<open>The handshake\<close>

text \<open>A subscription ends exactly when the count of clean sessions has moved on.\<close>

lemma poll_next_None:
  "fst (poll_next sub nd) = NextNone \<longleftrightarrow> sh_clean_session_count (nd_shared nd) \<noteq> sub_created_clean_session_count sub"
  by (auto simp: poll_next_def with_shared_def Let_def split: prod.split result.split)

lemma handle_connack_view:
  assumes "ca_properties p = Slice ps" and "\<forall>x \<in> set ps. prop_ok x"
  shows "handle_connack (connack_view p) cfg =
    (if connack_reason_success (ca_reason_code p) then Ok (ca_session_present p) else Err ConnectionRefused,
     foldl connack_property cfg (map Ok ps))"
  using props_collect_encoded [OF assms(2), of "\<lparr>pi_data = Encoded (block_bytes ps), pi_index = 0\<rparr>" "[]"]
  by (simp add: handle_connack_def connack_view_def assms(1) Let_def)

lemma connect_mqtt_stream:
  assumes c: "connectable nd" and p: "connack_ok p" "length (connack_bytes p) \<le> READ_BUF_LEN"
    and ps: "ca_properties p = Slice ps" "\<forall>x \<in> set ps. prop_ok x"
  shows "\<exists>nd'. connect_mqtt stream_socket now nd (connack_bytes p @ rest, out) =
      Some (if connack_reason_success (ca_reason_code p) then Ok (ca_session_present p) else Err ConnectionRefused,
        nd', (rest, out @ connect_bytes nd)) \<and>
    nd_config nd' = foldl connack_property (nd_config nd) (map Ok ps) \<and> nd_shared nd' = nd_shared nd \<and> nd_rx nd' = nd_rx nd \<and>
    nd_connect_attempts nd' = (if connack_reason_success (ca_reason_code p) then 0 else nd_connect_attempts nd) \<and>
    nd_clean_start nd' = (nd_clean_start nd \<and> \<not> connack_reason_success (ca_reason_code p)) \<and> reader_idle (nd_reader nd')"
proof -
  obtain pr' where r: "recv stream_socket (nd_reader nd) (connack_bytes p @ rest, out @ connect_bytes nd) =
      Some (Ok (RP_ConnAck (connack_view p)), pr', (rest, out @ connect_bytes nd))" "reader_idle pr'"
    using connack_received [OF p, of "nd_reader nd" rest "out @ connect_bytes nd"] c by (auto simp: connectable_def)
  show ?thesis
    using handle_connack_view [OF ps, of "nd_config nd"] r
    by (simp add: connect_mqtt_def connect_send_stream [OF c] connect_answer_def)
qed

text \<open>
  C10: Connecting.  When the transport is not connected and the broker, once reached, answers with a CONNACK, an
  iteration of \<open>run\<close> writes exactly the CONNECT packet of the configuration and applies the properties of the
  CONNACK to it.  If the broker accepts, the iteration goes on to \<open>select\<close> with a connected session, the
  attempts are counted from zero again and the next connection will not ask for a clean start; if it refuses,
  the attempt has failed.  The subscriptions that existed before end exactly when the broker does not know
  the session any more.
\<close>

theorem handshake_connects:
  assumes "connectable nd" and "nal_socket t = None" and "get_address (nal_broker t) = (Some addr, b)"
    and "net addr = Ok (connack_bytes p @ rest, [])" and "connack_ok p" and "length (connack_bytes p) \<le> READ_BUF_LEN"
    and "ca_properties p = Slice ps" and "\<forall>x \<in> set ps. prop_ok x"
  shows "\<exists>nd1 nd2 t'. nd2 = with_shared (set_connected (Some (ca_session_present p))) nd1 \<and>
    t' = \<lparr>nal_broker = b, nal_socket = Some (rest, connect_bytes nd)\<rparr> \<and>
    run_step (nal_transport get_address net) stream_socket NoCut branch now nd t =
      (if connack_reason_success (ca_reason_code p)
       then run_select (nal_transport get_address net) stream_socket branch now nd2 t'
       else Some (connect_failed (nal_transport get_address net) nd1 t')) \<and>
    nd_config nd1 = foldl connack_property (nd_config nd) (map Ok ps) \<and>
    nd_connect_attempts nd1 = (if connack_reason_success (ca_reason_code p) then 0 else nd_connect_attempts nd) \<and>
    nd_clean_start nd1 = (nd_clean_start nd \<and> \<not> connack_reason_success (ca_reason_code p)) \<and>
    sh_connected (nd_shared nd1) = None \<and> sh_connected (nd_shared nd2) = Some (ca_session_present p) \<and>
    (\<forall>sub. sub_created_clean_session_count sub = sh_clean_session_count (nd_shared nd) \<longrightarrow>
       (fst (poll_next sub nd2) = NextNone \<longleftrightarrow> \<not> ca_session_present p))"
proof -
  let ?tr = "nal_transport get_address net" and ?nd = "with_shared (set_connected None) nd"
  let ?t1 = "\<lparr>nal_broker = b, nal_socket = Some (connack_bytes p @ rest, [])\<rparr>"
  have nd: "connectable ?nd" "connect_bytes ?nd = connect_bytes nd"
    using assms(1) by (simp_all add: connectable_def connect_packet_def connect_bytes_def with_shared_def)
  have sel: "nd_config ?nd = nd_config nd" "nd_shared ?nd = set_connected None (nd_shared nd)" "nd_clean_start ?nd = nd_clean_start nd"
    "nd_connect_attempts ?nd = nd_connect_attempts nd" by (simp_all add: with_shared_def)
  obtain nd1 where m: "connect_mqtt stream_socket now ?nd (connack_bytes p @ rest, []) =
      Some (if connack_reason_success (ca_reason_code p) then Ok (ca_session_present p) else Err ConnectionRefused,
        nd1, (rest, connect_bytes nd))" "nd_config nd1 = foldl connack_property (nd_config nd) (map Ok ps)"
    "nd_shared nd1 = set_connected None (nd_shared nd)"
    "nd_connect_attempts nd1 = (if connack_reason_success (ca_reason_code p) then 0 else nd_connect_attempts nd)"
    "nd_clean_start nd1 = (nd_clean_start nd \<and> \<not> connack_reason_success (ca_reason_code p))"
    using connect_mqtt_stream [OF nd(1) assms(5-8), of now rest "[]"] unfolding nd(2) sel append_Nil by blast
  have c: "tr_connect ?tr t = (Ok (), ?t1)" "tr_socket ?tr ?t1 = Ok (connack_bytes p @ rest, [])" "\<not> tr_is_connected ?tr t"
    "tr_set_socket ?tr s ?t1 = \<lparr>nal_broker = b, nal_socket = Some s\<rparr>" for s
    using assms(2-4) by (simp_all add: nal_transport_def nal_connect_def nal_get_socket_def nal_is_connected_def)
  have step: "run_step ?tr stream_socket NoCut branch now nd t =
      (if connack_reason_success (ca_reason_code p)
       then run_select ?tr stream_socket branch now (with_shared (set_connected (Some (ca_session_present p))) nd1)
         \<lparr>nal_broker = b, nal_socket = Some (rest, connect_bytes nd)\<rparr>
       else Some (connect_failed ?tr nd1 \<lparr>nal_broker = b, nal_socket = Some (rest, connect_bytes nd)\<rparr>))"
    using m(1) c by (simp add: run_step_def connect_attempt_def)
  have next1: "fst (poll_next sub (with_shared (set_connected (Some (ca_session_present p))) nd1)) = NextNone \<longleftrightarrow> \<not> ca_session_present p"
    if "sub_created_clean_session_count sub = sh_clean_session_count (nd_shared nd)" for sub
    using that m(3) by (simp add: poll_next_None with_shared_def clean_session_counts)
  have conn: "sh_connected (nd_shared nd1) = None"
    "sh_connected (nd_shared (with_shared (set_connected (Some (ca_session_present p))) nd1)) = Some (ca_session_present p)"
    using m(3) by (simp_all add: with_shared_def)
  show ?thesis
    by (intro exI conjI, rule refl, rule refl, rule step, rule m(2), rule m(4), rule m(5), rule conn(1), rule conn(2))
      (use next1 in blast)
qed

definition new_session :: ConnAck where
  "new_session = \<lparr>ca_session_present = False, ca_reason_code = CA_Success, ca_properties = Slice [ServerKeepAlive 30]\<rparr>"

definition subscription_before :: Subscription where
  "subscription_before = \<lparr>sub_topic_filters = [], sub_subscriber = \<lparr>fs_next_message_id = 0\<rparr>, sub_created_clean_session_count = 0\<rparr>"

definition local_network :: "SocketAddr \<Rightarrow> (ErrorKind, bytes \<times> bytes) result" where
  "local_network addr = Ok (connack_bytes new_session @ [], [])"

lemma fresh_node_connectable: "connectable fresh_node" "sh_clean_session_count (nd_shared fresh_node) = 0"
proof -
  have r: "nd_reader fresh_node = reader_new" "connect_packet fresh_node = \<lparr>cn_protocol = MQTT5,
      cn_properties = Slice [SessionExpiryInterval 600], cn_keep_alive = 59, cn_client_id = [120], cn_username = None,
      cn_password = None, cn_last_will = None, cn_clean_start = True\<rparr>" "nd_shared fresh_node = shared_new"
    by (simp_all add: fresh_node_def mqtt_new_def channel_new_def channel_subscriber_def channel_publisher_def Let_def
        connect_packet_def config_new_def)
  have "length (connect_body (connect_packet fresh_node)) \<le> 100" unfolding r by code_simp
  then show "connectable fresh_node"
    by (simp add: connectable_def r reader_new_idle connect_ok_def props_ok_def MAX_MQTT_HEADER_LEN_def property_bytes_def)
  show "sh_clean_session_count (nd_shared fresh_node) = 0" by (simp add: r shared_new_def)
qed

theorem handshake_connects_witness:
  "\<exists>(nd1::Node) nd2 t'. run_step (nal_transport ip_get_address local_network) stream_socket NoCut
      (KeepAliveExpired 0) 9 fresh_node \<lparr>nal_broker = ip_broker_new (V4 0x7F000001) 1883, nal_socket = None\<rparr> =
      run_select (nal_transport ip_get_address local_network) stream_socket (KeepAliveExpired 0) 9 nd2 t' \<and>
    nal_socket t' = Some ([], connect_bytes fresh_node) \<and> cfg_keepalive_interval (nd_config nd1) = 30000 \<and>
    sh_connected (nd_shared nd2) = Some False \<and> fst (poll_next subscription_before nd2) = NextNone"
proof -
  let ?b = "ip_broker_new (V4 0x7F000001) 1883"
  have "length (connack_bytes new_session) \<le> 20" by code_simp
  then have len: "length (connack_bytes new_session) \<le> READ_BUF_LEN" by (simp add: READ_BUF_LEN_def MAX_TOPIC_LEN_def MAX_MQTT_HEADER_LEN_def)
  have ok: "connack_ok new_session" by (simp add: connack_ok_def new_session_def props_ok_def property_bytes_def)
  have s: "connack_reason_success (ca_reason_code new_session)" "\<not> ca_session_present new_session" by code_simp+
  have c: "cfg_keepalive_interval (foldl connack_property (nd_config fresh_node) (map Ok [ServerKeepAlive 30])) = 30000"
    by (simp add: fresh_node_sel)
  have sub: "sub_created_clean_session_count subscription_before = sh_clean_session_count (nd_shared fresh_node)"
    by (simp add: fresh_node_connectable subscription_before_def)
  from handshake_connects [OF fresh_node_connectable(1) _ _ _ ok len, of "\<lparr>nal_broker = ?b, nal_socket = None\<rparr>" ip_get_address "ib_addr ?b" ?b
      local_network "[]" "[ServerKeepAlive 30]" "KeepAliveExpired 0" 9]
  obtain nd1 where f: "run_step (nal_transport ip_get_address local_network) stream_socket NoCut
      (KeepAliveExpired 0) 9 fresh_node \<lparr>nal_broker = ?b, nal_socket = None\<rparr> =
      run_select (nal_transport ip_get_address local_network) stream_socket (KeepAliveExpired 0) 9
        (with_shared (set_connected (Some False)) nd1) \<lparr>nal_broker = ?b, nal_socket = Some ([], connect_bytes fresh_node)\<rparr>"
    "nd_config nd1 = foldl connack_property (nd_config fresh_node) (map Ok [ServerKeepAlive 30])"
    "sh_connected (nd_shared (with_shared (set_connected (Some False)) nd1)) = Some False"
    "fst (poll_next subscription_before (with_shared (set_connected (Some False)) nd1)) = NextNone"
    using s sub by (auto simp: ip_get_address_def local_network_def new_session_def)
  show ?thesis
    by (rule exI [of _ nd1], rule exI [of _ "with_shared (set_connected (Some False)) nd1"],
        rule exI [of _ "\<lparr>nal_broker = ?b, nal_socket = Some ([], connect_bytes fresh_node)\<rparr>"]) (use c f in simp)
qed

section \<open>Giving up\<close>

text \<open>
  C22: The stack gives up.  With the default backoff, and on a transport that closing disconnects, as TCP and TLS do: when
  every attempt of the run fails - the transport does not connect, CONNECT cannot be written, the answer refuses or is no
  CONNACK, or the timeout strikes - \<open>run\<close> returns after exactly eleven attempts, having waited between them for half a
  second, a second and so on, doubling up to three minutes.
\<close>

theorem run_gives_up:
  assumes "closes tr" and "\<not> tr_is_connected tr t" and "attempts_fail tr sk ds nd t"
    and "cfg_backoff_algo (nd_config nd) = DEFAULT_BACKOFF" and "nd_connect_attempts nd = 0" and "10 < length ds"
  shows "fst (run tr sk ds nd t) =
    map AgainAfter [500, 1000, 2000, 4000, 8000, 16000, 32000, 64000, 128000, 180000] @ [Stopped]"
  using gives_up [of tr nd t 0 ds sk] assms by (simp add: default_backoffs_def)

text \<open>A broker that answers every CONNECT with a refusal.\<close>

definition refusal :: ConnAck where
  "refusal = \<lparr>ca_session_present = False, ca_reason_code = CA_NotAuthorized, ca_properties = Slice []\<rparr>"

definition refusing_network :: "SocketAddr \<Rightarrow> (ErrorKind, bytes \<times> bytes) result" where
  "refusing_network addr = Ok (connack_bytes refusal @ [], [])"

lemma refused_attempts_fail:
  assumes "connectable nd" and "nal_socket t = None"
  shows "attempts_fail (nal_transport ip_get_address refusing_network) stream_socket (replicate n (NoCut, branch, now)) nd t"
  using assms
proof (induction n arbitrary: nd t)
  case (Suc n)
  let ?tr = "nal_transport ip_get_address refusing_network" and ?nd = "with_shared (set_connected None) nd"
  have "length (connack_bytes refusal) \<le> 20" by code_simp
  then have ok: "connack_ok refusal" "length (connack_bytes refusal) \<le> READ_BUF_LEN"
    by (simp_all add: connack_ok_def refusal_def props_ok_def READ_BUF_LEN_def MAX_TOPIC_LEN_def MAX_MQTT_HEADER_LEN_def)
  have refused: "\<not> connack_reason_success (ca_reason_code refusal)" by code_simp
  have c: "connectable ?nd" using Suc.prems(1) by (simp add: connectable_def connect_packet_def with_shared_def)
  obtain nd1 s1 where m: "connect_mqtt stream_socket now ?nd (connack_bytes refusal @ [], []) = Some (Err ConnectionRefused, nd1, s1)"
    "nd_config nd1 = nd_config nd" "nd_clean_start nd1 = nd_clean_start nd" "reader_idle (nd_reader nd1)"
    using connect_mqtt_stream [OF c ok, of "[]" now "[]" "[]"] refused by (auto simp: refusal_def with_shared_def)
  let ?t1 = "t\<lparr>nal_broker := nal_broker t, nal_socket := Some s1\<rparr>"
  have a: "connect_attempt ?tr stream_socket NoCut now ?nd t = Some (Some (Err ConnectionRefused), nd1, ?t1)"
    using m(1) by (simp add: connect_attempt_def nal_transport_def nal_connect_def ip_get_address_def refusing_network_def nal_get_socket_def)
  obtain out2 nd2 t2 where f: "connect_failed ?tr nd1 ?t1 = (out2, nd2, t2)" by (metis prod_cases3)
  have "connectable nd2" "nal_socket t2 = None"
    using f m(2-4) Suc.prems(1)
    by (auto simp: connect_failed_def Let_def nal_transport_def nal_disconnect_def connectable_def connect_packet_def split: option.splits if_splits)
  with Suc.IH a f show ?case by (simp add: nal_transport_def nal_disconnect_def)
qed simp

theorem run_gives_up_witness:
  "fst (run (nal_transport ip_get_address refusing_network) stream_socket (replicate 20 (NoCut, RxReady, 0)) fresh_node
      \<lparr>nal_broker = ip_broker_new (V4 0x7F000001) 1883, nal_socket = None\<rparr>) =
    map AgainAfter [500, 1000, 2000, 4000, 8000, 16000, 32000, 64000, 128000, 180000] @ [Stopped]"
proof (rule run_gives_up [OF closing_transports(1)])
  show "\<not> tr_is_connected (nal_transport ip_get_address refusing_network) \<lparr>nal_broker = ip_broker_new (V4 0x7F000001) 1883, nal_socket = None\<rparr>"
    by (simp add: nal_transport_def nal_is_connected_def)
  show "attempts_fail (nal_transport ip_get_address refusing_network) stream_socket (replicate 20 (NoCut, RxReady, 0)) fresh_node
      \<lparr>nal_broker = ip_broker_new (V4 0x7F000001) 1883, nal_socket = None\<rparr>"
    by (rule refused_attempts_fail [OF fresh_node_connectable(1)]) simp
qed (simp_all add: fresh_node_sel)

end
