(* ===== verification/Stack_Steps.thy ===== *)
theory Stack_Steps
  imports Run
begin

text \<open>
  The iterations of \<open>run\<close> in smaller steps.  \<open>run_step\<close> takes an iteration as a whole.  Other tasks run while the
  stack waits, and where it holds a grant or has changed the session before it waits they can see it: while it
  connects, with the session marked as not connected; while it writes a frame of the TX channel, with the read
  grant held; and while it copies a PUBLISH from the socket, with the write grant of the RX channel held.  These are
  the phases of \<open>stack_step\<close>.  \<open>steps_run\<close> of the locale \<open>socket_handle\<close> shows that the phases of an iteration, taken
  without a step of another task in between, are \<open>run_step\<close>, for each of the three transports.
\<close>

section \<open>\<open>select\<close> up to its first wait, and after it\<close>

datatype StackPhase = AtTop | Attempting | Selecting | Transmitting FrameGrantR | Storing QosPid PartialPublish FrameGrantW

definition tx_begin :: "Node \<Rightarrow> 's \<Rightarrow> (StackPhase + (StateError, unit) result) \<times> Node \<times> 's" where
  "tx_begin nd s =
     (case read_with_context True (nd_tx_sub nd) (ch_state (nd_tx nd)) of
        (Ok g, sub, txs) \<Rightarrow> (Inl (Transmitting g), nd\<lparr>nd_tx_sub := sub, nd_tx := (nd_tx nd)\<lparr>ch_state := txs\<rparr>\<rparr>, s)
      | (Err e, sub, txs) \<Rightarrow> (Inr (Ok ()), nd\<lparr>nd_tx_sub := sub, nd_tx := (nd_tx nd)\<lparr>ch_state := txs\<rparr>\<rparr>, s)
      | (Panic, sub, txs) \<Rightarrow> (Inr Panic, nd, s))"

definition tx_end :: "'s Socket \<Rightarrow> nat \<Rightarrow> FrameGrantR \<Rightarrow> Node \<Rightarrow> 's \<Rightarrow> (StateError, unit) result \<times> Node \<times> 's" where
  "tx_end sk now g nd s =
     (case write_bytes sk (grant_bytes g (ch_buf (nd_tx nd))) s of
        (Ok _, s1) \<Rightarrow>
          (Ok (), (tx_release g nd)\<lparr>nd_shared := transmitted (gr_pid g) (nd_shared nd), nd_last_network_action := now\<rparr>, s1)
      | (Err e, s1) \<Rightarrow> (Err e, tx_release g nd, s1)
      | (Panic, s1) \<Rightarrow> (Panic, tx_release g nd, s1))"

definition publish_begin ::
  "'s Socket \<Rightarrow> nat \<Rightarrow> QosPid \<Rightarrow> PartialPublish \<Rightarrow> Node \<Rightarrow> 's \<Rightarrow> (StackPhase + (StateError, unit) result) \<times> Node \<times> 's" where
  "publish_begin sk now qos_pid pp nd s =
     (case grant_immediate (pp_packet_len pp) (ch_state (nd_rx nd)) of
        (Ok g, st) \<Rightarrow> (Inl (Storing qos_pid pp g), nd\<lparr>nd_rx := (nd_rx nd)\<lparr>ch_state := st\<rparr>\<rparr>, s)
      | (Err e, st) \<Rightarrow>
          (let nd1 = nd\<lparr>nd_rx := (nd_rx nd)\<lparr>ch_state := st\<rparr>\<rparr> in
           case discard sk pp s of (r, s1) \<Rightarrow> (case finish_select now (r, nd1, s1) of (r1, x) \<Rightarrow> (Inr r1, x)))
      | (Panic, st) \<Rightarrow> (Inr Panic, nd, s))"

definition publish_end ::
  "'s Socket \<Rightarrow> nat \<Rightarrow> QosPid \<Rightarrow> PartialPublish \<Rightarrow> FrameGrantW \<Rightarrow> Node \<Rightarrow> 's \<Rightarrow> (StateError, unit) result \<times> Node \<times> 's" where
  "publish_end sk now qos_pid pp g nd s =
     (let rx = nd_rx nd in
      case copy_all sk pp (slice (ch_buf rx) (gw_start g) (gw_size g)) s of
        (Ok bs, s1) \<Rightarrow>
          finish_select now
            (acknowledge sk qos_pid
               (nd\<lparr>nd_rx := \<lparr>ch_buf = splice (ch_buf rx) (gw_start g) bs, ch_state = commit g (pp_packet_len pp) (ch_state rx)\<rparr>\<rparr>) s1)
      | (Err e, s1) \<Rightarrow> (Err e, nd\<lparr>nd_rx := rx\<lparr>ch_state := grant_drop g (ch_state rx)\<rparr>\<rparr>, s1)
      | (Panic, s1) \<Rightarrow> (Panic, nd\<lparr>nd_rx := rx\<lparr>ch_state := grant_drop g (ch_state rx)\<rparr>\<rparr>, s1))"

definition rx_begin ::
  "'s Socket \<Rightarrow> nat \<Rightarrow> Node \<Rightarrow> 's \<Rightarrow> ((StackPhase + (StateError, unit) result) \<times> Node \<times> 's) option" where
  "rx_begin sk now nd s =
     (case recv sk (nd_reader nd) s of
        None \<Rightarrow> None
      | Some (Ok (RP_PartialPublish qos_pid topic_name pp), pr, s1) \<Rightarrow>
          Some (publish_begin sk now qos_pid pp (nd\<lparr>nd_reader := pr\<rparr>) s1)
      | Some (Ok packet, pr, s1) \<Rightarrow>
          Some (case finish_select now (on_packet sk packet (nd\<lparr>nd_reader := pr\<rparr>) s1) of (r, x) \<Rightarrow> (Inr r, x))
      | Some (Err (Io k), pr, s1) \<Rightarrow> Some (Inr (Err (Io k)), nd\<lparr>nd_reader := pr\<rparr>, s1)
      | Some (Err e, pr, s1) \<Rightarrow> Some (Inr (Ok ()), nd\<lparr>nd_reader := pr, nd_last_network_action := now\<rparr>, s1)
      | Some (Panic, pr, s1) \<Rightarrow> Some (Inr Panic, nd\<lparr>nd_reader := pr\<rparr>, s1))"

definition select_begin ::
  "'s Socket \<Rightarrow> Branch \<Rightarrow> nat \<Rightarrow> Node \<Rightarrow> 's \<Rightarrow> ((StackPhase + (StateError, unit) result) \<times> Node \<times> 's) option" where
  "select_begin sk branch now nd s =
     (case branch of
        RxReady \<Rightarrow> rx_begin sk now nd s
      | TxReady n \<Rightarrow>
          (case recv_dropped sk n (nd_reader nd) s of (pr, s1) \<Rightarrow> Some (tx_begin (nd\<lparr>nd_reader := pr\<rparr>) s1))
      | KeepAliveExpired n \<Rightarrow>
          (case recv_dropped sk (Some n) (nd_reader nd) s of
             (pr, s1) \<Rightarrow> Some (case select_keep_alive sk now (nd\<lparr>nd_reader := pr\<rparr>) s1 of (r, x) \<Rightarrow> (Inr r, x))))"

text \<open>After a wait with a grant; the other phases do not wait inside of \<open>select\<close>.\<close>

fun select_end :: "'s Socket \<Rightarrow> nat \<Rightarrow> StackPhase \<Rightarrow> Node \<Rightarrow> 's \<Rightarrow> (StateError, unit) result \<times> Node \<times> 's" where
  "select_end sk now (Transmitting g) nd s = tx_end sk now g nd s"
| "select_end sk now (Storing qos_pid pp g) nd s = publish_end sk now qos_pid pp g nd s"
| "select_end sk now _ nd s = (Ok (), nd, s)"

section \<open>The phases of an iteration\<close>

text \<open>How \<open>run\<close> goes on after \<open>select\<close>.\<close>

definition after_select ::
  "('t, 's) Transport \<Rightarrow> (StateError, unit) result \<Rightarrow> Node \<Rightarrow> 't \<Rightarrow> (RunOutcome + StackPhase) \<times> Node \<times> 't" where
  "after_select tr r nd t =
     (case r of
        Ok _ \<Rightarrow> (Inl Again, nd, t)
      | Err e \<Rightarrow> (Inl Again, stack_reset nd, snd (tr_disconnect tr t))
      | Panic \<Rightarrow> (Inl Panicked, nd, t))"

text \<open>The future of \<open>run\<close> dropped while it waits; its grants are dropped with it.\<close>

fun stack_dropped :: "StackPhase \<Rightarrow> Node \<Rightarrow> Node" where
  "stack_dropped (Transmitting g) nd = nd\<lparr>nd_tx := (nd_tx nd)\<lparr>ch_state := read_grant_drop g (ch_state (nd_tx nd))\<rparr>\<rparr>"
| "stack_dropped (Storing qos_pid pp g) nd = nd\<lparr>nd_rx := (nd_rx nd)\<lparr>ch_state := grant_drop g (ch_state (nd_rx nd))\<rparr>\<rparr>"
| "stack_dropped _ nd = nd"

text \<open>
  A step: the phase the iteration is in then, or how it ended.  While \<open>select\<close> waits with a grant it holds a reference to
  the socket, which \<open>tr_socket\<close> gives again (\<open>socket_handle\<close> below).
\<close>

fun stack_step ::
  "('t, 's) Transport \<Rightarrow> 's Socket \<Rightarrow> ('t, 's) Cut \<Rightarrow> Branch \<Rightarrow> nat \<Rightarrow> StackPhase \<Rightarrow> Node \<Rightarrow> 't \<Rightarrow>
   ((RunOutcome + StackPhase) \<times> Node \<times> 't) option" where
  "stack_step tr sk ct branch now AtTop nd t =
     Some (if tr_is_connected tr t then (Inr Selecting, nd, t)
           else (Inr Attempting, with_shared (set_connected None) nd, t))"
| "stack_step tr sk ct branch now Attempting nd t =
     (case connect_attempt tr sk ct now nd t of
        None \<Rightarrow> None
      | Some (Some (Ok session_present), nd1, t1) \<Rightarrow>
          Some (Inr Selecting, with_shared (set_connected (Some session_present)) nd1, t1)
      | Some (Some Panic, nd1, t1) \<Rightarrow> Some (Inl Panicked, nd1, t1)
      | Some (_, nd1, t1) \<Rightarrow> Some (case connect_failed tr nd1 t1 of (out, x) \<Rightarrow> (Inl out, x)))"
| "stack_step tr sk ct branch now Selecting nd t =
     (case tr_socket tr t of
        Panic \<Rightarrow> Some (Inl Panicked, nd, t)
      | Err e \<Rightarrow> Some (Inl Again, stack_reset nd, snd (tr_disconnect tr t))
      | Ok s \<Rightarrow>
          map_option (\<lambda>(x, nd1, s1).
            let t1 = tr_set_socket tr s1 t in
            case x of
              Inl ph \<Rightarrow> (Inr ph, nd1, t1)
            | Inr r \<Rightarrow> after_select tr r nd1 t1)
            (select_begin sk branch now nd s))"
| "stack_step tr sk ct branch now ph nd t =
     (case tr_socket tr t of
        Panic \<Rightarrow> Some (Inl Panicked, stack_dropped ph nd, t)
      | Err e \<Rightarrow> Some (Inl Again, stack_reset (stack_dropped ph nd), snd (tr_disconnect tr t))
      | Ok s \<Rightarrow> Some (case select_end sk now ph nd s of (r, nd1, s1) \<Rightarrow> after_select tr r nd1 (tr_set_socket tr s1 t)))"

text \<open>The steps of an iteration in a row, \<open>n\<close> of them at most.\<close>

fun stack_steps ::
  "nat \<Rightarrow> ('t, 's) Transport \<Rightarrow> 's Socket \<Rightarrow> ('t, 's) Cut \<Rightarrow> Branch \<Rightarrow> nat \<Rightarrow> StackPhase \<Rightarrow> Node \<Rightarrow> 't \<Rightarrow>
   (RunOutcome \<times> Node \<times> 't) option" where
  "stack_steps 0 tr sk ct branch now ph nd t = None"
| "stack_steps (Suc n) tr sk ct branch now ph nd t =
     (case stack_step tr sk ct branch now ph nd t of
        None \<Rightarrow> None
      | Some (Inl out, nd1, t1) \<Rightarrow> Some (out, nd1, t1)
      | Some (Inr ph1, nd1, t1) \<Rightarrow> stack_steps n tr sk ct branch now ph1 nd1 t1)"

section \<open>The phases are an iteration\<close>

lemma tx_split:
  "select_tx sk now nd s =
     (case tx_begin nd s of (Inl ph, nd1, s1) \<Rightarrow> select_end sk now ph nd1 s1 | (Inr r, nd1, s1) \<Rightarrow> (r, nd1, s1))"
  by (simp add: select_tx_def tx_begin_def tx_end_def Let_def split: prod.splits result.splits)

lemma publish_split:
  "finish_select now (on_publish sk qos_pid pp nd s) =
     (case publish_begin sk now qos_pid pp nd s of
        (Inl ph, nd1, s1) \<Rightarrow> select_end sk now ph nd1 s1 | (Inr r, nd1, s1) \<Rightarrow> (r, nd1, s1))"
  by (auto simp: on_publish_def rx_store_def publish_begin_def publish_end_def finish_select_def Let_def
      split: prod.splits result.splits)

lemma rx_split:
  "select_rx sk now nd s =
     map_option (\<lambda>x. case x of (Inl ph, nd1, s1) \<Rightarrow> select_end sk now ph nd1 s1 | (Inr r, nd1, s1) \<Rightarrow> (r, nd1, s1))
       (rx_begin sk now nd s)"
proof (cases "recv sk (nd_reader nd) s")
  case (Some x)
  obtain r pr s1 where x: "x = (r, pr, s1)" by (cases x)
  show ?thesis
  proof (cases r)
    case (Ok packet)
    then show ?thesis
      using Some x publish_split [of now sk _ _ "nd\<lparr>nd_reader := pr\<rparr>" s1]
      by (cases packet) (simp_all add: select_rx_def rx_begin_def on_packet_def Let_def split: prod.splits)
  next
    case (Err e)
    then show ?thesis using Some x by (cases e) (simp_all add: select_rx_def rx_begin_def finish_select_def)
  qed (use Some x in \<open>simp add: select_rx_def rx_begin_def\<close>)
qed (simp add: select_rx_def rx_begin_def)

lemma select_split:
  "select sk branch now nd s =
     map_option (\<lambda>x. case x of (Inl ph, nd1, s1) \<Rightarrow> select_end sk now ph nd1 s1 | (Inr r, nd1, s1) \<Rightarrow> (r, nd1, s1))
       (select_begin sk branch now nd s)"
  by (cases branch) (simp_all add: select_def select_begin_def rx_split tx_split split: prod.splits)

definition waits_in_select :: "StackPhase \<Rightarrow> bool" where
  "waits_in_select ph = (case ph of Transmitting _ \<Rightarrow> True | Storing _ _ _ \<Rightarrow> True | _ \<Rightarrow> False)"

lemma select_begin_waits:
  assumes "select_begin sk branch now nd s = Some (Inl ph, nd1, s1)"
  shows "waits_in_select ph"
proof -
  have "waits_in_select ph" if "publish_begin sk now q pp nd s = (Inl ph, nd1, s1)" for q pp nd s
    using that by (auto simp: publish_begin_def waits_in_select_def Let_def split: prod.splits result.splits)
  moreover have "waits_in_select ph" if "tx_begin nd s = (Inl ph, nd1, s1)" for nd and s :: 'a
    using that by (auto simp: tx_begin_def waits_in_select_def split: prod.splits result.splits)
  ultimately show ?thesis
    using assms
    by (auto simp: select_begin_def rx_begin_def split: Branch.splits prod.splits option.splits result.splits
        ReceivedPacket.splits StateError.splits)
qed

text \<open>The mutable reference to the socket: what its user leaves is what the transport has afterwards.\<close>

locale socket_handle =
  fixes tr :: "('t, 's) Transport"
  assumes socket_set: "tr_socket tr t = Ok s \<Longrightarrow> tr_socket tr (tr_set_socket tr s1 t) = Ok s1"
    and set_set: "tr_socket tr t = Ok s \<Longrightarrow> tr_set_socket tr s2 (tr_set_socket tr s1 t) = tr_set_socket tr s2 t"
begin

lemma selecting_run: "stack_steps (Suc (Suc n)) tr sk ct branch now Selecting nd t = run_select tr sk branch now nd t"
proof (cases "tr_socket tr t")
  case (Ok s)
  show ?thesis
  proof (cases "select_begin sk branch now nd s")
    case None
    with Ok show ?thesis by (simp add: run_select_def select_split)
  next
    case (Some y)
    obtain x nd1 s1 where y: "y = (x, nd1, s1)" by (cases y)
    show ?thesis
    proof (cases x)
      case (Inl ph)
      have w: "waits_in_select ph" by (rule select_begin_waits [OF Some [unfolded y Inl]])
      obtain r nd2 s2 where e: "select_end sk now ph nd1 s1 = (r, nd2, s2)" by (metis prod_cases3)
      from w have "stack_step tr sk ct branch now ph nd1 (tr_set_socket tr s1 t) =
          Some (after_select tr r nd2 (tr_set_socket tr s2 t))"
        using Ok socket_set [OF Ok, of s1] set_set [OF Ok, of s2 s1] e
        by (cases ph) (simp_all add: waits_in_select_def)
      with Ok Some y Inl e show ?thesis
        by (cases r) (simp_all add: run_select_def select_split after_select_def Let_def)
    next
      case (Inr r)
      with Ok Some y show ?thesis by (cases r) (simp_all add: run_select_def select_split after_select_def Let_def)
    qed
  qed
qed (simp_all add: run_select_def)

lemma steps_run: "stack_steps 4 tr sk ct branch now AtTop nd t = run_step tr sk ct branch now nd t"
proof (cases "tr_is_connected tr t")
  case True
  then show ?thesis
    using selecting_run [of "Suc 0" sk ct branch now nd t] by (simp add: run_step_def eval_nat_numeral del: stack_step.simps(3))
next
  case False
  then show ?thesis
    using selecting_run [of 0 sk ct branch now]
    by (auto simp: run_step_def eval_nat_numeral simp del: stack_step.simps(3) split: option.splits result.splits prod.splits)
qed

end

interpretation nal_handle: socket_handle "nal_transport get_address net"
  by unfold_locales (auto simp: nal_transport_def nal_get_socket_def)

interpretation cs_handle: socket_handle cs_transport
  by unfold_locales (auto simp: cs_transport_def cs_socket_def)

interpretation tls_handle: socket_handle "tls_transport get_address net open_tls insufficient"
  by unfold_locales (auto simp: tls_transport_def tls_get_socket_def)

end
