(* ===== verification/System.thy ===== *)
theory System
  imports Stack_Steps Client Pubsub_World
begin

text \<open>
  The node with everything that uses it: the stack in one of its phases, any number of calls of \<open>publish\<close>,
  \<open>subscribe\<close> and \<open>unsubscribe\<close> at their \<open>await\<close> points, the subscriptions, and the messages the application holds.
  An action is one move of one of them; \<open>sys_exec\<close> performs it.  Every interleaving of client and stack is a sequence
  of actions, and \<open>sys_reach\<close> collects the states they lead to.  The mutex of the session is never held across an
  \<open>await\<close>, so that an action finds it free; the mutex of the TX publisher is held across one, and is part of the node.
\<close>

section \<open>State\<close>

record SubscribeCall =
  sc_max_topics :: nat
  sc_packet :: Subscribe
  sc_subscriber :: FrameSubscriber
  sc_task :: "SubscribeWait Task"

record 't System =
  sys_node :: Node
  sys_transport :: 't
  sys_phase :: StackPhase
  sys_publishes :: "(Publish \<times> PublishWait Task) list"
  sys_subscribes :: "SubscribeCall list"
  sys_subscriptions :: "Subscription list"
  sys_unsubscribes :: "(Subscription \<times> SubscribeWait Task) list"
  sys_messages :: "Message list"

definition sys_new :: "Node \<Rightarrow> 't \<Rightarrow> 't System" where
  "sys_new nd t =
     \<lparr>sys_node = nd, sys_transport = t, sys_phase = AtTop, sys_publishes = [], sys_subscribes = [],
      sys_subscriptions = [], sys_unsubscribes = [], sys_messages = []\<rparr>"

text \<open>The state after an action; \<open>Err ()\<close> is an action that never returns.\<close>

type_synonym 't sys_op = "'t System \<Rightarrow> (unit, 't System) result"

section \<open>Calls of \<open>publish\<close>\<close>

text \<open>The loop over the attempts begins with the wait for a connection.\<close>

definition start_publish :: "Publish \<Rightarrow> 't sys_op" where
  "start_publish p sys = Ok (sys\<lparr>sys_publishes := sys_publishes sys @ [(p, Connecting 1)]\<rparr>)"

text \<open>The call \<open>k\<close> moved by \<open>f\<close>; a panic ends the program.\<close>

definition move_publish :: "nat \<Rightarrow> (Publish \<Rightarrow> PublishWait Task \<Rightarrow> Node \<Rightarrow> PublishWait Task \<times> Node) \<Rightarrow> 't sys_op" where
  "move_publish k f sys =
     (if k < length (sys_publishes sys) then
        (case sys_publishes sys ! k of
           (p, task) \<Rightarrow>
             (case f p task (sys_node sys) of
                (task', nd) \<Rightarrow>
                  if task' = Finished Panic then Panic
                  else Ok (sys\<lparr>sys_node := nd, sys_publishes := (sys_publishes sys)[k := (p, task')]\<rparr>)))
      else Ok sys)"

text \<open>The future is dropped: it has returned, or it is cancelled, with the clean-up of a timeout.\<close>

definition drop_publish :: "nat \<Rightarrow> bool \<Rightarrow> 't sys_op" where
  "drop_publish k free sys =
     (if k < length (sys_publishes sys) then
        Ok (sys\<lparr>sys_node := snd (publish_timeout free (snd (sys_publishes sys ! k)) (sys_node sys)),
                sys_publishes := remove_nth k (sys_publishes sys)\<rparr>)
      else Ok sys)"

section \<open>Calls of \<open>subscribe\<close>\<close>

definition start_subscribe :: "nat \<Rightarrow> Subscribe \<Rightarrow> 't sys_op" where
  "start_subscribe MAX_TOPICS p sys =
     (case subscribe_begin (sys_node sys) of
        (Ok sub, nd) \<Rightarrow>
          Ok (sys\<lparr>sys_node := nd, sys_subscribes := sys_subscribes sys @
                [\<lparr>sc_max_topics = MAX_TOPICS, sc_packet = p, sc_subscriber = sub, sc_task = Connecting 1\<rparr>]\<rparr>)
      | (Err e, nd) \<Rightarrow> Ok (sys\<lparr>sys_node := nd\<rparr>)
      | (Panic, nd) \<Rightarrow> Panic)"

definition move_subscribe :: "nat \<Rightarrow> (Subscribe \<Rightarrow> SubscribeWait Task \<Rightarrow> Node \<Rightarrow> SubscribeWait Task \<times> Node) \<Rightarrow> 't sys_op" where
  "move_subscribe k f sys =
     (if k < length (sys_subscribes sys) then
        (let c = sys_subscribes sys ! k in
         case f (sc_packet c) (sc_task c) (sys_node sys) of
           (task', nd) \<Rightarrow>
             if task' = Finished Panic then Panic
             else Ok (sys\<lparr>sys_node := nd, sys_subscribes := (sys_subscribes sys)[k := c\<lparr>sc_task := task'\<rparr>]\<rparr>))
      else Ok sys)"

text \<open>The loop over the attempts is done: the call returns a subscription or an error.\<close>

definition finish_subscribe :: "nat \<Rightarrow> 't sys_op" where
  "finish_subscribe k sys =
     (if k < length (sys_subscribes sys) then
        (let c = sys_subscribes sys ! k; rest = remove_nth k (sys_subscribes sys) in
         case sc_task c of
           Finished r \<Rightarrow>
             (case subscribe_finish (sc_max_topics c) (sc_packet c) r (sc_subscriber c) (sys_node sys) of
                (Ok sub, nd) \<Rightarrow>
                  Ok (sys\<lparr>sys_node := nd, sys_subscribes := rest, sys_subscriptions := sys_subscriptions sys @ [sub]\<rparr>)
              | (Err e, nd) \<Rightarrow> Ok (sys\<lparr>sys_node := nd, sys_subscribes := rest\<rparr>)
              | (Panic, nd) \<Rightarrow> Panic)
         | _ \<Rightarrow> Ok sys)
      else Ok sys)"

text \<open>The future is cancelled: the clean-up of a timeout, and then the drop of the subscriber.\<close>

definition drop_subscribe :: "nat \<Rightarrow> bool \<Rightarrow> 't sys_op" where
  "drop_subscribe k free sys =
     (if k < length (sys_subscribes sys) then
        (let c = sys_subscribes sys ! k in
         case subscriber_gone (sc_subscriber c) (snd (subscribe_timeout free (sc_task c) (sys_node sys))) of
           (Panic, nd) \<Rightarrow> Panic
         | (_, nd) \<Rightarrow> Ok (sys\<lparr>sys_node := nd, sys_subscribes := remove_nth k (sys_subscribes sys)\<rparr>))
      else Ok sys)"

section \<open>Subscriptions and messages\<close>

definition poll_subscription :: "nat \<Rightarrow> 't sys_op" where
  "poll_subscription k sys =
     (if k < length (sys_subscriptions sys) then
        (case poll_next (sys_subscriptions sys ! k) (sys_node sys) of
           (r, sub, nd) \<Rightarrow>
             let sys1 = sys\<lparr>sys_node := nd, sys_subscriptions := (sys_subscriptions sys)[k := sub]\<rparr> in
             case r of
               NextPanic \<Rightarrow> Panic
             | NextMessage m \<Rightarrow> Ok (sys1\<lparr>sys_messages := sys_messages sys1 @ [m]\<rparr>)
             | _ \<Rightarrow> Ok sys1)
      else Ok sys)"

definition drop_message :: "nat \<Rightarrow> 't sys_op" where
  "drop_message k sys =
     (if k < length (sys_messages sys) then
        Ok (sys\<lparr>sys_node := message_drop (sys_messages sys ! k) (sys_node sys),
                sys_messages := remove_nth k (sys_messages sys)\<rparr>)
      else Ok sys)"

definition drop_subscription :: "nat \<Rightarrow> bool \<Rightarrow> bool \<Rightarrow> 't sys_op" where
  "drop_subscription k free1 free2 sys =
     (if k < length (sys_subscriptions sys) then
        (case subscription_drop free1 free2 (sys_subscriptions sys ! k) (sys_node sys) of
           (Panic, nd) \<Rightarrow> Panic
         | (_, nd) \<Rightarrow> Ok (sys\<lparr>sys_node := nd, sys_subscriptions := remove_nth k (sys_subscriptions sys)\<rparr>))
      else Ok sys)"

text \<open>\<open>unsubscribe\<close> takes the subscription.\<close>

definition start_unsubscribe :: "nat \<Rightarrow> 't sys_op" where
  "start_unsubscribe k sys =
     (if k < length (sys_subscriptions sys) then
        Ok (sys\<lparr>sys_subscriptions := remove_nth k (sys_subscriptions sys),
                sys_unsubscribes := sys_unsubscribes sys @ [(sys_subscriptions sys ! k, Sending 1)]\<rparr>)
      else Ok sys)"

definition step_unsubscribe :: "nat \<Rightarrow> 't sys_op" where
  "step_unsubscribe k sys =
     (if k < length (sys_unsubscribes sys) then
        (case sys_unsubscribes sys ! k of
           (sub, task) \<Rightarrow>
             (case unsubscribe_step sub task (sys_node sys) of
                (task', nd) \<Rightarrow>
                  if task' = Finished Panic then Panic
                  else Ok (sys\<lparr>sys_node := nd, sys_unsubscribes := (sys_unsubscribes sys)[k := (sub, task')]\<rparr>)))
      else Ok sys)"

text \<open>The end of \<open>unsubscribe\<close>, returned or cancelled; the subscription is dropped with it.\<close>

definition end_unsubscribe :: "nat \<Rightarrow> bool \<Rightarrow> bool \<Rightarrow> 't sys_op" where
  "end_unsubscribe k free1 free2 sys =
     (if k < length (sys_unsubscribes sys) then
        (case sys_unsubscribes sys ! k of
           (sub, task) \<Rightarrow>
             let sub1 = (case task of Finished r \<Rightarrow> unsubscribe_finish r sub | _ \<Rightarrow> sub);
                 nd1 = snd (request_timeout 1 (\<lambda>_ sh. sh) task (sys_node sys))
             in case subscription_drop free1 free2 sub1 nd1 of
                  (Panic, nd) \<Rightarrow> Panic
                | (_, nd) \<Rightarrow> Ok (sys\<lparr>sys_node := nd, sys_unsubscribes := remove_nth k (sys_unsubscribes sys)\<rparr>))
      else Ok sys)"

section \<open>The stack\<close>

definition move_stack :: "('t, 's) Transport \<Rightarrow> 's Socket \<Rightarrow> ('t, 's) Cut \<Rightarrow> Branch \<Rightarrow> nat \<Rightarrow> 't sys_op" where
  "move_stack tr sk ct branch now sys =
     (case stack_step tr sk ct branch now (sys_phase sys) (sys_node sys) (sys_transport sys) of
        None \<Rightarrow> Err ()
      | Some (Inr ph, nd, t) \<Rightarrow> Ok (sys\<lparr>sys_node := nd, sys_transport := t, sys_phase := ph\<rparr>)
      | Some (Inl out, nd, t) \<Rightarrow>
          (if out = Panicked then Panic else Ok (sys\<lparr>sys_node := nd, sys_transport := t, sys_phase := AtTop\<rparr>)))"

text \<open>The future of \<open>run\<close> is dropped, with the transport in some state; \<open>disconnect\<close> between two runs.\<close>

definition drop_stack :: "'t \<Rightarrow> 't sys_op" where
  "drop_stack t sys =
     Ok (sys\<lparr>sys_node := stack_dropped (sys_phase sys) (sys_node sys), sys_transport := t, sys_phase := AtTop\<rparr>)"

definition disconnect_stack :: "('t, 's) Transport \<Rightarrow> 's Socket \<Rightarrow> 't sys_op" where
  "disconnect_stack tr sk sys =
     (if sys_phase sys = AtTop then
        (case stack_disconnect tr sk (sys_node sys) (sys_transport sys) of
           (Panic, nd, t) \<Rightarrow> Panic
         | (_, nd, t) \<Rightarrow> Ok (sys\<lparr>sys_node := nd, sys_transport := t\<rparr>))
      else Ok sys)"

section \<open>Actions\<close>

datatype ('t, 's) Action =
  StartPublish Publish
| StepPublish nat
| TimeoutPublish nat bool
| DropPublish nat bool
| StartSubscribe nat Subscribe
| StepSubscribe nat
| TimeoutSubscribe nat bool
| FinishSubscribe nat
| DropSubscribe nat bool
| PollSubscription nat
| DropMessage nat
| DropSubscription nat bool bool
| StartUnsubscribe nat
| StepUnsubscribe nat
| EndUnsubscribe nat bool bool
| StepStack "('t, 's) Cut" Branch nat
| DropStack 't
| DisconnectStack

fun sys_exec :: "('t, 's) Transport \<Rightarrow> 's Socket \<Rightarrow> ('t, 's) Action \<Rightarrow> 't sys_op" where
  "sys_exec tr sk (StartPublish p) sys = start_publish p sys"
| "sys_exec tr sk (StepPublish k) sys = move_publish k publish_step sys"
| "sys_exec tr sk (TimeoutPublish k free) sys = move_publish k (\<lambda>_. publish_timeout free) sys"
| "sys_exec tr sk (DropPublish k free) sys = drop_publish k free sys"
| "sys_exec tr sk (StartSubscribe n p) sys = start_subscribe n p sys"
| "sys_exec tr sk (StepSubscribe k) sys = move_subscribe k subscribe_step sys"
| "sys_exec tr sk (TimeoutSubscribe k free) sys = move_subscribe k (\<lambda>_. subscribe_timeout free) sys"
| "sys_exec tr sk (FinishSubscribe k) sys = finish_subscribe k sys"
| "sys_exec tr sk (DropSubscribe k free) sys = drop_subscribe k free sys"
| "sys_exec tr sk (PollSubscription k) sys = poll_subscription k sys"
| "sys_exec tr sk (DropMessage k) sys = drop_message k sys"
| "sys_exec tr sk (DropSubscription k free1 free2) sys = drop_subscription k free1 free2 sys"
| "sys_exec tr sk (StartUnsubscribe k) sys = start_unsubscribe k sys"
| "sys_exec tr sk (StepUnsubscribe k) sys = step_unsubscribe k sys"
| "sys_exec tr sk (EndUnsubscribe k free1 free2) sys = end_unsubscribe k free1 free2 sys"
| "sys_exec tr sk (StepStack ct branch now) sys = move_stack tr sk ct branch now sys"
| "sys_exec tr sk (DropStack t) sys = drop_stack t sys"
| "sys_exec tr sk DisconnectStack sys = disconnect_stack tr sk sys"

fun sys_run :: "('t, 's) Transport \<Rightarrow> 's Socket \<Rightarrow> ('t, 's) Action list \<Rightarrow> 't sys_op" where
  "sys_run tr sk [] sys = Ok sys"
| "sys_run tr sk (a # as) sys = rbind (sys_exec tr sk a sys) (sys_run tr sk as)"

end
