(* ===== verification/Whole_Packets.thy ===== *)
theory Whole_Packets
  imports Received_Packet
begin

text \<open>
  What encoding does to the buffer, without a condition on the packet: no operation changes the length of the
  buffer it was given, and an encoded packet is a whole packet of its type, whose header gives its length.  \<open>enc_keeps\<close>
  states the first for one operation and is closed under \<open>?\<close>; \<open>encodes_whole\<close> is what the channel needs of a
  request.  A deferred payload works on a mutable slice, which keeps its length; \<open>payload_in_place\<close> says this of
  the closure.
\<close>

definition enc_keeps :: "enc_op \<Rightarrow> bool" where
  "enc_keeps f \<longleftrightarrow> (\<forall>e e'. f e = Ok e' \<longrightarrow> length (enc_buf e') = length (enc_buf e) \<and> enc_header_start e' = enc_header_start e)"

named_theorems enc_keeps_intros \<open>operations of the encoder that keep the length of its buffer\<close>

lemma enc_keepsD: "enc_keeps f \<Longrightarrow> f e = Ok e' \<Longrightarrow> length (enc_buf e') = length (enc_buf e) \<and> enc_header_start e' = enc_header_start e"
  by (simp add: enc_keeps_def)

section \<open>Composition\<close>

lemma enc_keeps_Ok [enc_keeps_intros]: "enc_keeps Ok"
  by (simp add: enc_keeps_def)

lemma enc_keeps_bind [enc_keeps_intros]: "enc_keeps f \<Longrightarrow> enc_keeps g \<Longrightarrow> enc_keeps (\<lambda>e. rbind (f e) g)"
  by (auto simp: enc_keeps_def rbind_Ok_iff)

lemma enc_keeps_lift: "(\<And>x. enc_keeps (g x)) \<Longrightarrow> enc_keeps (\<lambda>e. rbind r (\<lambda>x. g x e))"
  by (auto simp: enc_keeps_def rbind_Ok_iff)

lemma enc_keeps_guard: "(\<And>x. enc_keeps (g x)) \<Longrightarrow> enc_keeps (\<lambda>e. rbind (r e) (\<lambda>x. g x e))"
  by (auto simp: enc_keeps_def rbind_Ok_iff)

lemma enc_keeps_each [enc_keeps_intros]: "(\<And>x. enc_keeps (f x)) \<Longrightarrow> enc_keeps (write_each f xs)"
proof (induction xs)
  case (Cons x xs)
  then have "enc_keeps (\<lambda>e. rbind (f x e) (write_each f xs))" by (intro enc_keeps_bind) auto
  then show ?case by (simp add: enc_keeps_def)
qed (simp add: enc_keeps_def)

section \<open>Primitive writes\<close>

lemma enc_keeps_u8 [enc_keeps_intros]: "enc_keeps (write_u8 v)"
  by (auto simp: enc_keeps_def write_u8_def split: if_splits)

lemma enc_keeps_put [enc_keeps_intros]: "enc_keeps (put_checked bs)"
  by (auto simp: enc_keeps_def put_checked_def split: if_splits)

lemma enc_keeps_u16 [enc_keeps_intros]: "enc_keeps (write_u16 v)"
  unfolding write_u16_def [abs_def] by (intro enc_keeps_guard enc_keeps_intros)

lemma enc_keeps_u32 [enc_keeps_intros]: "enc_keeps (write_u32 v)"
  unfolding write_u32_def [abs_def] by (intro enc_keeps_guard enc_keeps_intros)

lemma enc_keeps_slice [enc_keeps_intros]: "enc_keeps (write_slice v)" "enc_keeps (write_str v)"
proof -
  have "enc_keeps (\<lambda>e. rbind (enc_check_remaining (2 + of_nat (length v)) e) (\<lambda>_.
      rbind (put_checked (u16_to_be (of_nat (length v))) e) (\<lambda>e1. put_checked v e1)))"
    by (intro enc_keeps_guard enc_keeps_intros)
  then show "enc_keeps (write_slice v)" by (auto simp: enc_keeps_def write_slice_def split: if_splits)
  then show "enc_keeps (write_str v)" by (simp add: enc_keeps_def write_str_def)
qed

lemma enc_keeps_varint [enc_keeps_intros]: "enc_keeps (write_varint len)"
proof -
  have "enc_keeps (write_varint_loop n len)" for n
  proof (induction n arbitrary: len)
    case (Suc n)
    then show ?case
      by (auto simp: enc_keeps_def rbind_Ok_iff Let_def split: if_splits dest!: enc_keepsD [OF enc_keeps_u8])
  qed (simp add: enc_keeps_def)
  then show ?thesis by (simp add: enc_keeps_def write_varint_def)
qed

section \<open>Properties and payloads\<close>

lemma enc_keeps_property [enc_keeps_intros]: "enc_keeps (write_property p)"
proof -
  have "enc_keeps (write_property_value p)"
  proof (cases p)
    case (UserProperty k v)
    have "enc_keeps (\<lambda>e. rbind (write_str k e) (write_str v))" by (intro enc_keeps_intros)
    then show ?thesis by (simp add: UserProperty enc_keeps_def)
  qed (simp_all add: enc_keeps_def enc_keeps_u8 [THEN enc_keepsD] enc_keeps_u16 [THEN enc_keepsD]
      enc_keeps_u32 [THEN enc_keepsD] enc_keeps_slice [THEN enc_keepsD] enc_keeps_varint [THEN enc_keepsD])
  then show ?thesis unfolding write_property_def [abs_def] by (intro enc_keeps_intros)
qed

lemma enc_keeps_property_list [enc_keeps_intros]: "enc_keeps (write_property_list ps)"
proof (induction ps)
  case (Cons p ps)
  have "enc_keeps (\<lambda>e. rbind (write_property p e) (write_property_list ps))" by (intro enc_keeps_intros Cons.IH)
  then show ?case by (simp add: enc_keeps_def)
qed (simp add: enc_keeps_def)

lemma enc_keeps_properties [enc_keeps_intros]: "enc_keeps (write_properties v)"
  unfolding write_properties_def [abs_def]
  by (cases v; simp only: Properties.case) (intro enc_keeps_lift enc_keeps_intros)+

fun payload_in_place :: "Payload \<Rightarrow> bool" where
  "payload_in_place (PayloadBytes v) \<longleftrightarrow> True"
| "payload_in_place (DeferredPayload func max_len) \<longleftrightarrow>
     (\<forall>buffer n tail. func buffer = Ok (n, tail) \<longrightarrow> length tail = length buffer)"

lemma enc_keeps_payload:
  assumes "payload_in_place pl"
  shows "enc_keeps (write_payload pl)"
proof -
  have "length tail = length buffer" if "payload_serialize pl buffer = Ok (n, tail)" for buffer n tail
    using assms that by (cases pl) (auto split: if_splits)
  then show ?thesis
    by (auto simp: enc_keeps_def write_payload_def rbind_Ok_iff split: if_splits)
qed

section \<open>Whole packets\<close>

definition whole_packet :: "PacketType \<Rightarrow> bytes \<Rightarrow> bool" where
  "whole_packet t bs \<longleftrightarrow> (\<exists>d. decoder_try_new bs = Ok d \<and> packet_len d = length bs \<and> fh_typ (dec_fixed_header d) = t)"

text \<open>The packets that the client queues.\<close>

definition request_packet :: "bytes \<Rightarrow> bool" where
  "request_packet bs \<longleftrightarrow> whole_packet PT_Publish bs \<or> whole_packet PT_Subscribe bs \<or> whole_packet PT_Unsubscribe bs"

lemma splice_slice_same: "i + n \<le> length xs \<Longrightarrow> splice xs i (slice xs i n) = xs"
  by (simp add: splice_def slice_def min_def) (metis add.commute append_take_drop_id drop_drop)

text \<open>Finalizing the fixed header succeeds only on a body inside the buffer, and then gives a whole packet.\<close>

lemma finalize_whole:
  assumes fin: "finalize_fixed_header pt fl e = Ok e'" and start: "enc_header_start e = MAX_MQTT_HEADER_LEN"
    and "length (enc_buf e) < 268435456" and hdr: "packet_type_try_from ((pt OR fl) AND 0xF0) = Some t"
    "qos_try_from (drop_bit 1 ((pt OR fl) AND 0x06)) = Some q"
  shows "length (enc_buf e') = length (enc_buf e) \<and> used_size e' \<le> length (enc_buf e) \<and>
    whole_packet t (take (used_size e') (enc_buf e'))"
proof -
  let ?n = "enc_offset e - MAX_MQTT_HEADER_LEN"
  let ?body = "slice (enc_buf e) MAX_MQTT_HEADER_LEN ?n"
  let ?h = "fixed_header_bytes pt fl ?n"
  have off: "MAX_MQTT_HEADER_LEN \<le> enc_offset e" "enc_offset e \<le> length (enc_buf e)"
  proof -
    show "MAX_MQTT_HEADER_LEN \<le> enc_offset e" using fin by (auto simp: finalize_fixed_header_def split: if_splits)
    from fin start obtain vl e1 e2 where e2: "varint_len ?n = (Ok vl :: (EncodingError, nat) result)" "vl + 1 \<le> MAX_MQTT_HEADER_LEN"
      "write_u8 (pt OR fl) (e\<lparr>enc_offset := MAX_MQTT_HEADER_LEN - vl - 1, enc_header_start := MAX_MQTT_HEADER_LEN - vl - 1\<rparr>) = Ok e1"
      "write_varint (of_nat ?n) e1 = Ok e2" "enc_offset e2 + ?n \<le> length (enc_buf e2)"
      by (auto simp: finalize_fixed_header_def Let_def rbind_Ok_iff not_less split: if_splits)
    from e2(1) have small: "?n < 268435456" by (auto simp: varint_len_def split: if_splits)
    then have vl: "vl = length (varint_bytes (of_nat ?n))" using e2(1) varint_len_bytes [OF small] by (metis result.inject(1))
    have e1: "enc_offset e1 = MAX_MQTT_HEADER_LEN - vl" "length (enc_buf e1) = length (enc_buf e)" "enc_offset e1 \<le> length (enc_buf e1)"
      using e2(2,3) by (auto simp: write_u8_def split: if_splits)
    then have "wf_enc e1" using assms(3) by (simp add: wf_enc_def)
    with e2(4) writes_varint [of "of_nat ?n"] have "e2 = put (varint_bytes (of_nat ?n)) e1" by (simp add: writes_def)
    with e2(2,5) e1 vl enc_keepsD [OF enc_keeps_varint e2(4)] \<open>MAX_MQTT_HEADER_LEN \<le> enc_offset e\<close>
    show "enc_offset e \<le> length (enc_buf e)" by simp
  qed
  have len: "length ?body = ?n" "MAX_MQTT_HEADER_LEN + length ?body \<le> length (enc_buf e)" using off by simp_all
  have put: "put ?body (encoder_new (enc_buf e)) = e"
    using off start len splice_slice_same [of MAX_MQTT_HEADER_LEN ?n "enc_buf e"] by (simp add: put_def encoder_new_def)
  have small: "length (enc_buf e) < 2 ^ 32" "length ?body < 268435456" using assms(3) by simp_all
  from finalize_after_body [OF len(2) small, of pt fl, unfolded put len(1) fin]
  have e': "used_size e' = length ?h + ?n" "length (enc_buf e') = length (enc_buf e)" "take (used_size e') (enc_buf e') = ?h @ ?body"
    by (elim exE conjE, simp only: result.inject)+
  have "decoder_try_new (?h @ ?body) = Ok (decoder_at (?h @ ?body) (length ?h) (header_of (pt OR fl) t q ?n))"
    using off assms(3) by (intro decoder_try_new_header hdr) simp
  then have "whole_packet t (?h @ ?body)" using len(1) by (simp add: whole_packet_def packet_len_def header_of_def)
  moreover have "used_size e' \<le> length (enc_buf e)" using e'(1) off length_fixed_header_bytes(2) [of pt fl ?n]
    by (simp add: MAX_MQTT_HEADER_LEN_def)
  ultimately show ?thesis using e' by simp
qed

definition encodes_as :: "PacketType \<Rightarrow> enc_op \<Rightarrow> bool" where
  "encodes_as t f \<longleftrightarrow> (\<forall>buf e. f (encoder_new buf) = Ok e \<longrightarrow> length (enc_buf e) = length buf \<and> enc_header_start e = 0 \<and>
     (length buf < 268435456 \<longrightarrow> used_size e \<le> length buf \<and> whole_packet t (take (used_size e) (enc_buf e))))"

definition encodes_whole :: "enc_op \<Rightarrow> bool" where
  "encodes_whole f \<longleftrightarrow> (\<forall>buf e. f (encoder_new buf) = Ok e \<longrightarrow> length (enc_buf e) = length buf \<and>
     (length buf < 268435456 \<longrightarrow> used_size e \<le> length buf \<and> request_packet (take (used_size e) (enc_buf e))))"

lemma encodes_wholeI: "encodes_as t f \<Longrightarrow> t = PT_Publish \<or> t = PT_Subscribe \<or> t = PT_Unsubscribe \<Longrightarrow> encodes_whole f"
  by (auto simp: encodes_as_def encodes_whole_def request_packet_def)

lemma finalize_length:
  assumes "finalize_fixed_header pt fl e = Ok e'"
  shows "length (enc_buf e') = length (enc_buf e)" and "enc_header_start e' = 0"
proof -
  from assms obtain hs e1 e2 where w: "write_u8 (pt OR fl) (e\<lparr>enc_offset := hs, enc_header_start := hs\<rparr>) = Ok e1"
    "write_varint (of_nat (enc_offset e - MAX_MQTT_HEADER_LEN)) e1 = Ok e2" and e': "length (enc_buf e') = length (enc_buf e2)"
    and "enc_header_start e' = 0"
    by (auto simp: finalize_fixed_header_def Let_def rbind_Ok_iff split: if_splits)
  from e' enc_keepsD [OF enc_keeps_u8 w(1)] enc_keepsD [OF enc_keeps_varint w(2)] show "length (enc_buf e') = length (enc_buf e)" by simp
  show "enc_header_start e' = 0" by fact
qed

lemma encodes_asI:
  assumes "enc_keeps w" and "packet_type_try_from ((pt OR fl) AND 0xF0) = Some t"
    and "qos_try_from (drop_bit 1 ((pt OR fl) AND 0x06)) = Some q"
  shows "encodes_as t (\<lambda>e. rbind (w e) (finalize_fixed_header pt fl))"
proof -
  have "length (enc_buf e) = length buf \<and> enc_header_start e = 0 \<and>
      (length buf < 268435456 \<longrightarrow> used_size e \<le> length buf \<and> whole_packet t (take (used_size e) (enc_buf e)))"
    if f: "rbind (w (encoder_new buf)) (finalize_fixed_header pt fl) = Ok e" for buf e
  proof -
    from f obtain e1 where e1: "w (encoder_new buf) = Ok e1" "finalize_fixed_header pt fl e1 = Ok e" by (auto simp: rbind_Ok_iff)
    from enc_keepsD [OF assms(1) e1(1)] have "length (enc_buf e1) = length buf" "enc_header_start e1 = MAX_MQTT_HEADER_LEN" by simp_all
    with finalize_length [OF e1(2)] finalize_whole [OF e1(2) _ _ assms(2,3)] show ?thesis by simp
  qed
  then show ?thesis by (simp add: encodes_as_def)
qed

section \<open>The requests of the client\<close>

lemma publish_encodes_whole:
  assumes "payload_in_place (pub_payload p)"
  shows "encodes_whole (publish_to_buffer p)"
proof -
  have "enc_keeps (\<lambda>e. rbind (write_str (pub_topic_name p) e) (\<lambda>e.
     rbind (case pub_qos p of
              AtMostOnce \<Rightarrow> Ok e
            | AtLeastOnce \<Rightarrow> rbind (ok_or (pub_pid p) PidMissing) (\<lambda>pid. write_u16 (pid_get pid) e)
            | ExactlyOnce \<Rightarrow> rbind (ok_or (pub_pid p) PidMissing) (\<lambda>pid. write_u16 (pid_get pid) e)) (\<lambda>e.
     rbind (write_properties (pub_properties p) e) (write_payload (pub_payload p)))))"
    by (cases "pub_qos p"; simp only: QoS.case) (intro enc_keeps_intros enc_keeps_lift enc_keeps_payload assms)+
  from encodes_asI [OF this publish_header] have "encodes_as PT_Publish (publish_to_buffer p)"
    by (simp add: encodes_as_def publish_to_buffer_def rbind_assoc)
  then show ?thesis by (rule encodes_wholeI) simp
qed

lemma subscribe_encodes_whole: "encodes_whole (subscribe_to_buffer p)"
proof -
  have t: "enc_keeps (write_subscribe_topic t)" for t
    unfolding write_subscribe_topic_def [abs_def] by (intro enc_keeps_intros)
  have "enc_keeps (\<lambda>e. rbind (write_u16 (pid_get (pid_or_default (sub_pid p))) e) (\<lambda>e.
     rbind (write_properties (sub_properties p) e) (write_each write_subscribe_topic (sub_topics p))))"
    by (intro enc_keeps_intros t)
  from encodes_asI [OF this, of "packet_type_byte PT_Subscribe" "subscribe_flags p" PT_Subscribe AtLeastOnce]
  have "encodes_as PT_Subscribe (subscribe_to_buffer p)"
    by (simp add: encodes_as_def subscribe_to_buffer_def rbind_assoc packet_type_byte_def subscribe_flags_def
        packet_type_try_from_def all_packet_types_def qos_try_from_def)
  then show ?thesis by (rule encodes_wholeI) simp
qed

lemma unsubscribe_encodes_whole: "encodes_whole (unsubscribe_to_buffer p)"
proof -
  have "enc_keeps (\<lambda>e. rbind (write_u16 (pid_get (pid_or_default (uns_pid p))) e) (\<lambda>e.
     rbind (write_properties (uns_properties p) e) (write_each write_str (uns_topics p))))"
    by (intro enc_keeps_intros)
  from encodes_asI [OF this, of "packet_type_byte PT_Unsubscribe" "unsubscribe_flags p" PT_Unsubscribe AtLeastOnce]
  have "encodes_as PT_Unsubscribe (unsubscribe_to_buffer p)"
    by (simp add: encodes_as_def unsubscribe_to_buffer_def rbind_assoc packet_type_byte_def unsubscribe_flags_def
        packet_type_try_from_def all_packet_types_def qos_try_from_def)
  then show ?thesis by (rule encodes_wholeI) simp
qed

section \<open>The packets of the stack\<close>

lemmas stack_header_defs = packet_type_byte_def default_flags_def packet_type_try_from_def all_packet_types_def qos_try_from_def

lemma ack_encodes:
  assumes "packet_type_try_from ((packet_type_byte pt OR default_flags) AND 0xF0) = Some pt"
    and "qos_try_from (drop_bit 1 ((packet_type_byte pt OR default_flags) AND 0x06)) = Some q"
  shows "encodes_as pt (\<lambda>e. rbind (write_u16 pid e) (\<lambda>e. rbind r (\<lambda>b.
      rbind (if b then rbind (write_u8 code e) (write_properties props) else Ok e) (\<lambda>e.
      finalize_fixed_header (packet_type_byte pt) default_flags e))))"
proof -
  have "enc_keeps (\<lambda>e. if b then rbind (write_u8 code e) (write_properties props) else Ok e)" for b
    by (cases b; simp only: if_True if_False) (intro enc_keeps_intros)+
  then have "enc_keeps (\<lambda>e. rbind (write_u16 pid e) (\<lambda>e. rbind r (\<lambda>b.
      if b then rbind (write_u8 code e) (write_properties props) else Ok e)))"
    by (intro enc_keeps_bind enc_keeps_lift enc_keeps_u16)
  from encodes_asI [OF this assms] show ?thesis by (simp add: rbind_assoc)
qed

lemma acks_encode:
  "encodes_as PT_PubAck (puback_to_buffer p1)" "encodes_as PT_PubRec (pubrec_to_buffer p2)"
  "encodes_as PT_PubRel (pubrel_to_buffer p3)" "encodes_as PT_PubComp (pubcomp_to_buffer p4)"
  unfolding puback_to_buffer_def [abs_def] pubrec_to_buffer_def [abs_def] pubrel_to_buffer_def [abs_def] pubcomp_to_buffer_def [abs_def]
  by (rule ack_encodes; simp add: stack_header_defs)+

lemma pingreq_encodes: "encodes_as PT_PingReq (pingreq_to_buffer p)"
  using encodes_asI [OF enc_keeps_Ok, of "packet_type_byte PT_PingReq" default_flags PT_PingReq AtMostOnce]
  by (simp add: pingreq_to_buffer_def [abs_def] stack_header_defs)

lemma disconnect_encodes_as: "encodes_as PT_Disconnect (disconnect_to_buffer p)"
proof -
  have w: "enc_keeps (\<lambda>e. if b then write_u8 v e else Ok e)" for b v
    by (cases b; simp only: if_True if_False) (intro enc_keeps_intros)+
  have "enc_keeps (\<lambda>e. rbind (if dc_reason_code p \<noteq> DR_Normal then write_u8 (disconnect_reason_to_u8 (dc_reason_code p)) e else Ok e) (\<lambda>e.
     rbind (properties_size (dc_properties p)) (\<lambda>sz.
     rbind (if sz \<noteq> 0 \<and> dc_reason_code p = DR_Normal then write_u8 (disconnect_reason_to_u8 (dc_reason_code p)) e else Ok e)
       (write_properties (dc_properties p)))))"
    by (intro enc_keeps_bind enc_keeps_lift w enc_keeps_properties)
  from encodes_asI [OF this, of "packet_type_byte PT_Disconnect" default_flags PT_Disconnect AtMostOnce] show ?thesis
    by (simp add: disconnect_to_buffer_def [abs_def] rbind_assoc stack_header_defs)
qed

lemma connect_encodes: "encodes_as PT_Connect (connect_to_buffer p)"
proof -
  have o: "enc_keeps (\<lambda>e. case x of None \<Rightarrow> Ok e | Some v \<Rightarrow> f v e)" if "\<And>v. enc_keeps (f v)" for x and f :: "'a \<Rightarrow> enc_op"
    using that by (cases x) (simp_all add: enc_keeps_Ok)
  have will: "enc_keeps (write_last_will w)" for w
    unfolding write_last_will_def [abs_def] by (intro enc_keeps_intros)
  have "enc_keeps (\<lambda>e.
     rbind (write_str (protocol_name (cn_protocol p)) e) (\<lambda>e.
     rbind (write_u8 (protocol_to_u8 (cn_protocol p)) e) (\<lambda>e.
     rbind (write_u8 (connect_flags p) e) (\<lambda>e.
     rbind (write_u16 (cn_keep_alive p) e) (\<lambda>e.
     rbind (write_properties (cn_properties p) e) (\<lambda>e.
     rbind (write_str (cn_client_id p) e) (\<lambda>e.
     rbind (case cn_last_will p of None \<Rightarrow> Ok e | Some w \<Rightarrow> write_last_will w e) (\<lambda>e.
     rbind (case cn_username p of None \<Rightarrow> Ok e | Some u \<Rightarrow> write_str u e) (\<lambda>e.
     case cn_password p of None \<Rightarrow> Ok e | Some w \<Rightarrow> write_slice w e)))))))))"
    by (intro enc_keeps_bind o will enc_keeps_intros)
  from encodes_asI [OF this, of "packet_type_byte PT_Connect" default_flags PT_Connect AtMostOnce] show ?thesis
    by (simp add: connect_to_buffer_def [abs_def] rbind_assoc stack_header_defs)
qed

end
