(* ===== verification/Chan_Inv.thy ===== *)
theory Chan_Inv
  imports Delivery "HOL-Library.Multiset"
begin

text \<open>
  The invariant of a channel inside the node.  The subscribers are a multiset: which task or subscription owns
  which of them does not matter for the channel.  \<open>P\<close> is a property of the bytes of every queued frame; it
  holds of the frames of a channel as long as it holds of what is committed.
\<close>

section \<open>Frames\<close>

lemma channel_update: "(ch :: Channel)\<lparr>ch_buf := buf, ch_state := st\<rparr> = \<lparr>ch_buf = buf, ch_state = st\<rparr>"
  by (cases ch) simp

definition frames_ok :: "(bytes \<Rightarrow> bool) \<Rightarrow> bytes \<Rightarrow> State \<Rightarrow> bool" where
  "frames_ok P buf st \<longleftrightarrow> (\<forall>m \<in> set (ps_messages st). P (frame_bytes buf m))"

lemma frames_okI:
  assumes "frames_ok P buf st" and "\<And>m'. m' \<in> set (ps_messages st') \<Longrightarrow> \<exists>m \<in> set (ps_messages st). frame_bytes buf m' = frame_bytes buf m"
  shows "frames_ok P buf st'"
  using assms unfolding frames_ok_def by metis

lemma frames_ok_subset: "frames_ok P buf st \<Longrightarrow> set (ps_messages st') \<subseteq> set (ps_messages st) \<Longrightarrow> frames_ok P buf st'"
  by (auto simp: frames_ok_def)

lemma frames_ok_update:
  assumes "frames_ok P buf st" and "i < length (ps_messages st)" and "ps_messages st' = (ps_messages st)[i := h]"
    and "frame_bytes buf h = frame_bytes buf (ps_messages st ! i)"
  shows "frames_ok P buf st'"
  using assms(1)
proof (rule frames_okI)
  fix m' assume "m' \<in> set (ps_messages st')"
  then have "m' = h \<or> m' \<in> set (ps_messages st)"
    using assms(3) set_update_subset_insert by (metis insert_iff subsetD)
  with assms(2,4) show "\<exists>m \<in> set (ps_messages st). frame_bytes buf m' = frame_bytes buf m" by (metis nth_mem)
qed

lemma frames_ok_read:
  assumes fr: "frames_ok P buf st" and ids: "ids_ok st" and rd: "read_with_context cx s st = (r, s', st')"
  shows "frames_ok P buf st'"
proof -
  let ?i = "fs_next_message_id (caught_up st s) - first_id st"
  let ?h = "(ps_messages st ! ?i)\<lparr>h_subscriber_count := h_subscriber_count (ps_messages st ! ?i) - 1, h_read_in_progress := True\<rparr>"
  from rd [unfolded read_unfold [OF ids] Let_def]
  have "ps_messages st' = ps_messages st \<or> ?i < length (ps_messages st) \<and> ps_messages st' = (ps_messages st)[?i := ?h]"
    by (auto split: if_splits)
  then show ?thesis
  proof (elim disjE conjE)
    assume "?i < length (ps_messages st)" "ps_messages st' = (ps_messages st)[?i := ?h]"
    then show ?thesis by (rule frames_ok_update [OF fr]) (simp add: frame_bytes_def)
  qed (use fr in \<open>simp add: frames_ok_def\<close>)
qed

lemma frames_ok_release:
  assumes fr: "frames_ok P buf st" and ok: "st_ok st g subs"
  shows "frames_ok P buf (release_inner gr st)"
  using ok
proof (cases rule: release_cases [of st g subs gr])
  case (popped m ms)
  then show ?thesis by (intro frames_ok_subset [OF fr]) auto
next
  case (unmarked i)
  show ?thesis
    by (rule frames_ok_update [OF fr unmarked(1), where h = "(ps_messages st ! i)\<lparr>h_read_in_progress := False\<rparr>"])
      (simp_all add: unmarked(4) frame_bytes_def)
qed (use fr in simp)

section \<open>The invariant\<close>

definition chan_inv :: "(bytes \<Rightarrow> bool) \<Rightarrow> Channel \<Rightarrow> FrameGrantW option \<Rightarrow> FrameSubscriber multiset \<Rightarrow> bool" where
  "chan_inv P ch g M \<longleftrightarrow>
     (\<exists>subs. mset subs = M \<and> st_ok (ch_state ch) g subs) \<and> ps_capacity (ch_state ch) = length (ch_buf ch) \<and>
     frames_ok P (ch_buf ch) (ch_state ch) \<and> (\<forall>gr. g = Some gr \<longrightarrow> gw_to_commit gr = 0)"

lemma chan_invI:
  "st_ok (ch_state ch) g subs \<Longrightarrow> mset subs = M \<Longrightarrow> ps_capacity (ch_state ch) = length (ch_buf ch) \<Longrightarrow>
   frames_ok P (ch_buf ch) (ch_state ch) \<Longrightarrow> (\<And>gr. g = Some gr \<Longrightarrow> gw_to_commit gr = 0) \<Longrightarrow> chan_inv P ch g M"
  by (auto simp: chan_inv_def)

lemma chan_invE:
  assumes "chan_inv P ch g M"
  obtains subs where "mset subs = M" "st_ok (ch_state ch) g subs" "ps_capacity (ch_state ch) = length (ch_buf ch)"
    "frames_ok P (ch_buf ch) (ch_state ch)" "\<forall>gr. g = Some gr \<longrightarrow> gw_to_commit gr = 0"
  using assms by (auto simp: chan_inv_def)

lemma chan_inv_member:
  assumes "chan_inv P ch g M" and "s \<in># M"
  obtains subs k where "mset subs = M" "st_ok (ch_state ch) g subs" "k < length subs" "subs ! k = s"
  using assms by (metis chan_invE in_set_conv_nth set_mset_mset)

lemma chan_inv_frames: "chan_inv P ch g M \<Longrightarrow> frames_ok P (ch_buf ch) (ch_state ch)"
  by (simp add: chan_inv_def)

lemma mset_remove_nth: "k < length xs \<Longrightarrow> mset (take k xs @ drop (Suc k) xs) = mset xs - {#xs ! k#}"
  using id_take_nth_drop [of k xs] by (metis add_mset_remove_trivial mset.simps(2) mset_append union_mset_add_mset_right)

lemma chan_grant_region:
  assumes "chan_inv P ch (Some g) M"
  shows "gw_start g + gw_size g \<le> length (ch_buf ch)"
    and "\<And>m. m \<in> set (ps_messages (ch_state ch)) \<Longrightarrow> seg_disjoint (seg_of m) (gw_start g, gw_size g)"
proof -
  from assms obtain subs where ok: "st_ok (ch_state ch) (Some g) subs" "ps_capacity (ch_state ch) = length (ch_buf ch)"
    by (rule chan_invE)
  have ring: "ring (length (ch_buf ch)) (map seg_of (ps_messages (ch_state ch)) @ [(gw_start g, gw_size g)])"
    using st_okD(1) [OF ok(1)] ok(2) by simp
  then show "gw_start g + gw_size g \<le> length (ch_buf ch)" by (rule ring_member) simp
  show "\<And>m. m \<in> set (ps_messages (ch_state ch)) \<Longrightarrow> seg_disjoint (seg_of m) (gw_start g, gw_size g)"
    by (rule ring_disjoint [OF ring]) simp
qed

section \<open>Write grants\<close>

lemma grant_zero_commit: "grant_with_context n cx st = (Ok g, st') \<Longrightarrow> gw_to_commit g = 0 \<and> gw_size g = n"
  by (auto simp: grant_with_context_def split: result.splits if_splits)

lemma chan_grant:
  assumes "chan_inv P ch None M" and "grant_with_context n cx (ch_state ch) = (r, st)"
  shows "r \<noteq> Panic" and "\<And>e. r = Err e \<Longrightarrow> chan_inv P (ch\<lparr>ch_state := st\<rparr>) None M"
    and "\<And>g. r = Ok g \<Longrightarrow> chan_inv P (ch\<lparr>ch_state := st\<rparr>) (Some g) M \<and> gw_size g = n"
proof -
  from assms(1) obtain subs where ok: "mset subs = M" "st_ok (ch_state ch) None subs" "ps_capacity (ch_state ch) = length (ch_buf ch)"
    "frames_ok P (ch_buf ch) (ch_state ch)" by (rule chan_invE)
  have fr: "frames_ok P (ch_buf ch) st" using ok(4) grant_frame(3) [OF assms(2)] by (simp add: frames_ok_def)
  from grant_preserves [OF ok(2) assms(2)] grant_frame(1) [OF assms(2)] grant_zero_commit assms(2) ok fr
  show "r \<noteq> Panic" "\<And>e. r = Err e \<Longrightarrow> chan_inv P (ch\<lparr>ch_state := st\<rparr>) None M"
    "\<And>g. r = Ok g \<Longrightarrow> chan_inv P (ch\<lparr>ch_state := st\<rparr>) (Some g) M \<and> gw_size g = n"
    by (auto simp: chan_inv_def)
qed

lemma chan_grant_immediate:
  assumes "chan_inv P ch None M" and "grant_immediate n (ch_state ch) = (r, st)"
  shows "r \<noteq> Panic" and "\<And>e. r = Err e \<Longrightarrow> chan_inv P (ch\<lparr>ch_state := st\<rparr>) None M"
    and "\<And>g. r = Ok g \<Longrightarrow> chan_inv P (ch\<lparr>ch_state := st\<rparr>) (Some g) M \<and> gw_size g = n"
proof -
  from assms(1) obtain subs where ok: "mset subs = M" "st_ok (ch_state ch) None subs" "ps_capacity (ch_state ch) = length (ch_buf ch)"
    "frames_ok P (ch_buf ch) (ch_state ch)" by (rule chan_invE)
  note gi = grant_immediate_preserves [OF ok(2) assms(2)]
  from gi(4) obtain k where "ps_messages st = drop k (ps_messages (ch_state ch))" by blast
  then have fr: "frames_ok P (ch_buf ch) st" by (intro frames_ok_subset [OF ok(4)]) (simp add: set_drop_subset)
  show "r \<noteq> Panic" by (rule gi(1))
  show "\<And>e. r = Err e \<Longrightarrow> chan_inv P (ch\<lparr>ch_state := st\<rparr>) None M"
    using gi(2,5) ok fr by (auto simp: chan_inv_def)
  fix g assume g: "r = Ok g"
  have "gw_to_commit g = 0 \<and> gw_size g = n"
    using assms(2) g by (auto simp: grant_immediate_def grant_def dest: grant_zero_commit split: prod.splits result.splits)
  with g gi(3,5) ok fr show "chan_inv P (ch\<lparr>ch_state := st\<rparr>) (Some g) M \<and> gw_size g = n" by (auto simp: chan_inv_def)
qed

text \<open>The bytes a commit of \<open>used\<close> bytes makes a frame of; the length is kept in 16 bits.\<close>

definition committed_bytes :: "FrameGrantW \<Rightarrow> nat \<Rightarrow> bytes \<Rightarrow> bytes" where
  "committed_bytes g used buf = slice buf (gw_start g) (unat (of_nat (min (gw_size g) used) :: u16))"

lemma chan_commit:
  assumes inv: "chan_inv P ch (Some g) M" and frame: "P (committed_bytes g used (ch_buf ch))"
  shows "chan_inv P (ch\<lparr>ch_state := commit g used (ch_state ch)\<rparr>) None M"
proof -
  from inv obtain subs where ok: "mset subs = M" "st_ok (ch_state ch) (Some g) subs" "ps_capacity (ch_state ch) = length (ch_buf ch)"
    "frames_ok P (ch_buf ch) (ch_state ch)" by (rule chan_invE)
  have "frames_ok P (ch_buf ch) (commit_inner g used (ch_state ch))"
  proof (cases "ps_subscriber_count (ch_state ch) = 0")
    case True
    with ok(4) commit_discard(2) [OF ok(2) True] show ?thesis by (simp add: frames_ok_def)
  next
    case False
    with ok(4) commit_push(2) [OF ok(2) False, of used] frame show ?thesis
      by (auto simp: frames_ok_def frame_bytes_def committed_bytes_def)
  qed
  with ok commit_ok [OF ok(2), of used] show ?thesis
    by (intro chan_invI [of _ _ subs]) (simp_all add: commit_def commit_frame)
qed

lemma chan_grant_drop:
  assumes "chan_inv P ch (Some g) M" and "P []"
  shows "chan_inv P (ch\<lparr>ch_state := grant_drop g (ch_state ch)\<rparr>) None M"
proof -
  have "gw_to_commit g = 0" using assms(1) by (simp add: chan_inv_def)
  with assms chan_commit [OF assms(1), of 0] show ?thesis
    by (simp add: grant_drop_def commit_def committed_bytes_def slice_def)
qed

lemma chan_set_pid: "chan_inv P ch (Some (grant_set_pid pid g)) M = chan_inv P ch (Some g) M"
  by (simp add: chan_inv_def grant_set_pid_def st_ok_def)

lemma committed_set_pid [simp]: "committed_bytes (grant_set_pid pid g) used buf = committed_bytes g used buf"
  by (simp add: committed_bytes_def grant_set_pid_def)

lemma chan_write:
  assumes "chan_inv P ch (Some g) M" and "length bs = gw_size g"
  shows "chan_inv P (ch\<lparr>ch_buf := splice (ch_buf ch) (gw_start g) bs\<rparr>) (Some g) M"
proof -
  have "frame_bytes (splice (ch_buf ch) (gw_start g) bs) m = frame_bytes (ch_buf ch) m" if "m \<in> set (ps_messages (ch_state ch))" for m
    using chan_grant_region(1) [OF assms(1)] chan_grant_region(2) [OF assms(1) that] assms(2)
    unfolding frame_bytes_def by (intro slice_splice_disjoint) (auto simp: seg_disjoint_def seg_of_def)
  then show ?thesis
    using assms chan_grant_region(1) [OF assms(1)] by (auto simp: chan_inv_def frames_ok_def)
qed

section \<open>Readers\<close>

lemma chan_read:
  assumes "chan_inv P ch g M" and "s \<in># M" and "read_with_context cx s (ch_state ch) = (r, s', st)"
  shows "r \<noteq> Panic" and "chan_inv P (ch\<lparr>ch_state := st\<rparr>) g (add_mset s' (M - {#s#}))"
    and "\<And>gr. r = Ok gr \<Longrightarrow> P (grant_bytes gr (ch_buf ch))"
proof -
  from assms(1,2) obtain subs k where k: "mset subs = M" "st_ok (ch_state ch) g subs" "k < length subs" "subs ! k = s"
    by (rule chan_inv_member)
  note rd = read_preserves [OF k(2,3), unfolded k(4), OF assms(3)]
  show "r \<noteq> Panic" by (rule rd(1))
  have "mset (subs[k := s']) = add_mset s' (M - {#s#})" using k by (simp add: mset_update)
  with rd(2) assms(1) read_frame(1) [OF assms(3)] frames_ok_read [OF chan_inv_frames [OF assms(1)] st_okD(4) [OF k(2)] assms(3)]
  show "chan_inv P (ch\<lparr>ch_state := st\<rparr>) g (add_mset s' (M - {#s#}))"
    by (intro chan_invI [of _ _ "subs[k := s']"]) (auto simp: chan_inv_def)
  fix gr assume r: "r = Ok gr"
  let ?i = "fs_next_message_id (caught_up (ch_state ch) s) - first_id (ch_state ch)" and ?ms = "ps_messages (ch_state ch)"
  from assms(3) [unfolded read_unfold [OF st_okD(4) [OF k(2)]] Let_def] r
  have "?i < length ?ms" "gr_start gr = h_start (?ms ! ?i)" "gr_size gr = unat (h_len (?ms ! ?i))"
    by (auto split: if_splits)
  with chan_inv_frames [OF assms(1)] show "P (grant_bytes gr (ch_buf ch))"
    by (simp add: frames_ok_def grant_bytes_def frame_bytes_def)
qed

lemma chan_release:
  "chan_inv P ch g M \<Longrightarrow> chan_inv P (ch\<lparr>ch_state := read_grant_drop gr (ch_state ch)\<rparr>) g M"
  "chan_inv P ch g M \<Longrightarrow> chan_inv P (ch\<lparr>ch_state := release gr (ch_state ch)\<rparr>) g M"
  by (auto simp: chan_inv_def read_grant_drop_def release_def release_frame intro: release_ok frames_ok_release)

lemma chan_subscribe:
  assumes "chan_inv P ch g M" and "SUBS < 256" and "channel_subscriber SUBS (ch_state ch) = (r, st)"
  shows "r \<noteq> Panic" and "\<And>e. r = Err e \<Longrightarrow> st = ch_state ch"
    and "\<And>s. r = Ok s \<Longrightarrow> chan_inv P (ch\<lparr>ch_state := st\<rparr>) g (add_mset s M)"
proof -
  from assms(1) obtain subs where ok: "mset subs = M" "st_ok (ch_state ch) g subs" "ps_capacity (ch_state ch) = length (ch_buf ch)"
    "frames_ok P (ch_buf ch) (ch_state ch)" "\<forall>gr. g = Some gr \<longrightarrow> gw_to_commit gr = 0" by (rule chan_invE)
  note s = subscribe_ok [OF ok(2) assms(2,3)]
  show "r \<noteq> Panic" "\<And>e. r = Err e \<Longrightarrow> st = ch_state ch" by (rule s(1), rule s(3))
  have "frames_ok P (ch_buf ch) st" using ok(4) subscribe_frame(3) [OF assms(3)] by (simp add: frames_ok_def)
  then show "\<And>s. r = Ok s \<Longrightarrow> chan_inv P (ch\<lparr>ch_state := st\<rparr>) g (add_mset s M)"
    using s(2) ok subscribe_frame(1) [OF assms(3)] by (auto intro!: chan_invI [of _ _ "subs @ [_]"])
qed

lemma chan_drop:
  assumes "chan_inv P ch g M" and "s \<in># M" and "subscriber_drop s (ch_state ch) = (r, st)"
  shows "r = Ok ()" and "chan_inv P (ch\<lparr>ch_state := st\<rparr>) g (M - {#s#})"
proof -
  from assms(1,2) obtain subs k where k: "mset subs = M" "st_ok (ch_state ch) g subs" "k < length subs" "subs ! k = s"
    by (rule chan_inv_member)
  note dr = subscriber_drop_ok [OF k(2,3), unfolded k(4), OF assms(3)]
  show r: "r = Ok ()" by (rule dr(1))
  have "frames_ok P (ch_buf ch) st"
    using subscriber_drop_frames [OF assms(3) [unfolded r]] by (intro frames_okI [OF chan_inv_frames [OF assms(1)]]) blast
  with dr(2) assms(1) subscriber_drop_frame(1) [OF assms(3)] mset_remove_nth [OF k(3)] k(1,4)
  show "chan_inv P (ch\<lparr>ch_state := st\<rparr>) g (M - {#s#})"
    by (intro chan_invI [of _ _ "take k subs @ drop (Suc k) subs"]) (auto simp: chan_inv_def)
qed

end
