(* ===== verification/Node_Inv.thy ===== *)
theory Node_Inv
  imports Requests Whole_Packets Chan_Inv
begin

text \<open>
  What every operation of client and stack keeps of the node: the invariants of its two channels, of the
  session, of the reader and of the write buffer.
\<close>

section \<open>The session\<close>

lemma iset_insert_ok: "iset_ok N s \<Longrightarrow> iset_insert N x s = Some (b, s') \<Longrightarrow> iset_ok N s'"
  by (drule (1) iset.insert_Some) simp

lemma iset_remove_ok: "iset_ok N s \<Longrightarrow> iset_ok N (snd (iset_remove x s))"
  using iset.remove [of N s x] by (cases "iset_remove x s") simp

lemma imap_insert_ok: "imap_ok N m \<Longrightarrow> imap_insert N k v m = Some m' \<Longrightarrow> imap_ok N m'"
  by (drule (1) imap.insert_Some) simp

lemma imap_remove_ok: "imap_ok N m \<Longrightarrow> imap_ok N (snd (imap_remove k m))"
  using imap.remove [of N m k] by (cases "imap_remove k m") simp

lemmas containers_ok = iset_insert_ok iset_remove_ok imap_insert_ok imap_remove_ok

lemma send_begin_ok:
  assumes "shared_ok sh"
  shows "shared_ok (snd (send_begin me p sh))" and "fst (send_begin me p sh) \<noteq> Panic"
  using assms next_pid_ok [of sh] by (auto simp: send_begin_def shared_ok_def)

lemma send_record_ok: "shared_ok sh \<Longrightarrow> shared_ok (snd (send_record me p pid sh))"
  by (auto simp: send_record_def shared_ok_def Let_def intro: containers_ok split: option.splits PacketType.splits)

lemma wait_gone_ok: "shared_ok sh \<Longrightarrow> shared_ok (snd (wait_gone_poll field pid sh))"
  by (simp add: wait_gone_poll_def)

lemma wait_publish_ok: "shared_ok sh \<Longrightarrow> shared_ok (snd (wait_publish_tx_step qos pid w sh))"
  using wait_gone_ok [of sh] by (auto simp: wait_publish_tx_step_def wait_tx_poll_def wait_gone_poll_def split: PublishWait.splits)

lemma wait_codes_ok: "shared_ok sh \<Longrightarrow> shared_ok (snd (wait_codes_poll pid sh))"
  by (auto simp: wait_codes_poll_def shared_ok_def intro: containers_ok split: option.splits AckStatus.splits)

lemma on_drop_ok:
  "shared_ok sh \<Longrightarrow> shared_ok (publish_on_drop free pid sh)"
  "shared_ok sh \<Longrightarrow> shared_ok (subscribe_on_drop free pid sh)"
  using session_simulates [of sh "CancelPublish pid"] session_simulates [of sh "CancelSubscribe pid"]
  by (cases free; simp add: refines_def publish_on_drop_def subscribe_on_drop_def)+

lemma wait_subscribe_ok: "shared_ok sh \<Longrightarrow> shared_ok (snd (wait_subscribe_tx_step pid w sh))"
  using wait_codes_ok [of sh pid]
  by (auto simp: wait_subscribe_tx_step_def wait_tx_poll_def wait_gone_poll_def on_drop_ok
      split: SubscribeWait.splits prod.splits option.splits)

lemma wait_unsubscribe_ok: "shared_ok sh \<Longrightarrow> shared_ok (snd (wait_unsubscribe_step pid w sh))"
  using wait_codes_ok [of sh pid]
  by (auto simp: wait_unsubscribe_step_def wait_tx_poll_def wait_gone_poll_def
      split: SubscribeWait.splits prod.splits option.splits)

section \<open>The node\<close>

text \<open>The reader: its bytes are inside its buffer, and the length it parsed is that of the packet they begin with.\<close>

definition reader_ok :: "PacketReader \<Rightarrow> bool" where
  "reader_ok pr \<longleftrightarrow> length (pr_buf pr) = READ_BUF_LEN \<and> pr_read_bytes pr \<le> READ_BUF_LEN \<and>
     (\<forall>n. pr_packet_len pr = Some n \<longrightarrow>
       (\<exists>d. decoder_try_new (take (pr_read_bytes pr) (pr_buf pr)) = Ok d \<and> packet_len d = n))"

text \<open>
  Every frame of the TX channel is empty (a dropped grant) or a whole packet, as long as the lengths fit the 16 bits
  of a frame header.  A frame of the RX channel is not longer than the packet it begins with.
\<close>

definition tx_frame :: "nat \<Rightarrow> bytes \<Rightarrow> bool" where
  "tx_frame cap bs \<longleftrightarrow> (cap < 65536 \<longrightarrow> bs = [] \<or> request_packet bs)"

definition rx_frame :: "bytes \<Rightarrow> bool" where
  "rx_frame bs \<longleftrightarrow> (\<forall>d. decoder_try_new bs = Ok d \<longrightarrow> length bs \<le> packet_len d)"

lemma empty_frames [simp]: "tx_frame cap []" "rx_frame []"
  by (simp_all add: tx_frame_def rx_frame_def)

text \<open>
  The invariant, with the capacity of the TX channel, the outstanding write grants of the TX and of the RX channel and
  the subscribers of the latter.
\<close>

definition node_inv :: "nat \<Rightarrow> Node \<Rightarrow> FrameGrantW option \<Rightarrow> FrameGrantW option \<Rightarrow> FrameSubscriber multiset \<Rightarrow> bool" where
  "node_inv L nd tg rg M \<longleftrightarrow>
     shared_ok (nd_shared nd) \<and> length (ch_buf (nd_tx nd)) = L \<and> chan_inv (tx_frame L) (nd_tx nd) tg {#nd_tx_sub nd#} \<and>
     chan_inv rx_frame (nd_rx nd) rg M \<and> reader_ok (nd_reader nd) \<and> length (nd_write_buf nd) = 32"

lemma node_invD:
  assumes "node_inv L nd tg rg M"
  shows "shared_ok (nd_shared nd)" "chan_inv (tx_frame L) (nd_tx nd) tg {#nd_tx_sub nd#}"
    "chan_inv rx_frame (nd_rx nd) rg M" "reader_ok (nd_reader nd)" "length (nd_write_buf nd) = 32" "length (ch_buf (nd_tx nd)) = L"
  using assms by (simp_all add: node_inv_def)

lemma node_inv_update [simp]:
  "node_inv L (nd\<lparr>nd_tx_locked := b\<rparr>) tg rg M = node_inv L nd tg rg M"
  "node_inv L (nd\<lparr>nd_last_network_action := now\<rparr>) tg rg M = node_inv L nd tg rg M"
  "node_inv L (nd\<lparr>nd_awaiting_pingresp := c\<rparr>) tg rg M = node_inv L nd tg rg M"
  "node_inv L (nd\<lparr>nd_config := cfg\<rparr>) tg rg M = node_inv L nd tg rg M"
  "node_inv L (nd\<lparr>nd_clean_start := c\<rparr>) tg rg M = node_inv L nd tg rg M"
  "node_inv L (nd\<lparr>nd_connect_attempts := n\<rparr>) tg rg M = node_inv L nd tg rg M"
  by (simp_all add: node_inv_def)

lemma node_inv_shared:
  "node_inv L nd tg rg M \<Longrightarrow> shared_ok sh \<Longrightarrow> node_inv L (nd\<lparr>nd_shared := sh\<rparr>) tg rg M"
  "node_inv L nd tg rg M \<Longrightarrow> (shared_ok (nd_shared nd) \<Longrightarrow> shared_ok (f (nd_shared nd))) \<Longrightarrow> node_inv L (with_shared f nd) tg rg M"
  by (simp_all add: node_inv_def with_shared_def)

lemma node_inv_tx:
  "node_inv L nd tg rg M \<Longrightarrow> chan_inv (tx_frame L) ch tg' {#nd_tx_sub nd#} \<Longrightarrow>
   length (ch_buf ch) = L \<Longrightarrow> node_inv L (nd\<lparr>nd_tx := ch\<rparr>) tg' rg M"
  by (simp add: node_inv_def)

lemma node_inv_tx_state:
  "node_inv L nd tg rg M \<Longrightarrow> chan_inv (tx_frame L) ((nd_tx nd)\<lparr>ch_state := st\<rparr>) tg' {#nd_tx_sub nd#} \<Longrightarrow>
   node_inv L (nd\<lparr>nd_tx := (nd_tx nd)\<lparr>ch_state := st\<rparr>\<rparr>) tg' rg M"
  by (simp add: node_inv_def)

lemma node_inv_rx: "node_inv L nd tg rg M \<Longrightarrow> chan_inv rx_frame ch rg' M' \<Longrightarrow> node_inv L (nd\<lparr>nd_rx := ch\<rparr>) tg rg' M'"
  by (simp add: node_inv_def)

lemma node_inv_reader: "node_inv L nd tg rg M \<Longrightarrow> reader_ok pr \<Longrightarrow> node_inv L (nd\<lparr>nd_reader := pr\<rparr>) tg rg M"
  by (simp add: node_inv_def)

section \<open>Requests\<close>

lemma send_grant_ok:
  assumes "node_inv L nd None rg M" and "send_grant me p pid nd = (r, nd')"
  shows "(\<And>g. r \<noteq> Some (Ok g)) \<Longrightarrow> node_inv L nd' None rg M"
    and "\<And>g. r = Some (Ok g) \<Longrightarrow> node_inv L nd' (Some g) rg M \<and> me_max_packet_size me (me_set_pid me pid p) = Ok (gw_size g)"
    and "nd_tx_locked nd' = nd_tx_locked nd"
    and "r = Some Panic \<Longrightarrow> me_max_packet_size me (me_set_pid me pid p) = Panic"
proof -
  note tx = node_invD(2) [OF assms(1)]
  have "((\<forall>g. r \<noteq> Some (Ok g)) \<longrightarrow> node_inv L nd' None rg M) \<and>
    (\<forall>g. r = Some (Ok g) \<longrightarrow> node_inv L nd' (Some g) rg M \<and> me_max_packet_size me (me_set_pid me pid p) = Ok (gw_size g)) \<and>
    nd_tx_locked nd' = nd_tx_locked nd \<and> (r = Some Panic \<longrightarrow> me_max_packet_size me (me_set_pid me pid p) = Panic)"
  proof (cases "me_max_packet_size me (me_set_pid me pid p)")
    case (Ok n)
    obtain x st where g: "grant_with_context n True (ch_state (nd_tx nd)) = (x, st)" by force
    note cg = chan_grant [OF tx g]
    show ?thesis
      using Ok g cg assms
      by (cases x) (auto simp: send_grant_def grant_poll_def intro: node_inv_tx_state split: PubSubError.splits)
  qed (use assms in \<open>auto simp: send_grant_def\<close>)
  then show "(\<And>g. r \<noteq> Some (Ok g)) \<Longrightarrow> node_inv L nd' None rg M"
    "\<And>g. r = Some (Ok g) \<Longrightarrow> node_inv L nd' (Some g) rg M \<and> me_max_packet_size me (me_set_pid me pid p) = Ok (gw_size g)"
    "nd_tx_locked nd' = nd_tx_locked nd"
    "r = Some Panic \<Longrightarrow> me_max_packet_size me (me_set_pid me pid p) = Panic" by blast+
qed

lemma tx_drop_ok: "node_inv L nd (Some g) rg M \<Longrightarrow> node_inv L (tx_drop g nd) None rg M"
  by (simp add: tx_drop_def node_inv_tx_state chan_grant_drop node_invD)

text \<open>A packet encoded into the granted region and committed.\<close>

definition tx_written :: "FrameGrantW \<Rightarrow> MqttEncoder \<Rightarrow> Node \<Rightarrow> Node" where
  "tx_written g e nd = nd\<lparr>nd_tx := (nd_tx nd)\<lparr>ch_buf := splice (ch_buf (nd_tx nd)) (gw_start g) (enc_buf e)\<rparr>\<rparr>"

lemma tx_written_ok:
  assumes inv: "node_inv L nd (Some g) rg M" and whole: "encodes_whole f"
    and e: "f (encoder_new (slice (ch_buf (nd_tx nd)) (gw_start g) (gw_size g))) = Ok e"
  shows "node_inv L (tx_written g e nd) (Some g) rg M"
    and "tx_frame L (committed_bytes g (used_size e) (ch_buf (nd_tx (tx_written g e nd))))"
proof -
  let ?buf = "splice (ch_buf (nd_tx nd)) (gw_start g) (enc_buf e)"
  note tx = node_invD(2) [OF inv]
  note reg = chan_grant_region(1) [OF tx]
  note cap = node_invD(6) [OF inv]
  from whole [unfolded encodes_whole_def, rule_format, OF e] reg
  have len: "length (enc_buf e) = gw_size g"
    and pkt: "gw_size g < 268435456 \<Longrightarrow> used_size e \<le> gw_size g \<and> request_packet (take (used_size e) (enc_buf e))" by auto
  show "node_inv L (tx_written g e nd) (Some g) rg M"
    unfolding tx_written_def using chan_write [OF tx len] len reg cap by (intro node_inv_tx [OF inv]) simp_all
  have "committed_bytes g (used_size e) ?buf = take (used_size e) (enc_buf e)" if small: "L < 65536"
  proof -
    have "used_size e \<le> gw_size g" "gw_size g < 65536" using pkt small reg cap by auto
    then have "unat (of_nat (min (gw_size g) (used_size e)) :: u16) = used_size e"
      by (simp add: unat_of_nat min_absorb2)
    with \<open>used_size e \<le> gw_size g\<close> len reg show ?thesis
      by (simp add: committed_bytes_def slice_def splice_def min_absorb1)
  qed
  with pkt reg cap show "tx_frame L (committed_bytes g (used_size e) (ch_buf (nd_tx (tx_written g e nd))))"
    by (simp add: tx_frame_def tx_written_def)
qed

lemma tx_commit_ok:
  assumes "node_inv L nd (Some g) rg M" and "tx_frame L (committed_bytes g used (ch_buf (nd_tx nd)))"
  shows "node_inv L (nd\<lparr>nd_tx := (nd_tx nd)\<lparr>ch_state := commit (grant_set_pid pid g) used (ch_state (nd_tx nd))\<rparr>\<rparr>) None rg M"
    and "node_inv L (nd\<lparr>nd_tx := (nd_tx nd)\<lparr>ch_state := commit g used (ch_state (nd_tx nd))\<rparr>\<rparr>) None rg M"
  using assms by (intro node_inv_tx_state [OF assms(1)] chan_commit; simp add: chan_set_pid node_invD)+

lemma send_finish_ok:
  assumes inv: "node_inv L nd (Some g) rg M" and whole: "encodes_whole (me_to_buffer me (me_set_pid me pid p))"
    and fin: "send_finish me p pid g nd = (r, nd')"
  shows "node_inv L nd' None rg M" and "nd_tx_locked nd' = nd_tx_locked nd"
proof -
  let ?e = "encoder_new (slice (ch_buf (nd_tx nd)) (gw_start g) (gw_size g))"
  have "node_inv L nd' None rg M \<and> nd_tx_locked nd' = nd_tx_locked nd"
  proof (cases "me_to_buffer me (me_set_pid me pid p) ?e")
    case (Ok e)
    let ?nd1 = "tx_written g e nd"
    note wr = tx_written_ok [OF inv whole Ok]
    have same: "nd_shared ?nd1 = nd_shared nd" "nd_tx_locked ?nd1 = nd_tx_locked nd"
      "length (ch_buf (nd_tx ?nd1)) = length (ch_buf (nd_tx nd))"
      using chan_grant_region(1) [OF node_invD(2) [OF inv]] whole Ok by (auto simp: tx_written_def encodes_whole_def)
    obtain x sh where rec: "send_record me p pid (nd_shared nd) = (x, sh)" by force
    have sh: "shared_ok sh" using send_record_ok [OF node_invD(1) [OF inv], of me p pid] rec by simp
    have nd2: "node_inv L (?nd1\<lparr>nd_shared := sh\<rparr>) (Some g) rg M" by (rule node_inv_shared(1) [OF wr(1) sh])
    have com: "node_inv L ((?nd1\<lparr>nd_shared := sh\<rparr>)\<lparr>nd_tx := (nd_tx ?nd1)\<lparr>ch_state := commit (grant_set_pid (pid_get pid) g) (used_size e) (ch_state (nd_tx ?nd1))\<rparr>\<rparr>) None rg M"
      using tx_commit_ok(1) [OF nd2, of "used_size e" "pid_get pid"] wr(2) same(3) by simp
    show ?thesis
      using fin Ok rec tx_drop_ok [OF nd2] com same(2)
      by (cases x) (auto simp: send_finish_def Let_def tx_drop_def tx_written_def)
  qed (use fin tx_drop_ok [OF inv] in \<open>auto simp: send_finish_def tx_drop_def\<close>)
  then show "node_inv L nd' None rg M" "nd_tx_locked nd' = nd_tx_locked nd" by blast+
qed

text \<open>Whether the task holds the mutex of the publisher, and the balance of the mutex.\<close>

fun holds_lock :: "'w Task \<Rightarrow> bool" where
  "holds_lock (Granting a pid) = True"
| "holds_lock _ = False"

definition balanced :: "bool \<Rightarrow> 'w Task \<Rightarrow> bool \<Rightarrow> 'w Task \<Rightarrow> bool" where
  "balanced l task l' task' \<longleftrightarrow> of_bool l' + of_bool (holds_lock task) = of_bool l + (of_bool (holds_lock task') :: nat)"

lemma holds_lock_attempt [simp]:
  "\<not> holds_lock (attempt_failed n a e)" "\<not> holds_lock (attempt_result n a r)"
  by (auto simp: attempt_failed_def attempt_result_def split: result.splits)

lemma attempt_result_Panic: "attempt_result n a r = Finished Panic \<longleftrightarrow> r = Panic"
  by (cases r) (auto simp: attempt_result_def attempt_failed_def)

lemma request_step_ok:
  assumes inv: "node_inv L nd None rg M" and whole: "\<And>pid. encodes_whole (me_to_buffer me (me_set_pid me pid p))"
    and wait: "\<And>pid w sh. shared_ok sh \<Longrightarrow> shared_ok (snd (wait pid w sh))"
    and lock: "holds_lock task \<Longrightarrow> nd_tx_locked nd"
    and step: "request_step me n w0 wait p task nd = (task', nd')"
  shows "node_inv L nd' None rg M" and "task' \<noteq> Finished Panic \<Longrightarrow> balanced (nd_tx_locked nd) task (nd_tx_locked nd') task'"
proof -
  have "node_inv L nd' None rg M \<and> (task' \<noteq> Finished Panic \<longrightarrow> balanced (nd_tx_locked nd) task (nd_tx_locked nd') task')"
  proof (cases task)
    case (Connecting a)
    with inv step show ?thesis
      by (auto simp: wait_connected_poll_def balanced_def with_shared_def node_inv_def split: if_splits)
  next
    case (Sending a)
    obtain r sh where r: "send_begin me p (nd_shared nd) = (r, sh)" by force
    with send_begin_ok [OF node_invD(1) [OF inv], of me p] have "shared_ok sh" by simp
    with inv step r Sending show ?thesis
      by (cases r) (auto simp: balanced_def intro: node_inv_shared(1))
  next
    case (Locking a pid)
    with inv step show ?thesis by (auto simp: balanced_def split: if_splits)
  next
    case (Granting a pid)
    obtain r nd1 where r: "send_grant me p pid nd = (r, nd1)" by force
    note sg = send_grant_ok [OF inv r]
    have l: "nd_tx_locked nd" using lock Granting by simp
    show ?thesis
    proof (cases "\<exists>g. r = Some (Ok g)")
      case True
      then obtain g where g: "r = Some (Ok g)" by blast
      obtain x nd2 where x: "send_finish me p pid g nd1 = (x, nd2)" by force
      have inv1: "node_inv L nd1 (Some g) rg M" using sg(2) g by blast
      note sf = send_finish_ok [OF inv1 whole x]
      from sf sg(3) l step r g x Granting show ?thesis by (cases x) (auto simp: balanced_def)
    next
      case False
      then have "node_inv L nd1 None rg M" by (intro sg(1)) auto
      with False sg(3) l step r Granting show ?thesis by (auto simp: balanced_def split: option.splits result.splits)
    qed
  next
    case (Waiting a pid w)
    obtain x sh where x: "wait pid w (nd_shared nd) = (x, sh)" by force
    with wait [OF node_invD(1) [OF inv], of pid w] have "shared_ok sh" by simp
    with inv step x Waiting show ?thesis by (auto simp: balanced_def intro: node_inv_shared(1) split: sum.splits)
  next
    case (Finished r)
    with inv step show ?thesis by (auto simp: balanced_def)
  qed
  then show "node_inv L nd' None rg M" "task' \<noteq> Finished Panic \<Longrightarrow> balanced (nd_tx_locked nd) task (nd_tx_locked nd') task'" by blast+
qed

lemma request_timeout_ok:
  assumes inv: "node_inv L nd None rg M" and drop: "\<And>pid sh. shared_ok sh \<Longrightarrow> shared_ok (on_drop pid sh)"
    and lock: "holds_lock task \<Longrightarrow> nd_tx_locked nd" and to: "request_timeout n on_drop task nd = (task', nd')"
  shows "node_inv L nd' None rg M" and "balanced (nd_tx_locked nd) task (nd_tx_locked nd') task'"
    and "\<not> holds_lock task'"
proof -
  show "node_inv L nd' None rg M"
    using inv to by (cases task) (auto simp: with_shared_def intro: node_inv_shared(1) [OF inv drop [OF node_invD(1) [OF inv]]])
  have "balanced (nd_tx_locked nd) task (nd_tx_locked nd') task' \<and> \<not> holds_lock task'"
  proof (cases task)
    case (Granting a pid)
    have "nd_tx_locked nd" using lock Granting by simp
    moreover have "task' = attempt_failed n a Timeout" "\<not> nd_tx_locked nd'" using to Granting by auto
    ultimately show ?thesis using Granting by (simp add: balanced_def)
  qed (use to in \<open>auto simp: balanced_def with_shared_def\<close>)
  then show "balanced (nd_tx_locked nd) task (nd_tx_locked nd') task'" "\<not> holds_lock task'" by blast+
qed

section \<open>Subscriptions\<close>

lemma with_rx_ok: "node_inv L nd tg rg M \<Longrightarrow> chan_inv rx_frame ((nd_rx nd)\<lparr>ch_state := st\<rparr>) rg M' \<Longrightarrow> node_inv L (with_rx st nd) tg rg M'"
  by (simp add: with_rx_def node_inv_rx)

lemma with_rx_sel [simp]: "nd_tx_locked (with_rx st nd) = nd_tx_locked nd" "nd_shared (with_rx st nd) = nd_shared nd"
  by (simp_all add: with_rx_def)

lemma with_shared_sel [simp]: "nd_tx_locked (with_shared f nd) = nd_tx_locked nd" "nd_rx (with_shared f nd) = nd_rx nd"
  by (simp_all add: with_shared_def)

lemma subscribe_begin_ok:
  assumes inv: "node_inv L nd tg rg M" and "subscribe_begin nd = (r, nd')"
  shows "r \<noteq> Panic" and "\<And>s. r = Ok s \<Longrightarrow> node_inv L nd' tg rg (add_mset s M)" and "\<And>e. r = Err e \<Longrightarrow> node_inv L nd' tg rg M"
    and "nd_tx_locked nd' = nd_tx_locked nd"
proof -
  obtain x st where x: "channel_subscriber MAX_SUBSCRIBERS (ch_state (nd_rx nd)) = (x, st)" by force
  note cs = chan_subscribe [OF node_invD(3) [OF inv] _ x]
  have "MAX_SUBSCRIBERS < 256" by (simp add: MAX_SUBSCRIBERS_def)
  note cs = cs [OF this]
  show "r \<noteq> Panic" "nd_tx_locked nd' = nd_tx_locked nd" using assms(2) x cs(1) by (auto simp: subscribe_begin_def)
  show "node_inv L nd' tg rg (add_mset s M)" if "r = Ok s" for s
    using assms(2) x that cs(3) by (auto simp: subscribe_begin_def intro: with_rx_ok [OF inv])
  show "node_inv L nd' tg rg M" if "r = Err e" for e
  proof (cases x)
    case (Err e1)
    then have "st = ch_state (nd_rx nd)" by (rule cs(2))
    with assms(2) x inv show ?thesis by (auto simp: subscribe_begin_def with_rx_def)
  qed (use assms(2) x that in \<open>auto simp: subscribe_begin_def\<close>)
qed

lemma subscriber_gone_ok:
  assumes inv: "node_inv L nd tg rg M" and "s \<in># M" and gone: "subscriber_gone s nd = (r, nd')"
  shows "r = Ok ()" and "node_inv L nd' tg rg (M - {#s#})" and "nd_tx_locked nd' = nd_tx_locked nd"
proof -
  obtain x st where x: "subscriber_drop s (ch_state (nd_rx nd)) = (x, st)" by force
  note cd = chan_drop [OF node_invD(3) [OF inv] assms(2) x]
  from gone x cd show "r = Ok ()" "node_inv L nd' tg rg (M - {#s#})" "nd_tx_locked nd' = nd_tx_locked nd"
    by (auto simp: subscriber_gone_def intro: with_rx_ok [OF inv])
qed

lemma subscribe_finish_ok:
  assumes inv: "node_inv L nd tg rg M" and "s \<in># M" and fin: "subscribe_finish N p r s nd = (x, nd')"
  shows "\<And>sub. x = Ok sub \<Longrightarrow> sub_subscriber sub = s \<and> node_inv L nd' tg rg M"
    and "\<And>e. x = Err e \<Longrightarrow> node_inv L nd' tg rg (M - {#s#})" and "nd_tx_locked nd' = nd_tx_locked nd"
    and "x = Panic \<Longrightarrow> rbind r (\<lambda>_. collect_filters N (sub_topics p)) = Panic"
proof -
  obtain y nd1 where y: "subscriber_gone s nd = (y, nd1)" by force
  note gone = subscriber_gone_ok [OF inv assms(2) y]
  have "(\<forall>sub. x = Ok sub \<longrightarrow> sub_subscriber sub = s \<and> node_inv L nd' tg rg M) \<and> (\<forall>e. x = Err e \<longrightarrow> node_inv L nd' tg rg (M - {#s#})) \<and>
    nd_tx_locked nd' = nd_tx_locked nd \<and> (x = Panic \<longrightarrow> rbind r (\<lambda>_. collect_filters N (sub_topics p)) = Panic)"
    using fin y gone inv
    by (cases "rbind r (\<lambda>_. collect_filters N (sub_topics p))") (auto simp: subscribe_finish_def)
  then show "\<And>sub. x = Ok sub \<Longrightarrow> sub_subscriber sub = s \<and> node_inv L nd' tg rg M"
    "\<And>e. x = Err e \<Longrightarrow> node_inv L nd' tg rg (M - {#s#})" "nd_tx_locked nd' = nd_tx_locked nd"
    "x = Panic \<Longrightarrow> rbind r (\<lambda>_. collect_filters N (sub_topics p)) = Panic" by blast+
qed

lemma poll_next_ok:
  assumes inv: "node_inv L nd tg rg M" and s: "sub_subscriber sub \<in># M" and poll: "poll_next sub nd = (r, sub', nd')"
  shows "r \<noteq> NextPanic" and "node_inv L nd' tg rg (add_mset (sub_subscriber sub') (M - {#sub_subscriber sub#}))"
    and "nd_tx_locked nd' = nd_tx_locked nd" and "sub_topic_filters sub' = sub_topic_filters sub"
proof -
  let ?nd1 = "with_shared (shared_wake RegisterStateChange) nd"
  have inv1: "node_inv L ?nd1 tg rg M" using inv by (rule node_inv_shared(2)) simp
  have "r \<noteq> NextPanic \<and> node_inv L nd' tg rg (add_mset (sub_subscriber sub') (M - {#sub_subscriber sub#})) \<and>
    nd_tx_locked nd' = nd_tx_locked nd \<and> sub_topic_filters sub' = sub_topic_filters sub"
  proof (cases "sh_clean_session_count (nd_shared ?nd1) = sub_created_clean_session_count sub")
    case True
    obtain x fs st where x: "read_with_context True (sub_subscriber sub) (ch_state (nd_rx ?nd1)) = (x, fs, st)" by (metis prod_cases3)
    note rd = chan_read [OF node_invD(3) [OF inv1] s x]
    let ?M = "add_mset fs (M - {#sub_subscriber sub#})"
    have ok: "node_inv L (with_rx st ?nd1) tg rg ?M" by (rule with_rx_ok [OF inv1 rd(2)])
    have rel: "node_inv L (with_rx (read_grant_drop g st) ?nd1) tg rg ?M" for g
      using chan_release(1) [OF rd(2), of g] by (intro with_rx_ok [OF inv1]) simp
    show ?thesis
    proof (cases x)
      case (Ok g)
      let ?frame = "grant_bytes g (ch_buf (nd_rx ?nd1))"
      show ?thesis
      proof (cases "message_try_new g ?frame")
        case (Ok m)
        with True x \<open>x = Ok g\<close> poll ok rel show ?thesis by (auto simp: poll_next_def Let_def split: if_splits)
      next
        case (Err e)
        with True x \<open>x = Ok g\<close> poll rel show ?thesis by (auto simp: poll_next_def Let_def)
      next
        case Panic
        have "rx_frame ?frame" using rd(3) \<open>x = Ok g\<close> by blast
        with Panic show ?thesis using message_try_new_not_Panic [of ?frame g] by (auto simp: rx_frame_def)
      qed
    qed (use True x rd(1) poll ok in \<open>auto simp: poll_next_def Let_def\<close>)
  next
    case False
    with poll inv1 s show ?thesis by (auto simp: poll_next_def Let_def)
  qed
  then show "r \<noteq> NextPanic" "node_inv L nd' tg rg (add_mset (sub_subscriber sub') (M - {#sub_subscriber sub#}))"
    "nd_tx_locked nd' = nd_tx_locked nd" "sub_topic_filters sub' = sub_topic_filters sub" by blast+
qed

lemma message_drop_ok:
  assumes "node_inv L nd tg rg M"
  shows "node_inv L (message_drop m nd) tg rg M" and "nd_tx_locked (message_drop m nd) = nd_tx_locked nd"
  using assms chan_release(1) [OF node_invD(3) [OF assms]] by (auto simp: message_drop_def intro: with_rx_ok)

lemma drop_pid_ok:
  assumes "node_inv L nd tg rg M"
  obtains pid nd1 where "drop_pid free nd = (Ok pid, nd1)" "node_inv L nd1 tg rg M" "nd_tx_locked nd1 = nd_tx_locked nd"
    "nd_tx nd1 = nd_tx nd"
proof (cases free)
  case True
  note sh = node_invD(1) [OF assms]
  obtain pid where pid: "next_pid (nd_shared nd) = (Ok pid, (nd_shared nd)\<lparr>sh_last_pid := pid\<rparr>)"
    using next_pid_ok [of "nd_shared nd"] shared_okD(1) [OF sh] by blast
  then have "shared_ok ((nd_shared nd)\<lparr>sh_last_pid := pid\<rparr>)" using next_pid_shared_ok [OF sh] by simp
  with True pid assms show ?thesis
    by (intro that [of pid "nd\<lparr>nd_shared := (nd_shared nd)\<lparr>sh_last_pid := pid\<rparr>\<rparr>"]) (auto simp: drop_pid_def intro: node_inv_shared(1))
next
  case False
  with assms show ?thesis by (intro that) (auto simp: drop_pid_def)
qed

lemma drop_unsubscribe_ok:
  assumes inv: "node_inv L nd (Some g) rg M" and drop: "drop_unsubscribe free packet pid g nd = (r, nd')"
  shows "node_inv L nd' None rg M" and "nd_tx_locked nd' = nd_tx_locked nd" and "\<And>e. r \<noteq> Err e"
    and "r = Panic \<Longrightarrow> unsubscribe_to_buffer packet (encoder_new (slice (ch_buf (nd_tx nd)) (gw_start g) (gw_size g))) = Panic"
proof -
  define nd1 where "nd1 = (if free then
      with_shared (\<lambda>sh. case imap_insert MAX_SUBSCRIBERS (pid_get pid) (AwaitingUnsubAck False) (sh_ack_status sh) of
        Some acks \<Rightarrow> sh\<lparr>sh_ack_status := acks\<rparr> | None \<Rightarrow> sh) nd else nd)"
  let ?e = "encoder_new (slice (ch_buf (nd_tx nd)) (gw_start g) (gw_size g))"
  have inv1: "node_inv L nd1 (Some g) rg M"
    unfolding nd1_def using inv
    by (auto simp: shared_ok_def intro!: node_inv_shared(2) intro: containers_ok split: option.splits)
  have same: "nd_tx nd1 = nd_tx nd" "nd_tx_locked nd1 = nd_tx_locked nd" by (simp_all add: nd1_def with_shared_def)
  have "node_inv L nd' None rg M \<and> nd_tx_locked nd' = nd_tx_locked nd \<and> (\<forall>e. r \<noteq> Err e) \<and>
    (r = Panic \<longrightarrow> unsubscribe_to_buffer packet ?e = Panic)"
  proof (cases "unsubscribe_to_buffer packet ?e")
    case (Ok e)
    then have e: "unsubscribe_to_buffer packet (encoder_new (slice (ch_buf (nd_tx nd1)) (gw_start g) (gw_size g))) = Ok e"
      using same by simp
    note wr = tx_written_ok [OF inv1 unsubscribe_encodes_whole e]
    have "length (enc_buf e) = gw_size g"
      using unsubscribe_encodes_whole [unfolded encodes_whole_def, rule_format, OF e] chan_grant_region(1) [OF node_invD(2) [OF inv1]] by simp
    then have "length (ch_buf (nd_tx (tx_written g e nd1))) = length (ch_buf (nd_tx nd1))"
      using chan_grant_region(1) [OF node_invD(2) [OF inv1]] by (simp add: tx_written_def)
    with tx_commit_ok(2) [OF wr(1), of "used_size e"] wr(2) drop Ok same show ?thesis
      by (auto simp: drop_unsubscribe_def Let_def nd1_def [symmetric] tx_written_def channel_update)
  qed (use drop same tx_drop_ok [OF inv1] in \<open>auto simp: drop_unsubscribe_def Let_def nd1_def [symmetric] tx_drop_def\<close>)
  then show "node_inv L nd' None rg M" "nd_tx_locked nd' = nd_tx_locked nd" "\<And>e. r \<noteq> Err e"
    "r = Panic \<Longrightarrow> unsubscribe_to_buffer packet ?e = Panic" by blast+
qed

text \<open>The size an UNSUBSCRIBE without properties announces is always enough.\<close>

lemma unsubscribe_size:
  "\<exists>n. unsubscribe_max_packet_size (unsubscribe_set_pid pid (unsubscribe_packet sub)) = Ok n \<and>
     (\<forall>buf. length buf = n \<longrightarrow> n < 268435456 \<longrightarrow>
       is_ok (unsubscribe_to_buffer (unsubscribe_set_pid pid (unsubscribe_packet sub)) (encoder_new buf)))"
proof -
  let ?p = "unsubscribe_set_pid pid (unsubscribe_packet sub)"
  have p: "unsubscribe_ok ?p" "wire_block (uns_properties ?p) = []"
    by (simp_all add: unsubscribe_ok_def unsubscribe_set_pid_def unsubscribe_packet_def unsubscribe_new_def props_ok_def)
  obtain n where n: "unsubscribe_max_packet_size ?p = Ok n"
    by (simp add: unsubscribe_max_packet_size_def unsubscribe_set_pid_def unsubscribe_packet_def unsubscribe_new_def varint_len_def)
  have "is_ok (unsubscribe_to_buffer ?p (encoder_new buf))" if "length buf = n" "n < 268435456" for buf
    using unsubscribe.to_buffer_fits [OF p(1), of buf] unsubscribe_max_packet_size_ok [of ?p] n p that by (auto simp: is_ok_iff)
  with n show ?thesis by blast
qed

text \<open>Dropping a subscription takes its subscriber out of the RX channel, whether or not the UNSUBSCRIBE is queued.\<close>

lemma subscription_drop_ok:
  assumes inv: "node_inv L nd None rg M" and s: "sub_subscriber sub \<in># M"
    and drop: "subscription_drop free1 free2 sub nd = (r, nd')"
  shows "length (ch_buf (nd_tx nd)) < 268435456 \<Longrightarrow> r \<noteq> Panic"
    and "r \<noteq> Panic \<Longrightarrow> r = Ok () \<and> node_inv L nd' None rg (M - {#sub_subscriber sub#}) \<and> nd_tx_locked nd' = nd_tx_locked nd"
proof -
  let ?s = "sub_subscriber sub"
  let ?good = "r = Ok () \<and> node_inv L nd' None rg (M - {#?s#}) \<and> nd_tx_locked nd' = nd_tx_locked nd"
  have gone: ?good if "subscriber_gone ?s nd1 = (r, nd')" "node_inv L nd1 None rg M" "nd_tx_locked nd1 = nd_tx_locked nd" for nd1
    using subscriber_gone_ok [OF that(2) s that(1)] that(3) by simp
  obtain pid nd1 where p: "drop_pid free1 nd = (Ok pid, nd1)" "node_inv L nd1 None rg M" "nd_tx_locked nd1 = nd_tx_locked nd"
    and tx1: "nd_tx nd1 = nd_tx nd"
    using drop_pid_ok [OF inv, of free1] by metis
  let ?p = "unsubscribe_set_pid pid (unsubscribe_packet sub)"
  have "?good \<or> r = Panic \<and> 268435456 \<le> length (ch_buf (nd_tx nd))"
  proof (cases "sub_topic_filters sub = [] \<or> nd_tx_locked nd1")
    case True
    with drop p gone [of nd] gone [of nd1] inv show ?thesis by (auto simp: subscription_drop_def split: if_splits)
  next
    case False
    obtain n where n: "unsubscribe_max_packet_size ?p = Ok n"
      and fits: "\<And>buf. length buf = n \<Longrightarrow> n < 268435456 \<Longrightarrow> is_ok (unsubscribe_to_buffer ?p (encoder_new buf))"
      using unsubscribe_size [of pid sub] by blast
    obtain x st where x: "grant_with_context n False (ch_state (nd_tx nd1)) = (x, st)" by force
    note cg = chan_grant [OF node_invD(2) [OF p(2)] x]
    let ?nd2 = "nd1\<lparr>nd_tx := (nd_tx nd1)\<lparr>ch_state := st\<rparr>\<rparr>"
    show ?thesis
    proof (cases x)
      case (Ok g)
      have inv2: "node_inv L ?nd2 (Some g) rg M" using cg(3) [OF Ok] by (intro node_inv_tx_state [OF p(2)]) simp
      obtain y nd3 where y: "drop_unsubscribe free2 ?p pid g ?nd2 = (y, nd3)" by force
      note du = drop_unsubscribe_ok [OF inv2 y]
      have reg: "gw_size g = n" "gw_start g + n \<le> length (ch_buf (nd_tx nd))"
        using cg(3) [OF Ok] chan_grant_region(1) [OF node_invD(2) [OF inv2]] tx1 by simp_all
      show ?thesis
      proof (cases y)
        case (Ok u)
        from drop False p n x \<open>x = Ok g\<close> y Ok have "subscriber_gone ?s nd3 = (r, nd')"
          by (simp add: subscription_drop_def Let_def grant_def)
        with gone [of nd3] du(1,2) p(3) show ?thesis by simp
      next
        case Panic
        with drop False p n x \<open>x = Ok g\<close> y have "r = Panic" by (simp add: subscription_drop_def Let_def grant_def)
        moreover have "\<not> n < 268435456" using fits [of "slice (ch_buf (nd_tx ?nd2)) (gw_start g) (gw_size g)"] du(4) [OF Panic] reg tx1 by auto
        ultimately show ?thesis using reg by simp
      qed (use du(3) in simp)
    next
      case (Err e)
      have inv2: "node_inv L ?nd2 None rg M" using cg(2) [OF Err] by (intro node_inv_tx_state [OF p(2)]) simp
      from drop False p n x Err have "subscriber_gone ?s ?nd2 = (r, nd')" by (simp add: subscription_drop_def Let_def grant_def)
      with gone [of ?nd2] inv2 p(3) show ?thesis by simp
    qed (use cg(1) in simp)
  qed
  then show "length (ch_buf (nd_tx nd)) < 268435456 \<Longrightarrow> r \<noteq> Panic" "r \<noteq> Panic \<Longrightarrow> ?good" by auto
qed

end
