(* ===== verification/Request_Safety.thy ===== *)
theory Request_Safety
  imports Node_Inv
begin

text \<open>
  When a request makes the client panic.  A request without properties whose payload keeps its promise is encoded
  into the region it asked for without panicking; what is left is the record of the identifier of a publish in a
  session whose slots for publishes are all taken.
\<close>

section \<open>Encoding into the announced size\<close>

lemma finalize_inside:
  assumes "MAX_MQTT_HEADER_LEN \<le> enc_offset e" and "enc_offset e \<le> length (enc_buf e)"
    and "enc_header_start e = MAX_MQTT_HEADER_LEN" and "length (enc_buf e) < 268435456"
  shows "is_ok (finalize_fixed_header pt fl e)"
proof -
  let ?n = "enc_offset e - MAX_MQTT_HEADER_LEN"
  let ?body = "slice (enc_buf e) MAX_MQTT_HEADER_LEN ?n"
  have len: "MAX_MQTT_HEADER_LEN + length ?body \<le> length (enc_buf e)" "length ?body < 268435456" using assms by auto
  have "put ?body (encoder_new (enc_buf e)) = e"
    using assms splice_slice_same [of MAX_MQTT_HEADER_LEN ?n "enc_buf e"] by (simp add: put_def encoder_new_def)
  with finalize_after_body [OF len(1) _ len(2), of pt fl] assms(4) show ?thesis by (auto simp: is_ok_iff)
qed

text \<open>
  A payload that keeps its promise: the closure of a deferred payload, given at least the length it announced,
  does not panic and reports no more bytes than it was given.
\<close>

fun payload_safe :: "Payload \<Rightarrow> bool" where
  "payload_safe (PayloadBytes v) \<longleftrightarrow> True"
| "payload_safe (DeferredPayload func max_len) \<longleftrightarrow>
     payload_in_place (DeferredPayload func max_len) \<and>
     (\<forall>buffer. max_len \<le> length buffer \<longrightarrow> func buffer \<noteq> Panic \<and> (\<forall>n tail. func buffer = Ok (n, tail) \<longrightarrow> n \<le> length buffer))"

lemma payload_safe_in_place: "payload_safe pl \<Longrightarrow> payload_in_place pl"
  by (cases pl) auto

lemma payload_serialize_safe:
  assumes "payload_safe pl" and "payload_max_size pl \<le> length buffer"
  shows "payload_serialize pl buffer \<noteq> Panic"
    and "\<And>n tail. payload_serialize pl buffer = Ok (n, tail) \<Longrightarrow> n \<le> length buffer \<and> length tail = length buffer"
  using assms by (cases pl; auto split: if_splits)+

definition publish_plain :: "Publish \<Rightarrow> bool" where
  "publish_plain p \<longleftrightarrow> pub_properties p = Slice [] \<and> payload_safe (pub_payload p)"

definition subscribe_plain :: "Subscribe \<Rightarrow> bool" where
  "subscribe_plain p \<longleftrightarrow> sub_properties p = Slice []"

text \<open>What is needed of a request not to panic while it is sent.\<close>

definition request_safe :: "'p MqttEncode \<Rightarrow> 'p \<Rightarrow> bool" where
  "request_safe me p \<longleftrightarrow>
     (\<forall>pid. me_max_packet_size me (me_set_pid me pid p) \<noteq> Panic \<and>
       (\<forall>buf. me_max_packet_size me (me_set_pid me pid p) = Ok (length buf) \<longrightarrow> length buf < 268435456 \<longrightarrow>
         me_to_buffer me (me_set_pid me pid p) (encoder_new buf) \<noteq> Panic))"

lemma publish_size_plain:
  assumes "pub_properties p = Slice []"
  shows "publish_max_packet_size p =
    Ok (MAX_MQTT_HEADER_LEN + (length (slice_bytes (pub_topic_name p) @ qos_pid_bytes (pub_qos p) (pub_pid p) @ [0 :: u8]) +
      payload_max_size (pub_payload p)))"
  using assms by (simp add: publish_max_packet_size_def varint_len_def qos_pid_bytes_def)

lemma publish_to_buffer_plain:
  assumes plain: "publish_plain p" and pid: "pub_pid p = Some pid" and size: "publish_max_packet_size p = Ok (length buf)"
    and small: "length buf < 268435456"
  shows "publish_to_buffer p (encoder_new buf) \<noteq> Panic"
proof -
  let ?pl = "pub_payload p"
  let ?pre = "slice_bytes (pub_topic_name p) @ qos_pid_bytes (pub_qos p) (pub_pid p) @ properties_bytes (pub_properties p)"
  let ?w = "\<lambda>e. rbind (write_str (pub_topic_name p) e) (\<lambda>e.
     rbind (case pub_qos p of
              AtMostOnce \<Rightarrow> Ok e
            | AtLeastOnce \<Rightarrow> rbind (ok_or (pub_pid p) PidMissing) (\<lambda>pid. write_u16 (pid_get pid) e)
            | ExactlyOnce \<Rightarrow> rbind (ok_or (pub_pid p) PidMissing) (\<lambda>pid. write_u16 (pid_get pid) e)) (\<lambda>e.
     write_properties (pub_properties p) e))"
  define e1 where "e1 = put ?pre (encoder_new buf)"
  have props: "pub_properties p = Slice []" "payload_safe ?pl" using plain by (simp_all add: publish_plain_def)
  have len: "length buf = MAX_MQTT_HEADER_LEN + (length ?pre + payload_max_size ?pl)"
    using size publish_size_plain [OF props(1)] props(1) by (simp add: properties_bytes_empty)
  have "writes ?w ?pre"
    using pid props(1) by (intro writes_bind writes_str writes_qos_pid writes_properties) auto
  then have w: "?w (encoder_new buf) = Ok e1"
    unfolding e1_def using len small by (intro writesD) (auto simp: wf_enc_def MAX_MQTT_HEADER_LEN_def)
  have e1: "enc_offset e1 = MAX_MQTT_HEADER_LEN + length ?pre" "length (enc_buf e1) = length buf"
    "enc_header_start e1 = MAX_MQTT_HEADER_LEN" using len by (simp_all add: e1_def)
  let ?tail = "drop (enc_offset e1) (enc_buf e1)"
  have "payload_max_size ?pl \<le> length ?tail" using len e1 by simp
  note ser = payload_serialize_safe [OF props(2) this]
  have "rbind (write_payload ?pl e1) (finalize_fixed_header (packet_type_byte PT_Publish) (publish_flags p)) \<noteq> Panic"
  proof (cases "payload_serialize ?pl ?tail")
    case (Ok x)
    obtain n tail where x: "x = (n, tail)" by force
    let ?e2 = "e1\<lparr>enc_buf := take (enc_offset e1) (enc_buf e1) @ tail, enc_offset := enc_offset e1 + n\<rparr>"
    have n: "n \<le> length ?tail" "length tail = length ?tail" using ser(2) [of n tail] Ok x by simp_all
    have "write_payload ?pl e1 = Ok ?e2" using Ok x len e1 by (simp add: write_payload_def)
    moreover have "is_ok (finalize_fixed_header (packet_type_byte PT_Publish) (publish_flags p) ?e2)"
      using n len e1 small by (intro finalize_inside) auto
    ultimately show ?thesis by (auto simp: is_ok_iff)
  qed (use ser(1) len e1 in \<open>auto simp: write_payload_def\<close>)
  moreover have "publish_to_buffer p (encoder_new buf) = rbind (?w (encoder_new buf)) (\<lambda>e.
      rbind (write_payload ?pl e) (finalize_fixed_header (packet_type_byte PT_Publish) (publish_flags p)))"
    by (simp add: publish_to_buffer_def rbind_assoc)
  ultimately show ?thesis using w by simp
qed

lemma publish_request_safe:
  assumes "publish_plain p"
  shows "request_safe publish_encode p"
proof -
  have "publish_plain (publish_set_pid pid p)" "pub_pid (publish_set_pid pid p) = Some pid" for pid
    using assms by (simp_all add: publish_plain_def publish_set_pid_def)
  then show ?thesis
    using publish_size_plain publish_to_buffer_plain
    by (auto simp: request_safe_def publish_encode_def publish_plain_def)
qed

lemma subscribe_request_safe:
  assumes "subscribe_plain p"
  shows "request_safe subscribe_encode p"
proof -
  have ok: "subscribe_ok (subscribe_set_pid pid p)" "wire_block (sub_properties (subscribe_set_pid pid p)) = []" for pid
    using assms by (simp_all add: subscribe_plain_def subscribe_ok_def subscribe_set_pid_def props_ok_def)
  have "is_ok (subscribe_to_buffer (subscribe_set_pid pid p) (encoder_new buf))"
    if "subscribe_max_packet_size (subscribe_set_pid pid p) = Ok (length buf)" "length buf < 268435456" for pid buf
    using subscribe.to_buffer_fits [OF ok(1), of pid buf] subscribe_max_packet_size_ok [OF ok(1), of pid] ok(2) [of pid] that
    by (auto simp: is_ok_iff)
  then show ?thesis
    using subscribe_max_packet_size_ok [OF ok(1)] by (force simp: request_safe_def subscribe_encode_def is_ok_iff)
qed

lemma unsubscribe_request_safe: "request_safe unsubscribe_encode (unsubscribe_packet sub)"
proof -
  have "unsubscribe_max_packet_size (unsubscribe_set_pid pid (unsubscribe_packet sub)) \<noteq> Panic" for pid
    using unsubscribe_size [of pid sub] by force
  moreover have "unsubscribe_to_buffer (unsubscribe_set_pid pid (unsubscribe_packet sub)) (encoder_new buf) \<noteq> Panic"
    if "unsubscribe_max_packet_size (unsubscribe_set_pid pid (unsubscribe_packet sub)) = Ok (length buf)" "length buf < 268435456"
    for pid buf
    using unsubscribe_size [of pid sub] that by (auto simp: is_ok_iff)
  ultimately show ?thesis by (simp add: request_safe_def unsubscribe_encode_def)
qed

section \<open>The one panic of a request\<close>

text \<open>A publish that waits for an acknowledgement is recorded when every slot for publishes is taken by another one.\<close>

definition slots_taken :: "Pid \<Rightarrow> Shared \<Rightarrow> bool" where
  "slots_taken pid sh \<longleftrightarrow> length (sh_inflight_pub sh) = MAX_INFLIGHT \<and> pid_get pid \<notin> set (sh_inflight_pub sh)"

lemma send_record_Panic:
  assumes "shared_ok sh" and "send_record me p pid sh = (Panic, sh')"
  shows "me_type me = PT_Publish \<and> me_get_qos me p \<noteq> Some AtMostOnce \<and> slots_taken pid sh"
proof -
  have "length (sh_inflight_pub sh) \<le> MAX_INFLIGHT" using shared_okD(2) [OF assms(1)] by (simp add: iset_ok_def)
  with assms(2) show ?thesis
    by (cases "me_type me") (auto simp: send_record_def slots_taken_def iset_insert_def Let_def split: option.splits if_splits)
qed

lemma request_step_Panic:
  assumes inv: "node_inv L nd None rg M" and safe: "request_safe me p" and small: "length (ch_buf (nd_tx nd)) < 268435456"
    and whole: "\<And>pid. encodes_whole (me_to_buffer me (me_set_pid me pid p))"
    and wait: "\<And>pid w sh. fst (wait pid w sh) \<noteq> Inr Panic" and task: "task \<noteq> Finished Panic"
    and step: "request_step me n w0 wait p task nd = (Finished Panic, nd')"
  shows "\<exists>a pid. task = Granting a pid \<and> me_type me = PT_Publish \<and> me_get_qos me p \<noteq> Some AtMostOnce \<and> slots_taken pid (nd_shared nd)"
proof (cases task)
  case (Connecting a)
  with step show ?thesis by (auto split: prod.splits if_splits)
next
  case (Sending a)
  obtain r sh where r: "send_begin me p (nd_shared nd) = (r, sh)" by force
  with send_begin_ok [OF node_invD(1) [OF inv], of me p] have "r \<noteq> Panic" by simp
  with r step Sending show ?thesis by (cases r) (auto simp: attempt_failed_def split: if_splits)
next
  case (Locking a pid)
  with step show ?thesis by (auto split: if_splits)
next
  case (Granting a pid)
  obtain r nd1 where r: "send_grant me p pid nd = (r, nd1)" by force
  note sg = send_grant_ok [OF inv r]
  have "r \<noteq> Some Panic" using sg(4) safe by (auto simp: request_safe_def)
  with r step Granting obtain g where g: "r = Some (Ok g)"
    by (auto simp: attempt_failed_def split: option.splits result.splits if_splits)
  obtain x nd2 where x: "send_finish me p pid g nd1 = (x, nd2)" by force
  with r g step Granting have "x = Panic" by (cases x) (auto simp: attempt_failed_def split: if_splits)
  have inv1: "node_inv L nd1 (Some g) rg M" and size: "me_max_packet_size me (me_set_pid me pid p) = Ok (gw_size g)"
    using sg(2) [OF g] by blast+
  have same: "nd_shared nd1 = nd_shared nd" "ch_buf (nd_tx nd1) = ch_buf (nd_tx nd)"
    using r by (auto simp: send_grant_def split: result.splits prod.splits)
  let ?slice = "slice (ch_buf (nd_tx nd1)) (gw_start g) (gw_size g)"
  have len: "length ?slice = gw_size g" "gw_size g < 268435456"
    using chan_grant_region(1) [OF node_invD(2) [OF inv1]] small same(2) by simp_all
  then have "me_to_buffer me (me_set_pid me pid p) (encoder_new ?slice) \<noteq> Panic"
    using safe size unfolding request_safe_def by metis
  with x \<open>x = Panic\<close> obtain sh where "send_record me p pid (nd_shared nd1) = (Panic, sh)"
    by (auto simp: send_finish_def Let_def split: result.splits prod.splits)
  from send_record_Panic [OF node_invD(1) [OF inv1] this] same(1) Granting show ?thesis by simp
next
  case (Waiting a pid w)
  with step wait [of pid w "nd_shared nd"] show ?thesis
    by (auto simp: attempt_result_Panic split: prod.splits sum.splits)
next
  case (Finished r)
  with step task show ?thesis by simp
qed

lemma codes_result_not_Panic [simp]: "codes_result codes \<noteq> Panic"
  by (simp add: codes_result_def)

lemma waits_not_Panic:
  "fst (wait_publish_tx_step qos pid w1 sh) \<noteq> Inr Panic"
  "fst (wait_subscribe_tx_step pid w2 sh) \<noteq> Inr Panic"
  "fst (wait_unsubscribe_step pid w2 sh) \<noteq> Inr Panic"
  by (auto simp: wait_publish_tx_step_def wait_subscribe_tx_step_def wait_unsubscribe_step_def
      split: PublishWait.splits SubscribeWait.splits prod.splits option.splits if_splits bool.splits)

end
