(* ===== verification/Stack_Inv.thy ===== *)
theory Stack_Inv
  imports Request_Safety Stack_Steps
begin

text \<open>
  What the steps of the stack keep of the node, for any socket that meets its contract and any bytes it delivers.
\<close>

section \<open>Headers\<close>

lemma varint_loop_append: "varint_loop short i bs acc = Ok r \<Longrightarrow> varint_loop short i (bs @ cs) acc = Ok r"
  by (induction short i bs acc rule: varint_loop.induct) (auto simp: Let_def split: if_splits)

text \<open>The header of a packet is read from its first bytes.\<close>

lemma decoder_try_new_append:
  assumes "decoder_try_new bs = Ok d"
  shows "\<exists>d'. decoder_try_new (bs @ cs) = Ok d' \<and> packet_len d' = packet_len d"
proof -
  from assms obtain b1 bs1 where bs: "bs = b1 # bs1" "bs1 \<noteq> []" by (cases bs) (auto simp: decoder_try_new_def split: if_splits)
  have len: "read_len (bs1 @ cs) = Ok x" if "read_len bs1 = Ok x" for x
  proof -
    from that obtain v n where v: "varint_loop InsufficientBytes 0 (take 4 bs1) 0 = Ok (v, n)" "x = (v, n + 1)"
      by (auto simp: read_len_def rbind_Ok_iff)
    from varint_loop_append [OF v(1), of "take (4 - length bs1) cs"] v(2) show ?thesis by (simp add: read_len_def)
  qed
  from assms bs obtain t v n q where h: "packet_type_try_from (b1 AND 0xF0) = Some t" "read_len bs1 = Ok (v, n)"
    "qos_try_from (drop_bit 1 (b1 AND 0x06)) = Some q" "packet_len d = n + v"
    by (auto simp: decoder_try_new_def Let_def rbind_Ok_iff packet_len_def split: if_splits option.splits)
  with bs len [OF h(2)] show ?thesis by (auto simp: decoder_try_new_def Let_def packet_len_def neq_Nil_conv)
qed

lemma packet_len_prefix:
  assumes "decoder_try_new (take m bs) = Ok d" and "decoder_try_new (take n bs) = Ok d'"
  shows "packet_len d = packet_len d'"
proof -
  from decoder_try_new_append [OF assms(1), of "drop m bs"] decoder_try_new_append [OF assms(2), of "drop n bs"]
  show ?thesis by auto
qed

lemma parse_header_len:
  assumes "parse_header bs = Ok n"
  shows "\<exists>d. decoder_try_new bs = Ok d \<and> packet_len d = n"
proof -
  have "packet_len d' = packet_len d" if "read_str d = Ok (t, d')" for d d' t
    using that by (auto simp: read_str_def read_slice_def read_u16_def take_slice_def packet_len_def rbind_Ok_iff split: if_splits prod.splits)
  with assms show ?thesis by (auto simp: parse_header_def rbind_Ok_iff split: if_splits)
qed

section \<open>The reader\<close>

lemma reader_reset_ok [simp]: "reader_ok pr \<Longrightarrow> reader_ok (reader_reset pr)"
  by (simp add: reader_ok_def reader_reset_def)

lemma next_read_buf_ok:
  assumes "reader_ok pr" and "next_read_buf pr = (r, pr')"
  shows "reader_ok pr'" and "\<And>e. r = Ok e \<Longrightarrow> pr_read_bytes pr' \<le> e \<and> e \<le> READ_BUF_LEN"
  using assms parse_header_len
  by (auto simp: next_read_buf_def try_parse_header_def read_end_def Let_def reader_ok_def
      split: if_splits result.splits EncodingError.splits)

lemma reader_ok_more:
  assumes "reader_ok pr" and "pr_read_bytes pr + length bs \<le> READ_BUF_LEN"
  shows "reader_ok (pr\<lparr>pr_buf := splice (pr_buf pr) (pr_read_bytes pr) bs, pr_read_bytes := pr_read_bytes pr + length bs\<rparr>)"
proof -
  have "take (pr_read_bytes pr + length bs) (splice (pr_buf pr) (pr_read_bytes pr) bs) = take (pr_read_bytes pr) (pr_buf pr) @ bs"
    using assms by (intro take_splice_end) (simp add: reader_ok_def)
  then show ?thesis
    using assms decoder_try_new_append [of "take (pr_read_bytes pr) (pr_buf pr)" _ bs] by (fastforce simp: reader_ok_def)
qed

lemma read_chunk_ok:
  assumes sk: "socket_ok sk" and pr: "reader_ok pr" and rd: "read_chunk sk pr s = (r, pr', s')"
  shows "reader_ok pr'"
proof -
  obtain x pr1 where x: "next_read_buf pr = (x, pr1)" by force
  note nx = next_read_buf_ok [OF pr x]
  show ?thesis
  proof (cases "\<exists>e. x = Ok e \<and> e \<noteq> pr_read_bytes pr1")
    case True
    then obtain e where e: "x = Ok e" "e \<noteq> pr_read_bytes pr1" by blast
    obtain y s1 where y: "sk_read sk (e - pr_read_bytes pr1) s = (y, s1)" by force
    show ?thesis
    proof (cases y)
      case (Ok bs)
      have "length bs \<le> e - pr_read_bytes pr1" using sk y Ok unfolding socket_ok_def by (metis fst_conv)
      with nx(2) [OF e(1)] reader_ok_more [OF nx(1), of bs] nx(1) rd x y e Ok show ?thesis
        by (auto simp: read_chunk_def split: if_splits)
    qed (use nx(1) rd x y e in \<open>auto simp: read_chunk_def\<close>)
  next
    case False
    with rd x nx(1) show ?thesis by (auto simp: read_chunk_def split: result.splits if_splits)
  qed
qed

lemma read_chunks_ok: "socket_ok sk \<Longrightarrow> reader_ok pr \<Longrightarrow> reader_ok (fst (read_chunks sk n pr s))"
proof (induction n arbitrary: pr s)
  case (Suc n)
  obtain r pr1 s1 where r: "read_chunk sk pr s = (r, pr1, s1)" by (metis prod_cases3)
  from Suc.IH Suc.prems read_chunk_ok [OF Suc.prems r] r show ?case by (cases r) auto
qed simp

lemma recv_dropped_ok: "socket_ok sk \<Longrightarrow> reader_ok pr \<Longrightarrow> reader_ok (fst (recv_dropped sk n pr s))"
  by (cases n) (auto intro: read_chunks_ok)

lemma recv_loop_ok:
  assumes "recv_loop sk pr s = Some y"
  shows "socket_ok sk \<longrightarrow> reader_ok pr \<longrightarrow> reader_ok (fst (snd y))"
  using assms
proof (rule recv_loop.raw_induct [rotated])
  fix loop sk pr s y
  assume IH: "\<And>sk pr s y. loop sk pr s = Some y \<Longrightarrow> socket_ok sk \<longrightarrow> reader_ok pr \<longrightarrow> reader_ok (fst (snd y))"
    and eq: "(if pr_packet_len pr = None then
        (case read_chunk sk pr s of
           (Ok u, pr1, s1) \<Rightarrow> loop sk pr1 s1
         | (Err k, pr1, s1) \<Rightarrow> Some (Err (Io k), pr1, s1)
         | (Panic, pr1, s1) \<Rightarrow> Some (Panic, pr1, s1))
      else Some (Ok (), pr, s)) = Some y"
  show "socket_ok sk \<longrightarrow> reader_ok pr \<longrightarrow> reader_ok (fst (snd y))"
  proof (intro impI)
    assume ok: "socket_ok sk" "reader_ok pr"
    obtain r pr1 s1 where r: "read_chunk sk pr s = (r, pr1, s1)" by (metis prod_cases3)
    with read_chunk_ok [OF ok r] eq ok IH [of sk pr1 s1 y] show "reader_ok (fst (snd y))"
      by (cases r) (auto split: if_splits)
  qed
qed

lemma recv_ok:
  assumes "socket_ok sk" and "reader_ok pr" and "recv sk pr s = Some (r, pr', s')"
  shows "reader_ok pr'"
proof -
  let ?pr = "if pr_packet_len pr \<noteq> None then reader_reset pr else pr"
  have "reader_ok ?pr" using assms(2) by simp
  then have "reader_ok (fst (snd y))" if "recv_loop sk ?pr s = Some y" for y using recv_loop_ok [OF that] assms(1) by blast
  with assms(3) show ?thesis
    by (fastforce simp: recv_def Let_def split: option.splits prod.splits result.splits)
qed

section \<open>Partially received publishes\<close>

definition pp_ok :: "PartialPublish \<Rightarrow> bool" where
  "pp_ok pp \<longleftrightarrow> length (pp_buf pp) \<le> pp_packet_len pp \<and>
     (\<exists>bs d. decoder_try_new bs = Ok d \<and> packet_len d = pp_packet_len pp \<and> pp_buf pp = take (pp_packet_len pp) bs)"

lemma packet_len_frame: "dec_frame d d' \<Longrightarrow> packet_len d' = packet_len d"
  by (simp add: dec_frame_def packet_len_def)

lemma from_buffer_pp_ok:
  assumes "from_buffer buf = Ok (RP_PartialPublish q t pp)" and "\<And>d. decoder_try_new buf = Ok d \<Longrightarrow> length buf \<le> packet_len d"
  shows "pp_ok pp" and "qp_ok q"
proof -
  obtain d where d: "decoder_try_new buf = Ok d" using assms(1) by (auto simp: from_buffer_def rbind_Ok_iff)
  then have t: "fh_typ (dec_fixed_header d) = PT_Publish"
    using assms(1) by (auto simp: from_buffer_def rbind_Ok_iff Let_def split: PacketType.splits)
  from d t assms(1) obtain d1 d2 where r: "read_str d = Ok (t, d1)" "read_qos_pid (fh_qos (dec_fixed_header d)) d1 = Ok (q, d2)"
    "pp = \<lparr>pp_buf = take (min (packet_len d2) (length buf)) buf, pp_packet_len = packet_len d2\<rparr>"
    by (auto simp: from_buffer_def rbind_Ok_iff Let_def)
  have wf: "wf_dec d" by (rule decoder_new_wf [OF d assms(2) [OF d]])
  have f1: "dec_frame d d1" using dec_safe_str wf r(1) by (simp add: dec_safe_def)
  then have "dec_frame d1 d2" using dec_safe_read_qos_pid dec_frame_wf [OF f1 wf] r(2) by (simp add: dec_safe_def)
  with f1 have "packet_len d2 = packet_len d" by (simp add: packet_len_frame)
  with d r(3) assms(2) [OF d] show "pp_ok pp" unfolding pp_ok_def by (intro conjI exI [of _ buf] exI [of _ d]) simp_all
  show "qp_ok q"
    using r(2) by (cases "fh_qos (dec_fixed_header d)") (auto simp: read_qos_pid_def qp_ok_def pid_try_from_def pid_ok_def rbind_Ok_iff split: if_splits)
qed

lemma recv_publish_ok:
  assumes "socket_ok sk" and "reader_ok pr" and "recv sk pr s = Some (Ok (RP_PartialPublish q t pp), pr', s')"
  shows "pp_ok pp" and "qp_ok q"
proof -
  have pr': "reader_ok pr'" by (rule recv_ok [OF assms])
  let ?buf = "\<lambda>n. take (min n (pr_read_bytes pr')) (pr_buf pr')"
  from assms(3) obtain n where n: "pr_packet_len pr' = Some n" "from_buffer (?buf n) = Ok (RP_PartialPublish q t pp)"
    by (auto simp: recv_def reader_decode_def Let_def split: option.splits prod.splits result.splits if_splits)
  have "length (?buf n) \<le> packet_len d" if "decoder_try_new (?buf n) = Ok d" for d
    using pr' n(1) packet_len_prefix [OF that] by (force simp: reader_ok_def)
  with from_buffer_pp_ok [OF n(2)] show "pp_ok pp" "qp_ok q" by blast+
qed

text \<open>A PUBLISH copied from the socket: every prefix is a frame that is not longer than the packet.\<close>

lemma copied_frame:
  assumes sk: "socket_ok sk" and pp: "pp_ok pp" and len: "length buf = pp_packet_len pp" and cp: "copy_all sk pp buf s = (Ok bs, s1)"
  shows "rx_frame (take n bs)" and "length bs = length buf"
proof -
  from pp have le: "length (pp_buf pp) \<le> pp_packet_len pp" by (simp add: pp_ok_def)
  note cc = copy_all_complete [OF sk _ le cp]
  from cc len show bs: "length bs = length buf" by simp
  have prefix: "take (length (pp_buf pp)) bs = pp_buf pp" using cc len by simp
  from pp obtain bs0 d0 where bs0: "decoder_try_new bs0 = Ok d0" "packet_len d0 = pp_packet_len pp" "pp_buf pp = take (pp_packet_len pp) bs0"
    by (auto simp: pp_ok_def)
  have "length (take n bs) \<le> packet_len d" if d: "decoder_try_new (take n bs) = Ok d" for d
  proof -
    have "packet_len d = packet_len d0"
    proof (cases "length bs0 \<le> pp_packet_len pp")
      case True
      then have "take (length bs0) bs = bs0" using prefix bs0(3) by simp
      with packet_len_prefix [OF d, of "length bs0" d0] bs0(1) show ?thesis by simp
    next
      case False
      then have "bs = take (pp_packet_len pp) bs0" using prefix bs0(3) bs len by simp
      then have "take n bs = take (min n (pp_packet_len pp)) bs0" by simp
      with packet_len_prefix [of "min n (pp_packet_len pp)" bs0 d "length bs0" d0] d bs0(1) show ?thesis by simp
    qed
    with bs0(2) bs len show ?thesis by simp
  qed
  then show "rx_frame (take n bs)" by (simp add: rx_frame_def)
qed

section \<open>Received packets\<close>

lemma handlers_ok:
  assumes "shared_ok sh"
  shows "shared_ok (snd (handle_pub_ack p1 sh))" "shared_ok (snd (handle_pub_rec p2 sh))" "shared_ok (snd (handle_pub_rel p3 sh))"
    "shared_ok (snd (handle_pub_comp p4 sh))" "shared_ok (snd (handle_sub_ack pid codes sh))" "shared_ok (snd (handle_unsub_ack pid codes sh))"
    "shared_ok (snd (record_incoming pid sh))" "shared_ok (transmitted n sh)"
  using session_simulates [OF assms, of "GotPubAck p1"] session_simulates [OF assms, of "GotPubRec p2"]
    session_simulates [OF assms, of "GotPubRel p3"] session_simulates [OF assms, of "GotPubComp p4"]
    session_simulates [OF assms, of "GotSubAck pid codes"] session_simulates [OF assms, of "GotUnsubAck pid codes"]
    session_simulates [OF assms, of "GotPublish2 pid"] session_simulates [OF assms, of "Transmitted n"]
  by (simp_all add: refines_def answer_def)

lemma acknowledge_ok:
  assumes inv: "node_inv L nd tg rg M" and ack: "acknowledge sk q nd s = (r, nd', s')"
  shows "node_inv L nd' tg rg M" and "nd_tx_locked nd' = nd_tx_locked nd"
proof -
  have "node_inv L nd' tg rg M \<and> nd_tx_locked nd' = nd_tx_locked nd"
  proof (cases q)
    case (QP_ExactlyOnce pid)
    obtain x sh where x: "record_incoming pid (nd_shared nd) = (x, sh)" by force
    with handlers_ok(7) [OF node_invD(1) [OF inv], of pid] have "shared_ok sh" by simp
    with inv ack x QP_ExactlyOnce show ?thesis
      by (auto simp: acknowledge_def Let_def intro: node_inv_shared(1) split: prod.splits result.splits)
  qed (use inv ack in \<open>auto simp: acknowledge_def split: prod.splits\<close>)
  then show "node_inv L nd' tg rg M" "nd_tx_locked nd' = nd_tx_locked nd" by blast+
qed

lemma reply_ok:
  "node_inv L nd tg rg M \<Longrightarrow> shared_ok (snd rs) \<Longrightarrow> reply sk f rs nd s = (r, nd', s') \<Longrightarrow>
     node_inv L nd' tg rg M \<and> nd_tx_locked nd' = nd_tx_locked nd"
  "node_inv L nd tg rg M \<Longrightarrow> shared_ok (snd rt) \<Longrightarrow> quiet rt nd s = (r, nd', s') \<Longrightarrow>
     node_inv L nd' tg rg M \<and> nd_tx_locked nd' = nd_tx_locked nd"
  by (auto simp: reply_def quiet_def intro: node_inv_shared(1) split: prod.splits result.splits)

lemma on_packet_ok:
  assumes inv: "node_inv L nd tg rg M" and np: "\<And>q t pp. packet \<noteq> RP_PartialPublish q t pp"
    and on: "on_packet sk packet nd s = (r, nd', s')"
  shows "node_inv L nd' tg rg M \<and> nd_tx_locked nd' = nd_tx_locked nd"
proof -
  note h = handlers_ok [OF node_invD(1) [OF inv]]
  show ?thesis
    using on np inv
    by (cases packet)
      (auto simp: on_packet_def Let_def dest!: reply_ok(1) [OF inv h(2)] reply_ok(1) [OF inv h(3)] reply_ok(2) [OF inv h(1)]
        reply_ok(2) [OF inv h(4)] reply_ok(2) [OF inv h(5)] reply_ok(2) [OF inv h(6)])
qed

lemma finish_select_ok:
  assumes "finish_select now x = (r, nd', s')" and "node_inv L (fst (snd x)) tg rg M"
  shows "node_inv L nd' tg rg M \<and> nd_tx_locked nd' = nd_tx_locked (fst (snd x))"
  using assms by (auto simp: finish_select_def split: prod.splits result.splits)

section \<open>Grants of the stack\<close>

text \<open>The write grant of the RX channel that a phase holds, and what the phase knows of it.\<close>

fun rx_pending :: "StackPhase \<Rightarrow> FrameGrantW option" where
  "rx_pending (Storing q pp g) = Some g"
| "rx_pending _ = None"

fun phase_ok :: "StackPhase \<Rightarrow> bool" where
  "phase_ok (Storing q pp g) \<longleftrightarrow> pp_ok pp \<and> qp_ok q \<and> gw_size g = pp_packet_len pp"
| "phase_ok _ \<longleftrightarrow> True"

lemma slice_splice_prefix: "k \<le> length bs \<Longrightarrow> i + length bs \<le> length xs \<Longrightarrow> slice (splice xs i bs) i k = take k bs"
  by (simp add: slice_def splice_def)

text \<open>The result of a step inside of \<open>select\<close>: the next phase with its grant, or an end without grants.\<close>

definition select_inv :: "nat \<Rightarrow> FrameSubscriber multiset \<Rightarrow> bool \<Rightarrow> (StackPhase + 'r) \<times> Node \<times> 's \<Rightarrow> bool" where
  "select_inv L M locked x \<longleftrightarrow>
     (case x of
        (Inl ph, nd, s) \<Rightarrow> node_inv L nd None (rx_pending ph) M \<and> phase_ok ph \<and> nd_tx_locked nd = locked
      | (Inr r, nd, s) \<Rightarrow> node_inv L nd None None M \<and> nd_tx_locked nd = locked)"

lemma tx_begin_ok:
  assumes "node_inv L nd None None M"
  shows "select_inv L M (nd_tx_locked nd) (tx_begin nd s)"
proof -
  obtain r sub st where r: "read_with_context True (nd_tx_sub nd) (ch_state (nd_tx nd)) = (r, sub, st)" by (metis prod_cases3)
  have "nd_tx_sub nd \<in># {#nd_tx_sub nd#}" by simp
  note rd = chan_read [OF node_invD(2) [OF assms] this r]
  have "node_inv L (nd\<lparr>nd_tx_sub := sub, nd_tx := (nd_tx nd)\<lparr>ch_state := st\<rparr>\<rparr>) None None M"
    using assms rd(2) by (simp add: node_inv_def)
  with assms r show ?thesis by (cases r) (simp_all add: tx_begin_def select_inv_def)
qed

lemma tx_end_ok:
  assumes inv: "node_inv L nd None None M" and e: "tx_end sk now g nd s = (r, nd', s')"
  shows "node_inv L nd' None None M \<and> nd_tx_locked nd' = nd_tx_locked nd"
proof -
  have rel: "node_inv L (tx_release g nd) None None M"
    unfolding tx_release_def using chan_release(2) [OF node_invD(2) [OF inv]] by (intro node_inv_tx_state [OF inv]) simp
  then have "node_inv L ((tx_release g nd)\<lparr>nd_shared := transmitted n (nd_shared nd)\<rparr>) None None M" for n
    by (rule node_inv_shared(1)) (rule handlers_ok(8) [OF node_invD(1) [OF inv]])
  with rel e show ?thesis
    by (auto simp: tx_end_def tx_release_def split: prod.splits result.splits)
qed

lemma publish_begin_ok:
  assumes inv: "node_inv L nd None None M" and pp: "pp_ok pp" "qp_ok q"
  shows "select_inv L M (nd_tx_locked nd) (publish_begin sk now q pp nd s)"
proof -
  obtain r st where r: "grant_immediate (pp_packet_len pp) (ch_state (nd_rx nd)) = (r, st)" by force
  note gi = chan_grant_immediate [OF node_invD(3) [OF inv] r]
  show ?thesis
  proof (cases r)
    case (Ok g)
    with r gi(3) [OF Ok] pp inv show ?thesis
      by (auto simp: publish_begin_def select_inv_def intro: node_inv_rx)
  next
    case (Err e)
    have "node_inv L (nd\<lparr>nd_rx := (nd_rx nd)\<lparr>ch_state := st\<rparr>\<rparr>) None None M" using gi(2) [OF Err] by (rule node_inv_rx [OF inv])
    with Err r show ?thesis
      by (auto simp: publish_begin_def select_inv_def Let_def dest: finish_select_ok split: prod.splits)
  qed (use gi(1) in simp)
qed

lemma publish_end_ok:
  assumes sk: "socket_ok sk" and inv: "node_inv L nd None (Some g) M" and ph: "phase_ok (Storing q pp g)"
    and e: "publish_end sk now q pp g nd s = (r, nd', s')"
  shows "node_inv L nd' None None M \<and> nd_tx_locked nd' = nd_tx_locked nd"
proof -
  note rx = node_invD(3) [OF inv]
  let ?slice = "slice (ch_buf (nd_rx nd)) (gw_start g) (gw_size g)"
  obtain x s1 where x: "copy_all sk pp ?slice s = (x, s1)" by force
  have len: "length ?slice = pp_packet_len pp" "gw_size g = pp_packet_len pp" using chan_grant_region(1) [OF rx] ph by simp_all
  have drop: "node_inv L (nd\<lparr>nd_rx := (nd_rx nd)\<lparr>ch_state := grant_drop g (ch_state (nd_rx nd))\<rparr>\<rparr>) None None M"
    using chan_grant_drop [OF rx] by (intro node_inv_rx [OF inv]) simp
  show ?thesis
  proof (cases x)
    case (Ok bs)
    have pp: "pp_ok pp" using ph by simp
    let ?buf = "splice (ch_buf (nd_rx nd)) (gw_start g) bs"
    note cf = copied_frame [OF sk pp len(1) x [unfolded Ok]]
    have wr: "chan_inv rx_frame ((nd_rx nd)\<lparr>ch_buf := ?buf\<rparr>) (Some g) M" using cf(2) len by (intro chan_write [OF rx]) simp
    have "committed_bytes g used ?buf = take (unat (of_nat (min (gw_size g) used) :: u16)) bs" for used
      using cf(2) len chan_grant_region(1) [OF rx] unat_of_nat_le [of "min (gw_size g) used", where 'a = 16]
      unfolding committed_bytes_def by (intro slice_splice_prefix) simp_all
    then have "rx_frame (committed_bytes g (pp_packet_len pp) ?buf)" using cf(1) by simp
    then have "chan_inv rx_frame \<lparr>ch_buf = ?buf, ch_state = commit g (pp_packet_len pp) (ch_state (nd_rx nd))\<rparr> None M"
      using chan_commit [OF wr, of "pp_packet_len pp"] by (simp add: channel_update)
    then have inv1: "node_inv L (nd\<lparr>nd_rx := \<lparr>ch_buf = ?buf, ch_state = commit g (pp_packet_len pp) (ch_state (nd_rx nd))\<rparr>\<rparr>) None None M"
      (is "node_inv L ?nd1 _ _ _") by (rule node_inv_rx [OF inv])
    obtain y nd2 s2 where y: "acknowledge sk q ?nd1 s1 = (y, nd2, s2)" by (metis prod_cases3)
    note ack = acknowledge_ok [OF inv1 y]
    have "finish_select now (y, nd2, s2) = (r, nd', s')" using e x Ok y by (simp add: publish_end_def Let_def)
    from finish_select_ok [OF this, of L None None M] ack show ?thesis by simp
  qed (use drop e x in \<open>auto simp: publish_end_def Let_def\<close>)
qed

lemma rx_begin_ok:
  assumes sk: "socket_ok sk" and inv: "node_inv L nd None None M" and rx: "rx_begin sk now nd s = Some x"
  shows "select_inv L M (nd_tx_locked nd) x"
proof -
  from rx obtain r pr s1 where r: "recv sk (nd_reader nd) s = Some (r, pr, s1)" by (auto simp: rx_begin_def split: option.splits)
  let ?nd = "nd\<lparr>nd_reader := pr\<rparr>"
  have inv1: "node_inv L ?nd None None M" by (rule node_inv_reader [OF inv recv_ok [OF sk node_invD(4) [OF inv] r]])
  show ?thesis
  proof (cases r)
    case (Ok packet)
    show ?thesis
    proof (cases "\<exists>q t pp. packet = RP_PartialPublish q t pp")
      case True
      then obtain q t pp where p: "packet = RP_PartialPublish q t pp" by blast
      have "pp_ok pp" "qp_ok q" using recv_publish_ok [OF sk node_invD(4) [OF inv]] r Ok p by blast+
      with publish_begin_ok [OF inv1, of pp q sk now s1] rx r Ok p show ?thesis by (simp add: rx_begin_def)
    next
      case False
      obtain y nd2 s2 where y: "on_packet sk packet ?nd s1 = (y, nd2, s2)" by (metis prod_cases3)
      obtain y' nd3 s3 where y': "finish_select now (y, nd2, s2) = (y', nd3, s3)" by (metis prod_cases3)
      have "node_inv L nd2 None None M \<and> nd_tx_locked nd2 = nd_tx_locked nd" using on_packet_ok [OF inv1 _ y] False by auto
      moreover have "x = (Inr y', nd3, s3)" using rx r Ok y y' False by (cases packet) (auto simp: rx_begin_def)
      ultimately show ?thesis using finish_select_ok [OF y', of L None None M] by (simp add: select_inv_def)
    qed
  next
    case (Err e)
    with rx r inv1 show ?thesis by (cases e) (auto simp: rx_begin_def select_inv_def)
  qed (use rx r inv1 in \<open>auto simp: rx_begin_def select_inv_def\<close>)
qed

lemma select_keep_alive_ok:
  assumes "node_inv L nd None None M" and "select_keep_alive sk now nd s = (r, nd', s')"
  shows "node_inv L nd' None None M \<and> nd_tx_locked nd' = nd_tx_locked nd"
  using assms
  by (auto simp: select_keep_alive_def handle_keep_alive_def finish_select_def split: if_splits prod.splits result.splits)

lemma select_begin_ok:
  assumes sk: "socket_ok sk" and inv: "node_inv L nd None None M" and b: "select_begin sk branch now nd s = Some x"
  shows "select_inv L M (nd_tx_locked nd) x"
proof -
  have dr: "node_inv L (nd\<lparr>nd_reader := pr\<rparr>) None None M" if "recv_dropped sk n (nd_reader nd) s = (pr, s1)" for n pr s1
    using recv_dropped_ok [OF sk node_invD(4) [OF inv], of n s] that by (intro node_inv_reader [OF inv]) simp
  show ?thesis
  proof (cases branch)
    case RxReady
    with b rx_begin_ok [OF sk inv] show ?thesis by (simp add: select_begin_def)
  next
    case (TxReady n)
    obtain pr s1 where p: "recv_dropped sk n (nd_reader nd) s = (pr, s1)" by force
    with b TxReady tx_begin_ok [OF dr [OF p], of s1] show ?thesis by (auto simp: select_begin_def)
  next
    case (KeepAliveExpired n)
    obtain pr s1 where p: "recv_dropped sk (Some n) (nd_reader nd) s = (pr, s1)" by force
    obtain r nd2 s2 where r: "select_keep_alive sk now (nd\<lparr>nd_reader := pr\<rparr>) s1 = (r, nd2, s2)" by (metis prod_cases3)
    with b KeepAliveExpired p select_keep_alive_ok [OF dr [OF p] r] show ?thesis by (auto simp: select_begin_def select_inv_def)
  qed
qed

lemma select_end_ok:
  assumes sk: "socket_ok sk" and inv: "node_inv L nd None (rx_pending ph) M" "phase_ok ph" and e: "select_end sk now ph nd s = (r, nd', s')"
    and w: "waits_in_select ph"
  shows "node_inv L nd' None None M \<and> nd_tx_locked nd' = nd_tx_locked nd"
  using assms tx_end_ok publish_end_ok [OF sk] by (cases ph) (fastforce simp: waits_in_select_def)+

section \<open>Connecting\<close>

lemma connect_send_ok:
  assumes "node_inv L nd tg rg M" and "connect_send sk now nd s = (r, nd', s')"
  shows "node_inv L nd' tg rg M \<and> nd_tx_locked nd' = nd_tx_locked nd"
  using assms by (auto simp: connect_send_def split: result.splits prod.splits)

lemma connect_answer_ok:
  assumes "node_inv L nd tg rg M" and "connect_answer packet nd = (r, nd')"
  shows "node_inv L nd' tg rg M \<and> nd_tx_locked nd' = nd_tx_locked nd"
  using assms by (auto simp: connect_answer_def split: result.splits prod.splits ReceivedPacket.splits)

lemma connect_mqtt_ok:
  assumes sk: "socket_ok sk" and inv: "node_inv L nd tg rg M" and c: "connect_mqtt sk now nd s = Some (r, nd', s')"
  shows "node_inv L nd' tg rg M \<and> nd_tx_locked nd' = nd_tx_locked nd"
proof -
  obtain x nd1 s1 where x: "connect_send sk now nd s = (x, nd1, s1)" by (metis prod_cases3)
  note i1 = connect_send_ok [OF inv x]
  show ?thesis
  proof (cases x)
    case (Ok u)
    with c x obtain packet pr s2 where p: "recv sk (nd_reader nd1) s1 = Some (packet, pr, s2)" by (auto simp: connect_mqtt_def)
    then have a: "connect_answer packet (nd1\<lparr>nd_reader := pr\<rparr>) = (r, nd')"
      using c x Ok by (auto simp: connect_mqtt_def split: prod.splits)
    have "node_inv L (nd1\<lparr>nd_reader := pr\<rparr>) tg rg M"
      using i1 recv_ok [OF sk node_invD(4) p] by (intro node_inv_reader) blast+
    from connect_answer_ok [OF this a] i1 show ?thesis by simp
  qed (use c x i1 in \<open>auto simp: connect_mqtt_def\<close>)
qed

lemma connect_attempt_ok:
  assumes sk: "socket_ok sk" and inv: "node_inv L nd tg rg M" and c: "connect_attempt tr sk ct now nd t = Some (r, nd', t')"
  shows "node_inv L nd' tg rg M \<and> nd_tx_locked nd' = nd_tx_locked nd"
proof -
  show ?thesis
  proof (cases "\<exists>t1 s. fst (tr_connect tr t) = Ok () \<and> t1 = snd (tr_connect tr t) \<and> tr_socket tr t1 = Ok s \<and> (\<forall>t2. ct \<noteq> CutConnect t2)")
    case True
    then obtain t1 s where t1: "tr_connect tr t = (Ok (), t1)" "tr_socket tr t1 = Ok s" "\<And>t2. ct \<noteq> CutConnect t2"
      by (metis prod.collapse)
    show ?thesis
    proof (cases ct)
      case NoCut
      with c t1 connect_mqtt_ok [OF sk inv] show ?thesis by (auto simp: connect_attempt_def)
    next
      case (CutRecv n)
      obtain x nd1 s1 where x: "connect_send sk now nd s = (x, nd1, s1)" by (metis prod_cases3)
      note i1 = connect_send_ok [OF inv x]
      obtain pr s2 where pr: "recv_dropped sk n (nd_reader nd1) s1 = (pr, s2)" by force
      have "node_inv L (nd1\<lparr>nd_reader := pr\<rparr>) tg rg M"
        using i1 recv_dropped_ok [OF sk node_invD(4), of L nd1 tg rg M n s1] pr by (intro node_inv_reader) auto
      with c t1 CutRecv x pr i1 show ?thesis by (cases x) (auto simp: connect_attempt_def)
    qed (use c t1 inv in \<open>auto simp: connect_attempt_def\<close>)
  next
    case False
    then have "nd' = nd"
      using c by (cases ct; cases "tr_connect tr t"; cases "fst (tr_connect tr t)"; cases "tr_socket tr (snd (tr_connect tr t))")
        (auto simp: connect_attempt_def)
    with inv show ?thesis by simp
  qed
qed

lemma connect_failed_ok:
  assumes "node_inv L nd tg rg M" and "connect_failed tr nd t = (out, nd', t')"
  shows "node_inv L nd' tg rg M \<and> nd_tx_locked nd' = nd_tx_locked nd"
  using assms by (auto simp: connect_failed_def Let_def split: option.splits if_splits)

lemma stack_reset_ok:
  assumes "node_inv L nd tg rg M"
  shows "node_inv L (stack_reset nd) tg rg M" and "nd_tx_locked (stack_reset nd) = nd_tx_locked nd"
  using assms by (auto simp: stack_reset_def node_inv_def intro: shared_reset_ok)

section \<open>A step of the stack\<close>

text \<open>The result of a step: the next phase with its grant, or the end of the iteration without grants.\<close>

definition step_inv :: "nat \<Rightarrow> FrameSubscriber multiset \<Rightarrow> bool \<Rightarrow> (RunOutcome + StackPhase) \<times> Node \<times> 't \<Rightarrow> bool" where
  "step_inv L M locked x \<longleftrightarrow>
     (case x of
        (Inr ph, nd, t) \<Rightarrow> node_inv L nd None (rx_pending ph) M \<and> phase_ok ph \<and> nd_tx_locked nd = locked
      | (Inl out, nd, t) \<Rightarrow> node_inv L nd None None M \<and> nd_tx_locked nd = locked)"

lemma after_select_ok:
  assumes "node_inv L nd None None M"
  shows "step_inv L M (nd_tx_locked nd) (after_select tr r nd t)"
  using assms stack_reset_ok [OF assms] by (cases r) (simp_all add: after_select_def step_inv_def)

lemma stack_dropped_ok:
  assumes inv: "node_inv L nd None (rx_pending ph) M"
  shows "node_inv L (stack_dropped ph nd) None None M" and "nd_tx_locked (stack_dropped ph nd) = nd_tx_locked nd"
proof -
  show "node_inv L (stack_dropped ph nd) None None M"
  proof (cases ph)
    case (Transmitting g)
    with inv chan_release(1) [OF node_invD(2) [OF inv]] show ?thesis by (auto intro: node_inv_tx_state)
  next
    case (Storing q pp g)
    with inv have "chan_inv rx_frame (nd_rx nd) (Some g) M" by (simp add: node_inv_def)
    from chan_grant_drop [OF this] Storing inv show ?thesis by (auto intro: node_inv_rx)
  qed (use inv in simp_all)
qed (cases ph; simp)

lemma stack_step_ok:
  assumes sk: "socket_ok sk" and inv: "node_inv L nd None (rx_pending ph) M" "phase_ok ph"
    and step: "stack_step tr sk ct branch now ph nd t = Some x"
  shows "step_inv L M (nd_tx_locked nd) x"
proof (cases "waits_in_select ph")
  case True
  note dr = stack_dropped_ok [OF inv(1)]
  note rs = stack_reset_ok [OF dr(1)]
  obtain r nd1 s1 where e: "select_end sk now ph nd s = (r, nd1, s1)" if "tr_socket tr t = Ok s" for s
    by (metis prod_cases3 result.inject(1))
  from True have st: "stack_step tr sk ct branch now ph nd t =
      (case tr_socket tr t of
         Panic \<Rightarrow> Some (Inl Panicked, stack_dropped ph nd, t)
       | Err e \<Rightarrow> Some (Inl Again, stack_reset (stack_dropped ph nd), snd (tr_disconnect tr t))
       | Ok s \<Rightarrow> Some (case select_end sk now ph nd s of (r, nd1, s1) \<Rightarrow> after_select tr r nd1 (tr_set_socket tr s1 t)))"
    by (cases ph) (auto simp: waits_in_select_def)
  show ?thesis
  proof (cases "tr_socket tr t")
    case (Ok s)
    note e1 = e [OF Ok]
    from select_end_ok [OF sk inv e1 True] have "node_inv L nd1 None None M" "nd_tx_locked nd1 = nd_tx_locked nd" by blast+
    with after_select_ok [of L nd1 M tr r] step st Ok e1 show ?thesis by auto
  qed (use step st dr rs in \<open>auto simp: step_inv_def\<close>)
next
  case False
  then have inv': "node_inv L nd None None M" using inv(1) by (cases ph) (simp_all add: waits_in_select_def)
  from False consider "ph = AtTop" | "ph = Attempting" | "ph = Selecting" by (cases ph) (auto simp: waits_in_select_def)
  then show ?thesis
  proof cases
    case 1
    have "node_inv L (with_shared (set_connected None) nd) None None M" using inv' by (rule node_inv_shared(2)) simp
    with inv' step 1 show ?thesis by (auto simp: step_inv_def split: if_splits)
  next
    case 2
    from step 2 obtain r nd1 t1 where r: "connect_attempt tr sk ct now nd t = Some (r, nd1, t1)" by (auto split: option.splits)
    note ca = connect_attempt_ok [OF sk inv' r]
    have "node_inv L (with_shared (set_connected c) nd1) None None M" for c using ca by (intro node_inv_shared(2)) simp_all
    moreover obtain out nd2 t2 where f: "connect_failed tr nd1 t1 = (out, nd2, t2)" by (metis prod_cases3)
    moreover have "node_inv L nd2 None None M \<and> nd_tx_locked nd2 = nd_tx_locked nd1" using connect_failed_ok [OF _ f] ca by blast
    ultimately show ?thesis
      using step 2 r ca by (auto simp: step_inv_def split: option.splits result.splits)
  next
    case 3
    note rs = stack_reset_ok [OF inv']
    show ?thesis
    proof (cases "tr_socket tr t")
      case (Ok s)
      with step 3 obtain y where y: "select_begin sk branch now nd s = Some y" by auto
      obtain z nd1 s1 where z: "y = (z, nd1, s1)" by (cases y)
      note sb = select_begin_ok [OF sk inv' y, unfolded z]
      show ?thesis
      proof (cases z)
        case (Inl ph1)
        with sb z step 3 Ok y show ?thesis by (auto simp: select_inv_def step_inv_def Let_def)
      next
        case (Inr r)
        with sb after_select_ok [of L nd1 M tr r "tr_set_socket tr s1 t"] z step 3 Ok y show ?thesis
          by (simp add: select_inv_def Let_def)
      qed
    qed (use step 3 rs inv' in \<open>auto simp: step_inv_def\<close>)
  qed
qed

end
