(* ===== verification/System_Inv.thy ===== *)
theory System_Inv
  imports System Stack_Inv
begin

text \<open>
  The invariant of the whole system and its preservation by every action.  The subscribers of the RX channel are
  those of the running calls of \<open>subscribe\<close>, of the subscriptions, and of the subscriptions that are being given
  up; the mutex of the TX publisher is held exactly when one call holds it.
\<close>

section \<open>Counting\<close>

lemma length_filter_update:
  "k < length xs \<Longrightarrow> length (filter P (xs[k := y])) + of_bool (P (xs ! k)) = length (filter P xs) + of_bool (P y)"
proof (induction xs arbitrary: k)
  case (Cons x xs)
  then show ?case by (cases k) auto
qed simp

lemma length_filter_remove:
  "k < length xs \<Longrightarrow> length (filter P (remove_nth k xs)) + of_bool (P (xs ! k)) = length (filter P xs)"
  unfolding remove_nth_def by (subst (4) id_take_nth_drop) (auto simp: nth_append min_def)

lemma mset_map_remove:
  "k < length xs \<Longrightarrow> mset (map f xs) = add_mset (f (xs ! k)) (mset (map f (remove_nth k xs)))"
  unfolding remove_nth_def by (subst id_take_nth_drop [of k xs]) auto

lemma mset_map_update: "k < length xs \<Longrightarrow> f y = f (xs ! k) \<Longrightarrow> mset (map f (xs[k := y])) = mset (map f xs)"
  by (metis list_update_id map_update)

section \<open>The invariant\<close>

definition sys_subscribers :: "'t System \<Rightarrow> FrameSubscriber multiset" where
  "sys_subscribers sys =
     mset (map sc_subscriber (sys_subscribes sys)) + mset (map sub_subscriber (sys_subscriptions sys)) +
     mset (map (\<lambda>u. sub_subscriber (fst u)) (sys_unsubscribes sys))"

definition lock_holders :: "'t System \<Rightarrow> nat" where
  "lock_holders sys =
     length (filter (\<lambda>c. holds_lock (snd c)) (sys_publishes sys)) +
     length (filter (\<lambda>c. holds_lock (sc_task c)) (sys_subscribes sys)) +
     length (filter (\<lambda>c. holds_lock (snd c)) (sys_unsubscribes sys))"

definition sys_ok :: "nat \<Rightarrow> 't System \<Rightarrow> bool" where
  "sys_ok L sys \<longleftrightarrow>
     node_inv L (sys_node sys) None (rx_pending (sys_phase sys)) (sys_subscribers sys) \<and> phase_ok (sys_phase sys) \<and>
     lock_holders sys = of_bool (nd_tx_locked (sys_node sys)) \<and>
     (\<forall>c \<in> set (sys_publishes sys). payload_in_place (pub_payload (fst c)))"

lemma sys_okD:
  assumes "sys_ok L sys"
  shows "node_inv L (sys_node sys) None (rx_pending (sys_phase sys)) (sys_subscribers sys)" "phase_ok (sys_phase sys)"
    "lock_holders sys = of_bool (nd_tx_locked (sys_node sys))"
    "\<And>c. c \<in> set (sys_publishes sys) \<Longrightarrow> payload_in_place (pub_payload (fst c))"
  using assms by (simp_all add: sys_ok_def)

text \<open>A call that stands at its grant holds the mutex.\<close>

lemma filter_holder: "x \<in> set xs \<Longrightarrow> P x \<Longrightarrow> 0 < length (filter P xs)"
  by (metis filter_empty_conv length_greater_0_conv)

lemma holder_locked:
  assumes "sys_ok L sys"
  shows "c \<in> set (sys_publishes sys) \<Longrightarrow> holds_lock (snd c) \<Longrightarrow> nd_tx_locked (sys_node sys)"
    and "d \<in> set (sys_subscribes sys) \<Longrightarrow> holds_lock (sc_task d) \<Longrightarrow> nd_tx_locked (sys_node sys)"
    and "u \<in> set (sys_unsubscribes sys) \<Longrightarrow> holds_lock (snd u) \<Longrightarrow> nd_tx_locked (sys_node sys)"
  using sys_okD(3) [OF assms] filter_holder [of c "sys_publishes sys" "\<lambda>c. holds_lock (snd c)"]
    filter_holder [of d "sys_subscribes sys" "\<lambda>c. holds_lock (sc_task c)"]
    filter_holder [of u "sys_unsubscribes sys" "\<lambda>c. holds_lock (snd c)"]
  by (auto simp: lock_holders_def of_bool_def split: if_splits)

section \<open>Calls\<close>

text \<open>The requests meet the conditions of \<open>request_step_ok\<close> and \<open>request_timeout_ok\<close>.\<close>

lemma publish_step_ok:
  assumes "node_inv L nd None rg M" and "payload_in_place (pub_payload p)" and "holds_lock task \<longrightarrow> nd_tx_locked nd"
    and "publish_step p task nd = (task', nd')"
  shows "node_inv L nd' None rg M" and "task' \<noteq> Finished Panic \<Longrightarrow> balanced (nd_tx_locked nd) task (nd_tx_locked nd') task'"
  using request_step_ok [OF assms(1) _ _ assms(3) [rule_format] assms(4) [unfolded publish_step_def]] wait_publish_ok
    publish_encodes_whole [of "publish_set_pid _ p"] assms(2)
  by (auto simp: publish_encode_def publish_set_pid_def)

lemma subscribe_step_ok:
  assumes "node_inv L nd None rg M" and "holds_lock task \<longrightarrow> nd_tx_locked nd" and "subscribe_step p task nd = (task', nd')"
  shows "node_inv L nd' None rg M" and "task' \<noteq> Finished Panic \<Longrightarrow> balanced (nd_tx_locked nd) task (nd_tx_locked nd') task'"
  using request_step_ok [OF assms(1) _ _ assms(2) [rule_format] assms(3) [unfolded subscribe_step_def]] wait_subscribe_ok subscribe_encodes_whole
  by (auto simp: subscribe_encode_def)

lemma unsubscribe_step_ok:
  assumes "node_inv L nd None rg M" and "holds_lock task \<longrightarrow> nd_tx_locked nd" and "unsubscribe_step sub task nd = (task', nd')"
  shows "node_inv L nd' None rg M" and "task' \<noteq> Finished Panic \<Longrightarrow> balanced (nd_tx_locked nd) task (nd_tx_locked nd') task'"
  using request_step_ok [OF assms(1) _ _ assms(2) [rule_format] assms(3) [unfolded unsubscribe_step_def]] wait_unsubscribe_ok unsubscribe_encodes_whole
  by (auto simp: unsubscribe_encode_def)

lemma publish_timeout_ok:
  assumes "node_inv L nd None rg M" and "holds_lock task \<longrightarrow> nd_tx_locked nd" and "publish_timeout free task nd = (task', nd')"
  shows "node_inv L nd' None rg M" and "balanced (nd_tx_locked nd) task (nd_tx_locked nd') task'" and "\<not> holds_lock task'"
  using request_timeout_ok [OF assms(1) _ assms(2) [rule_format] assms(3) [unfolded publish_timeout_def]] on_drop_ok(1) by auto

lemma subscribe_timeout_ok:
  assumes "node_inv L nd None rg M" and "holds_lock task \<longrightarrow> nd_tx_locked nd" and "subscribe_timeout free task nd = (task', nd')"
  shows "node_inv L nd' None rg M" and "balanced (nd_tx_locked nd) task (nd_tx_locked nd') task'" and "\<not> holds_lock task'"
  using request_timeout_ok [OF assms(1) _ assms(2) [rule_format] assms(3) [unfolded subscribe_timeout_def]] on_drop_ok(2) by auto

section \<open>Changed and removed calls\<close>

text \<open>A call has moved, or is gone, and the node has changed with the balance of the mutex kept.\<close>

lemma publish_moved:
  assumes ok: "sys_ok L sys" and k: "k < length (sys_publishes sys)"
    and inv: "node_inv L nd None (rx_pending (sys_phase sys)) (sys_subscribers sys)"
    and bal: "balanced (nd_tx_locked (sys_node sys)) (snd (sys_publishes sys ! k)) (nd_tx_locked nd) task"
  shows "sys_ok L (sys\<lparr>sys_node := nd, sys_publishes := (sys_publishes sys)[k := (fst (sys_publishes sys ! k), task)]\<rparr>)"
    and "\<not> holds_lock task \<Longrightarrow> sys_ok L (sys\<lparr>sys_node := nd, sys_publishes := remove_nth k (sys_publishes sys)\<rparr>)"
proof -
  note d = sys_okD [OF ok]
  let ?x = "(fst (sys_publishes sys ! k), task)"
  have fst_ok: "payload_in_place (pub_payload (fst ?x))" using d(4) [OF nth_mem [OF k]] by simp
  have set1: "set ((sys_publishes sys)[k := ?x]) \<subseteq> insert ?x (set (sys_publishes sys))" by (rule set_update_subset_insert)
  have set2: "set (remove_nth k (sys_publishes sys)) \<subseteq> set (sys_publishes sys)"
    by (auto simp: remove_nth_def dest: in_set_takeD in_set_dropD)
  note upd = length_filter_update [OF k, of "\<lambda>c. holds_lock (snd c)" ?x]
  note rem = length_filter_remove [OF k, of "\<lambda>c. holds_lock (snd c)"]
  show "sys_ok L (sys\<lparr>sys_node := nd, sys_publishes := (sys_publishes sys)[k := ?x]\<rparr>)"
    using inv d(2,3) upd bal d(4) fst_ok set1
    by (auto simp: sys_ok_def lock_holders_def sys_subscribers_def balanced_def)
  show "sys_ok L (sys\<lparr>sys_node := nd, sys_publishes := remove_nth k (sys_publishes sys)\<rparr>)" if "\<not> holds_lock task"
    using inv d(2,3) rem bal d(4) set2 that
    by (auto simp: sys_ok_def lock_holders_def sys_subscribers_def balanced_def)
qed

lemma subscribe_moved:
  fixes c :: SubscribeCall
  assumes ok: "sys_ok L sys" and k: "k < length (sys_subscribes sys)" and c: "sys_subscribes sys ! k = c"
    and bal: "balanced (nd_tx_locked (sys_node sys)) (sc_task c) (nd_tx_locked nd) task"
  shows "node_inv L nd None (rx_pending (sys_phase sys)) (sys_subscribers sys) \<Longrightarrow>
      sys_ok L (sys\<lparr>sys_node := nd, sys_subscribes := (sys_subscribes sys)[k := c\<lparr>sc_task := task\<rparr>]\<rparr>)"
    and "node_inv L nd None (rx_pending (sys_phase sys)) (sys_subscribers sys - {#sc_subscriber c#}) \<Longrightarrow> \<not> holds_lock task \<Longrightarrow>
      sys_ok L (sys\<lparr>sys_node := nd, sys_subscribes := remove_nth k (sys_subscribes sys)\<rparr>)"
proof -
  note d = sys_okD [OF ok]
  let ?x = "c\<lparr>sc_task := task\<rparr>"
  note upd = length_filter_update [OF k, of "\<lambda>c. holds_lock (sc_task c)" ?x]
  note rem = length_filter_remove [OF k, of "\<lambda>c. holds_lock (sc_task c)"]
  have subs: "mset (map sc_subscriber ((sys_subscribes sys)[k := ?x])) = mset (map sc_subscriber (sys_subscribes sys))"
    by (rule mset_map_update [OF k]) (simp add: c)
  note gone = mset_map_remove [OF k, of sc_subscriber]
  show "sys_ok L (sys\<lparr>sys_node := nd, sys_subscribes := (sys_subscribes sys)[k := ?x]\<rparr>)"
    if "node_inv L nd None (rx_pending (sys_phase sys)) (sys_subscribers sys)"
    using that d(2-4) upd bal subs c by (auto simp: sys_ok_def lock_holders_def sys_subscribers_def balanced_def)
  show "sys_ok L (sys\<lparr>sys_node := nd, sys_subscribes := remove_nth k (sys_subscribes sys)\<rparr>)"
    if "node_inv L nd None (rx_pending (sys_phase sys)) (sys_subscribers sys - {#sc_subscriber c#})" "\<not> holds_lock task"
    using that d(2-4) rem bal gone c by (auto simp: sys_ok_def lock_holders_def sys_subscribers_def balanced_def)
qed

lemma unsubscribe_moved:
  assumes ok: "sys_ok L sys" and k: "k < length (sys_unsubscribes sys)" and u: "sys_unsubscribes sys ! k = (sub, task0)"
    and bal: "balanced (nd_tx_locked (sys_node sys)) task0 (nd_tx_locked nd) task"
  shows "node_inv L nd None (rx_pending (sys_phase sys)) (sys_subscribers sys) \<Longrightarrow>
      sys_ok L (sys\<lparr>sys_node := nd, sys_unsubscribes := (sys_unsubscribes sys)[k := (sub, task)]\<rparr>)"
    and "node_inv L nd None (rx_pending (sys_phase sys)) (sys_subscribers sys - {#sub_subscriber sub#}) \<Longrightarrow> \<not> holds_lock task \<Longrightarrow>
      sys_ok L (sys\<lparr>sys_node := nd, sys_unsubscribes := remove_nth k (sys_unsubscribes sys)\<rparr>)"
proof -
  note d = sys_okD [OF ok]
  note upd = length_filter_update [OF k, of "\<lambda>c. holds_lock (snd c)" "(sub, task)"]
  note rem = length_filter_remove [OF k, of "\<lambda>c. holds_lock (snd c)"]
  have subs: "mset (map (\<lambda>u. sub_subscriber (fst u)) ((sys_unsubscribes sys)[k := (sub, task)])) =
      mset (map (\<lambda>u. sub_subscriber (fst u)) (sys_unsubscribes sys))"
    by (rule mset_map_update [OF k]) (simp add: u)
  note gone = mset_map_remove [OF k, of "\<lambda>u. sub_subscriber (fst u)"]
  show "sys_ok L (sys\<lparr>sys_node := nd, sys_unsubscribes := (sys_unsubscribes sys)[k := (sub, task)]\<rparr>)"
    if "node_inv L nd None (rx_pending (sys_phase sys)) (sys_subscribers sys)"
    using that d(2-4) upd bal subs u by (auto simp: sys_ok_def lock_holders_def sys_subscribers_def balanced_def)
  show "sys_ok L (sys\<lparr>sys_node := nd, sys_unsubscribes := remove_nth k (sys_unsubscribes sys)\<rparr>)"
    if "node_inv L nd None (rx_pending (sys_phase sys)) (sys_subscribers sys - {#sub_subscriber sub#})" "\<not> holds_lock task"
    using that d(2-4) rem bal gone u by (auto simp: sys_ok_def lock_holders_def sys_subscribers_def balanced_def)
qed

text \<open>The subscribers that are counted.\<close>

lemma subscriber_member:
  "k < length (sys_subscribes sys) \<Longrightarrow> sc_subscriber (sys_subscribes sys ! k) \<in># sys_subscribers sys"
  "k < length (sys_subscriptions sys) \<Longrightarrow> sub_subscriber (sys_subscriptions sys ! k) \<in># sys_subscribers sys"
  "k < length (sys_unsubscribes sys) \<Longrightarrow> sub_subscriber (fst (sys_unsubscribes sys ! k)) \<in># sys_subscribers sys"
  by (simp_all add: sys_subscribers_def)

section \<open>Every action\<close>

lemma move_publish_ok:
  assumes ok: "sys_ok L sys" and mv: "move_publish k f sys = Ok sys'" and f: "f = publish_step \<or> (\<exists>free. f = (\<lambda>_. publish_timeout free))"
  shows "sys_ok L sys'"
proof (cases "k < length (sys_publishes sys)")
  case True
  obtain p task where c: "sys_publishes sys ! k = (p, task)" by force
  obtain task' nd where t: "f p task (sys_node sys) = (task', nd)" by force
  have np: "task' \<noteq> Finished Panic" using mv True c t by (auto simp: move_publish_def split: if_splits)
  note inv = sys_okD(1) [OF ok]
  have lock: "holds_lock task \<longrightarrow> nd_tx_locked (sys_node sys)" using holder_locked(1) [OF ok nth_mem [OF True]] c by simp
  have pl: "payload_in_place (pub_payload p)" using sys_okD(4) [OF ok nth_mem [OF True]] c by simp
  have "node_inv L nd None (rx_pending (sys_phase sys)) (sys_subscribers sys) \<and>
      balanced (nd_tx_locked (sys_node sys)) task (nd_tx_locked nd) task'"
    using f
  proof (elim disjE exE)
    assume "f = publish_step"
    with publish_step_ok [OF inv pl lock, of task' nd] np t show ?thesis by simp
  next
    fix free
    assume "f = (\<lambda>_. publish_timeout free)"
    with publish_timeout_ok [OF inv lock, of free task' nd] t show ?thesis by simp
  qed
  with publish_moved(1) [OF ok True, of nd task'] mv True c t np show ?thesis by (simp add: move_publish_def)
qed (use assms in \<open>simp add: move_publish_def\<close>)

lemma drop_publish_ok:
  assumes ok: "sys_ok L sys" and mv: "drop_publish k free sys = Ok sys'"
  shows "sys_ok L sys'"
proof (cases "k < length (sys_publishes sys)")
  case True
  obtain task' nd where t: "publish_timeout free (snd (sys_publishes sys ! k)) (sys_node sys) = (task', nd)" by force
  have lock: "holds_lock (snd (sys_publishes sys ! k)) \<longrightarrow> nd_tx_locked (sys_node sys)" using holder_locked(1) [OF ok nth_mem [OF True]] by simp
  note to = publish_timeout_ok [OF sys_okD(1) [OF ok] lock t]
  from publish_moved(2) [OF ok True to] mv True t show ?thesis by (simp add: drop_publish_def)
qed (use assms in \<open>simp add: drop_publish_def\<close>)

lemma start_subscribe_ok:
  assumes ok: "sys_ok L sys" and mv: "start_subscribe n p sys = Ok sys'"
  shows "sys_ok L sys'"
proof -
  obtain r nd where r: "subscribe_begin (sys_node sys) = (r, nd)" by force
  note sb = subscribe_begin_ok [OF sys_okD(1) [OF ok] r]
  note d = sys_okD [OF ok]
  show ?thesis
  proof (cases r)
    case (Ok sub)
    from sb(2) [OF Ok] sb(4) mv r Ok d(2-4) show ?thesis
      by (auto simp: start_subscribe_def sys_ok_def lock_holders_def sys_subscribers_def)
  next
    case (Err e)
    from sb(3) [OF Err] sb(4) mv r Err d(2-4) show ?thesis
      by (auto simp: start_subscribe_def sys_ok_def lock_holders_def sys_subscribers_def)
  qed (use sb(1) in simp)
qed

lemma move_subscribe_ok:
  assumes ok: "sys_ok L sys" and mv: "move_subscribe k f sys = Ok sys'" and f: "f = subscribe_step \<or> (\<exists>free. f = (\<lambda>_. subscribe_timeout free))"
  shows "sys_ok L sys'"
proof (cases "k < length (sys_subscribes sys)")
  case True
  define c where "c = sys_subscribes sys ! k"
  obtain task' nd where t: "f (sc_packet c) (sc_task c) (sys_node sys) = (task', nd)" by force
  have np: "task' \<noteq> Finished Panic" using mv True t by (auto simp: move_subscribe_def c_def split: if_splits)
  note inv = sys_okD(1) [OF ok]
  have lock: "holds_lock (sc_task c) \<longrightarrow> nd_tx_locked (sys_node sys)" using holder_locked(2) [OF ok nth_mem [OF True]] by (simp add: c_def)
  have "node_inv L nd None (rx_pending (sys_phase sys)) (sys_subscribers sys) \<and>
      balanced (nd_tx_locked (sys_node sys)) (sc_task c) (nd_tx_locked nd) task'"
    using f
  proof (elim disjE exE)
    assume "f = subscribe_step"
    with subscribe_step_ok [OF inv lock, of "sc_packet c" task' nd] np t show ?thesis by simp
  next
    fix free
    assume "f = (\<lambda>_. subscribe_timeout free)"
    with subscribe_timeout_ok [OF inv lock, of free task' nd] t show ?thesis by simp
  qed
  with subscribe_moved(1) [OF ok True c_def [symmetric], of nd task'] mv True t np show ?thesis
    by (simp add: move_subscribe_def c_def [symmetric])
qed (use assms in \<open>simp add: move_subscribe_def\<close>)

text \<open>A call that has finished does not hold the mutex.\<close>

lemma finished_balanced: "balanced l (Finished r) l (Finished r)"
  by (simp add: balanced_def)

lemma finish_subscribe_ok:
  assumes ok: "sys_ok L sys" and mv: "finish_subscribe k sys = Ok sys'"
  shows "sys_ok L sys'"
proof (cases "k < length (sys_subscribes sys) \<and> (\<exists>r. sc_task (sys_subscribes sys ! k) = Finished r)")
  case True
  then have k: "k < length (sys_subscribes sys)" by blast
  define c where "c = sys_subscribes sys ! k"
  obtain r where r: "sc_task c = Finished r" using True by (auto simp: c_def)
  obtain x nd where x: "subscribe_finish (sc_max_topics c) (sc_packet c) r (sc_subscriber c) (sys_node sys) = (x, nd)" by force
  have mem: "sc_subscriber c \<in># sys_subscribers sys" using subscriber_member(1) [OF k] by (simp add: c_def)
  note fin = subscribe_finish_ok [OF sys_okD(1) [OF ok] mem x]
  note d = sys_okD [OF ok]
  note gone = mset_map_remove [OF k, of sc_subscriber]
  note rem = length_filter_remove [OF k, of "\<lambda>c. holds_lock (sc_task c)"]
  have step: "finish_subscribe k sys =
      (case x of
         Ok sub \<Rightarrow> Ok (sys\<lparr>sys_node := nd, sys_subscribes := remove_nth k (sys_subscribes sys), sys_subscriptions := sys_subscriptions sys @ [sub]\<rparr>)
       | Err e \<Rightarrow> Ok (sys\<lparr>sys_node := nd, sys_subscribes := remove_nth k (sys_subscribes sys)\<rparr>)
       | Panic \<Rightarrow> Panic)"
    using k r x by (simp add: finish_subscribe_def c_def [symmetric] split: result.splits)
  show ?thesis
  proof (cases x)
    case (Ok sub)
    from fin(1) [OF Ok] fin(3) mv step Ok d(2-4) gone rem r show ?thesis
      by (auto simp: sys_ok_def lock_holders_def sys_subscribers_def c_def [symmetric] ac_simps)
  next
    case (Err e)
    have bal: "balanced (nd_tx_locked (sys_node sys)) (sc_task c) (nd_tx_locked nd) (sc_task c)" using fin(3) r by (simp add: balanced_def)
    from subscribe_moved(2) [OF ok k c_def [symmetric] bal fin(2) [OF Err]] r mv step Err show ?thesis by simp
  qed (use mv step in simp)
next
  case False
  with ok mv show ?thesis by (cases "sc_task (sys_subscribes sys ! k)") (auto simp: finish_subscribe_def split: if_splits)
qed

lemma drop_subscribe_ok:
  assumes ok: "sys_ok L sys" and mv: "drop_subscribe k free sys = Ok sys'"
  shows "sys_ok L sys'"
proof (cases "k < length (sys_subscribes sys)")
  case True
  define c where "c = sys_subscribes sys ! k"
  obtain task' nd1 where t: "subscribe_timeout free (sc_task c) (sys_node sys) = (task', nd1)" by force
  have lock: "holds_lock (sc_task c) \<longrightarrow> nd_tx_locked (sys_node sys)" using holder_locked(2) [OF ok nth_mem [OF True]] by (simp add: c_def)
  note to = subscribe_timeout_ok [OF sys_okD(1) [OF ok] lock t]
  obtain r nd where g: "subscriber_gone (sc_subscriber c) nd1 = (r, nd)" by force
  have mem: "sc_subscriber c \<in># sys_subscribers sys" using subscriber_member(1) [OF True] by (simp add: c_def)
  note gone = subscriber_gone_ok [OF to(1) mem g]
  have "balanced (nd_tx_locked (sys_node sys)) (sc_task c) (nd_tx_locked nd) task'" using to(2) gone(3) by simp
  from subscribe_moved(2) [OF ok True c_def [symmetric] this gone(2) to(3)] mv True t g gone(1) show ?thesis
    by (simp add: drop_subscribe_def c_def [symmetric])
qed (use assms in \<open>simp add: drop_subscribe_def\<close>)

text \<open>A subscription has a new position, or is gone.\<close>

lemma subscriptions_changed:
  assumes ok: "sys_ok L sys" and k: "k < length (sys_subscriptions sys)"
    and lock: "nd_tx_locked nd = nd_tx_locked (sys_node sys)"
  shows "node_inv L nd None (rx_pending (sys_phase sys))
        (add_mset (sub_subscriber sub) (sys_subscribers sys - {#sub_subscriber (sys_subscriptions sys ! k)#})) \<Longrightarrow>
      sys_ok L (sys\<lparr>sys_node := nd, sys_subscriptions := (sys_subscriptions sys)[k := sub], sys_messages := ms\<rparr>)"
    and "node_inv L nd None (rx_pending (sys_phase sys)) (sys_subscribers sys - {#sub_subscriber (sys_subscriptions sys ! k)#}) \<Longrightarrow>
      sys_ok L (sys\<lparr>sys_node := nd, sys_subscriptions := remove_nth k (sys_subscriptions sys)\<rparr>)"
proof -
  note d = sys_okD [OF ok]
  note gone = mset_map_remove [OF k, of sub_subscriber]
  have "mset (map sub_subscriber ((sys_subscriptions sys)[k := sub])) =
      add_mset (sub_subscriber sub) (mset (map sub_subscriber (sys_subscriptions sys)) - {#sub_subscriber (sys_subscriptions sys ! k)#})"
    using k by (simp add: map_update mset_update)
  then show "sys_ok L (sys\<lparr>sys_node := nd, sys_subscriptions := (sys_subscriptions sys)[k := sub], sys_messages := ms\<rparr>)"
    if "node_inv L nd None (rx_pending (sys_phase sys))
        (add_mset (sub_subscriber sub) (sys_subscribers sys - {#sub_subscriber (sys_subscriptions sys ! k)#}))"
    using that d(2-4) lock gone by (auto simp: sys_ok_def lock_holders_def sys_subscribers_def ac_simps)
  show "sys_ok L (sys\<lparr>sys_node := nd, sys_subscriptions := remove_nth k (sys_subscriptions sys)\<rparr>)"
    if "node_inv L nd None (rx_pending (sys_phase sys)) (sys_subscribers sys - {#sub_subscriber (sys_subscriptions sys ! k)#})"
    using that d(2-4) lock gone by (auto simp: sys_ok_def lock_holders_def sys_subscribers_def)
qed

lemma poll_subscription_ok:
  assumes ok: "sys_ok L sys"
  shows "poll_subscription k sys = Ok sys' \<Longrightarrow> sys_ok L sys'" and "poll_subscription k sys \<noteq> Panic"
proof -
  have "(\<exists>sys1. poll_subscription k sys = Ok sys1 \<and> sys_ok L sys1)"
  proof (cases "k < length (sys_subscriptions sys)")
    case True
    obtain r sub nd where p: "poll_next (sys_subscriptions sys ! k) (sys_node sys) = (r, sub, nd)" by (metis prod_cases3)
    note pn = poll_next_ok [OF sys_okD(1) [OF ok] subscriber_member(2) [OF True] p]
    from pn(1) subscriptions_changed(1) [OF ok True pn(3,2), of "sys_messages sys"]
      subscriptions_changed(1) [OF ok True pn(3,2), of "sys_messages sys @ [m]" for m] True p
    show ?thesis by (cases r) (auto simp: poll_subscription_def Let_def)
  qed (use ok in \<open>simp add: poll_subscription_def\<close>)
  then show "poll_subscription k sys = Ok sys' \<Longrightarrow> sys_ok L sys'" and "poll_subscription k sys \<noteq> Panic" by auto
qed

lemma drop_subscription_ok:
  assumes ok: "sys_ok L sys" and mv: "drop_subscription k free1 free2 sys = Ok sys'"
  shows "sys_ok L sys'"
proof (cases "k < length (sys_subscriptions sys)")
  case True
  obtain r nd where r: "subscription_drop free1 free2 (sys_subscriptions sys ! k) (sys_node sys) = (r, nd)" by force
  have "r \<noteq> Panic" using mv True r by (auto simp: drop_subscription_def)
  from subscription_drop_ok(2) [OF sys_okD(1) [OF ok] subscriber_member(2) [OF True] r this]
    subscriptions_changed(2) [OF ok True, of nd] mv True r show ?thesis by (simp add: drop_subscription_def)
qed (use assms in \<open>simp add: drop_subscription_def\<close>)

lemma start_unsubscribe_ok:
  assumes ok: "sys_ok L sys" and mv: "start_unsubscribe k sys = Ok sys'"
  shows "sys_ok L sys'"
proof (cases "k < length (sys_subscriptions sys)")
  case True
  note gone = mset_map_remove [OF True, of sub_subscriber]
  from sys_okD [OF ok] gone mv True show ?thesis
    by (auto simp: start_unsubscribe_def sys_ok_def lock_holders_def sys_subscribers_def ac_simps)
qed (use assms in \<open>simp add: start_unsubscribe_def\<close>)

lemma step_unsubscribe_ok:
  assumes ok: "sys_ok L sys" and mv: "step_unsubscribe k sys = Ok sys'"
  shows "sys_ok L sys'"
proof (cases "k < length (sys_unsubscribes sys)")
  case True
  obtain sub task where u: "sys_unsubscribes sys ! k = (sub, task)" by force
  obtain task' nd where t: "unsubscribe_step sub task (sys_node sys) = (task', nd)" by force
  have np: "task' \<noteq> Finished Panic" using mv True u t by (auto simp: step_unsubscribe_def split: if_splits)
  have lock: "holds_lock task \<longrightarrow> nd_tx_locked (sys_node sys)" using holder_locked(3) [OF ok nth_mem [OF True]] u by simp
  note st = unsubscribe_step_ok [OF sys_okD(1) [OF ok] lock t]
  from unsubscribe_moved(1) [OF ok True u st(2) [OF np] st(1)] mv True u t np show ?thesis by (simp add: step_unsubscribe_def)
qed (use assms in \<open>simp add: step_unsubscribe_def\<close>)

lemma unsubscribe_finish_sub [simp]: "sub_subscriber (unsubscribe_finish r sub) = sub_subscriber sub"
  by (simp add: unsubscribe_finish_def)

lemma end_unsubscribe_ok:
  assumes ok: "sys_ok L sys" and mv: "end_unsubscribe k free1 free2 sys = Ok sys'"
  shows "sys_ok L sys'"
proof (cases "k < length (sys_unsubscribes sys)")
  case True
  obtain sub task where u: "sys_unsubscribes sys ! k = (sub, task)" by force
  define sub1 where "sub1 = (case task of Finished r \<Rightarrow> unsubscribe_finish r sub | _ \<Rightarrow> sub)"
  have same: "sub_subscriber sub1 = sub_subscriber sub" by (auto simp: sub1_def split: Task.splits)
  obtain task' nd1 where t: "request_timeout 1 (\<lambda>_ sh. sh) task (sys_node sys) = (task', nd1)" by force
  have lock: "holds_lock task \<longrightarrow> nd_tx_locked (sys_node sys)" using holder_locked(3) [OF ok nth_mem [OF True]] u by simp
  note to = request_timeout_ok [OF sys_okD(1) [OF ok] _ lock [rule_format] t]
  have inv1: "node_inv L nd1 None (rx_pending (sys_phase sys)) (sys_subscribers sys)" using to(1) by blast
  have mem: "sub_subscriber sub1 \<in># sys_subscribers sys" using subscriber_member(3) [OF True] u same by simp
  obtain r nd where r: "subscription_drop free1 free2 sub1 nd1 = (r, nd)" by force
  have eq: "end_unsubscribe k free1 free2 sys =
      (if r = Panic then Panic else Ok (sys\<lparr>sys_node := nd, sys_unsubscribes := remove_nth k (sys_unsubscribes sys)\<rparr>))"
    using True u t r by (cases r) (simp_all add: end_unsubscribe_def Let_def sub1_def [symmetric])
  then have "r \<noteq> Panic" using mv by auto
  note dr = subscription_drop_ok(2) [OF inv1 mem r this]
  have "balanced (nd_tx_locked (sys_node sys)) task (nd_tx_locked nd) task'" using to(2) dr by simp
  from unsubscribe_moved(2) [OF ok True u this] dr same to(3) mv eq \<open>r \<noteq> Panic\<close> show ?thesis by simp
qed (use assms in \<open>simp add: end_unsubscribe_def\<close>)

text \<open>The stack.\<close>

lemma stack_moved:
  assumes ok: "sys_ok L sys" and "node_inv L nd None (rx_pending ph) (sys_subscribers sys)" and "phase_ok ph"
    and "nd_tx_locked nd = nd_tx_locked (sys_node sys)"
  shows "sys_ok L (sys\<lparr>sys_node := nd, sys_transport := t, sys_phase := ph\<rparr>)"
  using assms sys_okD [OF ok] by (auto simp: sys_ok_def lock_holders_def sys_subscribers_def)

lemma move_stack_ok:
  assumes sk: "socket_ok sk" and ok: "sys_ok L sys" and mv: "move_stack tr sk ct branch now sys = Ok sys'"
  shows "sys_ok L sys'"
proof -
  obtain x nd t where x: "stack_step tr sk ct branch now (sys_phase sys) (sys_node sys) (sys_transport sys) = Some (x, nd, t)"
    using mv by (auto simp: move_stack_def split: option.splits)
  note st = stack_step_ok [OF sk sys_okD(1,2) [OF ok] x]
  show ?thesis
    using stack_moved [OF ok] st mv x by (cases x) (auto simp: move_stack_def step_inv_def split: if_splits)
qed

lemma drop_stack_ok: "sys_ok L sys \<Longrightarrow> drop_stack t sys = Ok sys' \<Longrightarrow> sys_ok L sys'"
  using stack_dropped_ok [OF sys_okD(1), of L sys] stack_moved [of L sys _ AtTop] by (auto simp: drop_stack_def)

lemma disconnect_stack_ok:
  assumes ok: "sys_ok L sys" and mv: "disconnect_stack tr sk sys = Ok sys'"
  shows "sys_ok L sys'"
proof (cases "sys_phase sys = AtTop")
  case True
  obtain r nd t where r: "stack_disconnect tr sk (sys_node sys) (sys_transport sys) = (r, nd, t)" by (metis prod_cases3)
  then have "node_inv L nd None None (sys_subscribers sys) \<and> nd_tx_locked nd = nd_tx_locked (sys_node sys)"
    using sys_okD(1) [OF ok] True
    by (auto simp: stack_disconnect_def intro: node_inv_shared(2) shared_reset_ok split: result.splits prod.splits)
  with sys_okD [OF ok] mv True r show ?thesis
    by (cases r) (auto simp: disconnect_stack_def sys_ok_def lock_holders_def sys_subscribers_def)
qed (use assms in \<open>simp add: disconnect_stack_def\<close>)

text \<open>A publish of the application has a payload that leaves the length of the buffer it writes into alone.\<close>

fun action_ok :: "('t, 's) Action \<Rightarrow> bool" where
  "action_ok (StartPublish p) = payload_in_place (pub_payload p)"
| "action_ok _ = True"

lemma sys_exec_ok:
  assumes sk: "socket_ok sk" and ok: "sys_ok L sys" and a: "action_ok a" and ex: "sys_exec tr sk a sys = Ok sys'"
  shows "sys_ok L sys'"
proof (cases a)
  case (StartPublish p)
  with ok a ex show ?thesis
    by (auto simp: start_publish_def sys_ok_def lock_holders_def sys_subscribers_def)
next
  case (DropMessage k)
  note d = sys_okD [OF ok]
  from DropMessage ok ex message_drop_ok [OF d(1)] d show ?thesis
    by (auto simp: drop_message_def sys_ok_def lock_holders_def sys_subscribers_def split: if_splits)
qed (use ex in \<open>auto intro: move_publish_ok [OF ok] drop_publish_ok [OF ok] start_subscribe_ok [OF ok] move_subscribe_ok [OF ok]
    finish_subscribe_ok [OF ok] drop_subscribe_ok [OF ok] poll_subscription_ok(1) [OF ok] drop_subscription_ok [OF ok]
    start_unsubscribe_ok [OF ok] step_unsubscribe_ok [OF ok] end_unsubscribe_ok [OF ok] move_stack_ok [OF sk ok] drop_stack_ok [OF ok]
    disconnect_stack_ok [OF ok]\<close>)

section \<open>Reachable systems\<close>

text \<open>The states that actions of a set \<open>A\<close>, performed one after the other, lead to from a new node.\<close>

inductive sys_reach :: "(('t, 's) Action \<Rightarrow> bool) \<Rightarrow> ('t, 's) Transport \<Rightarrow> 's Socket \<Rightarrow> nat \<Rightarrow> 't System \<Rightarrow> bool"
  for A tr sk TX where
  sys_init: "mqtt_new TX RX config now = Ok nd \<Longrightarrow> sys_reach A tr sk TX (sys_new nd t)"
| sys_step: "sys_reach A tr sk TX sys \<Longrightarrow> A a \<Longrightarrow> sys_exec tr sk a sys = Ok sys' \<Longrightarrow> sys_reach A tr sk TX sys'"

lemma sys_reach_run:
  "sys_reach A tr sk TX sys \<Longrightarrow> list_all A as \<Longrightarrow> sys_run tr sk as sys = Ok sys' \<Longrightarrow> sys_reach A tr sk TX sys'"
proof (induction as arbitrary: sys)
  case (Cons a as)
  from Cons.prems(3) obtain sys1 where "sys_exec tr sk a sys = Ok sys1" "sys_run tr sk as sys1 = Ok sys'"
    by (auto simp: rbind_Ok_iff)
  with Cons.IH Cons.prems(1,2) show ?case by (auto intro: sys_step)
qed simp

lemma new_reader_ok: "reader_ok reader_new"
  by (simp add: reader_new_def reader_ok_def)

lemma mqtt_new_inv:
  assumes "mqtt_new TX RX config now = Ok nd"
  shows "node_inv TX nd None None {#}" and "\<not> nd_tx_locked nd"
proof -
  have "node_inv TX nd None None {#} \<and> \<not> nd_tx_locked nd"
    using assms
    by (auto simp: mqtt_new_unfold node_inv_def chan_inv_def frames_ok_def chan_ok_def shared_new_ok new_reader_ok st_ok_def ids_ok_def)
  then show "node_inv TX nd None None {#}" "\<not> nd_tx_locked nd" by blast+
qed

lemma sys_reach_ok:
  assumes "socket_ok sk" and A: "\<And>a. A a \<Longrightarrow> action_ok a" and reach: "sys_reach A tr sk TX sys"
  shows "sys_ok TX sys"
  using reach
proof induction
  case (sys_init RX config now nd t)
  from mqtt_new_inv [OF this] show ?case
    by (simp add: sys_new_def sys_ok_def sys_subscribers_def lock_holders_def)
next
  case (sys_step sys a sys')
  with sys_exec_ok [OF assms(1) _ A] show ?case by blast
qed

end
