(* ===== verification/Stack_Safety.thy ===== *)
theory Stack_Safety
  imports Stack_Inv
begin

text \<open>
  When a step of the stack panics.  The socket and the transport never do, and neither do the channels; what is left
  are two kinds of packets a broker can send that the reader does not survive, two sets of packet identifiers without
  room, a CONNECT packet that does not fit its buffer, and the counter of the attempts to connect.
\<close>

section \<open>Sockets and transports that never panic\<close>

definition socket_safe :: "'s Socket \<Rightarrow> bool" where
  "socket_safe sk \<longleftrightarrow> socket_ok sk \<and> (\<forall>bs s. fst (sk_write_all sk bs s) \<noteq> Panic) \<and> (\<forall>s. fst (sk_flush sk s) \<noteq> Panic)"

definition transport_safe :: "('t, 's) Transport \<Rightarrow> bool" where
  "transport_safe tr \<longleftrightarrow>
     (\<forall>t. fst (tr_connect tr t) \<noteq> Panic \<and> fst (tr_disconnect tr t) \<noteq> Panic \<and> tr_socket tr t \<noteq> Panic)"

lemma socket_safeD:
  assumes "socket_safe sk"
  shows "socket_ok sk" and "write_bytes sk bs s \<noteq> (Panic, s')"
  using assms by (auto simp: socket_safe_def write_bytes_def split: prod.splits result.splits) (metis fst_conv)+

lemma nal_transport_safe: "(\<And>a. net a \<noteq> Panic) \<Longrightarrow> transport_safe (nal_transport get_address net)"
  by (auto simp: transport_safe_def nal_transport_def nal_connect_def nal_disconnect_def nal_get_socket_def Let_def
      split: prod.splits option.splits result.splits)

lemma stream_socket_safe: "socket_safe stream_socket"
  by (auto simp: socket_safe_def socket_ok_def stream_socket_def split: prod.splits)

section \<open>Encoding the packets of the stack\<close>

text \<open>The packets of the stack fit its buffer of 32 bytes.\<close>

lemma encode_fits:
  assumes "packet_encoder to_buffer ok body ptype flags" and "ok p" and "MAX_MQTT_HEADER_LEN + length (body p) \<le> length buf"
    and "length buf = 32"
  shows "encode_packet to_buffer p buf \<noteq> Panic"
  using packet_encoder.to_buffer_fits [OF assms(1,2,3)] assms(3,4) by (auto simp: encode_packet_def)

lemma stack_packets_encode:
  assumes "length buf = 32"
  shows "pid_ok pid \<Longrightarrow> encode_packet puback_to_buffer \<lparr>pa_pid = pid, pa_reason_code = PA_Success, pa_properties = Slice []\<rparr> buf \<noteq> Panic"
    and "pid_ok pid \<Longrightarrow> encode_packet pubrec_to_buffer \<lparr>pr_pid = pid, pr_reason_code = PR_Success, pr_properties = Slice []\<rparr> buf \<noteq> Panic"
    and "pid_ok pid \<Longrightarrow> encode_packet pubrel_to_buffer \<lparr>pl_pid = pid, pl_reason_code = PL_Success, pl_properties = Slice []\<rparr> buf \<noteq> Panic"
    and "pid_ok pid \<Longrightarrow> encode_packet pubcomp_to_buffer \<lparr>pc_pid = pid, pc_reason_code = PC_Success, pc_properties = Slice []\<rparr> buf \<noteq> Panic"
    and "encode_packet pingreq_to_buffer PingReq buf \<noteq> Panic"
  using encode_fits [OF puback.packet_encoder_axioms _ _ assms] encode_fits [OF pubrec.packet_encoder_axioms _ _ assms]
    encode_fits [OF pubrel.packet_encoder_axioms _ _ assms] encode_fits [OF pubcomp.packet_encoder_axioms _ _ assms]
    encode_fits [OF pingreq.packet_encoder_axioms _ _ assms] assms
  by (simp_all add: puback_ok_def puback_body_def pubrec_ok_def pubrec_body_def pubrel_ok_def pubrel_body_def pubcomp_ok_def
      pubcomp_body_def ack_body_def props_ok_def MAX_MQTT_HEADER_LEN_def)

lemma disconnect_encodes:
  assumes "length buf = 32"
  shows "encode_packet disconnect_to_buffer \<lparr>dc_reason_code = DR_Normal, dc_properties = Slice [SessionExpiryInterval 0]\<rparr> buf \<noteq> Panic"
proof -
  let ?p = "\<lparr>dc_reason_code = DR_Normal, dc_properties = Slice [SessionExpiryInterval 0]\<rparr>"
  have "length (disconnect_body ?p) = 7" by code_simp
  moreover have "length (wire_block (Slice [SessionExpiryInterval 0])) = 5" by code_simp
  ultimately show ?thesis
    using encode_fits [OF disconnect.packet_encoder_axioms, of ?p buf] assms
    by (simp add: disconnect_ok_def props_ok_def MAX_MQTT_HEADER_LEN_def)
qed

lemma send_packet_Panic:
  assumes "socket_safe sk" and "encode_packet to_buffer p (nd_write_buf nd) \<noteq> Panic"
  shows "send_packet sk to_buffer p nd s \<noteq> (Panic, s')"
  using assms socket_safeD(2) [OF assms(1)] by (auto simp: send_packet_def split: result.splits)

section \<open>Receiving\<close>

text \<open>
  The two inputs: a packet that ends before the bytes the reader took to parse its header, and a SUBACK or UNSUBACK with
  more reason codes than a message can hold.
\<close>

definition overrun :: "bytes \<Rightarrow> bool" where
  "overrun bs \<longleftrightarrow> (\<exists>n. parse_header bs = Ok n \<and> n < length bs)"

definition long_codes :: "bytes \<Rightarrow> bool" where
  "long_codes bs \<longleftrightarrow>
     (\<exists>d pid props payload d'. decoder_try_new bs = Ok d \<and> fh_typ (dec_fixed_header d) \<in> {PT_SubAck, PT_UnsubAck} \<and>
        codes_prefix d = Ok ((pid, props, payload), d') \<and> MAX_SUB_TOPICS_PER_MSG < length payload)"

definition bad_input :: "PacketReader \<Rightarrow> bool" where
  "bad_input pr \<longleftrightarrow>
     overrun (take (pr_read_bytes pr) (pr_buf pr)) \<or>
     (\<exists>n. pr_packet_len pr = Some n \<and> long_codes (take (min n (pr_read_bytes pr)) (pr_buf pr)))"

lemma parse_header_not_Panic: "parse_header bs \<noteq> Panic"
proof -
  have wf: "dec_offset d \<le> length (dec_buf d)" if "decoder_try_new bs = Ok d" for d
    using decoder_try_new_wf [OF that] by simp
  have str: "read_str d \<noteq> Panic" "read_str d = Ok (t, d') \<Longrightarrow> \<not> length (dec_buf d') < dec_offset d'"
    if "dec_offset d \<le> length (dec_buf d)" for d d' t
    using that by (auto simp: read_str_def read_slice_def read_u16_def take_slice_def dec_check_remaining_def rbind_Panic_iff
        rbind_Ok_iff split: if_splits prod.splits)
  with wf show ?thesis
    by (auto simp: parse_header_def rbind_Panic_iff dec_check_remaining_def dest: str(2) split: if_splits)
qed

lemma read_chunk_Panic:
  assumes sk: "socket_ok sk" and pr: "reader_ok pr" "pr_packet_len pr = None" and rd: "read_chunk sk pr s = (Panic, pr', s')"
  shows "overrun (take (pr_read_bytes pr') (pr_buf pr'))"
proof -
  have sock: "fst (sk_read sk n s) \<noteq> Panic" for n using sk by (simp add: socket_ok_def)
  have "fst (next_read_buf pr) = Panic \<and> pr' = snd (next_read_buf pr)"
    using rd sock by (auto simp: read_chunk_def split: prod.splits result.splits if_splits) (metis fst_conv)
  with pr show ?thesis
    using parse_header_not_Panic [of "take (pr_read_bytes pr) (pr_buf pr)"]
    by (auto simp: next_read_buf_def try_parse_header_def read_end_def Let_def reader_ok_def overrun_def
        split: if_splits result.splits EncodingError.splits)
qed

lemma recv_loop_Panic:
  assumes "recv_loop sk pr s = Some y"
  shows "socket_ok sk \<longrightarrow> reader_ok pr \<longrightarrow> (fst y = Panic \<longrightarrow> overrun (take (pr_read_bytes (fst (snd y))) (pr_buf (fst (snd y)))))
    \<and> (\<forall>u. fst y = Ok u \<longrightarrow> pr_packet_len (fst (snd y)) \<noteq> None)"
  using assms
proof (rule recv_loop.raw_induct [rotated])
  fix loop sk pr s y
  assume IH: "\<And>sk pr s y. loop sk pr s = Some y \<Longrightarrow>
      socket_ok sk \<longrightarrow> reader_ok pr \<longrightarrow> (fst y = Panic \<longrightarrow> overrun (take (pr_read_bytes (fst (snd y))) (pr_buf (fst (snd y)))))
      \<and> (\<forall>u. fst y = Ok u \<longrightarrow> pr_packet_len (fst (snd y)) \<noteq> None)"
    and eq: "(if pr_packet_len pr = None then
        (case read_chunk sk pr s of
           (Ok u, pr1, s1) \<Rightarrow> loop sk pr1 s1
         | (Err k, pr1, s1) \<Rightarrow> Some (Err (Io k), pr1, s1)
         | (Panic, pr1, s1) \<Rightarrow> Some (Panic, pr1, s1))
      else Some (Ok (), pr, s)) = Some y"
  show "socket_ok sk \<longrightarrow> reader_ok pr \<longrightarrow> (fst y = Panic \<longrightarrow> overrun (take (pr_read_bytes (fst (snd y))) (pr_buf (fst (snd y)))))
      \<and> (\<forall>u. fst y = Ok u \<longrightarrow> pr_packet_len (fst (snd y)) \<noteq> None)"
  proof (intro impI)
    assume ok: "socket_ok sk" "reader_ok pr"
    obtain r pr1 s1 where r: "read_chunk sk pr s = (r, pr1, s1)" by (metis prod_cases3)
    with read_chunk_ok [OF ok r] read_chunk_Panic [OF ok, of s pr1 s1] eq ok IH [of sk pr1 s1 y]
    show "(fst y = Panic \<longrightarrow> overrun (take (pr_read_bytes (fst (snd y))) (pr_buf (fst (snd y)))))
        \<and> (\<forall>u. fst y = Ok u \<longrightarrow> pr_packet_len (fst (snd y)) \<noteq> None)"
      by (cases r) (auto split: if_splits)
  qed
qed

lemma recv_Panic:
  assumes sk: "socket_ok sk" and pr: "reader_ok pr" and rc: "recv sk pr s = Some (Panic, pr', s')"
  shows "bad_input pr'"
proof -
  let ?pr = "if pr_packet_len pr \<noteq> None then reader_reset pr else pr"
  have ok: "reader_ok ?pr" using pr by simp
  from rc obtain r where r: "recv_loop sk ?pr s = Some (r, pr', s')" "r = Panic \<or> (\<exists>u. r = Ok u \<and> reader_decode pr' = Panic)"
    by (auto simp: recv_def Let_def split: option.splits result.splits prod.splits)
  have pr': "reader_ok pr'" using recv_loop_ok [OF r(1)] sk ok by simp
  note lp = recv_loop_Panic [OF r(1), rule_format, OF sk ok]
  from r(2) show ?thesis
  proof
    assume "r = Panic"
    with lp show ?thesis by (simp add: bad_input_def)
  next
    assume "\<exists>u. r = Ok u \<and> reader_decode pr' = Panic"
    then obtain n where n: "pr_packet_len pr' = Some n" and d: "reader_decode pr' = Panic" using lp by auto
    let ?buf = "take (min n (pr_read_bytes pr')) (pr_buf pr')"
    have fb: "from_buffer ?buf = Panic" using d n pr' by (auto simp: reader_decode_def Let_def reader_ok_def split: if_splits)
    then obtain dd where dd: "decoder_try_new ?buf = Ok dd" by (cases "decoder_try_new ?buf") (auto simp: from_buffer_def)
    have "length ?buf \<le> packet_len dd" using pr' n packet_len_prefix [OF dd] by (force simp: reader_ok_def)
    from from_buffer_panic [OF dd this fb] dd n show ?thesis unfolding bad_input_def long_codes_def by blast
  qed
qed

text \<open>The identifiers of received packets are not 0, and their properties are a block of bytes.\<close>

lemma decoder_parts:
  "pubrec_from_decoder d = Ok (p1, d') \<Longrightarrow> pid_ok (pr_pid p1)"
  "pubrel_from_decoder d = Ok (p2, d') \<Longrightarrow> pid_ok (pl_pid p2)"
  "connack_from_decoder d = Ok (p3, d') \<Longrightarrow> \<exists>data. ca_properties p3 = DataBlock data"
  by (auto simp: pubrec_from_decoder_def pubrel_from_decoder_def connack_from_decoder_def read_properties_def
      pid_try_from_def pid_ok_def Let_def rbind_Ok_iff split: if_splits)

lemma from_buffer_parts:
  assumes "from_buffer bs = Ok pk"
  shows "pk = RP_PubRec p1 \<Longrightarrow> pid_ok (pr_pid p1)" and "pk = RP_PubRel p2 \<Longrightarrow> pid_ok (pl_pid p2)"
    and "pk = RP_ConnAck p3 \<Longrightarrow> \<exists>data. ca_properties p3 = DataBlock data"
proof -
  from assms obtain d where "decoder_try_new bs = Ok d" by (auto simp: from_buffer_def rbind_Ok_iff)
  with assms show "pk = RP_PubRec p1 \<Longrightarrow> pid_ok (pr_pid p1)" and "pk = RP_PubRel p2 \<Longrightarrow> pid_ok (pl_pid p2)"
    and "pk = RP_ConnAck p3 \<Longrightarrow> \<exists>data. ca_properties p3 = DataBlock data"
    by (cases "fh_typ (dec_fixed_header d)"; auto simp: from_buffer_def rbind_Ok_iff Let_def intro: decoder_parts)+
qed

lemma recv_parts:
  "recv sk pr s = Some (Ok (RP_PubRec p1), pr', s') \<Longrightarrow> pid_ok (pr_pid p1)"
  "recv sk pr s = Some (Ok (RP_PubRel p2), pr', s') \<Longrightarrow> pid_ok (pl_pid p2)"
  "recv sk pr s = Some (Ok (RP_ConnAck p3), pr', s') \<Longrightarrow> \<exists>data. ca_properties p3 = DataBlock data"
  by (auto simp: recv_def reader_decode_def Let_def intro: from_buffer_parts [OF _ refl]
      split: option.splits prod.splits result.splits if_splits)

section \<open>Packets without room for their identifier\<close>

text \<open>A PUBREC for a publish in flight when the set of releases is full, and a QoS 2 PUBLISH when the set of received ones is.\<close>

definition rel_full :: "PubRec \<Rightarrow> Shared \<Rightarrow> bool" where
  "rel_full p sh \<longleftrightarrow> pid_get (pr_pid p) \<in> set (sh_inflight_pub sh) \<and> length (sh_outgoing_rel sh) = MAX_INFLIGHT \<and>
     pid_get (pr_pid p) \<notin> set (sh_outgoing_rel sh)"

fun incoming_full :: "QosPid \<Rightarrow> Shared \<Rightarrow> bool" where
  "incoming_full (QP_ExactlyOnce pid) sh \<longleftrightarrow>
     length (sh_incoming_pub sh) = MAX_INFLIGHT \<and> pid_get pid \<notin> set (sh_incoming_pub sh)"
| "incoming_full _ sh \<longleftrightarrow> False"

lemma handle_pub_rec_Panic:
  assumes "shared_ok sh" and "handle_pub_rec p sh = (Panic, sh')"
  shows "rel_full p sh"
proof -
  have "length (sh_outgoing_rel sh) \<le> MAX_INFLIGHT" using assms(1) by (simp add: shared_ok_def iset_ok_def)
  with assms(2) show ?thesis
    by (auto simp: handle_pub_rec_def rel_full_def iset_remove_def iset_insert_def Let_def split: bool.splits option.splits if_splits)
qed

lemma acknowledge_Panic:
  assumes inv: "shared_ok (nd_shared nd)" and len: "length (nd_write_buf nd) = 32" and sk: "socket_safe sk" and q: "qp_ok q"
    and ack: "acknowledge sk q nd s = (Panic, nd', s')"
  shows "incoming_full q (nd_shared nd)"
proof -
  note enc = stack_packets_encode [OF len]
  show ?thesis
  proof (cases q)
    case (QP_AtLeastOnce pid)
    with ack q send_packet_Panic [OF sk enc(1)] show ?thesis by (auto simp: acknowledge_def qp_ok_def split: prod.splits)
  next
    case (QP_ExactlyOnce pid)
    have le: "length (sh_incoming_pub (nd_shared nd)) \<le> MAX_INFLIGHT" using inv by (simp add: shared_ok_def iset_ok_def)
    have "send_packet sk pubrec_to_buffer \<lparr>pr_pid = pid, pr_reason_code = PR_Success, pr_properties = Slice []\<rparr> nd1 s \<noteq> (Panic, s')"
      if "nd_write_buf nd1 = nd_write_buf nd" for nd1
      using q QP_ExactlyOnce enc(2) that by (intro send_packet_Panic [OF sk]) (simp add: qp_ok_def)
    from this [of nd] this [of "nd\<lparr>nd_shared := _\<rparr>"] ack QP_ExactlyOnce le show ?thesis
      by (auto simp: acknowledge_def record_incoming_def iset_insert_def Let_def split: prod.splits option.splits if_splits)
  qed (use ack in \<open>simp add: acknowledge_def\<close>)
qed

lemma reply_Panic:
  assumes "reply sk to_buffer rs nd s = (Panic, nd', s')"
  shows "fst rs = Panic \<or> (\<exists>p s1. fst rs = Ok p \<and> send_packet sk to_buffer p nd s = (Panic, s1))"
  using assms by (auto simp: reply_def split: prod.splits result.splits)

lemma on_packet_Panic:
  assumes inv: "node_inv L nd tg rg M" and sk: "socket_safe sk" and np: "\<And>q t pp. packet \<noteq> RP_PartialPublish q t pp"
    and pid: "\<And>p. packet = RP_PubRec p \<Longrightarrow> pid_ok (pr_pid p)" "\<And>p. packet = RP_PubRel p \<Longrightarrow> pid_ok (pl_pid p)"
    and on: "on_packet sk packet nd s = (Panic, nd', s')"
  shows "\<exists>p. packet = RP_PubRec p \<and> rel_full p (nd_shared nd)"
proof -
  note enc = stack_packets_encode [OF node_invD(5) [OF inv]]
  show ?thesis
  proof (cases packet)
    case (RP_PubRec p)
    let ?rel = "\<lparr>pl_pid = pr_pid p, pl_reason_code = PL_Success, pl_properties = Slice []\<rparr>"
    have "send_packet sk pubrel_to_buffer ?rel nd s \<noteq> (Panic, s1)" for s1
      by (rule send_packet_Panic [OF sk enc(3) [OF pid(1) [OF RP_PubRec]]])
    moreover have "x = ?rel" if "fst (handle_pub_rec p (nd_shared nd)) = Ok x" for x
      using that by (auto simp: handle_pub_rec_def Let_def split: prod.splits bool.splits option.splits)
    ultimately have "fst (handle_pub_rec p (nd_shared nd)) = Panic"
      using reply_Panic [of sk pubrel_to_buffer "handle_pub_rec p (nd_shared nd)" nd s nd' s'] on RP_PubRec
      by (auto simp: on_packet_def Let_def)
    with RP_PubRec show ?thesis
      using handle_pub_rec_Panic [OF node_invD(1) [OF inv]] by (metis prod.collapse)
  next
    case (RP_PubRel p)
    let ?comp = "\<lparr>pc_pid = pl_pid p, pc_reason_code = PC_Success, pc_properties = Slice []\<rparr>"
    have "send_packet sk pubcomp_to_buffer ?comp nd s \<noteq> (Panic, s1)" for s1
      by (rule send_packet_Panic [OF sk enc(4) [OF pid(2) [OF RP_PubRel]]])
    moreover have "fst (handle_pub_rel p (nd_shared nd)) \<noteq> Panic" "x = ?comp" if "fst (handle_pub_rel p (nd_shared nd)) = Ok x" for x
      using that by (auto simp: handle_pub_rel_def split: prod.splits bool.splits)
    moreover have "fst (handle_pub_rel p (nd_shared nd)) \<noteq> Panic" by (auto simp: handle_pub_rel_def split: prod.splits bool.splits)
    ultimately show ?thesis
      using reply_Panic [of sk pubcomp_to_buffer "handle_pub_rel p (nd_shared nd)" nd s nd' s'] on RP_PubRel
      by (auto simp: on_packet_def Let_def)
  qed (use on np in \<open>auto simp: on_packet_def quiet_def Let_def handle_pub_ack_def handle_pub_comp_def handle_sub_ack_def
      handle_unsub_ack_def split: prod.splits bool.splits option.splits AckStatus.splits\<close>)
qed

section \<open>Connecting\<close>

lemma connect_answer_Panic:
  "connect_answer packet nd = (Panic, nd') \<Longrightarrow> (\<And>p. packet = Ok (RP_ConnAck p) \<Longrightarrow> \<exists>data. ca_properties p = DataBlock data) \<Longrightarrow>
   packet = Panic"
  by (fastforce simp: connect_answer_def handle_connack_def Let_def split: result.splits ReceivedPacket.splits prod.splits if_splits)

text \<open>
  What arrives: \<open>recv\<close>, on the reader of the node and the socket as it is now, panics on one of the two inputs, or gives
  a PUBREC whose identifier finds no room.
\<close>

definition bad_packet :: "'s Socket \<Rightarrow> Node \<Rightarrow> 's \<Rightarrow> bool" where
  "bad_packet sk nd s \<longleftrightarrow>
     (case recv sk (nd_reader nd) s of Some (Panic, pr, s1) \<Rightarrow> bad_input pr | _ \<Rightarrow> False)"

definition bad_pubrec :: "'s Socket \<Rightarrow> Node \<Rightarrow> 's \<Rightarrow> bool" where
  "bad_pubrec sk nd s \<longleftrightarrow>
     (case recv sk (nd_reader nd) s of Some (Ok (RP_PubRec p), pr, s1) \<Rightarrow> rel_full p (nd_shared nd) | _ \<Rightarrow> False)"

definition connect_unencodable :: "Node \<Rightarrow> bool" where
  "connect_unencodable nd \<longleftrightarrow> encode_packet connect_to_buffer (connect_packet nd) (replicate 1024 0) = Panic"

lemma connect_send_Panic:
  assumes "socket_safe sk" and "connect_send sk now nd s = (Panic, nd', s')"
  shows "connect_unencodable nd"
  using assms socket_safeD(2) [OF assms(1)]
  by (auto simp: connect_send_def connect_unencodable_def split: result.splits prod.splits)

lemma connect_send_same:
  "connect_send sk now nd s = (r, nd', s') \<Longrightarrow> nd_reader nd' = nd_reader nd \<and> nd_connect_attempts nd' = nd_connect_attempts nd"
  by (auto simp: connect_send_def split: result.splits prod.splits)

text \<open>The answer to CONNECT, read from the socket CONNECT was written to.\<close>

definition bad_answer :: "'s Socket \<Rightarrow> nat \<Rightarrow> Node \<Rightarrow> 's \<Rightarrow> bool" where
  "bad_answer sk now nd s \<longleftrightarrow>
     (case connect_send sk now nd s of (Ok _, nd1, s1) \<Rightarrow> bad_packet sk nd1 s1 | _ \<Rightarrow> False)"

lemma connect_mqtt_Panic:
  assumes sk: "socket_safe sk" and inv: "node_inv L nd tg rg M" and c: "connect_mqtt sk now nd s = Some (Panic, nd', s')"
  shows "connect_unencodable nd \<or> bad_answer sk now nd s"
proof -
  obtain x nd1 s1 where x: "connect_send sk now nd s = (x, nd1, s1)" by (metis prod_cases3)
  note same = connect_send_same [OF x]
  show ?thesis
  proof (cases x)
    case (Ok u)
    with c x same obtain packet pr s2 where p: "recv sk (nd_reader nd) s1 = Some (packet, pr, s2)" by (auto simp: connect_mqtt_def)
    with c x same Ok have a: "connect_answer packet (nd1\<lparr>nd_reader := pr\<rparr>) = (Panic, nd')"
      by (auto simp: connect_mqtt_def split: prod.splits)
    have "packet = Panic" by (rule connect_answer_Panic [OF a]) (rule recv_parts(3) [of sk "nd_reader nd" s1 _ pr s2], simp add: p)
    moreover have "bad_input pr" if "packet = Panic" using recv_Panic [OF socket_safeD(1) [OF sk] node_invD(4) [OF inv]] p that by blast
    ultimately show ?thesis using p x same Ok by (simp add: bad_answer_def bad_packet_def)
  next
    case Panic
    with connect_send_Panic [OF sk] x show ?thesis by blast
  qed (use c x in \<open>simp add: connect_mqtt_def\<close>)
qed

text \<open>
  The attempt: the transport connects, and the packet for the socket it gives cannot be encoded or what answers it there
  is bad.
\<close>

definition bad_attempt :: "('t, 's) Transport \<Rightarrow> 's Socket \<Rightarrow> nat \<Rightarrow> Node \<Rightarrow> 't \<Rightarrow> bool" where
  "bad_attempt tr sk now nd t \<longleftrightarrow>
     (case tr_connect tr t of
        (Ok _, t1) \<Rightarrow> (case tr_socket tr t1 of Ok s \<Rightarrow> connect_unencodable nd \<or> bad_answer sk now nd s | _ \<Rightarrow> False)
      | _ \<Rightarrow> False)"

lemma connect_attempt_Panic:
  assumes sk: "socket_safe sk" and tr: "transport_safe tr" and inv: "node_inv L nd tg rg M"
    and c: "connect_attempt tr sk ct now nd t = Some (Some Panic, nd', t')"
  shows "bad_attempt tr sk now nd t"
proof -
  obtain x t1 where x: "tr_connect tr t = (x, t1)" by force
  have np: "x \<noteq> Panic" "tr_socket tr t1 \<noteq> Panic" using tr x by (auto simp: transport_safe_def) (metis fst_conv)
  show ?thesis
  proof (cases ct)
    case NoCut
    with c x np connect_mqtt_Panic [OF sk inv] show ?thesis
      by (auto simp: connect_attempt_def bad_attempt_def split: result.splits)
  next
    case (CutRecv n)
    with c x np connect_send_Panic [OF sk] show ?thesis
      by (auto simp: connect_attempt_def bad_attempt_def split: result.splits prod.splits)
  qed (use c x np in \<open>auto simp: connect_attempt_def split: result.splits\<close>)
qed

section \<open>A step of the stack\<close>

text \<open>The counter of the attempts is full, and the backoff would allow one more.\<close>

definition attempts_full :: "Node \<Rightarrow> bool" where
  "attempts_full nd \<longleftrightarrow>
     unat (nd_connect_attempts nd) = 255 \<and> cfg_backoff_algo (nd_config nd) (nd_connect_attempts nd) \<noteq> None"

text \<open>
  What makes a step in a phase panic, in terms of the socket the step uses: the one the transport gives, once it has
  connected in \<open>Attempting\<close>, and as it is in \<open>Selecting\<close>.
\<close>

definition stack_cause ::
  "('t, 's) Transport \<Rightarrow> 's Socket \<Rightarrow> ('t, 's) Cut \<Rightarrow> Branch \<Rightarrow> nat \<Rightarrow> StackPhase \<Rightarrow> Node \<Rightarrow> 't \<Rightarrow> bool" where
  "stack_cause tr sk ct branch now ph nd t \<longleftrightarrow>
     (case ph of
        Attempting \<Rightarrow> attempts_full nd \<or> bad_attempt tr sk now nd t
      | Selecting \<Rightarrow>
          branch = RxReady \<and> (case tr_socket tr t of Ok s \<Rightarrow> bad_packet sk nd s \<or> bad_pubrec sk nd s | _ \<Rightarrow> False)
      | Storing q pp g \<Rightarrow> incoming_full q (nd_shared nd)
      | _ \<Rightarrow> False)"

lemma finish_select_Panic: "finish_select now x = (Panic, nd, s) \<longleftrightarrow> x = (Panic, nd, s)"
  by (auto simp: finish_select_def split: prod.splits result.splits)

lemma discard_loop_not_Panic: "socket_ok sk \<Longrightarrow> discard_loop sk left s \<noteq> (Panic, s')"
proof (induction sk left s rule: discard_loop.induct)
  case (1 sk left s)
  obtain r s1 where r: "sk_read_exact sk (min left 64) s = (r, s1)" by force
  then have "r \<noteq> Panic" using "1.prems" unfolding socket_ok_def by (metis fst_conv)
  then show ?case
    using "1.IH" [OF _ refl r [symmetric]] "1.prems" r by (subst discard_loop.simps) (auto simp: Let_def split: result.splits)
qed

lemma publish_begin_Panic:
  assumes "socket_ok sk" and "node_inv L nd None None M"
  shows "publish_begin sk now q pp nd s \<noteq> (Inr Panic, nd', s')"
proof -
  obtain r st where r: "grant_immediate (pp_packet_len pp) (ch_state (nd_rx nd)) = (r, st)" by force
  with chan_grant_immediate(1) [OF node_invD(3) [OF assms(2)] r] discard_loop_not_Panic [OF assms(1)] show ?thesis
    by (cases r) (auto simp: publish_begin_def Let_def discard_def finish_select_def split: prod.splits result.splits)
qed

lemma tx_begin_Panic:
  assumes "node_inv L nd None None M"
  shows "tx_begin nd s \<noteq> (Inr Panic, nd', s')"
proof -
  obtain r sub st where r: "read_with_context True (nd_tx_sub nd) (ch_state (nd_tx nd)) = (r, sub, st)" by (metis prod_cases3)
  have "nd_tx_sub nd \<in># {#nd_tx_sub nd#}" by simp
  from chan_read(1) [OF node_invD(2) [OF assms] this r] r show ?thesis by (cases r) (auto simp: tx_begin_def)
qed

lemma rx_begin_Panic:
  assumes sk: "socket_safe sk" and inv: "node_inv L nd None None M" and rx: "rx_begin sk now nd s = Some (Inr Panic, nd', s')"
  shows "bad_packet sk nd s \<or> bad_pubrec sk nd s"
proof -
  note ok = socket_safeD(1) [OF sk]
  from rx obtain r pr s1 where r: "recv sk (nd_reader nd) s = Some (r, pr, s1)" by (auto simp: rx_begin_def split: option.splits)
  have inv1: "node_inv L (nd\<lparr>nd_reader := pr\<rparr>) None None M" by (rule node_inv_reader [OF inv recv_ok [OF ok node_invD(4) [OF inv] r]])
  show ?thesis
  proof (cases r)
    case (Ok packet)
    show ?thesis
    proof (cases "\<exists>q t pp. packet = RP_PartialPublish q t pp")
      case True
      with rx r Ok publish_begin_Panic [OF ok inv1] show ?thesis by (auto simp: rx_begin_def)
    next
      case False
      with rx r Ok have "finish_select now (on_packet sk packet (nd\<lparr>nd_reader := pr\<rparr>) s1) = (Panic, nd', s')"
        by (cases packet) (auto simp: rx_begin_def split: prod.splits)
      then have on: "on_packet sk packet (nd\<lparr>nd_reader := pr\<rparr>) s1 = (Panic, nd', s')" by (simp add: finish_select_Panic)
      have "\<exists>p. packet = RP_PubRec p \<and> rel_full p (nd_shared nd)"
        using on_packet_Panic [OF inv1 sk _ _ _ on] recv_parts(1,2) [of sk "nd_reader nd" s _ pr s1] r Ok False by simp
      with r Ok show ?thesis by (auto simp: bad_pubrec_def)
    qed
  next
    case (Err e)
    with rx r show ?thesis by (cases e) (auto simp: rx_begin_def)
  next
    case Panic
    with r recv_Panic [OF ok node_invD(4) [OF inv]] show ?thesis by (simp add: bad_packet_def)
  qed
qed

lemma select_keep_alive_Panic:
  assumes "socket_safe sk" and "node_inv L nd None None M"
  shows "select_keep_alive sk now nd s \<noteq> (Panic, nd', s')"
proof -
  have "encode_packet pingreq_to_buffer PingReq (nd_write_buf nd) \<noteq> Panic" by (rule stack_packets_encode(5) [OF node_invD(5) [OF assms(2)]])
  then have "send_packet sk pingreq_to_buffer PingReq (nd\<lparr>nd_awaiting_pingresp := True\<rparr>) s \<noteq> (Panic, s1)" for s1
    by (intro send_packet_Panic [OF assms(1)]) simp
  then show ?thesis by (auto simp: select_keep_alive_def handle_keep_alive_def finish_select_Panic split: prod.splits)
qed

lemma select_begin_Panic:
  assumes sk: "socket_safe sk" and inv: "node_inv L nd None None M" and b: "select_begin sk branch now nd s = Some (Inr Panic, nd', s')"
  shows "branch = RxReady \<and> (bad_packet sk nd s \<or> bad_pubrec sk nd s)"
proof -
  have dr: "node_inv L (nd\<lparr>nd_reader := pr\<rparr>) None None M" if "recv_dropped sk n (nd_reader nd) s = (pr, s1)" for n pr s1
    using recv_dropped_ok [OF socket_safeD(1) [OF sk] node_invD(4) [OF inv], of n s] that by (intro node_inv_reader [OF inv]) simp
  show ?thesis
    using b rx_begin_Panic [OF sk inv]
    by (cases branch) (auto simp: select_begin_def tx_begin_Panic [OF dr] select_keep_alive_Panic [OF sk dr]
        simp del: recv_dropped.simps split: prod.splits)
qed

lemma select_end_Panic:
  assumes sk: "socket_safe sk" and inv: "node_inv L nd None (rx_pending ph) M" "phase_ok ph" and w: "waits_in_select ph"
    and e: "select_end sk now ph nd s = (Panic, nd', s')"
  shows "stack_cause tr sk ct branch now ph nd t"
proof (cases ph)
  case (Transmitting g)
  with e socket_safeD(2) [OF sk] show ?thesis by (auto simp: tx_end_def split: prod.splits result.splits)
next
  case (Storing q pp g)
  with inv have rx: "chan_inv rx_frame (nd_rx nd) (Some g) M" by (simp add: node_inv_def)
  let ?slice = "slice (ch_buf (nd_rx nd)) (gw_start g) (gw_size g)"
  have pp: "length (pp_buf pp) \<le> pp_packet_len pp" "length ?slice = pp_packet_len pp" "qp_ok q"
    using inv(2) Storing chan_grant_region(1) [OF rx] by (simp_all add: pp_ok_def)
  obtain x s1 where x: "copy_all sk pp ?slice s = (x, s1)" by force
  have "x \<noteq> Panic" using copy_all_no_panic [OF socket_safeD(1) [OF sk] pp(1) eq_refl [OF pp(2) [symmetric]], of s] x by simp
  with e x Storing obtain nd1 where a: "acknowledge sk q nd1 s1 = (Panic, nd', s')" "nd_shared nd1 = nd_shared nd"
      "nd_write_buf nd1 = nd_write_buf nd"
    by (cases x) (auto simp: publish_end_def Let_def finish_select_Panic)
  have "incoming_full q (nd_shared nd1)" using acknowledge_Panic [OF _ _ sk pp(3) a(1)] a(2,3) node_invD(1,5) [OF inv(1)] by simp
  with a(2) Storing show ?thesis by (simp add: stack_cause_def)
qed (use w in \<open>simp_all add: waits_in_select_def\<close>)

lemma after_select_Panicked: "after_select tr r nd t = (Inl Panicked, nd', t') \<Longrightarrow> r = Panic"
  by (cases r) (auto simp: after_select_def)

lemma stack_step_Panicked:
  assumes sk: "socket_safe sk" and tr: "transport_safe tr" and inv: "node_inv L nd None (rx_pending ph) M" "phase_ok ph"
    and step: "stack_step tr sk ct branch now ph nd t = Some (Inl Panicked, nd', t')"
  shows "stack_cause tr sk ct branch now ph nd t"
proof -
  have sock: "tr_socket tr t \<noteq> Panic" using tr by (simp add: transport_safe_def)
  show ?thesis
  proof (cases "waits_in_select ph")
    case True
    from True step sock obtain s where s: "tr_socket tr t = Ok s"
      "(case select_end sk now ph nd s of (r, nd1, s1) \<Rightarrow> after_select tr r nd1 (tr_set_socket tr s1 t)) = (Inl Panicked, nd', t')"
      by (cases ph) (auto simp: waits_in_select_def split: result.splits)
    obtain r nd1 s1 where e: "select_end sk now ph nd s = (r, nd1, s1)" by (metis prod_cases3)
    with s(2) have "r = Panic" by (auto dest: after_select_Panicked)
    then show ?thesis using e by (intro select_end_Panic [OF sk inv True, of now s nd1 s1]) simp
  next
    case False
    then have inv': "node_inv L nd None None M" using inv(1) by (cases ph) (simp_all add: waits_in_select_def)
    from False consider "ph = AtTop" | "ph = Attempting" | "ph = Selecting" by (cases ph) (auto simp: waits_in_select_def)
    then show ?thesis
    proof cases
      case 1
      with step show ?thesis by (auto split: if_splits)
    next
      case 2
      from step 2 obtain r nd1 t1 where r: "connect_attempt tr sk ct now nd t = Some (r, nd1, t1)" by (auto split: option.splits)
      show ?thesis
      proof (cases "r = Some Panic")
        case True
        with connect_attempt_Panic [OF sk tr inv'] r 2 show ?thesis by (simp add: stack_cause_def)
      next
        case False
        with step 2 r have nok: "\<And>b. r \<noteq> Some (Ok b)" by (auto split: option.splits result.splits)
        with False step 2 r have "connect_failed tr nd1 t1 = (Panicked, nd', t')"
          by (auto split: option.splits result.splits prod.splits)
        then have "attempts_full nd1" by (auto simp: connect_failed_def attempts_full_def Let_def split: option.splits if_splits)
        with connect_attempt_attempts [OF r nok] 2 show ?thesis by (simp add: stack_cause_def attempts_full_def)
      qed
    next
      case 3
      from step 3 sock obtain s y where s: "tr_socket tr t = Ok s" "select_begin sk branch now nd s = Some y"
        by (auto split: result.splits)
      obtain z nd1 s1 where z: "y = (z, nd1, s1)" by (cases y)
      with step 3 s have "z = Inr Panic" by (cases z) (auto simp: Let_def dest: after_select_Panicked)
      with select_begin_Panic [OF sk inv'] s z 3 show ?thesis by (simp add: stack_cause_def)
    qed
  qed
qed

end
