(* ===== verification/System_Safety.thy ===== *)
theory System_Safety
  imports System_Inv Stack_Safety
begin

text \<open>
  When an action makes the system panic: with requests that carry no properties of their own, a socket and a
  transport that never panic, and a TX channel whose length fits the length of a packet, \<open>panic_cause\<close> lists all of it.
\<close>

section \<open>Requests without properties\<close>

fun action_plain :: "('t, 's) Action \<Rightarrow> bool" where
  "action_plain (StartPublish p) = publish_plain p"
| "action_plain (StartSubscribe n p) = subscribe_plain p"
| "action_plain _ = True"

lemma action_plain_ok: "action_plain a \<Longrightarrow> action_ok a"
  by (cases a) (auto simp: publish_plain_def payload_safe_in_place)

text \<open>The calls that run are plain, and none of them has panicked.\<close>

definition sys_plain :: "'t System \<Rightarrow> bool" where
  "sys_plain sys \<longleftrightarrow>
     (\<forall>c \<in> set (sys_publishes sys). publish_plain (fst c) \<and> snd c \<noteq> Finished Panic) \<and>
     (\<forall>c \<in> set (sys_subscribes sys). subscribe_plain (sc_packet c) \<and> sc_task c \<noteq> Finished Panic) \<and>
     (\<forall>u \<in> set (sys_unsubscribes sys). snd u \<noteq> Finished Panic)"

lemma move_publish_plain:
  assumes "sys_plain sys" and "move_publish k f sys = Ok sys'"
  shows "sys_plain sys'"
proof (cases "k < length (sys_publishes sys)")
  case True
  obtain p task where c: "sys_publishes sys ! k = (p, task)" by force
  obtain task' nd where t: "f p task (sys_node sys) = (task', nd)" by force
  from assms True c t have "task' \<noteq> Finished Panic"
    "sys' = sys\<lparr>sys_node := nd, sys_publishes := (sys_publishes sys)[k := (p, task')]\<rparr>"
    by (auto simp: move_publish_def split: if_splits)
  moreover have "publish_plain p" using assms(1) c nth_mem [OF True] by (auto simp: sys_plain_def)
  ultimately show ?thesis using assms(1) by (auto simp: sys_plain_def dest!: subsetD [OF set_update_subset_insert])
qed (use assms in \<open>simp add: move_publish_def\<close>)

lemma move_subscribe_plain:
  assumes "sys_plain sys" and "move_subscribe k f sys = Ok sys'"
  shows "sys_plain sys'"
proof (cases "k < length (sys_subscribes sys)")
  case True
  define c where "c = sys_subscribes sys ! k"
  obtain task' nd where t: "f (sc_packet c) (sc_task c) (sys_node sys) = (task', nd)" by force
  from assms True t have "task' \<noteq> Finished Panic"
    "sys' = sys\<lparr>sys_node := nd, sys_subscribes := (sys_subscribes sys)[k := c\<lparr>sc_task := task'\<rparr>]\<rparr>"
    by (auto simp: move_subscribe_def c_def [symmetric] split: if_splits)
  moreover have "subscribe_plain (sc_packet c)" using assms(1) nth_mem [OF True] by (auto simp: sys_plain_def c_def)
  ultimately show ?thesis using assms(1) by (auto simp: sys_plain_def dest!: subsetD [OF set_update_subset_insert])
qed (use assms in \<open>simp add: move_subscribe_def\<close>)

lemma step_unsubscribe_plain:
  assumes "sys_plain sys" and "step_unsubscribe k sys = Ok sys'"
  shows "sys_plain sys'"
proof (cases "k < length (sys_unsubscribes sys)")
  case True
  obtain sub task where u: "sys_unsubscribes sys ! k = (sub, task)" by force
  obtain task' nd where t: "unsubscribe_step sub task (sys_node sys) = (task', nd)" by force
  from assms True u t have "task' \<noteq> Finished Panic"
    "sys' = sys\<lparr>sys_node := nd, sys_unsubscribes := (sys_unsubscribes sys)[k := (sub, task')]\<rparr>"
    by (auto simp: step_unsubscribe_def split: if_splits)
  with assms(1) show ?thesis by (auto simp: sys_plain_def dest!: subsetD [OF set_update_subset_insert])
qed (use assms in \<open>simp add: step_unsubscribe_def\<close>)

lemmas sys_ops = start_publish_def drop_publish_def start_subscribe_def finish_subscribe_def drop_subscribe_def poll_subscription_def
  drop_message_def drop_subscription_def start_unsubscribe_def end_unsubscribe_def move_stack_def drop_stack_def disconnect_stack_def

lemma sys_exec_plain:
  assumes pl: "sys_plain sys" and a: "action_plain a" and ex: "sys_exec tr sk a sys = Ok sys'"
  shows "sys_plain sys'"
proof -
  have keep: "sys_plain sys1"
    if "set (sys_publishes sys1) \<subseteq> set (sys_publishes sys)" "set (sys_subscribes sys1) \<subseteq> set (sys_subscribes sys)"
      "set (sys_unsubscribes sys1) \<subseteq> set (sys_unsubscribes sys)" for sys1
    using pl that by (auto simp: sys_plain_def)
  note splits = if_splits prod.splits result.splits option.splits sum.splits Task.splits NextPoll.splits
  show ?thesis
  proof (cases a)
    case (StartPublish p)
    with pl a ex show ?thesis by (auto simp: start_publish_def sys_plain_def)
  next
    case (StartSubscribe n p)
    with pl a ex show ?thesis by (auto simp: start_subscribe_def sys_plain_def split: prod.splits result.splits)
  next
    case (StartUnsubscribe k)
    with pl ex show ?thesis by (auto simp: start_unsubscribe_def sys_plain_def split: if_splits)
  qed (use ex move_publish_plain [OF pl] move_subscribe_plain [OF pl] step_unsubscribe_plain [OF pl] pl in
      \<open>auto simp: sys_ops Let_def intro!: keep dest!: subsetD [OF set_remove_nth] split: splits\<close>)
qed

lemma sys_reach_plain:
  assumes "sys_reach action_plain tr sk TX sys"
  shows "sys_plain sys"
  using assms
proof induction
  case (sys_init RX config now nd t)
  show ?case by (simp add: sys_plain_def sys_new_def)
next
  case (sys_step sys a sys')
  then show ?case by (blast intro: sys_exec_plain)
qed

section \<open>The causes\<close>

text \<open>
  A publish with an acknowledgement that finds every slot for publishes taken when it is recorded, a subscription with
  more topics than its type has room for, and what makes a step of the stack panic.
\<close>

fun grant_cause :: "Publish \<Rightarrow> PublishWait Task \<Rightarrow> Shared \<Rightarrow> bool" where
  "grant_cause p (Granting a pid) sh \<longleftrightarrow> pub_qos p \<noteq> AtMostOnce \<and> slots_taken pid sh"
| "grant_cause p _ sh \<longleftrightarrow> False"

fun panic_cause :: "('t, 's) Transport \<Rightarrow> 's Socket \<Rightarrow> ('t, 's) Action \<Rightarrow> 't System \<Rightarrow> bool" where
  "panic_cause tr sk (StepPublish k) sys \<longleftrightarrow>
     k < length (sys_publishes sys) \<and>
     grant_cause (fst (sys_publishes sys ! k)) (snd (sys_publishes sys ! k)) (nd_shared (sys_node sys))"
| "panic_cause tr sk (FinishSubscribe k) sys \<longleftrightarrow>
     k < length (sys_subscribes sys) \<and>
     sc_max_topics (sys_subscribes sys ! k) < length (sub_topics (sc_packet (sys_subscribes sys ! k)))"
| "panic_cause tr sk (StepStack ct branch now) sys \<longleftrightarrow>
     stack_cause tr sk ct branch now (sys_phase sys) (sys_node sys) (sys_transport sys)"
| "panic_cause tr sk _ sys \<longleftrightarrow> False"

lemma collect_filters_Panic: "collect_filters n ts = Panic \<Longrightarrow> n < length ts"
proof (induction n ts rule: collect_filters.induct)
  case (2 room t ts)
  have "topic_filter_new (st_topic_path t) \<noteq> Panic" by (auto simp: topic_filter_new_def split: option.splits)
  with 2 show ?case by (cases "room = 0") (auto simp: rbind_Panic_iff split: if_splits)
qed simp

lemma request_timeout_not_Panic:
  "task \<noteq> Finished Panic \<Longrightarrow> fst (request_timeout n on_drop task nd) \<noteq> Finished Panic"
  by (cases task) (auto simp: attempt_failed_def)

section \<open>No other panic\<close>

definition sys_safe :: "('t, 's) Transport \<Rightarrow> 's Socket \<Rightarrow> nat \<Rightarrow> 't System \<Rightarrow> bool" where
  "sys_safe tr sk TX sys \<longleftrightarrow>
     socket_safe sk \<and> transport_safe tr \<and> TX < 268435456 \<and> sys_ok TX sys \<and> sys_plain sys"

lemma sys_safeD:
  assumes "sys_safe tr sk TX sys"
  shows "socket_safe sk" "transport_safe tr" "TX < 268435456" "sys_ok TX sys" "sys_plain sys"
    "length (ch_buf (nd_tx (sys_node sys))) < 268435456"
  using assms node_invD(6) [OF sys_okD(1), of TX sys] by (simp_all add: sys_safe_def)

lemma publish_panics:
  assumes safe: "sys_safe tr sk TX sys" and mv: "move_publish k publish_step sys = Panic"
  shows "panic_cause tr sk (StepPublish k :: ('t, 's) Action) sys"
proof -
  note socket = sys_safeD(1) [OF safe] and transport = sys_safeD(2) [OF safe] and small = sys_safeD(3) [OF safe]
    and ok = sys_safeD(4) [OF safe] and plain = sys_safeD(5) [OF safe] and tx_small = sys_safeD(6) [OF safe]
  from mv have k: "k < length (sys_publishes sys)" by (auto simp: move_publish_def split: if_splits)
  obtain p task where c: "sys_publishes sys ! k = (p, task)" by force
  obtain task' nd where t: "publish_step p task (sys_node sys) = (task', nd)" by force
  with mv k c have p: "task' = Finished Panic" by (auto simp: move_publish_def split: if_splits)
  have pl: "publish_plain p" "task \<noteq> Finished Panic" using plain c nth_mem [OF k] by (auto simp: sys_plain_def)
  have in_place: "payload_in_place (pub_payload p)" using pl(1) by (simp add: publish_plain_def payload_safe_in_place)
  obtain a pid where "task = Granting a pid" "pub_qos p \<noteq> AtMostOnce" "slots_taken pid (nd_shared (sys_node sys))"
    using request_step_Panic [OF sys_okD(1) [OF ok] publish_request_safe [OF pl(1)] tx_small _ _ pl(2)
        t [unfolded publish_step_def p]] waits_not_Panic(1) publish_encodes_whole [of "publish_set_pid _ p"] in_place
    by (auto simp: publish_encode_def publish_set_pid_def publish_get_qos_def)
  with k c show ?thesis by simp
qed

lemma subscribe_panics:
  assumes safe: "sys_safe tr sk TX sys"
  shows "move_subscribe k subscribe_step sys \<noteq> Panic"
proof
  note socket = sys_safeD(1) [OF safe] and transport = sys_safeD(2) [OF safe] and small = sys_safeD(3) [OF safe]
    and ok = sys_safeD(4) [OF safe] and plain = sys_safeD(5) [OF safe] and tx_small = sys_safeD(6) [OF safe]
  assume mv: "move_subscribe k subscribe_step sys = Panic"
  then have k: "k < length (sys_subscribes sys)" by (auto simp: move_subscribe_def split: if_splits)
  define c where "c = sys_subscribes sys ! k"
  obtain task' nd where t: "subscribe_step (sc_packet c) (sc_task c) (sys_node sys) = (task', nd)" by force
  with mv k have p: "task' = Finished Panic" by (auto simp: move_subscribe_def c_def [symmetric] split: if_splits)
  have pl: "subscribe_plain (sc_packet c)" "sc_task c \<noteq> Finished Panic" using plain nth_mem [OF k] by (auto simp: sys_plain_def c_def)
  show False
    using request_step_Panic [OF sys_okD(1) [OF ok] subscribe_request_safe [OF pl(1)] tx_small _ _ pl(2)
        t [unfolded subscribe_step_def p]] waits_not_Panic(2) subscribe_encodes_whole
    by (auto simp: subscribe_encode_def)
qed

lemma unsubscribe_panics:
  assumes safe: "sys_safe tr sk TX sys"
  shows "step_unsubscribe k sys \<noteq> Panic"
proof
  note socket = sys_safeD(1) [OF safe] and transport = sys_safeD(2) [OF safe] and small = sys_safeD(3) [OF safe]
    and ok = sys_safeD(4) [OF safe] and plain = sys_safeD(5) [OF safe] and tx_small = sys_safeD(6) [OF safe]
  assume mv: "step_unsubscribe k sys = Panic"
  then have k: "k < length (sys_unsubscribes sys)" by (auto simp: step_unsubscribe_def split: if_splits)
  obtain sub task where u: "sys_unsubscribes sys ! k = (sub, task)" by force
  obtain task' nd where t: "unsubscribe_step sub task (sys_node sys) = (task', nd)" by force
  with mv k u have p: "task' = Finished Panic" by (auto simp: step_unsubscribe_def split: if_splits)
  have np: "task \<noteq> Finished Panic" using plain u nth_mem [OF k] by (auto simp: sys_plain_def)
  show False
    using request_step_Panic [OF sys_okD(1) [OF ok] unsubscribe_request_safe tx_small _ _ np
        t [unfolded unsubscribe_step_def p]] waits_not_Panic(3) unsubscribe_encodes_whole
    by (auto simp: unsubscribe_encode_def)
qed

lemma timeouts_safe:
  assumes safe: "sys_safe tr sk TX sys"
  shows "move_publish k (\<lambda>_. publish_timeout free) sys \<noteq> Panic"
    and "move_subscribe k (\<lambda>_. subscribe_timeout free) sys \<noteq> Panic"
proof -
  note socket = sys_safeD(1) [OF safe] and transport = sys_safeD(2) [OF safe] and small = sys_safeD(3) [OF safe]
    and ok = sys_safeD(4) [OF safe] and plain = sys_safeD(5) [OF safe] and tx_small = sys_safeD(6) [OF safe]
  have "fst (publish_timeout free (snd (sys_publishes sys ! k)) nd) \<noteq> Finished Panic" if "k < length (sys_publishes sys)" for nd
    using plain nth_mem [OF that] unfolding publish_timeout_def by (intro request_timeout_not_Panic) (auto simp: sys_plain_def)
  then show "move_publish k (\<lambda>_. publish_timeout free) sys \<noteq> Panic"
    by (auto simp: move_publish_def split: prod.splits) (metis fst_conv snd_conv)
  have "fst (subscribe_timeout free (sc_task (sys_subscribes sys ! k)) nd) \<noteq> Finished Panic" if "k < length (sys_subscribes sys)" for nd
    using plain nth_mem [OF that] unfolding subscribe_timeout_def by (intro request_timeout_not_Panic) (auto simp: sys_plain_def)
  then show "move_subscribe k (\<lambda>_. subscribe_timeout free) sys \<noteq> Panic"
    by (auto simp: move_subscribe_def Let_def split: prod.splits) (metis fst_conv)
qed

lemma finish_panics:
  assumes safe: "sys_safe tr sk TX sys" and mv: "finish_subscribe k sys = Panic"
  shows "panic_cause tr sk (FinishSubscribe k :: ('t, 's) Action) sys"
proof -
  note socket = sys_safeD(1) [OF safe] and transport = sys_safeD(2) [OF safe] and small = sys_safeD(3) [OF safe]
    and ok = sys_safeD(4) [OF safe] and plain = sys_safeD(5) [OF safe] and tx_small = sys_safeD(6) [OF safe]
  define c where "c = sys_subscribes sys ! k"
  from mv obtain r nd where k: "k < length (sys_subscribes sys)" and r: "sc_task c = Finished r"
    and x: "subscribe_finish (sc_max_topics c) (sc_packet c) r (sc_subscriber c) (sys_node sys) = (Panic, nd)"
    by (auto simp: finish_subscribe_def Let_def c_def split: if_splits Task.splits prod.splits result.splits)
  have mem: "sc_subscriber c \<in># sys_subscribers sys" using subscriber_member(1) [OF k] by (simp add: c_def)
  have "r \<noteq> Panic" using plain nth_mem [OF k] r by (auto simp: sys_plain_def c_def)
  with subscribe_finish_ok(4) [OF sys_okD(1) [OF ok] mem x] collect_filters_Panic k show ?thesis
    by (auto simp: rbind_Panic_iff c_def)
qed

lemma drops_safe:
  assumes safe: "sys_safe tr sk TX sys"
  shows "drop_subscribe k free sys \<noteq> Panic"
    and "drop_subscription k free1 free2 sys \<noteq> Panic"
    and "end_unsubscribe k free1 free2 sys \<noteq> Panic"
proof -
  note socket = sys_safeD(1) [OF safe] and transport = sys_safeD(2) [OF safe] and small = sys_safeD(3) [OF safe]
    and ok = sys_safeD(4) [OF safe] and plain = sys_safeD(5) [OF safe] and tx_small = sys_safeD(6) [OF safe]
  show "drop_subscribe k free sys \<noteq> Panic"
  proof (cases "k < length (sys_subscribes sys)")
    case True
    define c where "c = sys_subscribes sys ! k"
    obtain task' nd1 where t: "subscribe_timeout free (sc_task c) (sys_node sys) = (task', nd1)" by force
    have lock: "holds_lock (sc_task c) \<longrightarrow> nd_tx_locked (sys_node sys)" using holder_locked(2) [OF ok nth_mem [OF True]] by (simp add: c_def)
    have mem: "sc_subscriber c \<in># sys_subscribers sys" using subscriber_member(1) [OF True] by (simp add: c_def)
    obtain r nd where g: "subscriber_gone (sc_subscriber c) nd1 = (r, nd)" by force
    from subscriber_gone_ok(1) [OF subscribe_timeout_ok(1) [OF sys_okD(1) [OF ok] lock t] mem g] t g True show ?thesis
      by (simp add: drop_subscribe_def c_def [symmetric])
  qed (simp add: drop_subscribe_def)
  show "drop_subscription k free1 free2 sys \<noteq> Panic"
  proof (cases "k < length (sys_subscriptions sys)")
    case True
    obtain r nd where r: "subscription_drop free1 free2 (sys_subscriptions sys ! k) (sys_node sys) = (r, nd)" by force
    from subscription_drop_ok(1) [OF sys_okD(1) [OF ok] subscriber_member(2) [OF True] r tx_small] r show ?thesis
      by (cases r) (simp_all add: drop_subscription_def)
  qed (simp add: drop_subscription_def)
  show "end_unsubscribe k free1 free2 sys \<noteq> Panic"
  proof (cases "k < length (sys_unsubscribes sys)")
    case True
    obtain sub task where u: "sys_unsubscribes sys ! k = (sub, task)" by force
    define sub1 where "sub1 = (case task of Finished r \<Rightarrow> unsubscribe_finish r sub | _ \<Rightarrow> sub)"
    have same: "sub_subscriber sub1 = sub_subscriber sub" by (auto simp: sub1_def split: Task.splits)
    obtain task' nd1 where t: "request_timeout 1 (\<lambda>_ sh. sh) task (sys_node sys) = (task', nd1)" by force
    have lock: "holds_lock task \<Longrightarrow> nd_tx_locked (sys_node sys)" using holder_locked(3) [OF ok nth_mem [OF True]] u by simp
    have inv1: "node_inv TX nd1 None (rx_pending (sys_phase sys)) (sys_subscribers sys)"
      using request_timeout_ok(1) [OF sys_okD(1) [OF ok] _ lock t] by blast
    have mem: "sub_subscriber sub1 \<in># sys_subscribers sys" using subscriber_member(3) [OF True] u same by simp
    obtain r nd where r: "subscription_drop free1 free2 sub1 nd1 = (r, nd)" by force
    have "r \<noteq> Panic" using subscription_drop_ok(1) [OF inv1 mem r] node_invD(6) [OF inv1] small by simp
    with True u t r show ?thesis by (cases r) (simp_all add: end_unsubscribe_def Let_def sub1_def [symmetric])
  qed (simp add: end_unsubscribe_def)
qed

lemma disconnect_safe:
  assumes safe: "sys_safe tr sk TX sys"
  shows "disconnect_stack tr sk sys \<noteq> Panic"
proof -
  note socket = sys_safeD(1) [OF safe] and transport = sys_safeD(2) [OF safe] and small = sys_safeD(3) [OF safe]
    and ok = sys_safeD(4) [OF safe] and plain = sys_safeD(5) [OF safe] and tx_small = sys_safeD(6) [OF safe]
  note enc = disconnect_encodes [OF node_invD(5) [OF sys_okD(1) [OF ok]]]
  have "tr_socket tr t \<noteq> Panic" "tr_disconnect tr t \<noteq> (Panic, t')" for t t'
    using transport by (auto simp: transport_safe_def) (metis fst_conv)
  with enc socket_safeD(2) [OF socket] have "stack_disconnect tr sk (sys_node sys) (sys_transport sys) \<noteq> (Panic, nd, t)" for nd t
    by (auto simp: stack_disconnect_def split: result.splits prod.splits)
  then show ?thesis by (auto simp: disconnect_stack_def split: result.splits prod.splits)
qed

lemma stack_panics:
  assumes safe: "sys_safe tr sk TX sys" and mv: "move_stack tr sk ct branch now sys = Panic"
  shows "stack_cause tr sk ct branch now (sys_phase sys) (sys_node sys) (sys_transport sys)"
  using mv stack_step_Panicked [OF sys_safeD(1,2) [OF safe] sys_okD(1,2) [OF sys_safeD(4) [OF safe]]]
  by (auto simp: move_stack_def split: option.splits prod.splits sum.splits if_splits)

lemma exec_panics:
  assumes safe: "sys_safe tr sk TX sys" and mv: "sys_exec tr sk a sys = Panic"
  shows "panic_cause tr sk a sys"
proof -
  note socket = sys_safeD(1) [OF safe] and transport = sys_safeD(2) [OF safe] and small = sys_safeD(3) [OF safe]
    and ok = sys_safeD(4) [OF safe] and plain = sys_safeD(5) [OF safe] and tx_small = sys_safeD(6) [OF safe]
  show ?thesis
  proof (cases a)
  case (StartSubscribe n p)
  with mv subscribe_begin_ok(1) [OF sys_okD(1) [OF ok]] show ?thesis
    by (auto simp: start_subscribe_def split: prod.splits result.splits)
  qed (use mv publish_panics [OF safe] subscribe_panics [OF safe] unsubscribe_panics [OF safe] timeouts_safe [OF safe] finish_panics [OF safe]
    drops_safe [OF safe] disconnect_safe [OF safe] stack_panics [OF safe] poll_subscription_ok(2) [OF ok] in \<open>auto simp: start_publish_def drop_publish_def drop_message_def start_unsubscribe_def drop_stack_def
      split: if_splits\<close>)
qed

end
