(* ===== verification/Wire.thy ===== *)
theory Wire
  imports System_Inv
begin

text \<open>
  The frame that the stack writes to the socket while other tasks run: it stays in the TX channel until the stack
  releases it, and no operation of the client touches its bytes.
\<close>

section \<open>Frames that stay\<close>

text \<open>
  What an operation of the client leaves of the TX channel: it may add frames at the end, which nobody has read, and
  changes no frame that is there.
\<close>

definition unread_frame :: "u8 \<Rightarrow> Header \<Rightarrow> bool" where
  "unread_frame n m \<longleftrightarrow> h_subscriber_count m = n \<and> \<not> h_read_in_progress m"

definition st_extends :: "State \<Rightarrow> State \<Rightarrow> bool" where
  "st_extends st st' \<longleftrightarrow> ps_subscriber_count st' = ps_subscriber_count st \<and> first_id st \<le> first_id st' \<and>
     (\<exists>new. ps_messages st' = ps_messages st @ new \<and> list_all (unread_frame (ps_subscriber_count st)) new)"

definition tx_keeps :: "Node \<Rightarrow> Node \<Rightarrow> bool" where
  "tx_keeps nd nd' \<longleftrightarrow> st_extends (ch_state (nd_tx nd)) (ch_state (nd_tx nd')) \<and>
     (\<forall>m \<in> set (ps_messages (ch_state (nd_tx nd))). frame_bytes (ch_buf (nd_tx nd')) m = frame_bytes (ch_buf (nd_tx nd)) m)"

lemma st_extends_refl: "st_extends st st"
  by (simp add: st_extends_def)

lemma st_extends_trans: "st_extends st st1 \<Longrightarrow> st_extends st1 st2 \<Longrightarrow> st_extends st st2"
  by (auto simp: st_extends_def)

lemma st_extends_messages: "st_extends st st' \<Longrightarrow> set (ps_messages st) \<subseteq> set (ps_messages st')"
  by (auto simp: st_extends_def)

lemma st_extends_commit: "st_extends st (commit_inner g used st)"
  by (auto simp: st_extends_def commit_inner_def Let_def waker_call_def first_id_def unread_frame_def)

lemma st_extends_grant: "grant_with_context n cx st = (r, st') \<Longrightarrow> st_extends st st'"
  by (auto simp: st_extends_def grant_with_context_def first_id_def split: if_splits result.splits)

lemma tx_keeps_refl: "nd_tx nd' = nd_tx nd \<Longrightarrow> tx_keeps nd nd'"
  by (simp add: tx_keeps_def st_extends_refl)

lemma tx_keeps_trans: "tx_keeps nd nd1 \<Longrightarrow> tx_keeps nd1 nd2 \<Longrightarrow> tx_keeps nd nd2"
  using st_extends_messages unfolding tx_keeps_def by (metis st_extends_trans subsetD)

lemma tx_keeps_same: "tx_keeps nd nd1 \<Longrightarrow> nd_tx nd' = nd_tx nd1 \<Longrightarrow> tx_keeps nd nd'"
  by (simp add: tx_keeps_def)

lemma tx_keeps_grant:
  assumes "grant_with_context n cx (ch_state (nd_tx nd)) = (r, st)"
  shows "tx_keeps nd (nd\<lparr>nd_tx := (nd_tx nd)\<lparr>ch_state := st\<rparr>\<rparr>)"
  using st_extends_grant [OF assms] by (simp add: tx_keeps_def)

lemma tx_keeps_commit: "tx_keeps nd (nd\<lparr>nd_tx := (nd_tx nd)\<lparr>ch_state := commit_inner g used (ch_state (nd_tx nd))\<rparr>\<rparr>)"
  using st_extends_commit by (simp add: tx_keeps_def)

lemma tx_keeps_drop: "tx_keeps nd (tx_drop g nd)"
  using tx_keeps_commit by (simp add: tx_drop_def grant_drop_def)

lemma tx_keeps_write:
  assumes inv: "node_inv L nd (Some g) rg M" and len: "length bs = gw_size g"
  shows "tx_keeps nd (nd\<lparr>nd_tx := (nd_tx nd)\<lparr>ch_buf := splice (ch_buf (nd_tx nd)) (gw_start g) bs\<rparr>\<rparr>)"
proof -
  note reg = chan_grant_region [OF node_invD(2) [OF inv]]
  have "frame_bytes (splice (ch_buf (nd_tx nd)) (gw_start g) bs) m = frame_bytes (ch_buf (nd_tx nd)) m"
    if "m \<in> set (ps_messages (ch_state (nd_tx nd)))" for m
    using reg(1) reg(2) [OF that] len
    unfolding frame_bytes_def by (intro slice_splice_disjoint) (auto simp: seg_disjoint_def seg_of_def)
  then show ?thesis by (simp add: tx_keeps_def st_extends_refl)
qed

lemma tx_written_keeps:
  assumes "node_inv L nd (Some g) rg M" and "encodes_whole f"
    and "f (encoder_new (slice (ch_buf (nd_tx nd)) (gw_start g) (gw_size g))) = Ok e"
  shows "tx_keeps nd (tx_written g e nd)"
proof -
  have "length (enc_buf e) = gw_size g"
    using assms(2) [unfolded encodes_whole_def, rule_format, OF assms(3)] chan_grant_region(1) [OF node_invD(2) [OF assms(1)]] by simp
  from tx_keeps_write [OF assms(1) this] show ?thesis by (simp add: tx_written_def)
qed

section \<open>Requests\<close>

lemma send_finish_keeps:
  assumes inv: "node_inv L nd (Some g) rg M" and whole: "encodes_whole (me_to_buffer me (me_set_pid me pid p))"
    and fin: "send_finish me p pid g nd = (r, nd')"
  shows "tx_keeps nd nd'"
proof (cases "me_to_buffer me (me_set_pid me pid p) (encoder_new (slice (ch_buf (nd_tx nd)) (gw_start g) (gw_size g)))")
  case (Ok e)
  note wr = tx_written_keeps [OF inv whole Ok]
  obtain x sh where x: "send_record me p pid (nd_shared nd) = (x, sh)" by force
  let ?tx = "nd_tx (tx_written g e nd)"
  define h where "h = (if is_ok x then grant_set_pid (pid_get pid) g else g)"
  define used where "used = (if is_ok x then used_size e else gw_to_commit g)"
  have tx: "nd_tx nd' = ?tx\<lparr>ch_state := commit_inner h used (ch_state ?tx)\<rparr>"
    using fin Ok x
    by (cases x) (auto simp: send_finish_def Let_def tx_drop_def grant_drop_def commit_def tx_written_def h_def used_def)
  show ?thesis by (rule tx_keeps_same [OF tx_keeps_trans [OF wr tx_keeps_commit, of h used]]) (simp add: tx)
qed (use fin in \<open>auto simp: send_finish_def intro: tx_keeps_drop\<close>)

lemma request_step_keeps:
  assumes inv: "node_inv L nd None rg M" and whole: "\<And>pid. encodes_whole (me_to_buffer me (me_set_pid me pid p))"
    and step: "request_step me n w0 wait p task nd = (task', nd')"
  shows "tx_keeps nd nd'"
proof (cases task)
  case (Granting a pid)
  obtain r nd1 where r: "send_grant me p pid nd = (r, nd1)" by force
  note sg = send_grant_ok [OF inv r]
  have k1: "tx_keeps nd nd1"
    using r by (auto simp: send_grant_def grant_poll_def tx_keeps_refl intro: tx_keeps_grant
        split: result.splits prod.splits PubSubError.splits)
  show ?thesis
  proof (cases "\<exists>g. r = Some (Ok g)")
    case True
    then obtain g where g: "r = Some (Ok g)" by blast
    obtain x nd2 where x: "send_finish me p pid g nd1 = (x, nd2)" by force
    have "tx_keeps nd1 nd2" by (rule send_finish_keeps [OF conjunct1 [OF sg(2) [OF g]] whole x])
    then have "tx_keeps nd nd2" by (rule tx_keeps_trans [OF k1])
    with step r g x Granting show ?thesis by (cases x) (auto elim: tx_keeps_same)
  next
    case False
    with step r Granting k1 show ?thesis by (auto elim: tx_keeps_same split: option.splits result.splits)
  qed
qed (use step in \<open>auto intro!: tx_keeps_refl simp: with_shared_def wait_connected_poll_def split: prod.splits result.splits if_splits sum.splits\<close>)

lemma request_timeout_keeps: "request_timeout n on_drop task nd = (task', nd') \<Longrightarrow> tx_keeps nd nd'"
  by (cases task) (auto intro!: tx_keeps_refl simp: with_shared_def)

section \<open>Subscriptions\<close>

lemma with_rx_tx [simp]: "nd_tx (with_rx st nd) = nd_tx nd" "nd_tx (with_shared f nd) = nd_tx nd"
  by (simp_all add: with_rx_def with_shared_def)

lemma rx_only:
  "nd_tx (snd (subscriber_gone s nd)) = nd_tx nd" "nd_tx (snd (subscribe_begin nd)) = nd_tx nd"
  "nd_tx (snd (subscribe_finish n p r s nd)) = nd_tx nd" "nd_tx (snd (snd (poll_next sub nd))) = nd_tx nd"
  "nd_tx (message_drop m nd) = nd_tx nd" "nd_tx (snd (drop_pid free nd)) = nd_tx nd"
  by (auto simp: subscriber_gone_def subscribe_begin_def subscribe_finish_def poll_next_def message_drop_def drop_pid_def Let_def
      split: prod.splits result.splits)

lemma drop_unsubscribe_keeps:
  assumes inv: "node_inv L nd (Some g) rg M" and drop: "drop_unsubscribe free packet pid g nd = (r, nd')"
  shows "tx_keeps nd nd'"
proof (cases "unsubscribe_to_buffer packet (encoder_new (slice (ch_buf (nd_tx nd)) (gw_start g) (gw_size g)))")
  case (Ok e)
  note wr = tx_written_keeps [OF inv unsubscribe_encodes_whole Ok]
  have "nd_tx nd' = (nd_tx (tx_written g e nd))\<lparr>ch_state := commit_inner g (used_size e) (ch_state (nd_tx (tx_written g e nd)))\<rparr>"
    using drop Ok by (auto simp: drop_unsubscribe_def Let_def tx_written_def commit_def channel_update split: if_splits)
  then show ?thesis by (intro tx_keeps_same [OF tx_keeps_trans [OF wr tx_keeps_commit, of g "used_size e"]]) simp
next
  case (Err e)
  have "nd_tx nd' = nd_tx (tx_drop g nd)" using drop Err by (auto simp: drop_unsubscribe_def Let_def tx_drop_def split: if_splits)
  then show ?thesis by (rule tx_keeps_same [OF tx_keeps_drop])
next
  case Panic
  have "nd_tx nd' = nd_tx (tx_drop g nd)" using drop Panic by (auto simp: drop_unsubscribe_def Let_def tx_drop_def split: if_splits)
  then show ?thesis by (rule tx_keeps_same [OF tx_keeps_drop])
qed

lemma subscription_drop_keeps:
  assumes inv: "node_inv L nd None rg M" and drop: "subscription_drop free1 free2 sub nd = (r, nd')" and np: "r \<noteq> Panic"
  shows "tx_keeps nd nd'"
proof -
  have gone: "tx_keeps nd nd'" if "subscriber_gone s nd1 = (r, nd')" "tx_keeps nd nd1" for s nd1
    using that(2) by (rule tx_keeps_same) (use rx_only(1) [of s nd1] that(1) in simp)
  obtain pid nd1 where p: "drop_pid free1 nd = (Ok pid, nd1)" "node_inv L nd1 None rg M" "nd_tx nd1 = nd_tx nd"
    using drop_pid_ok [OF inv, of free1] by metis
  have k1: "tx_keeps nd nd1" by (rule tx_keeps_refl [OF p(3)])
  let ?p = "unsubscribe_set_pid pid (unsubscribe_packet sub)"
  obtain n where n: "unsubscribe_max_packet_size ?p = Ok n" using unsubscribe_size [of pid sub] by blast
  obtain x st where x: "grant_with_context n False (ch_state (nd_tx nd1)) = (x, st)" by force
  let ?nd2 = "nd1\<lparr>nd_tx := (nd_tx nd1)\<lparr>ch_state := st\<rparr>\<rparr>"
  note cg = chan_grant [OF node_invD(2) [OF p(2)] x]
  have k2: "tx_keeps nd ?nd2" by (rule tx_keeps_trans [OF k1 tx_keeps_grant [OF x]])
  consider "sub_topic_filters sub = []" | "sub_topic_filters sub \<noteq> []" "nd_tx_locked nd1" | "sub_topic_filters sub \<noteq> []" "\<not> nd_tx_locked nd1"
    by blast
  then show ?thesis
  proof cases
    case 3
    show ?thesis
    proof (cases x)
      case (Ok g)
      have inv2: "node_inv L ?nd2 (Some g) rg M" using cg(3) [OF Ok] by (intro node_inv_tx_state [OF p(2)]) simp
      obtain y nd3 where y: "drop_unsubscribe free2 ?p pid g ?nd2 = (y, nd3)" by force
      have k3: "tx_keeps nd nd3" by (rule tx_keeps_trans [OF k2 drop_unsubscribe_keeps [OF inv2 y]])
      from drop 3 p(1) n x Ok y np gone [OF _ k3] k3 show ?thesis
        by (cases y) (auto simp: subscription_drop_def Let_def grant_def)
    next
      case (Err e)
      from drop 3 p(1) n x Err gone [OF _ k2] show ?thesis by (simp add: subscription_drop_def Let_def grant_def)
    qed (use cg(1) in simp)
  qed (use drop p(1) gone [OF _ k1] gone [OF _ tx_keeps_refl [OF refl]] in \<open>auto simp: subscription_drop_def\<close>)
qed

section \<open>Actions of the client\<close>

fun client_action :: "('t, 's) Action \<Rightarrow> bool" where
  "client_action (StepStack ct branch now) = False"
| "client_action (DropStack t) = False"
| "client_action DisconnectStack = False"
| "client_action _ = True"

lemma publish_keeps:
  assumes ok: "sys_ok L sys" and mv: "move_publish k f sys = Ok sys'" and f: "f = publish_step \<or> (\<exists>free. f = (\<lambda>_. publish_timeout free))"
  shows "tx_keeps (sys_node sys) (sys_node sys')"
proof (cases "k < length (sys_publishes sys)")
  case True
  obtain p task where c: "sys_publishes sys ! k = (p, task)" by force
  obtain task' nd where t: "f p task (sys_node sys) = (task', nd)" by force
  have pl: "payload_in_place (pub_payload p)" using sys_okD(4) [OF ok nth_mem [OF True]] c by simp
  have whole: "encodes_whole (me_to_buffer publish_encode (me_set_pid publish_encode pid p))" for pid
    using publish_encodes_whole [of "publish_set_pid pid p"] pl by (simp add: publish_encode_def publish_set_pid_def)
  have "tx_keeps (sys_node sys) nd"
    using f t request_step_keeps [OF sys_okD(1) [OF ok] whole] request_timeout_keeps
    by (auto simp: publish_step_def publish_timeout_def)
  with mv True c t show ?thesis by (auto simp: move_publish_def split: if_splits)
qed (use mv in \<open>simp add: move_publish_def tx_keeps_refl\<close>)

lemma subscribe_keeps:
  assumes ok: "sys_ok L sys" and mv: "move_subscribe k f sys = Ok sys'" and f: "f = subscribe_step \<or> (\<exists>free. f = (\<lambda>_. subscribe_timeout free))"
  shows "tx_keeps (sys_node sys) (sys_node sys')"
proof (cases "k < length (sys_subscribes sys)")
  case True
  define c where "c = sys_subscribes sys ! k"
  obtain task' nd where t: "f (sc_packet c) (sc_task c) (sys_node sys) = (task', nd)" by force
  have whole: "encodes_whole (me_to_buffer subscribe_encode (me_set_pid subscribe_encode pid p))" for pid p
    by (simp add: subscribe_encode_def subscribe_encodes_whole)
  have "tx_keeps (sys_node sys) nd"
    using f t request_step_keeps [OF sys_okD(1) [OF ok] whole] request_timeout_keeps
    by (auto simp: subscribe_step_def subscribe_timeout_def)
  with mv True t show ?thesis by (auto simp: move_subscribe_def c_def [symmetric] split: if_splits)
qed (use mv in \<open>simp add: move_subscribe_def tx_keeps_refl\<close>)

lemma unsubscribe_keeps:
  assumes ok: "sys_ok L sys"
  shows "step_unsubscribe k sys = Ok sys' \<Longrightarrow> tx_keeps (sys_node sys) (sys_node sys')"
    and "end_unsubscribe k free1 free2 sys = Ok sys' \<Longrightarrow> tx_keeps (sys_node sys) (sys_node sys')"
proof -
  have whole: "encodes_whole (me_to_buffer unsubscribe_encode (me_set_pid unsubscribe_encode pid p))" for pid p
    by (simp add: unsubscribe_encode_def unsubscribe_encodes_whole)
  show "tx_keeps (sys_node sys) (sys_node sys')" if "step_unsubscribe k sys = Ok sys'"
    using that request_step_keeps [OF sys_okD(1) [OF ok] whole]
    by (auto simp: step_unsubscribe_def unsubscribe_step_def tx_keeps_refl split: if_splits prod.splits)
  assume mv: "end_unsubscribe k free1 free2 sys = Ok sys'"
  show "tx_keeps (sys_node sys) (sys_node sys')"
  proof (cases "k < length (sys_unsubscribes sys)")
    case True
    obtain sub task where u: "sys_unsubscribes sys ! k = (sub, task)" by force
    obtain task' nd1 where t: "request_timeout 1 (\<lambda>_ sh. sh) task (sys_node sys) = (task', nd1)" by force
    have lock: "holds_lock task \<Longrightarrow> nd_tx_locked (sys_node sys)" using holder_locked(3) [OF ok nth_mem [OF True]] u by simp
    have inv1: "node_inv L nd1 None (rx_pending (sys_phase sys)) (sys_subscribers sys)"
      using request_timeout_ok(1) [OF sys_okD(1) [OF ok] _ lock t] by blast
    obtain r nd where r: "subscription_drop free1 free2 (case task of Finished r \<Rightarrow> unsubscribe_finish r sub | _ \<Rightarrow> sub) nd1 = (r, nd)" by force
    with mv True u t have "r \<noteq> Panic" "sys_node sys' = nd" by (auto simp: end_unsubscribe_def Let_def split: result.splits)
    with tx_keeps_trans [OF request_timeout_keeps [OF t] subscription_drop_keeps [OF inv1 r]] show ?thesis by simp
  qed (use mv in \<open>simp add: end_unsubscribe_def tx_keeps_refl\<close>)
qed

lemma client_keeps:
  assumes ok: "sys_ok L sys" and a: "client_action a" and ex: "sys_exec tr sk a sys = Ok sys'"
  shows "tx_keeps (sys_node sys) (sys_node sys')" and "sys_phase sys' = sys_phase sys"
proof -
  show "sys_phase sys' = sys_phase sys"
    using a ex
    by (cases a) (auto simp: start_publish_def move_publish_def drop_publish_def start_subscribe_def move_subscribe_def finish_subscribe_def
        drop_subscribe_def poll_subscription_def drop_message_def drop_subscription_def start_unsubscribe_def step_unsubscribe_def
        end_unsubscribe_def Let_def split: if_splits prod.splits result.splits Task.splits NextPoll.splits)
  show "tx_keeps (sys_node sys) (sys_node sys')"
  proof (cases a)
    case (DropPublish k free)
    with ex request_timeout_keeps [OF prod.collapse [symmetric]] show ?thesis
      by (auto simp: drop_publish_def publish_timeout_def tx_keeps_refl split: if_splits)
  next
    case (DropSubscribe k free)
    show ?thesis
    proof (cases "k < length (sys_subscribes sys)")
      case True
      obtain task' nd1 where t: "subscribe_timeout free (sc_task (sys_subscribes sys ! k)) (sys_node sys) = (task', nd1)" by force
      obtain r nd where r: "subscriber_gone (sc_subscriber (sys_subscribes sys ! k)) nd1 = (r, nd)" by force
      have "nd_tx nd = nd_tx nd1" using rx_only(1) [of "sc_subscriber (sys_subscribes sys ! k)" nd1] r by simp
      then have "tx_keeps (sys_node sys) nd"
        using request_timeout_keeps [OF t [unfolded subscribe_timeout_def]] by (rule tx_keeps_same [rotated])
      with ex DropSubscribe True t r show ?thesis by (auto simp: drop_subscribe_def Let_def split: result.splits)
    qed (use ex DropSubscribe in \<open>simp add: drop_subscribe_def tx_keeps_refl\<close>)
  next
    case (DropSubscription k free1 free2)
    with ex subscription_drop_keeps [OF sys_okD(1) [OF ok]] show ?thesis
      by (auto simp: drop_subscription_def tx_keeps_refl split: if_splits prod.splits result.splits)
  next
    case (StartSubscribe n p)
    with ex rx_only(2) [of "sys_node sys"] show ?thesis
      by (auto simp: start_subscribe_def intro!: tx_keeps_refl split: prod.splits result.splits)
  next
    case (FinishSubscribe k)
    with ex rx_only(3) [of _ _ _ _ "sys_node sys"] show ?thesis
      by (auto simp: finish_subscribe_def Let_def intro!: tx_keeps_refl split: if_splits Task.splits prod.splits result.splits)
        (metis snd_conv)+
  next
    case (PollSubscription k)
    with ex rx_only(4) [of _ "sys_node sys"] show ?thesis
      by (auto simp: poll_subscription_def Let_def intro!: tx_keeps_refl split: if_splits prod.splits NextPoll.splits) (metis snd_conv)+
  next
    case (TimeoutSubscribe k free)
    with ex subscribe_keeps [OF ok, of k "\<lambda>_. subscribe_timeout free"] show ?thesis by auto
  next
    case (TimeoutPublish k free)
    with ex publish_keeps [OF ok, of k "\<lambda>_. publish_timeout free"] show ?thesis by auto
  qed (use a ex publish_keeps [OF ok] subscribe_keeps [OF ok] unsubscribe_keeps [OF ok] rx_only(5) in
      \<open>auto simp: start_publish_def drop_message_def start_unsubscribe_def tx_keeps_refl split: if_splits\<close>)
qed

section \<open>The frame the stack writes\<close>

definition tx_held :: "StackPhase \<Rightarrow> Node \<Rightarrow> bool" where
  "tx_held ph nd \<longleftrightarrow>
     (\<forall>g. ph = Transmitting g \<longrightarrow>
       (\<exists>m \<in> set (ps_messages (ch_state (nd_tx nd))). h_start m = gr_start g \<and> unat (h_len m) = gr_size g))"

lemma held_bytes:
  assumes "tx_held (Transmitting g) nd" and "node_inv L nd None rg M"
  shows "tx_frame L (grant_bytes g (ch_buf (nd_tx nd)))"
    and "tx_keeps nd nd' \<Longrightarrow> tx_held (Transmitting g) nd' \<and> grant_bytes g (ch_buf (nd_tx nd')) = grant_bytes g (ch_buf (nd_tx nd))"
proof -
  obtain m where m: "m \<in> set (ps_messages (ch_state (nd_tx nd)))" "h_start m = gr_start g" "unat (h_len m) = gr_size g"
    using assms(1) by (auto simp: tx_held_def)
  then have b: "grant_bytes g buf = frame_bytes buf m" for buf by (simp add: grant_bytes_def frame_bytes_def)
  show "tx_frame L (grant_bytes g (ch_buf (nd_tx nd)))"
    using chan_inv_frames [OF node_invD(2) [OF assms(2)]] m(1) by (simp add: b frames_ok_def)
  show "tx_held (Transmitting g) nd' \<and> grant_bytes g (ch_buf (nd_tx nd')) = grant_bytes g (ch_buf (nd_tx nd))" if "tx_keeps nd nd'"
    using that m st_extends_messages unfolding b by (fastforce simp: tx_keeps_def tx_held_def)
qed

lemma tx_begin_held:
  assumes inv: "node_inv L nd None None M" and b: "tx_begin nd s = (Inl ph, nd', s')"
  shows "tx_held ph nd'"
proof -
  obtain r sub st where r: "read_with_context True (nd_tx_sub nd) (ch_state (nd_tx nd)) = (r, sub, st)" by (metis prod_cases3)
  with b obtain g where g: "r = Ok g" "ph = Transmitting g" "nd' = nd\<lparr>nd_tx_sub := sub, nd_tx := (nd_tx nd)\<lparr>ch_state := st\<rparr>\<rparr>"
    by (cases r) (auto simp: tx_begin_def)
  obtain subs where "st_ok (ch_state (nd_tx nd)) None subs" using node_invD(2) [OF inv] by (rule chan_invE)
  then have ids: "ids_ok (ch_state (nd_tx nd))" by (rule st_okD(4))
  let ?st = "ch_state (nd_tx nd)"
  let ?i = "fs_next_message_id (caught_up ?st (nd_tx_sub nd)) - first_id ?st"
  from r [unfolded read_unfold [OF ids] Let_def] g(1) have i: "?i < length (ps_messages ?st)"
    and h: "gr_start g = h_start (ps_messages ?st ! ?i)" "gr_size g = unat (h_len (ps_messages ?st ! ?i))"
    and st: "ps_messages st = (ps_messages ?st)[?i := (ps_messages ?st ! ?i)\<lparr>h_subscriber_count := h_subscriber_count (ps_messages ?st ! ?i) - 1,
       h_read_in_progress := True\<rparr>]"
    by (auto split: if_splits)
  then have "ps_messages st ! ?i \<in> set (ps_messages st)" "h_start (ps_messages st ! ?i) = gr_start g"
    "unat (h_len (ps_messages st ! ?i)) = gr_size g" by (simp_all add: set_update_memI)
  with g(2,3) show ?thesis by (auto simp: tx_held_def)
qed

lemma stack_step_held:
  assumes sk: "socket_ok sk" and inv: "node_inv L nd None (rx_pending ph) M" and step: "stack_step tr sk ct branch now ph nd t = Some (Inr ph', nd', t')"
  shows "tx_held ph' nd'"
proof (cases "ph = Selecting")
  case True
  with step obtain s x nd1 s1 where s: "tr_socket tr t = Ok s" "select_begin sk branch now nd s = Some (x, nd1, s1)"
    by (auto split: result.splits)
  with step True have x: "x = Inl ph'" "nd' = nd1" by (auto simp: Let_def after_select_def split: sum.splits result.splits)
  have inv': "node_inv L nd None None M" using inv True by simp
  show ?thesis
  proof (cases branch)
    case (TxReady n)
    obtain pr s2 where p: "recv_dropped sk n (nd_reader nd) s = (pr, s2)" by force
    have "node_inv L (nd\<lparr>nd_reader := pr\<rparr>) None None M"
      using recv_dropped_ok [OF sk node_invD(4) [OF inv'], of n s] p by (intro node_inv_reader [OF inv']) simp
    from tx_begin_held [OF this] s(2) TxReady p x show ?thesis by (auto simp: select_begin_def)
  next
    case RxReady
    with s(2) x show ?thesis
      by (auto simp: select_begin_def rx_begin_def publish_begin_def Let_def tx_held_def
          split: option.splits prod.splits result.splits ReceivedPacket.splits StateError.splits)
  qed (use s(2) x in \<open>auto simp: select_begin_def split: prod.splits\<close>)
next
  case False
  with step show ?thesis
    by (cases ph) (auto simp: tx_held_def after_select_def split: if_splits option.splits result.splits prod.splits)
qed

lemma sys_exec_held:
  assumes sk: "socket_ok sk" and ok: "sys_ok L sys" and held: "tx_held (sys_phase sys) (sys_node sys)" and ex: "sys_exec tr sk a sys = Ok sys'"
  shows "tx_held (sys_phase sys') (sys_node sys')"
proof (cases "client_action a")
  case True
  note ck = client_keeps [OF ok True ex]
  show ?thesis
  proof (cases "sys_phase sys")
    case (Transmitting g)
    with held held_bytes(2) [OF _ sys_okD(1) [OF ok] ck(1)] ck(2) show ?thesis by simp
  qed (use ck(2) in \<open>simp_all add: tx_held_def\<close>)
next
  case False
  then consider ct branch now where "a = StepStack ct branch now" | t where "a = DropStack t" | "a = DisconnectStack" by (cases a) auto
  then show ?thesis
  proof cases
    case 1
    have idle: "tx_held AtTop nd" for nd by (simp add: tx_held_def)
    from 1 ex stack_step_held [OF sk sys_okD(1) [OF ok]] idle show ?thesis
      by (auto simp: move_stack_def split: option.splits prod.splits sum.splits if_splits)
  next
    case 2
    with ex show ?thesis by (auto simp: drop_stack_def tx_held_def)
  next
    case 3
    with ex held show ?thesis by (auto simp: disconnect_stack_def tx_held_def split: if_splits prod.splits result.splits)
  qed
qed

lemma sys_reach_held:
  assumes sk: "socket_ok sk" and A: "\<And>a. A a \<Longrightarrow> action_ok a" and reach: "sys_reach A tr sk TX sys"
  shows "tx_held (sys_phase sys) (sys_node sys)"
  using reach
proof induction
  case (sys_init RX config now nd t)
  show ?case by (simp add: tx_held_def sys_new_def)
next
  case (sys_step sys a sys')
  from sys_exec_held [OF sk sys_reach_ok [OF sk A sys_step(1)] sys_step(4,3)] show ?case .
qed

end
