(* ===== verification/Packet_Stream.thy ===== *)
theory Packet_Stream
  imports Wire
begin

text \<open>
  What the broker sees.  The stack writes to the socket in many places: the handshake, the answers to received packets,
  PINGREQ, the frames of the TX channel, and DISCONNECT.  The locale \<open>session_socket\<close> is the contract of a socket whose
  state tells a new connection from one that carries a session; its lemmas follow the socket through every step of the
  stack.  \<open>wire_transport\<close> adds what is needed of the transport.  Both are interpreted on a byte stream over TCP, where
  the contract says that the bytes written so far are CONNECT and then whole packets of a client.
\<close>

section \<open>Packets of a client\<close>

text \<open>What a client sends after CONNECT; a dropped grant writes nothing.\<close>

definition client_types :: "PacketType list" where
  "client_types = [PT_Publish, PT_PubAck, PT_PubRec, PT_PubRel, PT_PubComp, PT_Subscribe, PT_Unsubscribe, PT_PingReq, PT_Disconnect]"

definition client_packet :: "bytes \<Rightarrow> bool" where
  "client_packet bs \<longleftrightarrow> bs = [] \<or> (\<exists>t \<in> set client_types. whole_packet t bs)"

lemma encode_packet_whole:
  assumes "encodes_as t (to_buffer p)" and "length buf < 268435456" and "encode_packet to_buffer p buf = Ok bs"
  shows "whole_packet t bs"
proof -
  from assms(3) obtain e where e: "to_buffer p (encoder_new buf) = Ok e" "packet_bytes e = Ok bs"
    by (auto simp: encode_packet_def rbind_Ok_iff map_err_Ok_iff)
  from assms(1) [unfolded encodes_as_def, rule_format, OF e(1)] assms(2) e(2) show ?thesis
    by (auto simp: packet_bytes_def used_size_def slice_def split: if_splits)
qed

text \<open>The socket of the transport, if there is one, carries a session.\<close>

definition carries :: "('t, 's) Transport \<Rightarrow> ('s \<Rightarrow> bool) \<Rightarrow> 't \<Rightarrow> bool" where
  "carries tr live t \<longleftrightarrow> (case tr_socket tr t of Ok s \<Rightarrow> live s | _ \<Rightarrow> True)"

text \<open>The future of \<open>run\<close> is not dropped in the middle of a packet or of a handshake.\<close>

fun dropped_between :: "('t, 's) Transport \<Rightarrow> ('s \<Rightarrow> bool) \<Rightarrow> ('t, 's) Action \<Rightarrow> bool" where
  "dropped_between tr live (DropStack t) = carries tr live t"
| "dropped_between tr live _ = True"

lemma carries_iff: "carries tr live t \<longleftrightarrow> (\<forall>s. tr_socket tr t = Ok s \<longrightarrow> live s)"
  by (simp add: carries_def split: result.splits)

section \<open>A socket that carries a session\<close>

locale session_socket =
  fixes sk :: "'s Socket" and fresh :: "'s \<Rightarrow> bool" and live :: "'s \<Rightarrow> bool"
  assumes read_live: "live s \<Longrightarrow> live (snd (sk_read sk n s))"
    and read_exact_live: "live s \<Longrightarrow> live (snd (sk_read_exact sk n s))"
    and flush_live: "live s \<Longrightarrow> live (snd (sk_flush sk s))"
    and write_live: "live s \<Longrightarrow> client_packet bs \<Longrightarrow> live (snd (sk_write_all sk bs s))"
    and write_connect: "fresh s \<Longrightarrow> whole_packet PT_Connect bs \<Longrightarrow> live (snd (sk_write_all sk bs s))"
begin

lemma write_bytes_live:
  assumes "live (snd (sk_write_all sk bs s))" and "write_bytes sk bs s = (r, s')"
  shows "live s'"
  using assms flush_live by (auto simp: write_bytes_def split: prod.splits result.splits) (metis snd_conv)+

lemma read_chunk_live: "live s \<Longrightarrow> read_chunk sk pr s = (r, pr', s') \<Longrightarrow> live s'"
  using read_live by (auto simp: read_chunk_def split: prod.splits result.splits if_splits) (metis snd_conv)+

lemma read_chunks_live: "live s \<Longrightarrow> live (snd (read_chunks sk n pr s))"
proof (induction n arbitrary: pr s)
  case (Suc n)
  obtain r pr1 s1 where r: "read_chunk sk pr s = (r, pr1, s1)" by (metis prod_cases3)
  from Suc read_chunk_live [OF Suc.prems r] r show ?case by (cases r) auto
qed simp

lemma recv_dropped_live: "live s \<Longrightarrow> recv_dropped sk n pr s = (pr', s') \<Longrightarrow> live s'"
  using read_chunks_live by (cases n) (auto, metis snd_conv)

lemma recv_loop_live:
  assumes "recv_loop sk0 pr s = Some y"
  shows "sk0 = sk \<longrightarrow> live s \<longrightarrow> live (snd (snd y))"
  using assms
proof (rule recv_loop.raw_induct [rotated])
  fix loop sk1 pr s y
  assume IH: "\<And>sk1 pr s y. loop sk1 pr s = Some y \<Longrightarrow> sk1 = sk \<longrightarrow> live s \<longrightarrow> live (snd (snd y))"
    and eq: "(if pr_packet_len pr = None then
        (case read_chunk sk1 pr s of
           (Ok u, pr1, s1) \<Rightarrow> loop sk1 pr1 s1
         | (Err k, pr1, s1) \<Rightarrow> Some (Err (Io k), pr1, s1)
         | (Panic, pr1, s1) \<Rightarrow> Some (Panic, pr1, s1))
      else Some (Ok (), pr, s)) = Some y"
  show "sk1 = sk \<longrightarrow> live s \<longrightarrow> live (snd (snd y))"
  proof (intro impI)
    assume ok: "sk1 = sk" "live s"
    obtain r pr1 s1 where r: "read_chunk sk pr s = (r, pr1, s1)" by (metis prod_cases3)
    with read_chunk_live [OF ok(2) r] eq ok IH [of sk pr1 s1 y] show "live (snd (snd y))"
      by (cases r) (auto split: if_splits)
  qed
qed

lemma recv_live:
  assumes "live s" and "recv sk pr s = Some (r, pr', s')"
  shows "live s'"
proof -
  let ?pr = "if pr_packet_len pr \<noteq> None then reader_reset pr else pr"
  have "live (snd (snd y))" if "recv_loop sk ?pr s = Some y" for y using recv_loop_live [OF that] assms(1) by blast
  with assms(2) show ?thesis
    by (fastforce simp: recv_def Let_def split: option.splits prod.splits result.splits)
qed

lemma copy_all_live: "live s \<Longrightarrow> copy_all sk pp buf s = (r, s') \<Longrightarrow> live s'"
  using read_exact_live by (auto simp: copy_all_def Let_def split: prod.splits if_splits) (metis snd_conv)+

lemma discard_loop_live: "live s \<Longrightarrow> live (snd (discard_loop sk left s))"
proof (induction left arbitrary: s rule: less_induct)
  case (less left)
  obtain r s1 where r: "sk_read_exact sk (min left 64) s = (r, s1)" by force
  have "live s1" using read_exact_live [OF less.prems, of "min left 64"] r by simp
  with less r show ?case by (subst discard_loop.simps) (auto simp: Let_def split: result.splits)
qed

lemma discard_live: "live s \<Longrightarrow> discard sk pp s = (r, s') \<Longrightarrow> live s'"
  using discard_loop_live by (auto simp: discard_def) (metis snd_conv)

text \<open>What the stack writes of itself, with its write buffer.\<close>

lemma send_packet_live:
  assumes "live s" and "encodes_as t (to_buffer p)" and "t \<in> set client_types" and "length (nd_write_buf nd) = 32"
    and "send_packet sk to_buffer p nd s = (r, s')"
  shows "live s'"
proof (cases "encode_packet to_buffer p (nd_write_buf nd)")
  case (Ok bs)
  have "whole_packet t bs" using encode_packet_whole [OF assms(2) _ Ok] assms(4) by simp
  then have "client_packet bs" using assms(3) by (auto simp: client_packet_def)
  from write_bytes_live [OF write_live [OF assms(1) this]] Ok assms(5) show ?thesis by (simp add: send_packet_def)
qed (use assms in \<open>simp_all add: send_packet_def\<close>)

lemma reply_live:
  assumes "live s" and "\<And>p. encodes_as t (to_buffer p)" and "t \<in> set client_types" and "length (nd_write_buf nd) = 32"
    and "reply sk to_buffer rs nd s = (r, nd', s')"
  shows "live s'"
  using assms send_packet_live [OF assms(1,2,3,4)] by (auto simp: reply_def split: prod.splits result.splits)

lemma acknowledge_live:
  assumes "live s" and "length (nd_write_buf nd) = 32" and "acknowledge sk q nd s = (r, nd', s')"
  shows "live s'"
proof (cases q)
  case (QP_AtLeastOnce pid)
  with assms show ?thesis
    by (auto simp: acknowledge_def client_types_def intro: send_packet_live [OF assms(1) acks_encode(1) _ assms(2)] split: prod.splits)
next
  case (QP_ExactlyOnce pid)
  obtain x sh where x: "record_incoming pid (nd_shared nd) = (x, sh)" by force
  have "length (nd_write_buf (nd\<lparr>nd_shared := sh\<rparr>)) = 32" using assms(2) by simp
  note send_packet_live [OF assms(1) acks_encode(2) _ this]
  with assms QP_ExactlyOnce x show ?thesis
    by (cases x) (auto simp: acknowledge_def client_types_def Let_def split: prod.splits)
qed (use assms in \<open>simp add: acknowledge_def\<close>)

lemma on_packet_live:
  assumes "live s" and "length (nd_write_buf nd) = 32" and "\<And>q t pp. packet \<noteq> RP_PartialPublish q t pp"
    and "on_packet sk packet nd s = (r, nd', s')"
  shows "live s'"
proof (cases packet)
  case (RP_PubRec p)
  show ?thesis
    by (rule reply_live [of s PT_PubRel pubrel_to_buffer nd "handle_pub_rec p (nd_shared nd)"])
      (use assms RP_PubRec in \<open>simp_all add: on_packet_def client_types_def acks_encode\<close>)
next
  case (RP_PubRel p)
  show ?thesis
    by (rule reply_live [of s PT_PubComp pubcomp_to_buffer nd "handle_pub_rel p (nd_shared nd)"])
      (use assms RP_PubRel in \<open>simp_all add: on_packet_def client_types_def acks_encode\<close>)
qed (use assms in \<open>auto simp: on_packet_def Let_def quiet_def\<close>)

lemma finish_select_socket: "snd (snd (finish_select now x)) = snd (snd x)"
  by (auto simp: finish_select_def split: prod.splits result.splits)

lemma publish_begin_live: "live s \<Longrightarrow> publish_begin sk now q pp nd s = (x, nd', s') \<Longrightarrow> live s'"
  using discard_live by (auto simp: publish_begin_def finish_select_def Let_def split: prod.splits result.splits)

lemma publish_end_live:
  assumes "live s" and "length (nd_write_buf nd) = 32" and "publish_end sk now q pp g nd s = (r, nd', s')"
  shows "live s'"
proof -
  obtain x s1 where x: "copy_all sk pp (slice (ch_buf (nd_rx nd)) (gw_start g) (gw_size g)) s = (x, s1)" by force
  have s1: "live s1" by (rule copy_all_live [OF assms(1) x])
  show ?thesis
  proof (cases x)
    case (Ok bs)
    let ?nd = "nd\<lparr>nd_rx := \<lparr>ch_buf = splice (ch_buf (nd_rx nd)) (gw_start g) bs, ch_state = commit g (pp_packet_len pp) (ch_state (nd_rx nd))\<rparr>\<rparr>"
    obtain y nd2 s2 where y: "acknowledge sk q ?nd s1 = (y, nd2, s2)" by (metis prod_cases3)
    have "live s2" by (rule acknowledge_live [OF s1 _ y]) (use assms(2) in simp)
    with assms(3) x Ok y finish_select_socket [of now "(y, nd2, s2)"] show ?thesis by (simp add: publish_end_def Let_def)
  qed (use assms(3) x s1 in \<open>simp_all add: publish_end_def Let_def\<close>)
qed

lemma rx_begin_live:
  assumes "live s" and wb: "length (nd_write_buf nd) = 32" and rx: "rx_begin sk now nd s = Some (x, nd', s')"
  shows "live s'"
proof -
  from rx obtain r pr s1 where r: "recv sk (nd_reader nd) s = Some (r, pr, s1)" by (auto simp: rx_begin_def split: option.splits)
  have s1: "live s1" by (rule recv_live [OF assms(1) r])
  let ?nd = "nd\<lparr>nd_reader := pr\<rparr>"
  show ?thesis
  proof (cases r)
    case (Ok packet)
    show ?thesis
    proof (cases "\<exists>q t pp. packet = RP_PartialPublish q t pp")
      case True
      with rx r Ok publish_begin_live [OF s1] show ?thesis by (auto simp: rx_begin_def)
    next
      case False
      obtain y nd2 s2 where y: "on_packet sk packet ?nd s1 = (y, nd2, s2)" by (metis prod_cases3)
      have "live s2" using on_packet_live [OF s1 _ _ y] False wb by auto
      with rx r Ok y False finish_select_socket [of now "(y, nd2, s2)"] show ?thesis
        by (cases packet) (auto simp: rx_begin_def split: prod.splits)
    qed
  next
    case (Err e)
    with rx r s1 show ?thesis by (cases e) (auto simp: rx_begin_def)
  qed (use rx r s1 in \<open>auto simp: rx_begin_def\<close>)
qed

lemma select_keep_alive_live:
  assumes "live s" and "length (nd_write_buf nd) = 32" and "select_keep_alive sk now nd s = (r, nd', s')"
  shows "live s'"
proof -
  obtain x s1 where x: "send_packet sk pingreq_to_buffer PingReq (nd\<lparr>nd_awaiting_pingresp := True\<rparr>) s = (x, s1)" by force
  have "live s1" by (rule send_packet_live [OF assms(1) pingreq_encodes _ _ x]) (use assms(2) in \<open>simp_all add: client_types_def\<close>)
  with assms x show ?thesis
    by (auto simp: select_keep_alive_def handle_keep_alive_def finish_select_def split: if_splits result.splits)
qed

lemma select_begin_live:
  assumes "live s" and "length (nd_write_buf nd) = 32" and b: "select_begin sk branch now nd s = Some (x, nd', s')"
  shows "live s'"
proof (cases branch)
  case RxReady
  with b rx_begin_live [OF assms(1,2)] show ?thesis by (simp add: select_begin_def)
next
  case (TxReady n)
  obtain pr s1 where p: "recv_dropped sk n (nd_reader nd) s = (pr, s1)" by force
  with b TxReady recv_dropped_live [OF assms(1) p] show ?thesis
    by (auto simp: select_begin_def tx_begin_def split: prod.splits result.splits)
next
  case (KeepAliveExpired n)
  obtain pr s1 where p: "recv_dropped sk (Some n) (nd_reader nd) s = (pr, s1)" by force
  obtain r nd2 s2 where r: "select_keep_alive sk now (nd\<lparr>nd_reader := pr\<rparr>) s1 = (r, nd2, s2)" by (metis prod_cases3)
  have "live s2" by (rule select_keep_alive_live [OF recv_dropped_live [OF assms(1) p] _ r]) (use assms(2) in simp)
  with b KeepAliveExpired p r show ?thesis by (simp add: select_begin_def)
qed

lemma select_end_live:
  assumes "live s" and "length (nd_write_buf nd) = 32" and e: "select_end sk now ph nd s = (r, nd', s')"
    and tx: "\<And>g. ph = Transmitting g \<Longrightarrow> client_packet (grant_bytes g (ch_buf (nd_tx nd)))"
  shows "live s'"
proof (cases ph)
  case (Transmitting g)
  obtain x s1 where x: "write_bytes sk (grant_bytes g (ch_buf (nd_tx nd))) s = (x, s1)" by force
  have "live s1" by (rule write_bytes_live [OF write_live [OF assms(1) tx [OF Transmitting]] x])
  with e Transmitting x show ?thesis by (cases x) (auto simp: tx_end_def)
next
  case (Storing q pp g)
  with e publish_end_live [OF assms(1,2)] show ?thesis by simp
qed (use assms in simp_all)

text \<open>The handshake.\<close>

lemma connect_mqtt_live:
  assumes "fresh s" and "connect_mqtt sk now nd s = Some (Ok present, nd', s')"
  shows "live s'"
proof -
  obtain x nd1 s1 where x: "connect_send sk now nd s = (x, nd1, s1)" by (metis prod_cases3)
  with assms(2) have Ok: "x = Ok ()" by (cases x) (auto simp: connect_mqtt_def)
  with x obtain bs where bs: "encode_packet connect_to_buffer (connect_packet nd) (replicate 1024 0) = Ok bs"
    "write_bytes sk bs s = (Ok (), s1)"
    by (auto simp: connect_send_def split: result.splits prod.splits)
  have "whole_packet PT_Connect bs" by (rule encode_packet_whole [OF connect_encodes _ bs(1)]) simp
  from write_bytes_live [OF write_connect [OF assms(1) this] bs(2)] have "live s1" .
  moreover from assms(2) x Ok obtain packet pr s2 where r: "recv sk (nd_reader nd1) s1 = Some (packet, pr, s2)"
    by (auto simp: connect_mqtt_def)
  ultimately have "live s2" by (rule recv_live)
  with assms(2) x Ok r show ?thesis by (auto simp: connect_mqtt_def split: prod.splits)
qed

end

section \<open>The transport\<close>

locale wire_transport = session_socket sk fresh live
  for sk :: "'s Socket" and fresh live :: "'s \<Rightarrow> bool" +
  fixes tr :: "('t, 's) Transport"
  assumes connect_fresh: "tr_connect tr t = (Ok u, t') \<Longrightarrow> tr_socket tr t' = Ok s \<Longrightarrow> fresh s"
    and disconnect_none: "tr_socket tr (snd (tr_disconnect tr t)) \<noteq> Ok s"
    and set_socket: "tr_socket tr (tr_set_socket tr s t) = Ok s"
begin

lemma carries_set: "live s \<Longrightarrow> carries tr live (tr_set_socket tr s t)"
  by (simp add: carries_def set_socket)

lemma carries_disconnected: "carries tr live (snd (tr_disconnect tr t))" "tr_disconnect tr t = (r, t') \<Longrightarrow> carries tr live t'"
  using disconnect_none by (auto simp: carries_iff) (metis snd_conv)

lemma after_select_carries: "live s \<Longrightarrow> after_select tr r nd (tr_set_socket tr s t) = (x, nd', t') \<Longrightarrow> carries tr live t'"
  by (cases r) (auto simp: after_select_def carries_set carries_disconnected)

lemma connect_failed_carries: "connect_failed tr nd t = (out, nd', t') \<Longrightarrow> carries tr live t'"
  by (auto simp: connect_failed_def Let_def carries_disconnected split: option.splits if_splits)

lemma connect_attempt_carries:
  assumes c: "connect_attempt tr sk ct now nd t = Some (Some (Ok present), nd', t')"
  shows "carries tr live t'"
proof -
  obtain r t1 where t1: "tr_connect tr t = (r, t1)" by force
  from c t1 obtain s s1 where s: "r = Ok ()" "ct = NoCut" "tr_socket tr t1 = Ok s" "connect_mqtt sk now nd s = Some (Ok present, nd', s1)"
    "t' = tr_set_socket tr s1 t1"
    by (auto simp: connect_attempt_def split: Cut.splits result.splits prod.splits)
  from connect_mqtt_live [OF connect_fresh [OF t1 [unfolded s(1)] s(3)] s(4)] s(5) show ?thesis by (simp add: carries_set)
qed

lemma stack_step_carries:
  assumes t: "carries tr live t" and inv: "node_inv L nd None rg M" and L: "L < 65536" and held: "tx_held ph nd"
    and step: "stack_step tr sk ct branch now ph nd t = Some (x, nd', t')"
  shows "carries tr live t' \<or> x = Inl Panicked"
proof (cases ph)
  case AtTop
  with step t show ?thesis by (auto split: if_splits)
next
  case Attempting
  then show ?thesis
    using step connect_attempt_carries connect_failed_carries
    by (auto split: option.splits result.splits prod.splits)
next
  case Selecting
  show ?thesis
  proof (cases "tr_socket tr t")
    case (Ok s)
    with step Selecting obtain y nd1 s1 where y: "select_begin sk branch now nd s = Some (y, nd1, s1)" by auto
    have "live s" using t Ok by (simp add: carries_def)
    then have "live s1" using select_begin_live [OF _ node_invD(5) [OF inv] y] by blast
    with step Selecting Ok y show ?thesis
      by (cases y) (auto simp: Let_def carries_set dest: after_select_carries [rotated])
  qed (use step Selecting carries_disconnected in auto)
next
  case (Transmitting g)
  show ?thesis
  proof (cases "tr_socket tr t")
    case (Ok s)
    obtain r nd1 s1 where e: "select_end sk now ph nd s = (r, nd1, s1)" by (metis prod_cases3)
    have "tx_frame L (grant_bytes g (ch_buf (nd_tx nd)))" using held_bytes(1) [OF held [unfolded Transmitting] inv] .
    then have "client_packet (grant_bytes g (ch_buf (nd_tx nd)))"
      using L by (auto simp: tx_frame_def client_packet_def client_types_def request_packet_def)
    moreover have "live s" using t Ok by (simp add: carries_def)
    ultimately have "live s1" using select_end_live [OF _ node_invD(5) [OF inv] e] Transmitting by blast
    with step Transmitting Ok e show ?thesis by (auto dest: after_select_carries [rotated])
  qed (use step Transmitting carries_disconnected in auto)
next
  case (Storing q pp g)
  show ?thesis
  proof (cases "tr_socket tr t")
    case (Ok s)
    obtain r nd1 s1 where e: "select_end sk now ph nd s = (r, nd1, s1)" by (metis prod_cases3)
    have "live s" using t Ok by (simp add: carries_def)
    then have "live s1" using select_end_live [OF _ node_invD(5) [OF inv] e] Storing by blast
    with step Storing Ok e show ?thesis by (auto dest: after_select_carries [rotated])
  qed (use step Storing carries_disconnected in auto)
qed

lemma stack_disconnect_carries:
  assumes t: "carries tr live t" and wb: "length (nd_write_buf nd) = 32" and d: "stack_disconnect tr sk nd t = (r, nd', t')"
  shows "carries tr live t'"
proof (cases "tr_socket tr t")
  case (Ok s)
  let ?p = "\<lparr>dc_reason_code = DR_Normal, dc_properties = Slice [SessionExpiryInterval 0]\<rparr>"
  show ?thesis
  proof (cases "encode_packet disconnect_to_buffer ?p (nd_write_buf nd)")
    case bs: (Ok bs)
    obtain x s1 where x: "write_bytes sk bs s = (x, s1)" by force
    have "whole_packet PT_Disconnect bs" using encode_packet_whole [OF disconnect_encodes_as _ bs] wb by simp
    then have "client_packet bs" by (auto simp: client_packet_def client_types_def)
    from write_bytes_live [OF write_live [OF _ this] x] t Ok have "live s1" by (simp add: carries_def)
    with d Ok bs x show ?thesis
      by (cases x) (auto simp: stack_disconnect_def carries_set dest: carries_disconnected(2) split: prod.splits result.splits)
  qed (use d t in \<open>simp_all add: stack_disconnect_def\<close>)
qed (use d t in \<open>auto simp: stack_disconnect_def split: result.splits\<close>)

section \<open>The system\<close>

lemma client_transport: "client_action a \<Longrightarrow> sys_exec tr sk a sys = Ok sys' \<Longrightarrow> sys_transport sys' = sys_transport sys"
  by (cases a) (auto simp: start_publish_def move_publish_def drop_publish_def start_subscribe_def move_subscribe_def finish_subscribe_def
      drop_subscribe_def poll_subscription_def drop_message_def drop_subscription_def start_unsubscribe_def step_unsubscribe_def
      end_unsubscribe_def Let_def split: if_splits prod.splits result.splits Task.splits NextPoll.splits)

lemma sys_exec_carries:
  assumes ok: "sys_ok L sys" "L < 65536" and held: "tx_held (sys_phase sys) (sys_node sys)" and t: "carries tr live (sys_transport sys)"
    and a: "dropped_between tr live a" and ex: "sys_exec tr sk a sys = Ok sys'"
  shows "carries tr live (sys_transport sys')"
proof (cases "client_action a")
  case True
  with client_transport [OF True ex] t show ?thesis by simp
next
  case False
  then consider ct branch now where "a = StepStack ct branch now" | t1 where "a = DropStack t1" | "a = DisconnectStack" by (cases a) auto
  then show ?thesis
  proof cases
    case 1
    from 1 ex obtain x nd t1 where st: "stack_step tr sk ct branch now (sys_phase sys) (sys_node sys) (sys_transport sys) = Some (x, nd, t1)"
      by (auto simp: move_stack_def split: option.splits)
    from stack_step_carries [OF t sys_okD(1) [OF ok(1)] ok(2) held st] 1 ex st show ?thesis
      by (auto simp: move_stack_def split: sum.splits if_splits)
  next
    case 2
    with a ex show ?thesis by (auto simp: drop_stack_def)
  next
    case 3
    with ex t stack_disconnect_carries [OF t node_invD(5) [OF sys_okD(1) [OF ok(1)]]] show ?thesis
      by (auto simp: disconnect_stack_def split: if_splits prod.splits result.splits)
  qed
qed

lemma sys_run_carries:
  assumes sk: "socket_ok sk" and L: "TX < 65536" and "sys_reach action_ok tr sk TX sys" and "carries tr live (sys_transport sys)"
    and "list_all action_ok as" and "list_all (dropped_between tr live) as" and "sys_run tr sk as sys = Ok sys'"
  shows "carries tr live (sys_transport sys')"
  using assms(3-7)
proof (induction as arbitrary: sys)
  case (Cons a as)
  from Cons.prems(5) obtain sys1 where s: "sys_exec tr sk a sys = Ok sys1" "sys_run tr sk as sys1 = Ok sys'" by (auto simp: rbind_Ok_iff)
  have a: "action_ok a" "dropped_between tr live a" "list_all action_ok as" "list_all (dropped_between tr live) as" using Cons.prems(3,4) by simp_all
  have "carries tr live (sys_transport sys1)"
    by (rule sys_exec_carries [OF sys_reach_ok [OF sk _ Cons.prems(1)] L sys_reach_held [OF sk _ Cons.prems(1)] Cons.prems(2) a(2) s(1)])
  moreover have "sys_reach action_ok tr sk TX sys1" by (rule sys_step [OF Cons.prems(1) a(1) s(1)])
  ultimately show ?case using Cons.IH a(3,4) s(2) by blast
qed simp

end

section \<open>A byte stream over TCP\<close>

text \<open>The network as the bytes that each new connection delivers; nothing is written on it yet.\<close>

definition stream_net :: "(SocketAddr \<Rightarrow> (ErrorKind, bytes) result) \<Rightarrow> SocketAddr \<Rightarrow> (ErrorKind, bytes \<times> bytes) result" where
  "stream_net net addr = map_ok (\<lambda>inp. (inp, [])) (net addr)"

definition stream_session :: "bytes \<times> bytes \<Rightarrow> bool" where
  "stream_session s \<longleftrightarrow>
     (\<exists>c ps. snd s = c @ concat ps \<and> whole_packet PT_Connect c \<and> (\<forall>p \<in> set ps. \<exists>t \<in> set client_types. whole_packet t p))"

lemma stream_session_more:
  assumes "stream_session (inp, out)" and "client_packet bs"
  shows "stream_session (inp', out @ bs)"
proof (cases "bs = []")
  case False
  with assms(2) obtain t where t: "t \<in> set client_types" "whole_packet t bs" by (auto simp: client_packet_def)
  from assms(1) obtain c ps where "out = c @ concat ps" "whole_packet PT_Connect c" "\<forall>p \<in> set ps. \<exists>t \<in> set client_types. whole_packet t p"
    by (auto simp: stream_session_def)
  with t show ?thesis unfolding stream_session_def by (intro exI [of _ c] exI [of _ "ps @ [bs]"]) auto
qed (use assms in \<open>simp add: stream_session_def\<close>)

interpretation stream_session: session_socket stream_socket "\<lambda>s. snd s = []" stream_session
proof (unfold_locales, goal_cases)
  case (4 s bs)
  then show ?case by (cases s) (simp add: stream_socket_def stream_session_more)
next
  case (5 s bs)
  then have "bs = bs @ concat []" "whole_packet PT_Connect bs" by simp_all
  then have "stream_session (fst s, bs)" unfolding stream_session_def by fastforce
  with 5 show ?case by (cases s) (simp add: stream_socket_def)
qed (auto simp: stream_socket_def stream_session_def [of "(_, _)"] split: prod.splits if_splits)

interpretation stream_wire: wire_transport stream_socket "\<lambda>s. snd s = []" stream_session "nal_transport get_address (stream_net net)"
  by unfold_locales
    (auto simp: nal_transport_def nal_connect_def nal_disconnect_def nal_get_socket_def stream_net_def
      split: prod.splits option.splits result.splits elim!: map_ok.elims)

end
