(* ===== verification/Tx_Queue.thy ===== *)
theory Tx_Queue
  imports Wire
begin

text \<open>
  The TX channel as a queue with one reader.  Between two iterations every frame of the channel is unread and the
  subscriber of the stack stands at the first of them; while a frame is written it is the first one and the only one that
  was read.  This holds in every interleaving, and with it the frames leave the channel in the order in which they were
  queued, each once.
\<close>

section \<open>Steps that leave the channel alone\<close>

definition same_tx :: "Node \<Rightarrow> Node \<Rightarrow> bool" where
  "same_tx nd nd' \<longleftrightarrow> nd_tx nd' = nd_tx nd \<and> nd_tx_sub nd' = nd_tx_sub nd \<and> nd_tx_locked nd' = nd_tx_locked nd \<and>
     nd_write_buf nd' = nd_write_buf nd"

lemma same_tx_refl [simp]: "same_tx nd nd"
  by (simp add: same_tx_def)

lemma same_tx_trans: "same_tx nd nd1 \<Longrightarrow> same_tx nd1 nd2 \<Longrightarrow> same_tx nd nd2"
  by (simp add: same_tx_def)

lemma same_tx_update [simp]:
  "same_tx nd (nd1\<lparr>nd_shared := sh\<rparr>) = same_tx nd nd1" "same_tx nd (nd1\<lparr>nd_rx := rx\<rparr>) = same_tx nd nd1"
  "same_tx nd (nd1\<lparr>nd_reader := pr\<rparr>) = same_tx nd nd1" "same_tx nd (nd1\<lparr>nd_last_network_action := now\<rparr>) = same_tx nd nd1"
  "same_tx nd (nd1\<lparr>nd_awaiting_pingresp := c\<rparr>) = same_tx nd nd1" "same_tx nd (nd1\<lparr>nd_config := cfg\<rparr>) = same_tx nd nd1"
  "same_tx nd (nd1\<lparr>nd_clean_start := b\<rparr>) = same_tx nd nd1" "same_tx nd (nd1\<lparr>nd_connect_attempts := k\<rparr>) = same_tx nd nd1"
  "same_tx nd (with_shared f nd1) = same_tx nd nd1" "same_tx nd (stack_reset nd1) = same_tx nd nd1"
  by (simp_all add: same_tx_def with_shared_def stack_reset_def)

lemma same_tx_reader: "same_tx (nd\<lparr>nd_reader := pr\<rparr>) nd' = same_tx nd nd'"
  by (simp add: same_tx_def)

lemma acknowledge_tx: "acknowledge sk q nd s = (r, nd', s') \<Longrightarrow> same_tx nd nd'"
  by (cases q) (auto simp: acknowledge_def Let_def split: prod.splits result.splits)

lemma on_packet_tx:
  "on_packet sk packet nd s = (r, nd', s') \<Longrightarrow> (\<And>q t pp. packet \<noteq> RP_PartialPublish q t pp) \<Longrightarrow> same_tx nd nd'"
  by (cases packet) (auto simp: on_packet_def quiet_def reply_def Let_def split: prod.splits result.splits)

lemma finish_select_tx: "finish_select now (x, nd1, s1) = (r, nd', s') \<Longrightarrow> same_tx nd nd' = same_tx nd nd1"
  by (cases x) (auto simp: finish_select_def)

lemma publish_begin_tx: "publish_begin sk now q pp nd s = (x, nd', s') \<Longrightarrow> same_tx nd nd'"
  by (auto simp: publish_begin_def Let_def finish_select_def split: prod.splits result.splits)

lemma publish_end_tx:
  assumes "publish_end sk now q pp g nd s = (r, nd', s')"
  shows "same_tx nd nd'"
proof -
  obtain x s1 where x: "copy_all sk pp (slice (ch_buf (nd_rx nd)) (gw_start g) (gw_size g)) s = (x, s1)" by force
  show ?thesis
  proof (cases x)
    case (Ok bs)
    let ?nd = "nd\<lparr>nd_rx := \<lparr>ch_buf = splice (ch_buf (nd_rx nd)) (gw_start g) bs, ch_state = commit g (pp_packet_len pp) (ch_state (nd_rx nd))\<rparr>\<rparr>"
    obtain y nd2 s2 where y: "acknowledge sk q ?nd s1 = (y, nd2, s2)" by (metis prod_cases3)
    have "same_tx nd nd2" by (rule same_tx_trans [OF _ acknowledge_tx [OF y]]) simp
    with assms x Ok y finish_select_tx [of now y nd2 s2] show ?thesis by (simp add: publish_end_def Let_def)
  qed (use assms x in \<open>auto simp: publish_end_def Let_def\<close>)
qed

lemma rx_begin_tx:
  assumes rx: "rx_begin sk now nd s = Some (x, nd', s')"
  shows "same_tx nd nd'"
proof -
  from rx obtain r pr s1 where r: "recv sk (nd_reader nd) s = Some (r, pr, s1)" by (auto simp: rx_begin_def split: option.splits)
  let ?nd = "nd\<lparr>nd_reader := pr\<rparr>"
  show ?thesis
  proof (cases r)
    case (Ok packet)
    show ?thesis
    proof (cases "\<exists>q t pp. packet = RP_PartialPublish q t pp")
      case True
      with rx r Ok publish_begin_tx [of sk now _ _ ?nd s1] show ?thesis by (auto simp: rx_begin_def same_tx_reader)
    next
      case False
      obtain y nd2 s2 where y: "on_packet sk packet ?nd s1 = (y, nd2, s2)" by (metis prod_cases3)
      obtain y' nd3 s3 where y': "finish_select now (y, nd2, s2) = (y', nd3, s3)" by (metis prod_cases3)
      have "same_tx nd nd2" using on_packet_tx [OF y] False by (simp add: same_tx_reader)
      then have "same_tx nd nd3" by (simp add: finish_select_tx [OF y'])
      with rx r Ok y y' False show ?thesis by (cases packet) (auto simp: rx_begin_def)
    qed
  next
    case (Err e)
    with rx r show ?thesis by (cases e) (auto simp: rx_begin_def)
  qed (use rx r in \<open>auto simp: rx_begin_def\<close>)
qed

lemma connect_mqtt_tx:
  assumes c: "connect_mqtt sk now nd s = Some (r, nd', s')"
  shows "same_tx nd nd'"
proof -
  obtain x nd1 s1 where x: "connect_send sk now nd s = (x, nd1, s1)" by (metis prod_cases3)
  then have nd1: "same_tx nd nd1" by (auto simp: connect_send_def split: result.splits prod.splits)
  show ?thesis
  proof (cases x)
    case (Ok u)
    with c x obtain packet pr s2 where p: "recv sk (nd_reader nd1) s1 = Some (packet, pr, s2)" by (auto simp: connect_mqtt_def)
    then have "connect_answer packet (nd1\<lparr>nd_reader := pr\<rparr>) = (r, nd')" using c x Ok by (auto simp: connect_mqtt_def split: prod.splits)
    with nd1 show ?thesis
      by (auto simp: connect_answer_def split: result.splits prod.splits ReceivedPacket.splits)
  qed (use c x nd1 in \<open>auto simp: connect_mqtt_def\<close>)
qed

lemma connect_attempt_tx:
  assumes "connect_attempt tr sk ct now nd t = Some (r, nd', t')"
  shows "same_tx nd nd'"
proof -
  have s: "same_tx nd nd1" if "connect_send sk now nd s = (x, nd1, s1)" for s x nd1 s1
    using that by (auto simp: connect_send_def split: result.splits prod.splits)
  show ?thesis
    using assms s connect_mqtt_tx
    by (auto simp: connect_attempt_def split: Cut.splits result.splits prod.splits)
qed

section \<open>The subscriber of the stack belongs to the stack\<close>

lemma request_step_sub: "nd_tx_sub (snd (request_step me n w0 wait p task nd)) = nd_tx_sub nd"
proof -
  have "nd_tx_sub (snd (send_finish me p pid g nd1)) = nd_tx_sub nd1" for pid g nd1
    by (auto simp: send_finish_def tx_drop_def Let_def split: result.splits prod.splits)
  moreover have "nd_tx_sub (snd (send_grant me p pid nd)) = nd_tx_sub nd" for pid
    by (auto simp: send_grant_def split: result.splits prod.splits)
  ultimately show ?thesis
    by (cases task) (auto simp: wait_connected_poll_def with_shared_def split: prod.splits option.splits result.splits sum.splits, (metis snd_conv)+)
qed

lemma request_timeout_sub: "nd_tx_sub (snd (request_timeout n on_drop task nd)) = nd_tx_sub nd"
  by (cases task) (simp_all add: with_shared_def)

lemma rx_only_sub:
  "nd_tx_sub (snd (subscriber_gone s nd)) = nd_tx_sub nd" "nd_tx_sub (snd (subscribe_begin nd)) = nd_tx_sub nd"
  "nd_tx_sub (snd (subscribe_finish n p r s nd)) = nd_tx_sub nd" "nd_tx_sub (snd (snd (poll_next sub nd))) = nd_tx_sub nd"
  "nd_tx_sub (message_drop m nd) = nd_tx_sub nd" "nd_tx_sub (snd (drop_pid free nd)) = nd_tx_sub nd"
  by (auto simp: subscriber_gone_def subscribe_begin_def subscribe_finish_def poll_next_def message_drop_def drop_pid_def Let_def
      with_rx_def with_shared_def split: prod.splits result.splits)

lemma subscription_drop_sub: "nd_tx_sub (snd (subscription_drop free1 free2 sub nd)) = nd_tx_sub nd"
proof -
  have gone: "nd_tx_sub nd2 = nd_tx_sub nd1" if "subscriber_gone s nd1 = (r, nd2)" for s nd1 r nd2
    using rx_only_sub(1) [of s nd1] that by simp
  have pid: "nd_tx_sub nd1 = nd_tx_sub nd" if "drop_pid free1 nd = (r, nd1)" for r nd1
    using rx_only_sub(6) [of free1 nd] that by simp
  have un: "nd_tx_sub nd2 = nd_tx_sub nd1" if "drop_unsubscribe free2 packet pid g nd1 = (r, nd2)" for packet pid g nd1 r nd2
    using that by (auto simp: drop_unsubscribe_def Let_def tx_drop_def with_shared_def split: result.splits if_splits)
  show ?thesis
    by (auto simp: subscription_drop_def Let_def rx_only_sub(1) split: prod.splits result.splits dest!: gone pid un)
qed

lemma client_sub:
  assumes "client_action a" and "sys_exec tr sk a sys = Ok sys'"
  shows "nd_tx_sub (sys_node sys') = nd_tx_sub (sys_node sys)"
proof -
  have sub: "f nd = (x, nd') \<Longrightarrow> nd_tx_sub (snd (f nd)) = nd_tx_sub nd \<Longrightarrow> nd_tx_sub nd' = nd_tx_sub nd" for f :: "Node \<Rightarrow> 'x \<times> Node" and nd x nd'
    by simp
  note steps = sub [OF _ request_step_sub] sub [OF _ request_timeout_sub]
  note rest = sub [OF _ rx_only_sub(1)] sub [OF _ rx_only_sub(2)] sub [OF _ rx_only_sub(3)] sub [OF _ subscription_drop_sub]
  show ?thesis
  proof (cases a)
    case (PollSubscription k)
    with assms(2) rx_only_sub(4) [of "sys_subscriptions sys ! k" "sys_node sys"] show ?thesis
      by (auto simp: poll_subscription_def Let_def split: if_splits prod.splits NextPoll.splits)
  next
    case (DropSubscribe k free)
    with assms(2) request_timeout_sub [of 3 "subscribe_on_drop free" "sc_task (sys_subscribes sys ! k)" "sys_node sys"] show ?thesis
      by (auto simp: drop_subscribe_def subscribe_timeout_def Let_def dest!: rest split: if_splits prod.splits result.splits)
  next
    case (EndUnsubscribe k free1 free2)
    with assms(2) request_timeout_sub [of 1 "\<lambda>_ sh. sh" "snd (sys_unsubscribes sys ! k)" "sys_node sys"] show ?thesis
      by (auto simp: end_unsubscribe_def Let_def dest!: rest split: if_splits prod.splits result.splits)
  qed (use assms in \<open>auto simp: start_publish_def move_publish_def drop_publish_def start_subscribe_def move_subscribe_def finish_subscribe_def
      drop_message_def drop_subscription_def start_unsubscribe_def step_unsubscribe_def publish_step_def publish_timeout_def
      subscribe_step_def subscribe_timeout_def unsubscribe_step_def Let_def request_timeout_sub rx_only_sub(5)
      dest!: steps rest split: if_splits prod.splits result.splits Task.splits\<close>)
qed

section \<open>One reader\<close>

definition queue_idle :: "FrameSubscriber \<Rightarrow> State \<Rightarrow> bool" where
  "queue_idle sub st \<longleftrightarrow> ps_subscriber_count st = 1 \<and> list_all (unread_frame 1) (ps_messages st) \<and> fs_next_message_id sub \<le> first_id st"

definition queue_busy :: "FrameGrantR \<Rightarrow> FrameSubscriber \<Rightarrow> State \<Rightarrow> bool" where
  "queue_busy g sub st \<longleftrightarrow> ps_subscriber_count st = 1 \<and>
     (\<exists>m ms. ps_messages st = m # ms \<and> list_all (unread_frame 1) ms \<and> h_subscriber_count m = 0 \<and> h_read_in_progress m \<and>
        h_message_id m = gr_message_id g \<and> fs_next_message_id sub \<le> Suc (first_id st))"

definition tx_queue :: "StackPhase \<Rightarrow> Node \<Rightarrow> bool" where
  "tx_queue ph nd \<longleftrightarrow>
     (case ph of Transmitting g \<Rightarrow> gr_auto_release g \<and> queue_busy g (nd_tx_sub nd) (ch_state (nd_tx nd))
      | _ \<Rightarrow> queue_idle (nd_tx_sub nd) (ch_state (nd_tx nd)))"

lemma queue_extends:
  assumes "st_extends st st'"
  shows "queue_idle sub st \<Longrightarrow> queue_idle sub st'" and "queue_busy g sub st \<Longrightarrow> queue_busy g sub st'"
  using assms by (auto simp: queue_idle_def queue_busy_def st_extends_def)

lemma queue_same: "same_tx nd nd' \<Longrightarrow> tx_queue ph nd' = tx_queue ph nd"
  by (simp add: tx_queue_def same_tx_def split: StackPhase.splits)

text \<open>Reading takes the first frame, releasing it removes it.\<close>

lemma queue_read:
  assumes "queue_idle sub st" and ids: "ids_ok st"
  shows "ps_messages st = [] \<Longrightarrow> \<exists>sub' st'. read_with_context cx sub st = (Err InsufficientSize, sub', st') \<and> queue_idle sub' st' \<and> ps_messages st' = []"
    and "ps_messages st = m # ms \<Longrightarrow> \<exists>g sub' st'. read_with_context cx sub st = (Ok g, sub', st') \<and> queue_busy g sub' st' \<and>
      gr_auto_release g \<and> gr_start g = h_start m \<and> gr_size g = unat (h_len m) \<and> gr_pid g = h_pid m \<and>
      (\<exists>m'. ps_messages st' = m' # ms)"
proof -
  have i: "fs_next_message_id (caught_up st sub) - first_id st = 0" using assms(1) by (simp add: queue_idle_def)
  show "\<exists>sub' st'. read_with_context cx sub st = (Err InsufficientSize, sub', st') \<and> queue_idle sub' st' \<and> ps_messages st' = []"
    if "ps_messages st = []"
    using assms(1) i that by (auto simp: read_unfold [OF ids] queue_idle_def first_id_def register_if_def)
  show "\<exists>g sub' st'. read_with_context cx sub st = (Ok g, sub', st') \<and> queue_busy g sub' st' \<and>
      gr_auto_release g \<and> gr_start g = h_start m \<and> gr_size g = unat (h_len m) \<and> gr_pid g = h_pid m \<and>
      (\<exists>m'. ps_messages st' = m' # ms)" if "ps_messages st = m # ms"
    using assms(1) i that by (auto simp: read_unfold [OF ids] queue_idle_def queue_busy_def unread_frame_def first_id_def)
qed

lemma queue_release:
  assumes "queue_busy g sub st" and h: "gr_auto_release h" "gr_message_id h = gr_message_id g" and ids: "ids_ok st"
  shows "queue_idle sub (read_grant_drop h st)" and "ps_messages (read_grant_drop h st) = tl (ps_messages st)"
proof -
  obtain m ms where m: "ps_messages st = m # ms" "list_all (unread_frame 1) ms" "h_subscriber_count m = 0" "h_read_in_progress m"
    "h_message_id m = gr_message_id g" "fs_next_message_id sub \<le> Suc (first_id st)" "ps_subscriber_count st = 1"
    using assms(1) by (auto simp: queue_busy_def)
  then have r: "read_grant_drop h st = waker_call WakeSubscribers (waker_call WakePublisher (st\<lparr>ps_messages := ms\<rparr>))"
    using h by (simp add: read_grant_drop_def release_inner_def)
  show "ps_messages (read_grant_drop h st) = tl (ps_messages st)" using m(1) by (simp add: r waker_call_def)
  have "first_id (st\<lparr>ps_messages := ms\<rparr>) = Suc (first_id st)"
    using ids [unfolded ids_ok_def] m(1) by (auto simp: first_id_def)
  then show "queue_idle sub (read_grant_drop h st)" using m by (simp add: r queue_idle_def waker_call_def first_id_def)
qed

lemma node_ids:
  assumes "node_inv L nd None rg M"
  shows "ids_ok (ch_state (nd_tx nd))"
proof -
  obtain subs where "st_ok (ch_state (nd_tx nd)) None subs" using node_invD(2) [OF assms] by (rule chan_invE)
  then show ?thesis by (rule st_okD(4))
qed

lemma queue_tx_release:
  assumes inv: "node_inv L nd None rg M" and q: "tx_queue (Transmitting g) nd"
  shows "queue_idle (nd_tx_sub nd) (release g (ch_state (nd_tx nd)))" and "queue_idle (nd_tx_sub nd) (read_grant_drop g (ch_state (nd_tx nd)))"
    and "ps_messages (release g (ch_state (nd_tx nd))) = tl (ps_messages (ch_state (nd_tx nd)))"
  using q queue_release [OF _ _ _ node_ids [OF inv]]
  by (auto simp: tx_queue_def release_def auto_release_def)

lemma tx_begin_queue:
  assumes inv: "node_inv L nd None rg M" and q: "queue_idle (nd_tx_sub nd) (ch_state (nd_tx nd))" and b: "tx_begin nd s = (x, nd', s')"
  shows "case x of Inl ph \<Rightarrow> tx_queue ph nd' | Inr r \<Rightarrow> queue_idle (nd_tx_sub nd') (ch_state (nd_tx nd'))"
proof (cases "ps_messages (ch_state (nd_tx nd))")
  case Nil
  with queue_read(1) [OF q node_ids [OF inv] Nil, of True] b show ?thesis by (auto simp: tx_begin_def)
next
  case (Cons m ms)
  with queue_read(2) [OF q node_ids [OF inv] Cons, of True] b show ?thesis by (auto simp: tx_begin_def tx_queue_def)
qed

lemma tx_end_queue:
  assumes "node_inv L nd None rg M" and "tx_queue (Transmitting g) nd" and "tx_end sk now g nd s = (r, nd', s')"
  shows "queue_idle (nd_tx_sub nd') (ch_state (nd_tx nd'))"
  using assms(3) queue_tx_release(1) [OF assms(1,2)]
  by (auto simp: tx_end_def tx_release_def split: prod.splits result.splits)

lemma stack_dropped_queue:
  assumes "node_inv L nd None rg M" and "tx_queue ph nd"
  shows "queue_idle (nd_tx_sub (stack_dropped ph nd)) (ch_state (nd_tx (stack_dropped ph nd)))"
  using assms(2) queue_tx_release(2) [OF assms(1)] by (cases ph) (auto simp: tx_queue_def)

lemma idle_queue: "tx_queue AtTop nd = queue_idle (nd_tx_sub nd) (ch_state (nd_tx nd))"
  by (simp add: tx_queue_def)

text \<open>\<open>select\<close> up to its first wait, and after it.\<close>

lemma select_begin_queue:
  assumes sk: "socket_ok sk" and inv: "node_inv L nd None None M" and q: "tx_queue AtTop nd"
    and b: "select_begin sk branch now nd s = Some (x, nd', s')"
  shows "case x of Inl ph \<Rightarrow> tx_queue ph nd' | Inr r \<Rightarrow> tx_queue AtTop nd'"
proof (cases branch)
  case (TxReady n)
  obtain pr s1 where p: "recv_dropped sk n (nd_reader nd) s = (pr, s1)" by force
  have "node_inv L (nd\<lparr>nd_reader := pr\<rparr>) None None M"
    using recv_dropped_ok [OF sk node_invD(4) [OF inv], of n s] p by (intro node_inv_reader [OF inv]) simp
  from tx_begin_queue [OF this, of s1 x nd' s'] q b TxReady p show ?thesis
    by (cases x) (simp_all add: select_begin_def idle_queue)
next
  case RxReady
  with b have rx: "rx_begin sk now nd s = Some (x, nd', s')" by (simp add: select_begin_def)
  have "\<exists>q pp g. ph = Storing q pp g" if "x = Inl ph" for ph
    using rx that by (auto simp: rx_begin_def publish_begin_def Let_def
        split: option.splits prod.splits result.splits ReceivedPacket.splits StateError.splits)
  moreover have "tx_queue AtTop nd'" using q queue_same [OF rx_begin_tx [OF rx]] by simp
  ultimately show ?thesis by (cases x) (auto simp: tx_queue_def)
next
  case (KeepAliveExpired n)
  with b have "same_tx nd nd' \<and> (\<exists>r. x = Inr r)"
    by (auto simp: select_begin_def select_keep_alive_def handle_keep_alive_def finish_select_def
        split: prod.splits result.splits if_splits)
  with q show ?thesis by (auto simp: queue_same)
qed

lemma select_end_queue:
  assumes inv: "node_inv L nd None rg M" and q: "tx_queue ph nd" and e: "select_end sk now ph nd s = (r, nd', s')"
  shows "tx_queue AtTop nd'"
proof (cases ph)
  case (Transmitting g)
  with q e tx_end_queue [OF inv, of g sk now s r nd' s'] show ?thesis by (simp add: idle_queue)
next
  case (Storing qp pp g)
  with e have "same_tx nd nd'" by (simp add: publish_end_tx)
  with q Storing show ?thesis by (simp add: queue_same) (simp add: tx_queue_def)
qed (use q e in \<open>auto simp: tx_queue_def\<close>)

lemma after_select_queue: "tx_queue AtTop nd \<Longrightarrow> after_select tr r nd t = (x, nd', t') \<Longrightarrow> tx_queue AtTop nd' \<and> (\<forall>ph. x \<noteq> Inr ph)"
proof (cases r)
  case (Err e)
  assume "tx_queue AtTop nd" "after_select tr r nd t = (x, nd', t')"
  with Err queue_same [of nd "stack_reset nd" AtTop] show ?thesis by (auto simp: after_select_def)
qed (auto simp: after_select_def)

lemma stack_step_queue:
  assumes sk: "socket_ok sk" and inv: "node_inv L nd None (rx_pending ph) M" and q: "tx_queue ph nd"
    and step: "stack_step tr sk ct branch now ph nd t = Some (x, nd', t')"
  shows "case x of Inr ph' \<Rightarrow> tx_queue ph' nd' | Inl out \<Rightarrow> tx_queue AtTop nd'"
proof (cases "waits_in_select ph")
  case True
  note dr = stack_dropped_queue [OF inv q, folded idle_queue]
  have rs: "tx_queue AtTop (stack_reset (stack_dropped ph nd))" using dr queue_same [of "stack_dropped ph nd" "stack_reset (stack_dropped ph nd)"] by simp
  from True have st: "stack_step tr sk ct branch now ph nd t =
      (case tr_socket tr t of
         Panic \<Rightarrow> Some (Inl Panicked, stack_dropped ph nd, t)
       | Err e \<Rightarrow> Some (Inl Again, stack_reset (stack_dropped ph nd), snd (tr_disconnect tr t))
       | Ok s \<Rightarrow> Some (case select_end sk now ph nd s of (r, nd1, s1) \<Rightarrow> after_select tr r nd1 (tr_set_socket tr s1 t)))"
    by (cases ph) (auto simp: waits_in_select_def)
  show ?thesis
  proof (cases "tr_socket tr t")
    case (Ok s)
    obtain r nd1 s1 where e: "select_end sk now ph nd s = (r, nd1, s1)" by (metis prod_cases3)
    with step st Ok have "after_select tr r nd1 (tr_set_socket tr s1 t) = (x, nd', t')" by simp
    from after_select_queue [OF select_end_queue [OF inv q e] this] show ?thesis by (auto split: sum.splits)
  qed (use step st dr rs in auto)
next
  case False
  then have inv': "node_inv L nd None None M" and q': "tx_queue AtTop nd" using inv q by (cases ph; simp add: waits_in_select_def tx_queue_def)+
  from False consider "ph = AtTop" | "ph = Attempting" | "ph = Selecting" by (cases ph) (auto simp: waits_in_select_def)
  then show ?thesis
  proof cases
    case 1
    have "same_tx nd nd'" "x = Inr Selecting \<or> x = Inr Attempting" using step 1 by (auto split: if_splits)
    with queue_same [of nd nd' AtTop] q' show ?thesis by (auto simp: tx_queue_def)
  next
    case 2
    from step 2 obtain r nd1 t1 where r: "connect_attempt tr sk ct now nd t = Some (r, nd1, t1)" by (auto split: option.splits)
    note ca = connect_attempt_tx [OF r]
    have "same_tx nd nd' \<and> (\<forall>ph'. x = Inr ph' \<longrightarrow> ph' = Selecting)"
      using step 2 r ca by (auto simp: connect_failed_def Let_def split: option.splits result.splits prod.splits if_splits)
    with queue_same [of nd nd' AtTop] q' show ?thesis by (auto simp: tx_queue_def split: sum.splits)
  next
    case 3
    show ?thesis
    proof (cases "tr_socket tr t")
      case (Ok s)
      with step 3 obtain y nd1 s1 where y: "select_begin sk branch now nd s = Some (y, nd1, s1)" by auto
      note sb = select_begin_queue [OF sk inv' q' y]
      show ?thesis
      proof (cases y)
        case (Inl ph1)
        with step 3 Ok y sb show ?thesis by (auto simp: Let_def)
      next
        case (Inr r)
        with step 3 Ok y have "after_select tr r nd1 (tr_set_socket tr s1 t) = (x, nd', t')" by (simp add: Let_def)
        from after_select_queue [OF _ this] sb Inr show ?thesis by (auto split: sum.splits)
      qed
    qed (use step 3 q' queue_same [of nd "stack_reset nd" AtTop] in auto)
  qed
qed

section \<open>Reachable systems\<close>

lemma sys_exec_queue:
  assumes sk: "socket_ok sk" and ok: "sys_ok L sys" and q: "tx_queue (sys_phase sys) (sys_node sys)" and ex: "sys_exec tr sk a sys = Ok sys'"
  shows "tx_queue (sys_phase sys') (sys_node sys')"
proof (cases "client_action a")
  case True
  note ck = client_keeps [OF ok True ex] and sub = client_sub [OF True ex]
  have "st_extends (ch_state (nd_tx (sys_node sys))) (ch_state (nd_tx (sys_node sys')))" using ck(1) by (simp add: tx_keeps_def)
  from queue_extends [OF this] q show ?thesis by (auto simp: tx_queue_def ck(2) sub split: StackPhase.splits)
next
  case False
  then consider ct branch now where "a = StepStack ct branch now" | t where "a = DropStack t" | "a = DisconnectStack" by (cases a) auto
  then show ?thesis
  proof cases
    case 1
    from 1 ex obtain x nd t1 where st: "stack_step tr sk ct branch now (sys_phase sys) (sys_node sys) (sys_transport sys) = Some (x, nd, t1)"
      by (auto simp: move_stack_def split: option.splits)
    from stack_step_queue [OF sk sys_okD(1) [OF ok] q st] 1 ex st show ?thesis
      by (auto simp: move_stack_def split: sum.splits if_splits)
  next
    case 2
    with ex stack_dropped_queue [OF sys_okD(1) [OF ok] q] show ?thesis by (auto simp: drop_stack_def idle_queue)
  next
    case 3
    have "same_tx (sys_node sys) nd" if "stack_disconnect tr sk (sys_node sys) (sys_transport sys) = (r, nd, t)" for r nd t
      using that by (auto simp: stack_disconnect_def split: result.splits prod.splits)
    with 3 ex have "same_tx (sys_node sys) (sys_node sys') \<and> sys_phase sys' = sys_phase sys"
      by (auto simp: disconnect_stack_def split: if_splits prod.splits result.splits)
    with q queue_same [of "sys_node sys" "sys_node sys'" "sys_phase sys"] show ?thesis by simp
  qed
qed

lemma sys_reach_queue:
  assumes sk: "socket_ok sk" and A: "\<And>a. A a \<Longrightarrow> action_ok a" and reach: "sys_reach A tr sk TX sys"
  shows "tx_queue (sys_phase sys) (sys_node sys)"
  using reach
proof induction
  case (sys_init RX config now nd t)
  then show ?case by (auto simp: mqtt_new_unfold sys_new_def tx_queue_def queue_idle_def first_id_def)
next
  case (sys_step sys a sys')
  from sys_exec_queue [OF sk sys_reach_ok [OF sk A sys_step(1)] sys_step(4,3)] show ?case .
qed

section \<open>A stack that only writes\<close>

text \<open>Three steps of the stack: take the first frame, write it, and go on.\<close>

definition write_one :: "nat \<Rightarrow> ('t, 's) Action list" where
  "write_one now = replicate 3 (StepStack NoCut (TxReady None) now)"

fun write_all :: "nat \<Rightarrow> nat \<Rightarrow> ('t, 's) Action list" where
  "write_all now 0 = []"
| "write_all now (Suc n) = write_one now @ write_all now n"

lemma write_one_run:
  assumes inv: "node_inv L nd None None M" and q: "tx_queue AtTop nd" and m: "ps_messages (ch_state (nd_tx nd)) = m # ms"
    and sys: "sys_node sys = nd" "sys_phase sys = Selecting" "nal_socket (sys_transport sys) = Some (inp, out)"
  shows "\<exists>sys'. sys_run (nal_transport get_address net) stream_socket (write_one now) sys = Ok sys' \<and> sys_phase sys' = Selecting \<and>
    nal_socket (sys_transport sys') = Some (inp, out @ frame_bytes (ch_buf (nd_tx nd)) m) \<and>
    ps_messages (ch_state (nd_tx (sys_node sys'))) = ms \<and> ch_buf (nd_tx (sys_node sys')) = ch_buf (nd_tx nd) \<and>
    nd_shared (sys_node sys') = transmitted (h_pid m) (nd_shared nd) \<and> sys_publishes sys' = sys_publishes sys"
proof -
  let ?st = "ch_state (nd_tx nd)" and ?tr = "nal_transport get_address net"
  obtain g sub st m' where g: "read_with_context True (nd_tx_sub nd) ?st = (Ok g, sub, st)" "queue_busy g sub st" "gr_auto_release g"
    "gr_start g = h_start m" "gr_size g = unat (h_len m)" "gr_pid g = h_pid m" "ps_messages st = m' # ms"
    using queue_read(2) [OF q [unfolded idle_queue] node_ids [OF inv] m, of True] by blast
  let ?nd1 = "nd\<lparr>nd_tx_sub := sub, nd_tx := (nd_tx nd)\<lparr>ch_state := st\<rparr>\<rparr>"
  have inv1: "node_inv L ?nd1 None None M"
    using tx_begin_ok [OF inv, of "(inp, out)"] g(1) by (simp add: tx_begin_def select_inv_def)
  have q1: "tx_queue (Transmitting g) ?nd1" using g(2,3) by (simp add: tx_queue_def)
  have rel: "ps_messages (release g st) = ms" using queue_tx_release(3) [OF inv1 q1] g(7) by simp
  have bytes: "grant_bytes g (ch_buf (nd_tx nd)) = frame_bytes (ch_buf (nd_tx nd)) m"
    using g(4,5) by (simp add: grant_bytes_def frame_bytes_def)
  let ?sys1 = "sys\<lparr>sys_node := ?nd1, sys_transport := (sys_transport sys)\<lparr>nal_socket := Some (inp, out)\<rparr>, sys_phase := Transmitting g\<rparr>"
  have s1: "sys_exec ?tr stream_socket (StepStack NoCut (TxReady None) now) sys = Ok ?sys1"
    using sys g(1) by (simp add: move_stack_def nal_transport_def nal_get_socket_def select_begin_def tx_begin_def)
  let ?nd2 = "(tx_release g ?nd1)\<lparr>nd_shared := transmitted (gr_pid g) (nd_shared nd), nd_last_network_action := now\<rparr>"
  let ?sys2 = "sys\<lparr>sys_node := ?nd2, sys_transport := (sys_transport sys)\<lparr>nal_socket := Some (inp, out @ grant_bytes g (ch_buf (nd_tx nd)))\<rparr>,
    sys_phase := AtTop\<rparr>"
  have s2: "sys_exec ?tr stream_socket (StepStack NoCut (TxReady None) now) ?sys1 = Ok ?sys2"
    by (simp add: move_stack_def nal_transport_def nal_get_socket_def tx_end_def after_select_def)
  have s3: "sys_exec ?tr stream_socket (StepStack NoCut (TxReady None) now) ?sys2 = Ok (?sys2\<lparr>sys_phase := Selecting\<rparr>)"
    by (simp add: move_stack_def nal_transport_def nal_is_connected_def)
  have "sys_run ?tr stream_socket (write_one now) sys = Ok (?sys2\<lparr>sys_phase := Selecting\<rparr>)"
    by (simp add: write_one_def eval_nat_numeral s1 s2 s3 del: sys_exec.simps)
  then show ?thesis using rel g(6) bytes by (simp add: tx_release_def)
qed

lemma sys_run_app: "sys_run tr sk (as @ bs) sys = rbind (sys_run tr sk as sys) (sys_run tr sk bs)"
proof (induction as arbitrary: sys)
  case (Cons a as)
  then show ?case by (cases "sys_exec tr sk a sys") simp_all
qed simp

lemma sys_run_queue:
  "sys_ok L sys \<Longrightarrow> tx_queue (sys_phase sys) (sys_node sys) \<Longrightarrow> socket_ok sk \<Longrightarrow> list_all action_ok as \<Longrightarrow> sys_run tr sk as sys = Ok sys' \<Longrightarrow>
   sys_ok L sys' \<and> tx_queue (sys_phase sys') (sys_node sys')"
proof (induction as arbitrary: sys)
  case (Cons a as)
  from Cons.prems(5) obtain sys1 where s: "sys_exec tr sk a sys = Ok sys1" "sys_run tr sk as sys1 = Ok sys'" by (auto simp: rbind_Ok_iff)
  have "action_ok a" "list_all action_ok as" using Cons.prems(4) by simp_all
  with Cons.IH [OF sys_exec_ok [OF Cons.prems(3,1) _ s(1)] sys_exec_queue [OF Cons.prems(3,1,2) s(1)] Cons.prems(3) _ s(2)] show ?case by blast
qed simp

lemma transmitted_pids:
  "distinct (sh_outgoing_pid sh) \<Longrightarrow> set (sh_outgoing_pid (transmitted n sh)) = set (sh_outgoing_pid sh) - ({n} - {0}) \<and>
     distinct (sh_outgoing_pid (transmitted n sh))"
  by (simp add: transmitted_def iset_remove_def)

lemma write_all_run:
  assumes "sys_ok L sys" and "tx_queue (sys_phase sys) (sys_node sys)" and "ps_messages (ch_state (nd_tx (sys_node sys))) = ms"
    and "sys_phase sys = Selecting" and "nal_socket (sys_transport sys) = Some (inp, out)"
  shows "\<exists>sys'. sys_run (nal_transport get_address net) stream_socket (write_all now (length ms)) sys = Ok sys' \<and> sys_phase sys' = Selecting \<and>
    ps_messages (ch_state (nd_tx (sys_node sys'))) = [] \<and>
    nal_socket (sys_transport sys') = Some (inp, out @ concat (map (frame_bytes (ch_buf (nd_tx (sys_node sys)))) ms)) \<and>
    set (sh_outgoing_pid (nd_shared (sys_node sys'))) = set (sh_outgoing_pid (nd_shared (sys_node sys))) - (h_pid ` set ms - {0}) \<and>
    sys_publishes sys' = sys_publishes sys"
  using assms
proof (induction ms arbitrary: sys out)
  case Nil
  then show ?case by simp
next
  case (Cons m ms)
  let ?tr = "nal_transport get_address net"
  have inv: "node_inv L (sys_node sys) None None (sys_subscribers sys)" using sys_okD(1) [OF Cons.prems(1)] Cons.prems(4) by simp
  have q: "tx_queue AtTop (sys_node sys)" using Cons.prems(2,4) by (simp add: tx_queue_def)
  obtain sys1 where s: "sys_run ?tr stream_socket (write_one now) sys = Ok sys1" "sys_phase sys1 = Selecting"
    "nal_socket (sys_transport sys1) = Some (inp, out @ frame_bytes (ch_buf (nd_tx (sys_node sys))) m)"
    "ps_messages (ch_state (nd_tx (sys_node sys1))) = ms" "ch_buf (nd_tx (sys_node sys1)) = ch_buf (nd_tx (sys_node sys))"
    "nd_shared (sys_node sys1) = transmitted (h_pid m) (nd_shared (sys_node sys))" "sys_publishes sys1 = sys_publishes sys"
    using write_one_run [OF inv q Cons.prems(3) refl Cons.prems(4,5)] by metis
  have ok1: "sys_ok L sys1 \<and> tx_queue (sys_phase sys1) (sys_node sys1)"
    by (rule sys_run_queue [OF Cons.prems(1,2) stream_socket_ok _ s(1)]) (simp add: write_one_def list_all_iff)
  from Cons.IH [OF conjunct1 [OF ok1] conjunct2 [OF ok1] s(4,2,3)] obtain sys' where
    r: "sys_run ?tr stream_socket (write_all now (length ms)) sys1 = Ok sys'" "sys_phase sys' = Selecting"
    "ps_messages (ch_state (nd_tx (sys_node sys'))) = []"
    "nal_socket (sys_transport sys') = Some (inp, (out @ frame_bytes (ch_buf (nd_tx (sys_node sys))) m) @ concat (map (frame_bytes (ch_buf (nd_tx (sys_node sys1)))) ms))"
    "set (sh_outgoing_pid (nd_shared (sys_node sys'))) = set (sh_outgoing_pid (nd_shared (sys_node sys1))) - (h_pid ` set ms - {0})"
    "sys_publishes sys' = sys_publishes sys1"
    by blast
  have "distinct (sh_outgoing_pid (nd_shared (sys_node sys)))" using node_invD(1) [OF inv] by (simp add: shared_ok_def iset_ok_def)
  then have p: "set (sh_outgoing_pid (nd_shared (sys_node sys1))) = set (sh_outgoing_pid (nd_shared (sys_node sys))) - ({h_pid m} - {0})"
    using transmitted_pids s(6) by simp
  have "sys_run ?tr stream_socket (write_all now (length (m # ms))) sys = Ok sys'" using s(1) r(1) by (simp add: sys_run_app)
  with r s(5,7) p show ?case by auto
qed

end
