(* ===== verification/Offline.thy ===== *)
theory Offline
  imports System_Inv
begin

text \<open>
  The transport for a socket that is already connected (\<open>transport/embedded_io.rs\<close>).  It always says that it is
  connected, so that \<open>run\<close> never comes to the handshake: what that means for the requests of the client.
\<close>

section \<open>The session stays as it is\<close>

lemma handlers_connected [simp]:
  "sh_connected (snd (handle_pub_ack p1 sh)) = sh_connected sh" "sh_connected (snd (handle_pub_rec p2 sh)) = sh_connected sh"
  "sh_connected (snd (handle_pub_rel p3 sh)) = sh_connected sh" "sh_connected (snd (handle_pub_comp p4 sh)) = sh_connected sh"
  "sh_connected (snd (handle_sub_ack pid codes sh)) = sh_connected sh" "sh_connected (snd (handle_unsub_ack pid codes sh)) = sh_connected sh"
  "sh_connected (snd (record_incoming pid sh)) = sh_connected sh" "sh_connected (transmitted n sh) = sh_connected sh"
  by (auto simp: handle_pub_ack_def handle_pub_rec_def handle_pub_rel_def handle_pub_comp_def handle_sub_ack_def handle_unsub_ack_def
      record_incoming_def transmitted_def Let_def split: prod.splits bool.splits option.splits AckStatus.splits)

definition offline :: "Node \<Rightarrow> bool" where
  "offline nd \<longleftrightarrow> sh_connected (nd_shared nd) = None"

lemma offline_update [simp]:
  "offline (nd\<lparr>nd_tx := tx\<rparr>) = offline nd" "offline (nd\<lparr>nd_tx_sub := sub\<rparr>) = offline nd" "offline (nd\<lparr>nd_rx := rx\<rparr>) = offline nd"
  "offline (nd\<lparr>nd_reader := pr\<rparr>) = offline nd" "offline (nd\<lparr>nd_last_network_action := now\<rparr>) = offline nd"
  "offline (nd\<lparr>nd_awaiting_pingresp := c\<rparr>) = offline nd" "offline (nd\<lparr>nd_shared := sh\<rparr>) = (sh_connected sh = None)"
  "offline (with_shared shared_reset nd)" "offline (with_rx st nd) = offline nd" "offline (tx_release g nd) = offline nd" "offline (stack_reset nd)"
  by (simp_all add: offline_def with_rx_def with_shared_def tx_release_def stack_reset_def shared_reset_def)

lemma acknowledge_offline: "offline nd \<Longrightarrow> acknowledge sk q nd s = (r, nd', s') \<Longrightarrow> offline nd'"
  by (cases q) (auto simp: acknowledge_def Let_def offline_def record_incoming_def split: prod.splits option.splits)

lemma reply_offline:
  "reply sk to_buffer rs nd s = (r, nd', s') \<Longrightarrow> sh_connected (snd rs) = None \<Longrightarrow> offline nd'"
  by (auto simp: reply_def split: prod.splits result.splits)

lemma finish_select_offline: "offline (fst (snd x)) \<Longrightarrow> finish_select now x = (r, nd', s') \<Longrightarrow> offline nd'"
  by (auto simp: finish_select_def split: prod.splits result.splits)

lemma on_packet_offline:
  assumes "offline nd" and "\<And>q t pp. packet \<noteq> RP_PartialPublish q t pp" and "on_packet sk packet nd s = (r, nd', s')"
  shows "offline nd'"
  using assms by (cases packet) (auto simp: on_packet_def quiet_def Let_def offline_def dest: reply_offline [unfolded offline_def])

lemma tx_begin_offline: "offline nd \<Longrightarrow> tx_begin nd s = (x, nd', s') \<Longrightarrow> offline nd'"
  by (auto simp: tx_begin_def split: prod.splits result.splits)

lemma publish_begin_offline: "offline nd \<Longrightarrow> publish_begin sk now q pp nd s = (x, nd', s') \<Longrightarrow> offline nd'"
  by (auto simp: publish_begin_def Let_def finish_select_def split: prod.splits result.splits)

lemma rx_begin_offline:
  assumes "offline nd" and rx: "rx_begin sk now nd s = Some (x, nd', s')"
  shows "offline nd'"
proof -
  from rx obtain r pr s1 where r: "recv sk (nd_reader nd) s = Some (r, pr, s1)" by (auto simp: rx_begin_def split: option.splits)
  have off: "offline (nd\<lparr>nd_reader := pr\<rparr>)" using assms(1) by simp
  show ?thesis
  proof (cases r)
    case (Ok packet)
    show ?thesis
    proof (cases "\<exists>q t pp. packet = RP_PartialPublish q t pp")
      case True
      with rx r Ok publish_begin_offline [OF off] show ?thesis by (auto simp: rx_begin_def)
    next
      case False
      obtain y nd2 s2 where y: "on_packet sk packet (nd\<lparr>nd_reader := pr\<rparr>) s1 = (y, nd2, s2)" by (metis prod_cases3)
      have "offline nd2" using on_packet_offline [OF off _ y] False by blast
      moreover obtain y' nd3 s3 where y': "finish_select now (y, nd2, s2) = (y', nd3, s3)" by (metis prod_cases3)
      ultimately have "offline nd3" using finish_select_offline [of "(y, nd2, s2)" now y' nd3 s3] by simp
      with rx r Ok y y' False show ?thesis by (cases packet) (auto simp: rx_begin_def)
    qed
  next
    case (Err e)
    with rx r off show ?thesis by (cases e) (auto simp: rx_begin_def)
  qed (use rx r off in \<open>auto simp: rx_begin_def\<close>)
qed

lemma select_begin_offline:
  assumes "offline nd" and "select_begin sk branch now nd s = Some (x, nd', s')"
  shows "offline nd'"
  using assms rx_begin_offline [OF assms(1)] tx_begin_offline [of "nd\<lparr>nd_reader := _\<rparr>"]
  by (cases branch)
    (auto simp: select_begin_def select_keep_alive_def handle_keep_alive_def finish_select_def split: prod.splits result.splits if_splits)

lemma select_end_offline:
  assumes off: "offline nd" and e: "select_end sk now ph nd s = (r, nd', s')"
  shows "offline nd'"
proof (cases ph)
  case (Transmitting g)
  with assms show ?thesis by (auto simp: tx_end_def offline_def tx_release_def split: prod.splits result.splits)
next
  case (Storing q pp g)
  obtain x s1 where x: "copy_all sk pp (slice (ch_buf (nd_rx nd)) (gw_start g) (gw_size g)) s = (x, s1)" by force
  show ?thesis
  proof (cases x)
    case (Ok bs)
    let ?nd = "nd\<lparr>nd_rx := \<lparr>ch_buf = splice (ch_buf (nd_rx nd)) (gw_start g) bs, ch_state = commit g (pp_packet_len pp) (ch_state (nd_rx nd))\<rparr>\<rparr>"
    obtain y nd2 s2 where y: "acknowledge sk q ?nd s1 = (y, nd2, s2)" by (metis prod_cases3)
    have "offline nd2" by (rule acknowledge_offline [OF _ y]) (use off in simp)
    with e Storing x Ok y finish_select_offline [of "(y, nd2, s2)" now] show ?thesis by (auto simp: publish_end_def Let_def)
  qed (use off e Storing x in \<open>auto simp: publish_end_def Let_def\<close>)
qed (use assms in auto)

lemma after_select_offline: "offline nd \<Longrightarrow> after_select tr r nd t = (x, nd', t') \<Longrightarrow> offline nd' \<and> (\<forall>ph. x \<noteq> Inr ph)"
  by (cases r) (auto simp: after_select_def)

text \<open>A step of the stack on such a socket: the session is not connected afterwards, and no attempt to connect is made.\<close>

lemma stack_step_offline:
  assumes off: "offline nd" and ph: "ph \<noteq> Attempting" and step: "stack_step cs_transport sk ct branch now ph nd t = Some (x, nd', t')"
  shows "offline nd' \<and> x \<noteq> Inr Attempting"
proof (cases ph)
  case AtTop
  with step off show ?thesis by (auto simp: cs_transport_def cs_is_connected_def)
next
  case Selecting
  with step obtain y nd1 s1 where y: "select_begin sk branch now nd t = Some (y, nd1, s1)"
    by (auto simp: cs_transport_def cs_socket_def)
  have off1: "offline nd1" by (rule select_begin_offline [OF off y])
  show ?thesis
  proof (cases y)
    case (Inl ph1)
    with y have "waits_in_select ph1" by (auto intro: select_begin_waits)
    with step Selecting y Inl off1 show ?thesis by (auto simp: cs_transport_def cs_socket_def waits_in_select_def)
  next
    case (Inr r)
    have "after_select cs_transport r nd1 s1 = (x, nd', t')"
      using step Selecting y Inr by (auto simp: cs_transport_def cs_socket_def Let_def)
    from after_select_offline [OF off1 this] show ?thesis by simp
  qed
next
  case (Transmitting g)
  obtain r nd1 s1 where e: "select_end sk now ph nd t = (r, nd1, s1)" by (metis prod_cases3)
  with step Transmitting have "after_select cs_transport r nd1 s1 = (x, nd', t')" by (auto simp: cs_transport_def cs_socket_def)
  from after_select_offline [OF select_end_offline [OF off e] this] show ?thesis by simp
next
  case (Storing q pp g)
  obtain r nd1 s1 where e: "select_end sk now ph nd t = (r, nd1, s1)" by (metis prod_cases3)
  with step Storing have "after_select cs_transport r nd1 s1 = (x, nd', t')" by (auto simp: cs_transport_def cs_socket_def)
  from after_select_offline [OF select_end_offline [OF off e] this] show ?thesis by simp
qed (use ph in simp)

section \<open>No request gets through\<close>

text \<open>Every call is still in its first wait for a connection, and there is no subscription.\<close>

definition sys_offline :: "'t System \<Rightarrow> bool" where
  "sys_offline sys \<longleftrightarrow>
     offline (sys_node sys) \<and> sys_phase sys \<noteq> Attempting \<and> (\<forall>c \<in> set (sys_publishes sys). snd c = Connecting 1) \<and>
     (\<forall>c \<in> set (sys_subscribes sys). sc_task c = Connecting 1) \<and> sys_subscriptions sys = [] \<and> sys_unsubscribes sys = [] \<and> sys_messages sys = []"

lemma with_shared_wake_offline [simp]: "offline (with_shared (shared_wake w) nd) = offline nd"
  by (simp add: offline_def with_shared_def)

lemma publish_waits: "offline nd \<Longrightarrow> publish_step p (Connecting a) nd = (Connecting a, with_shared (shared_wake RegisterConnection) nd)"
  by (simp add: publish_step_def offline_def wait_connected_poll_def)

lemma subscribe_waits: "offline nd \<Longrightarrow> subscribe_step p (Connecting a) nd = (Connecting a, with_shared (shared_wake RegisterConnection) nd)"
  by (simp add: subscribe_step_def offline_def wait_connected_poll_def)

lemma timeouts_wait [simp]:
  "publish_timeout free (Connecting a) nd = (Connecting a, nd)" "subscribe_timeout free (Connecting a) nd = (Connecting a, nd)"
  by (simp_all add: publish_timeout_def subscribe_timeout_def)

lemma stack_dropped_offline [simp]: "offline (stack_dropped ph nd) = offline nd"
  by (cases ph) simp_all

lemma disconnect_offline: "offline nd \<Longrightarrow> stack_disconnect cs_transport sk nd t = (r, nd', t') \<Longrightarrow> offline nd'"
  by (auto simp: stack_disconnect_def cs_transport_def cs_socket_def split: result.splits prod.splits)

lemma update_waits: "\<forall>c \<in> set xs. P c \<Longrightarrow> P y \<Longrightarrow> \<forall>c \<in> set (xs[k := y]). P c"
  using set_update_subset_insert [of xs k y] by blast

lemma remove_waits: "\<forall>c \<in> set xs. P c \<Longrightarrow> \<forall>c \<in> set (remove_nth k xs). P c"
  using set_remove_nth [of k xs] by blast

lemma publish_at: "sys_offline sys \<Longrightarrow> k < length (sys_publishes sys) \<Longrightarrow> \<exists>p. sys_publishes sys ! k = (p, Connecting 1)"
  unfolding sys_offline_def by (metis nth_mem prod.collapse)

lemma subscribe_at: "sys_offline sys \<Longrightarrow> k < length (sys_subscribes sys) \<Longrightarrow> sc_task (sys_subscribes sys ! k) = Connecting 1"
  by (simp add: sys_offline_def)

lemma move_publish_offline:
  assumes sys: "sys_offline sys" and move: "move_publish k f sys = Ok sys'"
    and f: "\<And>p. f p (Connecting 1) (sys_node sys) = (Connecting 1, nd)" and nd: "offline nd"
  shows "sys_offline sys'"
proof (cases "k < length (sys_publishes sys)")
  case True
  from publish_at [OF sys True] obtain p where "sys_publishes sys ! k = (p, Connecting 1)" by blast
  with True move f have "sys' = sys\<lparr>sys_node := nd, sys_publishes := (sys_publishes sys)[k := (p, Connecting 1)]\<rparr>"
    by (simp add: move_publish_def)
  with sys nd update_waits [of "sys_publishes sys" "\<lambda>c. snd c = Connecting 1" "(p, Connecting 1)" k]
  show ?thesis by (simp add: sys_offline_def)
qed (use sys move in \<open>simp add: move_publish_def\<close>)

lemma move_subscribe_offline:
  assumes sys: "sys_offline sys" and move: "move_subscribe k f sys = Ok sys'"
    and f: "\<And>p. f p (Connecting 1) (sys_node sys) = (Connecting 1, nd)" and nd: "offline nd"
  shows "sys_offline sys'"
proof (cases "k < length (sys_subscribes sys)")
  case True
  with move f subscribe_at [OF sys True]
  have "sys' = sys\<lparr>sys_node := nd,
          sys_subscribes := (sys_subscribes sys)[k := (sys_subscribes sys ! k)\<lparr>sc_task := Connecting 1\<rparr>]\<rparr>"
    by (simp add: move_subscribe_def Let_def)
  with sys nd update_waits [of "sys_subscribes sys" "\<lambda>c. sc_task c = Connecting 1" "(sys_subscribes sys ! k)\<lparr>sc_task := Connecting 1\<rparr>" k]
  show ?thesis by (simp add: sys_offline_def)
qed (use sys move in \<open>simp add: move_subscribe_def\<close>)

lemma drop_calls_offline:
  assumes sys: "sys_offline sys"
  shows "drop_publish k free sys = Ok sys' \<Longrightarrow> sys_offline sys'"
    and "drop_subscribe k free sys = Ok sys' \<Longrightarrow> sys_offline sys'"
    and "finish_subscribe k sys = Ok sys' \<Longrightarrow> sys_offline sys'"
    and "start_subscribe n q sys = Ok sys' \<Longrightarrow> sys_offline sys'"
proof -
  assume "drop_publish k free sys = Ok sys'"
  with sys publish_at [OF sys, of k] remove_waits [of "sys_publishes sys" "\<lambda>c. snd c = Connecting 1" k] show "sys_offline sys'"
    by (auto simp: drop_publish_def sys_offline_def split: if_splits)
next
  assume "drop_subscribe k free sys = Ok sys'"
  with sys subscribe_at [OF sys, of k] remove_waits [of "sys_subscribes sys" "\<lambda>c. sc_task c = Connecting 1" k]
  show "sys_offline sys'"
    by (auto simp: drop_subscribe_def subscriber_gone_def sys_offline_def Let_def split: if_splits prod.splits result.splits)
next
  assume "finish_subscribe k sys = Ok sys'"
  with sys subscribe_at [OF sys, of k] show "sys_offline sys'"
    by (auto simp: finish_subscribe_def Let_def split: if_splits)
next
  assume "start_subscribe n q sys = Ok sys'"
  with sys show "sys_offline sys'"
    by (auto simp: start_subscribe_def subscribe_begin_def sys_offline_def split: prod.splits result.splits)
qed

lemma move_stack_offline:
  assumes sys: "sys_offline sys" and move: "move_stack cs_transport sk ct branch now sys = Ok sys'"
  shows "sys_offline sys'"
proof -
  from move obtain x nd t where step: "stack_step cs_transport sk ct branch now (sys_phase sys) (sys_node sys) (sys_transport sys) = Some (x, nd, t)"
    by (auto simp: move_stack_def split: option.splits)
  have "offline nd \<and> x \<noteq> Inr Attempting"
    by (rule stack_step_offline [OF _ _ step]) (use sys in \<open>simp_all add: sys_offline_def\<close>)
  with sys move step show ?thesis by (auto simp: move_stack_def sys_offline_def split: sum.splits if_splits)
qed

lemma sys_exec_offline:
  assumes sys: "sys_offline sys" and exec: "sys_exec cs_transport sk a sys = Ok sys'"
  shows "sys_offline sys'"
proof -
  have off: "offline (sys_node sys)" using sys by (simp add: sys_offline_def)
  show ?thesis
  proof (cases a)
    case (StepPublish k)
    with exec have "move_publish k publish_step sys = Ok sys'" by simp
    then show ?thesis by (rule move_publish_offline [OF sys]) (rule publish_waits [OF off], use off in simp)
  next
    case (TimeoutPublish k free)
    with exec have "move_publish k (\<lambda>_. publish_timeout free) sys = Ok sys'" by simp
    then show ?thesis by (rule move_publish_offline [OF sys]) (simp, rule off)
  next
    case (StepSubscribe k)
    with exec have "move_subscribe k subscribe_step sys = Ok sys'" by simp
    then show ?thesis by (rule move_subscribe_offline [OF sys]) (rule subscribe_waits [OF off], use off in simp)
  next
    case (TimeoutSubscribe k free)
    with exec have "move_subscribe k (\<lambda>_. subscribe_timeout free) sys = Ok sys'" by simp
    then show ?thesis by (rule move_subscribe_offline [OF sys]) (simp, rule off)
  next
    case (DropPublish k free)
    then show ?thesis using exec drop_calls_offline(1) [OF sys] by simp
  next
    case (DropSubscribe k free)
    then show ?thesis using exec drop_calls_offline(2) [OF sys] by simp
  next
    case (FinishSubscribe k)
    then show ?thesis using exec drop_calls_offline(3) [OF sys] by simp
  next
    case (StartSubscribe n p)
    then show ?thesis using exec drop_calls_offline(4) [OF sys] by simp
  next
    case (StepStack ct branch now)
    then show ?thesis using exec move_stack_offline [OF sys] by simp
  next
    case DisconnectStack
    with sys exec show ?thesis
      by (auto simp: disconnect_stack_def sys_offline_def dest: disconnect_offline split: if_splits prod.splits result.splits)
  qed (use sys exec in \<open>auto simp: sys_offline_def start_publish_def poll_subscription_def drop_message_def drop_subscription_def
        start_unsubscribe_def step_unsubscribe_def end_unsubscribe_def drop_stack_def\<close>)
qed

lemma sys_reach_offline: "sys_reach A cs_transport sk TX sys \<Longrightarrow> sys_offline sys"
proof (induction rule: sys_reach.induct)
  case (sys_init RX config now nd t)
  then show ?case
    by (auto simp: mqtt_new_def sys_offline_def sys_new_def offline_def shared_new_def Let_def split: prod.splits result.splits)
qed (blast intro: sys_exec_offline)

end
