(* ===== verification/System_Properties.thy ===== *)
theory System_Properties
  imports System_Safety Packet_Stream Tx_Queue Offline Reader_Properties Connect_Properties Publish_Properties
begin

text \<open>
  Properties of the whole system: client and stack in any interleaving of their steps, with any bytes from the
  network, any timeouts and any cancelled calls.
\<close>

section \<open>A system in motion\<close>

text \<open>A socket that is already connected, two calls of \<open>subscribe\<close> and one of \<open>publish\<close>, with the stack in \<open>select\<close>.\<close>

definition busy_publish :: Publish where
  "busy_publish = \<lparr>pub_dup = False, pub_qos = AtLeastOnce, pub_retain = False, pub_pid = None, pub_topic_name = [116],
     pub_payload = PayloadBytes [1, 2], pub_properties = Slice []\<rparr>"

definition busy_subscribe :: Subscribe where
  "busy_subscribe = \<lparr>sub_pid = None, sub_properties = Slice [], sub_topics = []\<rparr>"

definition busy_new :: "bytes \<Rightarrow> (bytes \<times> bytes) System" where
  "busy_new inp = sys_new (case mqtt_new 64 64 (config_new [120]) 0 of Ok nd \<Rightarrow> nd) (inp, [])"

definition busy_actions :: "(bytes \<times> bytes, bytes \<times> bytes) Action list" where
  "busy_actions =
     [StartSubscribe 1 busy_subscribe, StartPublish busy_publish, StepPublish 0, StartSubscribe 1 busy_subscribe,
      StepStack NoCut RxReady 0]"

lemma busy_new_reach: "sys_reach A tr sk 64 (busy_new inp)"
proof -
  obtain nd where "mqtt_new 64 64 (config_new [120]) 0 = (Ok nd :: (PubSubError, Node) result)"
    by (simp add: mqtt_new_unfold)
  then show ?thesis by (auto simp: busy_new_def intro: sys_init)
qed

lemma busy_run:
  "\<exists>sys. sys_run cs_transport stream_socket busy_actions (busy_new inp) = Ok sys \<and> sys_phase sys = Selecting \<and>
     nd_reader (sys_node sys) = reader_new \<and> sys_transport sys = (inp, []) \<and> length (sys_subscribes sys) = 2 \<and>
     sys_subscriptions sys = [] \<and> sys_unsubscribes sys = []"
  by (simp add: busy_actions_def busy_new_def mqtt_new_unfold sys_new_def start_subscribe_def subscribe_begin_def start_publish_def
      move_publish_def publish_step_def move_stack_def cs_transport_def cs_is_connected_def wait_connected_poll_def with_rx_def
      MAX_SUBSCRIBERS_def with_shared_def shared_new_def shared_wake_def)
    (simp add: word_le_nat_alt)

lemma busy_plain: "list_all action_plain busy_actions"
  by (simp add: busy_actions_def publish_plain_def subscribe_plain_def busy_publish_def busy_subscribe_def)

lemmas busy_reach = sys_reach_run [OF busy_new_reach busy_plain]

lemma reach_mono: "sys_reach A tr sk TX sys \<Longrightarrow> (\<And>a. A a \<Longrightarrow> B a) \<Longrightarrow> sys_reach B tr sk TX sys"
proof (induction rule: sys_reach.induct)
  case (sys_init RX config now nd t)
  then show ?case by (blast intro: sys_reach.sys_init)
next
  case (sys_step sys a sys')
  then show ?case by (blast intro: sys_reach.sys_step)
qed

section \<open>The invariant of the system\<close>

text \<open>The frames of a channel and its outstanding grant are inside its buffer and pairwise disjoint.\<close>

definition frames_apart :: "Channel \<Rightarrow> FrameGrantW option \<Rightarrow> bool" where
  "frames_apart ch g \<longleftrightarrow>
     (let segs = map seg_of (ps_messages (ch_state ch)) @ pending g in
      (\<forall>i j. i < j \<and> j < length segs \<longrightarrow> seg_disjoint (segs ! i) (segs ! j)) \<and>
      (\<forall>x \<in> set segs. fst x + snd x \<le> length (ch_buf ch)))"

lemma chan_inv_apart:
  assumes "chan_inv P ch g M"
  shows "frames_apart ch g" and "unat (ps_subscriber_count (ch_state ch)) = size M"
proof -
  obtain subs where st: "mset subs = M" "st_ok (ch_state ch) g subs" "ps_capacity (ch_state ch) = length (ch_buf ch)"
    using assms by (rule chan_invE)
  have ring: "ring (length (ch_buf ch)) (map seg_of (ps_messages (ch_state ch)) @ pending g)" using st_okD(1) [OF st(2)] st(3) by simp
  show "frames_apart ch g" unfolding frames_apart_def Let_def using ring_nth_disjoint [OF ring] ring_member [OF ring] by auto
  show "unat (ps_subscriber_count (ch_state ch)) = size M" using st_okD(5) [OF st(2)] st(1) by auto
qed

lemma size_sys_subscribers:
  "size (sys_subscribers sys) = length (sys_subscribes sys) + length (sys_subscriptions sys) + length (sys_unsubscribes sys)"
  by (simp add: sys_subscribers_def)

text \<open>
  C4: The invariant of the running system.  Whatever client and stack do in whatever order, whatever arrives from the
  network, and whichever calls time out or are cancelled: the containers of the session stay within their capacities and
  its identifiers are not 0; in both channels the frames and the outstanding grant are in bounds and disjoint; the RX
  channel counts exactly the subscribers that exist; the mutex of the TX publisher is held when and only when one call
  holds it; and every queued frame of a TX channel of less than 64 KiB is empty or one whole packet.
\<close>

theorem system_invariant:
  assumes "socket_ok sk" and "sys_reach action_ok tr sk TX sys" and "nd = sys_node sys"
  shows "shared_ok (nd_shared nd) \<and> frames_apart (nd_tx nd) None \<and> frames_apart (nd_rx nd) (rx_pending (sys_phase sys)) \<and>
    unat (ps_subscriber_count (ch_state (nd_rx nd))) =
      length (sys_subscribes sys) + length (sys_subscriptions sys) + length (sys_unsubscribes sys) \<and>
    lock_holders sys = of_bool (nd_tx_locked nd) \<and>
    (TX < 65536 \<longrightarrow> (\<forall>m \<in> set (ps_messages (ch_state (nd_tx nd))).
       frame_bytes (ch_buf (nd_tx nd)) m = [] \<or> request_packet (frame_bytes (ch_buf (nd_tx nd)) m)))"
proof -
  have ok: "sys_ok TX sys" by (rule sys_reach_ok [OF assms(1) _ assms(2)])
  note inv = sys_okD(1) [OF ok, folded assms(3)]
  note tx = node_invD(2) [OF inv] and rx = node_invD(3) [OF inv]
  show ?thesis
    using node_invD(1) [OF inv] chan_inv_apart(1) [OF tx] chan_inv_apart [OF rx] sys_okD(3) [OF ok] chan_inv_frames [OF tx] assms(3)
    by (simp add: size_sys_subscribers frames_ok_def tx_frame_def)
qed

theorem system_invariant_witness:
  "\<exists>sys. sys_run cs_transport stream_socket busy_actions (busy_new []) = Ok sys \<and>
     unat (ps_subscriber_count (ch_state (nd_rx (sys_node sys)))) = 2"
proof -
  obtain sys where sys: "sys_run cs_transport stream_socket busy_actions (busy_new []) = Ok sys" "length (sys_subscribes sys) = 2"
    "sys_subscriptions sys = []" "sys_unsubscribes sys = []"
    using busy_run [of "[]"] by blast
  have reach: "sys_reach action_ok cs_transport stream_socket 64 sys" by (rule reach_mono [OF busy_reach [OF sys(1)] action_plain_ok])
  from system_invariant [OF socket_safeD(1) [OF stream_socket_safe] reach refl] sys show ?thesis by auto
qed

section \<open>What goes to the wire\<close>

text \<open>
  C7: The stack writes whole packets.  While it waits for the socket to take a frame of a TX channel of less than 64 KiB,
  the frame is empty or one whole packet, and nothing the client does meanwhile - new requests, timeouts, cancelled calls,
  dropped subscriptions - changes a byte of it.
\<close>

theorem transmitted_packets_whole:
  assumes "socket_ok sk" and "sys_reach action_ok tr sk TX sys" and "TX < 65536" and "sys_phase sys = Transmitting g"
    and "bs = grant_bytes g (ch_buf (nd_tx (sys_node sys)))"
  shows "(bs = [] \<or> request_packet bs) \<and>
    (\<forall>a sys'. client_action a \<and> action_ok a \<and> sys_exec tr sk a sys = Ok sys' \<longrightarrow>
       sys_phase sys' = Transmitting g \<and> grant_bytes g (ch_buf (nd_tx (sys_node sys'))) = bs)"
proof -
  have ok: "sys_ok TX sys" by (rule sys_reach_ok [OF assms(1) _ assms(2)])
  have held: "tx_held (Transmitting g) (sys_node sys)" using sys_reach_held [OF assms(1) _ assms(2)] assms(4) by simp
  note hb = held_bytes [OF held sys_okD(1) [OF ok]]
  from hb(1) hb(2) [OF client_keeps(1) [OF ok]] client_keeps(2) [OF ok] assms(3-5) show ?thesis by (auto simp: tx_frame_def)
qed

text \<open>A node that connects to a broker and is about to write its first publish.\<close>

definition sending_system :: "Node \<Rightarrow> 't \<Rightarrow> StackPhase \<Rightarrow> (Publish \<times> PublishWait Task) list \<Rightarrow> 't System" where
  "sending_system nd t ph calls =
     \<lparr>sys_node = nd, sys_transport = t, sys_phase = ph, sys_publishes = calls, sys_subscribes = [], sys_subscriptions = [],
      sys_unsubscribes = [], sys_messages = []\<rparr>"

definition sending_actions :: "((IpBroker, bytes \<times> bytes) NalTransport, bytes \<times> bytes) Action list" where
  "sending_actions =
     [StepStack NoCut RxReady 0, StepStack NoCut RxReady 0, StartPublish busy_publish, StepPublish 0, StepPublish 0, StepPublish 0,
      StepPublish 0, StepStack NoCut (TxReady None) 1]"

lemma task_steps_Finished: "task_steps n (publish_step p) (Finished r, nd) = (Finished r, nd)"
  by (induction n) (simp_all add: publish_step_def)

lemma publish_steps_run:
  "task_steps n (publish_step p) (task, nd) = (Waiting a pid w, nd') \<Longrightarrow>
   sys_run tr sk (replicate n (StepPublish 0)) (sending_system nd t ph [(p, task)]) = Ok (sending_system nd' t ph [(p, Waiting a pid w)])"
proof (induction n arbitrary: task nd)
  case (Suc n)
  obtain task1 nd1 where s: "publish_step p task nd = (task1, nd1)" by force
  with Suc.prems have rest: "task_steps n (publish_step p) (task1, nd1) = (Waiting a pid w, nd')" by simp
  then have "task1 \<noteq> Finished Panic" using task_steps_Finished [of n p Panic nd1] by auto
  with s have "sys_exec tr sk (StepPublish 0) (sending_system nd t ph [(p, task)]) = Ok (sending_system nd1 t ph [(p, task1)])"
    by (simp add: move_publish_def sending_system_def)
  with Suc.IH [OF rest] show ?case by simp
qed simp

lemma sys_run_then: "sys_run tr sk as sys = Ok sys1 \<Longrightarrow> sys_run tr sk (as @ bs) sys = sys_run tr sk bs sys1"
  by (simp add: sys_run_app)

lemma fresh_node_tx: "nd_shared fresh_node = shared_new" "tx_idle fresh_node" "\<not> nd_tx_locked fresh_node" "length (ch_buf (nd_tx fresh_node)) = 64"
  by (simp_all add: fresh_node_def mqtt_new_unfold tx_idle_def chan_ok_def st_ok_def ids_ok_def)

lemma handshake_steps:
  "\<exists>nd t s. sys_run (nal_transport ip_get_address local_network) stream_socket
       [StepStack NoCut RxReady 0, StepStack NoCut RxReady 0] (sys_new fresh_node (nal_new (ip_broker_new (V4 0x7F000001) 1883))) =
     Ok (sending_system nd t Selecting []) \<and> nal_socket t = Some s \<and> nd_shared nd = set_connected (Some False) (set_connected None shared_new) \<and>
     nd_tx nd = nd_tx fresh_node \<and> nd_tx_sub nd = nd_tx_sub fresh_node \<and> \<not> nd_tx_locked nd \<and> length (nd_write_buf nd) = 32"
proof -
  let ?nd = "with_shared (set_connected None) fresh_node"
  have len: "length (connack_bytes new_session) \<le> 20" by code_simp
  then have "length (connack_bytes new_session) \<le> READ_BUF_LEN" by (simp add: READ_BUF_LEN_def MAX_TOPIC_LEN_def MAX_MQTT_HEADER_LEN_def)
  moreover have "connack_ok new_session" by (simp add: connack_ok_def new_session_def props_ok_def property_bytes_def)
  moreover have "connack_reason_success (ca_reason_code new_session)" "\<not> ca_session_present new_session" by code_simp+
  moreover have "connectable ?nd" using fresh_node_connectable(1) by (simp add: connectable_def with_shared_def connect_packet_def)
  moreover have "ca_properties new_session = Slice [ServerKeepAlive 30]" by (simp add: new_session_def)
  ultimately obtain nd1 s1 where c: "connect_mqtt stream_socket 0 ?nd (connack_bytes new_session @ [], []) = Some (Ok False, nd1, s1)"
    "nd_shared nd1 = nd_shared ?nd"
    using connect_mqtt_stream [of ?nd new_session "[ServerKeepAlive 30]" 0 "[]" "[]"] by auto
  note tx = connect_mqtt_tx [OF c(1)]
  show ?thesis
    using c tx fresh_node_tx(1,3) fresh_node_sel(3)
    by (simp add: same_tx_def sys_new_def sending_system_def move_stack_def nal_transport_def nal_is_connected_def nal_new_def nal_connect_def
        ip_get_address_def ip_broker_new_def connect_attempt_def local_network_def nal_get_socket_def with_shared_def)
qed

text \<open>The publish is queued, and then the stack takes it.\<close>

definition queueing_actions :: "((IpBroker, bytes \<times> bytes) NalTransport, bytes \<times> bytes) Action list" where
  "queueing_actions =
     [StepStack NoCut RxReady 0, StepStack NoCut RxReady 0, StartPublish busy_publish, StepPublish 0, StepPublish 0, StepPublish 0,
      StepPublish 0]"

lemma queueing_run:
  "\<exists>nd1 t s pid. sys_run (nal_transport ip_get_address local_network) stream_socket queueing_actions
       (sys_new fresh_node (nal_new (ip_broker_new (V4 0x7F000001) 1883))) =
       Ok (sending_system nd1 t Selecting [(busy_publish, Waiting 1 pid AwaitTx)]) \<and>
     nal_socket t = Some s \<and> queued (publish_packet (publish_set_pid pid busy_publish)) pid nd1"
proof -
  let ?tr = "nal_transport ip_get_address local_network"
  obtain nd t s where h: "sys_run ?tr stream_socket [StepStack NoCut RxReady 0, StepStack NoCut RxReady 0]
      (sys_new fresh_node (nal_new (ip_broker_new (V4 0x7F000001) 1883))) = Ok (sending_system nd t Selecting [])"
    "nal_socket t = Some s" and sh: "nd_shared nd = set_connected (Some False) (set_connected None shared_new)"
    and tx: "nd_tx nd = nd_tx fresh_node" "nd_tx_sub nd = nd_tx_sub fresh_node" "\<not> nd_tx_locked nd" and wb: "length (nd_write_buf nd) = 32"
    using handshake_steps by blast
  have free: "sh_connected (nd_shared nd) = Some False" "sh_outgoing_pid (nd_shared nd) = []" "sh_inflight_pub (nd_shared nd) = []"
    "sh_outgoing_rel (nd_shared nd) = []" "shared_ok (nd_shared nd)"
    using shared_new_ok unfolding sh by (simp_all add: shared_new_def)
  have idle: "tx_idle nd" using fresh_node_tx(2) tx by (simp add: tx_idle_def)
  have ok: "publish_ok (publish_set_pid pid_new busy_publish)"
    by (simp add: busy_publish_def publish_ok_def publish_set_pid_def str_ok_def props_ok_def pid_ok_def pid_new_def)
  have "publish_max_packet_size busy_publish = Ok 13" by code_simp
  moreover have "MAX_MQTT_HEADER_LEN + length (publish_body (publish_set_pid pid_new busy_publish)) \<le> 13" by code_simp
  ultimately have "size_fits publish_encode publish_body busy_publish nd"
    using fresh_node_tx(4) tx(1) by (simp add: size_fits_def publish_encode_def)
  with ok idle free tx(3) wb have "publishable busy_publish nd" by (simp add: publishable_def has_room_def MAX_INFLIGHT_def)
  from publish_begins [OF this] obtain pid nd1 where q: "task_steps 4 (publish_step busy_publish) (Connecting 1, nd) = (Waiting 1 pid AwaitTx, nd1)"
    "queued (publish_packet (publish_set_pid pid busy_publish)) pid nd1" by blast
  have actions: "queueing_actions = [StepStack NoCut RxReady 0, StepStack NoCut RxReady 0] @ [StartPublish busy_publish] @
      replicate 4 (StepPublish 0)" by (simp add: queueing_actions_def eval_nat_numeral)
  have start: "sys_run ?tr stream_socket [StartPublish busy_publish] (sending_system nd t Selecting []) =
      Ok (sending_system nd t Selecting [(busy_publish, Connecting 1)])" by (simp add: start_publish_def sending_system_def)
  note steps = publish_steps_run [OF q(1), of ?tr stream_socket t Selecting]
  have "sys_run ?tr stream_socket queueing_actions (sys_new fresh_node (nal_new (ip_broker_new (V4 0x7F000001) 1883))) =
      Ok (sending_system nd1 t Selecting [(busy_publish, Waiting 1 pid AwaitTx)])"
    unfolding actions by (simp only: sys_run_then [OF h(1)] sys_run_then [OF start] steps)
  with h(2) q(2) show ?thesis by blast
qed

lemma sending_run:
  "\<exists>sys g. sys_run (nal_transport ip_get_address local_network) stream_socket sending_actions
       (sys_new fresh_node (nal_new (ip_broker_new (V4 0x7F000001) 1883))) = Ok sys \<and>
     sys_phase sys = Transmitting g \<and> grant_bytes g (ch_buf (nd_tx (sys_node sys))) \<noteq> [] \<and> nal_socket (sys_transport sys) \<noteq> None"
proof -
  let ?tr = "nal_transport ip_get_address local_network"
  obtain nd1 t s pid where q: "sys_run ?tr stream_socket queueing_actions (sys_new fresh_node (nal_new (ip_broker_new (V4 0x7F000001) 1883))) =
      Ok (sending_system nd1 t Selecting [(busy_publish, Waiting 1 pid AwaitTx)])" "nal_socket t = Some s"
    "queued (publish_packet (publish_set_pid pid busy_publish)) pid nd1" using queueing_run by blast
  from q(3) obtain g sub st where g: "read_with_context True (nd_tx_sub nd1) (ch_state (nd_tx nd1)) = (Ok g, sub, st)"
    "grant_bytes g (ch_buf (nd_tx nd1)) = publish_packet (publish_set_pid pid busy_publish)" by (auto simp: queued_def)
  have actions: "sending_actions = queueing_actions @ [StepStack NoCut (TxReady None) 1]"
    by (simp add: queueing_actions_def sending_actions_def)
  have last: "sys_run ?tr stream_socket [StepStack NoCut (TxReady None) 1] (sending_system nd1 t Selecting calls) =
      Ok (sending_system (nd1\<lparr>nd_tx_sub := sub, nd_tx := (nd_tx nd1)\<lparr>ch_state := st\<rparr>\<rparr>) (t\<lparr>nal_socket := Some s\<rparr>) (Transmitting g) calls)" for calls
    using q(2) g(1) by (simp add: sending_system_def move_stack_def nal_transport_def nal_get_socket_def select_begin_def tx_begin_def)
  have "sys_run ?tr stream_socket sending_actions (sys_new fresh_node (nal_new (ip_broker_new (V4 0x7F000001) 1883))) =
      Ok (sending_system (nd1\<lparr>nd_tx_sub := sub, nd_tx := (nd_tx nd1)\<lparr>ch_state := st\<rparr>\<rparr>) (t\<lparr>nal_socket := Some s\<rparr>) (Transmitting g)
        [(busy_publish, Waiting 1 pid AwaitTx)])"
    unfolding actions by (simp only: sys_run_then [OF q(1)] last)
  moreover have "publish_packet p \<noteq> []" for p by (simp add: publish_packet_def fixed_header_bytes_def)
  ultimately show ?thesis using g(2) by (auto simp: sending_system_def)
qed

theorem transmitted_packets_whole_witness:
  "\<exists>sys g. sys_run (nal_transport ip_get_address local_network) stream_socket sending_actions
       (sys_new fresh_node (nal_new (ip_broker_new (V4 0x7F000001) 1883))) = Ok sys \<and>
     sys_phase sys = Transmitting g \<and> request_packet (grant_bytes g (ch_buf (nd_tx (sys_node sys))))"
proof -
  let ?tr = "nal_transport ip_get_address local_network" and ?sys = "sys_new fresh_node (nal_new (ip_broker_new (V4 0x7F000001) 1883))"
  obtain sys g where run: "sys_run ?tr stream_socket sending_actions ?sys = Ok sys"
    and g: "sys_phase sys = Transmitting g" "grant_bytes g (ch_buf (nd_tx (sys_node sys))) \<noteq> []" using sending_run by blast
  obtain nd where "mqtt_new 64 64 (config_new [120]) 0 = (Ok nd :: (PubSubError, Node) result)" by (simp add: mqtt_new_unfold)
  then have "sys_reach action_ok ?tr stream_socket 64 ?sys" unfolding fresh_node_def by (auto intro: sys_init)
  moreover have "list_all action_ok sending_actions" by (simp add: sending_actions_def busy_publish_def)
  ultimately have reach: "sys_reach action_ok ?tr stream_socket 64 sys" using run by (rule sys_reach_run)
  from transmitted_packets_whole [OF socket_safeD(1) [OF stream_socket_safe] reach _ g(1) refl] g run show ?thesis by auto
qed

text \<open>
  C6: The broker sees one MQTT session per connection.  Over TCP, from a new node on, whatever the client, the stack and the
  network do in whatever order: everything that was written on the current connection is a CONNECT packet followed by whole
  packets of the kinds a client sends - requests, acknowledgements, PINGREQ, DISCONNECT - and nothing else.  The future of
  \<open>run\<close> is not dropped in the middle of a packet or of a handshake, as the next \<open>run\<close> would go on with that connection.
\<close>

theorem wire_carries_session:
  assumes "mqtt_new TX RX config now = Ok nd" and "TX < 65536" and "tr = nal_transport get_address (stream_net net)"
    and "list_all action_ok as" and "list_all (dropped_between tr stream_session) as"
    and "sys_run tr stream_socket as (sys_new nd (nal_new broker)) = Ok sys" and "nal_socket (sys_transport sys) = Some (inp, out)"
  shows "\<exists>c ps. out = c @ concat ps \<and> whole_packet PT_Connect c \<and> (\<forall>p \<in> set ps. \<exists>t \<in> set client_types. whole_packet t p)"
proof -
  have "sys_reach action_ok tr stream_socket TX (sys_new nd (nal_new broker))" by (rule sys_init [OF assms(1)])
  moreover have "carries tr stream_session (sys_transport (sys_new nd (nal_new broker)))"
    by (simp add: assms(3) carries_def sys_new_def nal_new_def nal_transport_def nal_get_socket_def)
  ultimately have "carries tr stream_session (sys_transport sys)"
    using stream_wire.sys_run_carries [OF stream_socket_ok assms(2)] assms(3-6) by blast
  with assms(3,7) show ?thesis by (simp add: carries_def nal_transport_def nal_get_socket_def stream_session_def)
qed

theorem wire_carries_session_witness:
  "\<exists>sys inp out c ps. sys_run (nal_transport ip_get_address local_network) stream_socket sending_actions
       (sys_new fresh_node (nal_new (ip_broker_new (V4 0x7F000001) 1883))) = Ok sys \<and> nal_socket (sys_transport sys) = Some (inp, out) \<and>
     out = c @ concat ps \<and> whole_packet PT_Connect c"
proof -
  let ?tr = "nal_transport ip_get_address local_network" and ?t = "nal_new (ip_broker_new (V4 0x7F000001) 1883)"
  obtain sys inp out where run: "sys_run ?tr stream_socket sending_actions (sys_new fresh_node ?t) = Ok sys"
    "nal_socket (sys_transport sys) = Some (inp, out)" using sending_run by fastforce
  have "local_network = stream_net (\<lambda>_. Ok (connack_bytes new_session))" by (simp add: local_network_def stream_net_def fun_eq_iff)
  then have tr: "?tr = nal_transport ip_get_address (stream_net (\<lambda>_. Ok (connack_bytes new_session)))" by simp
  have new: "mqtt_new 64 64 (config_new [120]) 0 = Ok fresh_node" by (simp add: fresh_node_def mqtt_new_unfold)
  have as: "list_all action_ok sending_actions" "list_all (dropped_between ?tr stream_session) sending_actions"
    by (simp_all add: sending_actions_def busy_publish_def)
  from wire_carries_session [OF new _ tr as run] run show ?thesis by auto
qed

text \<open>
  C8: What is queued gets out.  In every reachable system whose stack waits in \<open>select\<close> on a TCP connection, one iteration
  per frame in the TX channel, with nothing arriving meanwhile, empties the channel: the frames are on the connection, each
  once and in the order in which they were queued, their identifiers wait for transmission no more, and every QoS 0 publish
  that waits for one of them returns at its next poll.
\<close>

theorem queued_requests_are_written:
  assumes "sys_reach action_ok tr stream_socket TX sys" and "tr = nal_transport get_address net" and "sys_phase sys = Selecting"
    and "nal_socket (sys_transport sys) = Some (inp, out)" and "ms = ps_messages (ch_state (nd_tx (sys_node sys)))"
  shows "\<exists>sys'. sys_run tr stream_socket (write_all now (length ms)) sys = Ok sys' \<and> ps_messages (ch_state (nd_tx (sys_node sys'))) = [] \<and>
    nal_socket (sys_transport sys') = Some (inp, out @ concat (map (frame_bytes (ch_buf (nd_tx (sys_node sys)))) ms)) \<and>
    set (sh_outgoing_pid (nd_shared (sys_node sys'))) = set (sh_outgoing_pid (nd_shared (sys_node sys))) - (h_pid ` set ms - {0}) \<and>
    (\<forall>k p a pid. k < length (sys_publishes sys) \<and> sys_publishes sys ! k = (p, Waiting a pid AwaitTx) \<and> pub_qos p = AtMostOnce \<and>
       pid_get pid \<in> h_pid ` set ms - {0} \<longrightarrow>
       (\<exists>sys''. sys_exec tr stream_socket (StepPublish k) sys' = Ok sys'' \<and> sys_publishes sys'' ! k = (p, Finished (Ok ()))))"
proof -
  have ok: "sys_ok TX sys" by (rule sys_reach_ok [OF stream_socket_ok _ assms(1)])
  have q: "tx_queue (sys_phase sys) (sys_node sys)" by (rule sys_reach_queue [OF stream_socket_ok _ assms(1)])
  obtain sys' where s: "sys_run tr stream_socket (write_all now (length ms)) sys = Ok sys'" "ps_messages (ch_state (nd_tx (sys_node sys'))) = []"
    "nal_socket (sys_transport sys') = Some (inp, out @ concat (map (frame_bytes (ch_buf (nd_tx (sys_node sys)))) ms))"
    "set (sh_outgoing_pid (nd_shared (sys_node sys'))) = set (sh_outgoing_pid (nd_shared (sys_node sys))) - (h_pid ` set ms - {0})"
    "sys_publishes sys' = sys_publishes sys"
    using write_all_run [OF ok q assms(5) [symmetric] assms(3,4)] assms(2) by blast
  have "\<exists>sys''. sys_exec tr stream_socket (StepPublish k) sys' = Ok sys'' \<and> sys_publishes sys'' ! k = (p, Finished (Ok ()))"
    if "k < length (sys_publishes sys)" "sys_publishes sys ! k = (p, Waiting a pid AwaitTx)" "pub_qos p = AtMostOnce"
      "pid_get pid \<in> h_pid ` set ms - {0}" for k p a pid
  proof -
    have "pid_get pid \<notin> set (sh_outgoing_pid (nd_shared (sys_node sys')))" using s(4) that(4) by blast
    then have "publish_step p (Waiting a pid AwaitTx) (sys_node sys') = (Finished (Ok ()), sys_node sys')" using that(3) by (simp add: wait_defs)
    with that(1,2) s(5) show ?thesis by (simp add: move_publish_def)
  qed
  with s(1-4) show ?thesis by (intro exI [of _ sys']) auto
qed

theorem queued_requests_are_written_witness:
  "\<exists>sys sys'. sys_run (nal_transport ip_get_address local_network) stream_socket queueing_actions
       (sys_new fresh_node (nal_new (ip_broker_new (V4 0x7F000001) 1883))) = Ok sys \<and> ps_messages (ch_state (nd_tx (sys_node sys))) \<noteq> [] \<and>
     sys_run (nal_transport ip_get_address local_network) stream_socket
       (write_all 1 (length (ps_messages (ch_state (nd_tx (sys_node sys)))))) sys = Ok sys' \<and>
     ps_messages (ch_state (nd_tx (sys_node sys'))) = []"
proof -
  let ?tr = "nal_transport ip_get_address local_network" and ?sys = "sys_new fresh_node (nal_new (ip_broker_new (V4 0x7F000001) 1883))"
  obtain nd1 t inp out pid where q: "sys_run ?tr stream_socket queueing_actions ?sys = Ok (sending_system nd1 t Selecting [(busy_publish, Waiting 1 pid AwaitTx)])"
    "nal_socket t = Some (inp, out)" "queued (publish_packet (publish_set_pid pid busy_publish)) pid nd1" using queueing_run by fastforce
  let ?sys1 = "sending_system nd1 t Selecting [(busy_publish, Waiting 1 pid AwaitTx)]"
  have "sys_reach action_ok ?tr stream_socket 64 ?sys"
    by (rule sys_init [of 64 64 "config_new [120]" 0]) (simp add: fresh_node_def mqtt_new_unfold)
  moreover have "list_all action_ok queueing_actions" by (simp add: queueing_actions_def busy_publish_def)
  ultimately have reach: "sys_reach action_ok ?tr stream_socket 64 ?sys1" using q(1) by (rule sys_reach_run)
  have "ps_messages (ch_state (nd_tx nd1)) \<noteq> []" using q(3) by (auto simp: queued_def read_with_context_def Let_def)
  with queued_requests_are_written [OF reach refl _ _ refl, of inp out 1] q(1,2) show ?thesis by (auto simp: sending_system_def)
qed

section \<open>Panics\<close>

text \<open>
  C24: What makes the reader panic, on any socket that keeps to its contract and from any state the reader can be in.  A
  call of \<open>recv\<close> that panics has read a packet that ends before the bytes taken to parse its header, or has a SUBACK or
  UNSUBACK with more than \<open>MAX_SUB_TOPICS_PER_MSG\<close> reason codes in its buffer.  Any other sequence of bytes gives a packet
  or an error, and the reader stays well formed.
\<close>

theorem recv_panics_only_on_bad_packets:
  assumes "socket_ok sk" and "reader_ok pr" and "recv sk pr s = Some (r, pr', s')"
  shows "reader_ok pr' \<and>
    (r = Panic \<longrightarrow> overrun (take (pr_read_bytes pr') (pr_buf pr')) \<or>
       (\<exists>n. pr_packet_len pr' = Some n \<and> long_codes (take (min n (pr_read_bytes pr')) (pr_buf pr'))))"
proof -
  have "bad_input pr'" if "r = Panic" using recv_Panic [OF assms(1,2)] assms(3) that by blast
  with recv_ok [OF assms] show ?thesis by (simp add: bad_input_def)
qed

definition long_suback :: bytes where
  "long_suback = [0x90, 12, 0, 1, 0, 0, 0, 0, 0, 0, 0, 0, 0, 0]"

theorem recv_panics_only_on_bad_packets_witness:
  "\<exists>pr'. recv stream_socket reader_new (long_suback @ [0xD0, 0], []) = Some (Panic, pr', ([0xD0, 0], [])) \<and> reader_ok pr' \<and>
     (overrun (take (pr_read_bytes pr') (pr_buf pr')) \<or>
       (\<exists>n. pr_packet_len pr' = Some n \<and> long_codes (take (min n (pr_read_bytes pr')) (pr_buf pr'))))"
proof -
  have "control_frame long_suback"
    by (rule control_frameI [of _ "0x90" 0 "drop 2 long_suback" PT_SubAck AtMostOnce]; code_simp)
  moreover have "from_buffer long_suback = Panic" by code_simp
  ultimately obtain pr' where r: "recv stream_socket reader_new (long_suback @ [0xD0, 0], []) = Some (Panic, pr', ([0xD0, 0], []))"
    using recv_control_frame [OF _ reader_new_idle, of long_suback "[0xD0, 0]" "[]"] by auto
  from recv_panics_only_on_bad_packets [OF stream_socket_ok new_reader_ok r] r show ?thesis by simp
qed

text \<open>
  C5: What can make the program panic.  With requests without properties of their own, a socket and a transport that
  do not panic and a TX channel of less than 256 MiB, an action of a reachable system panics only when (a) a publish
  with an acknowledgement is recorded while every slot for publishes is taken, (b) a call of \<open>subscribe\<close> has more topics
  than its subscription has room for, (c) the CONNECT packet cannot be encoded into its 1024 bytes, (d) the
  counter of the attempts to connect is 255 and the backoff allows one more, (e) \<open>recv\<close>, on the socket the transport has now and with what has arrived there, panics on a packet
  that ends before the reader expects its topic to end, or on a SUBACK with more codes than fit, (f) \<open>recv\<close>, on that socket,
  gives a PUBREC, or a QoS 2 PUBLISH was stored, whose identifier does not fit its set.
\<close>

theorem system_panics_only:
  assumes "socket_safe sk" and "transport_safe tr" and "TX < 268435456" and "sys_reach action_plain tr sk TX sys"
    and "sys_exec tr sk a sys = Panic"
  shows "panic_cause tr sk a sys"
proof -
  have "sys_ok TX sys" by (rule sys_reach_ok [OF socket_safeD(1) [OF assms(1)] action_plain_ok assms(4)])
  then have "sys_safe tr sk TX sys" using assms(1-3) sys_reach_plain [OF assms(4)] by (simp add: sys_safe_def)
  then show ?thesis using assms(5) by (rule exec_panics)
qed

lemma cs_transport_safe: "transport_safe cs_transport"
  by (simp add: transport_safe_def cs_transport_def cs_connect_def cs_disconnect_def cs_socket_def)

theorem system_panics_only_witness:
  "\<exists>sys. sys_run cs_transport stream_socket busy_actions (busy_new [0x30, 4, 0, 1, 97, 0, 0xD0, 0]) = Ok sys \<and>
     sys_exec cs_transport stream_socket (StepStack NoCut RxReady 1) sys = Panic \<and>
     panic_cause cs_transport stream_socket (StepStack NoCut RxReady 1 :: (bytes \<times> bytes, bytes \<times> bytes) Action) sys"
proof -
  let ?inp = "[0x30, 4, 0, 1, 97, 0, 0xD0, 0] :: bytes"
  obtain sys where sys: "sys_run cs_transport stream_socket busy_actions (busy_new ?inp) = Ok sys" "sys_phase sys = Selecting"
    "nd_reader (sys_node sys) = reader_new" "sys_transport sys = (?inp, [])"
    using busy_run [of ?inp] by blast
  obtain pr where "recv stream_socket reader_new (?inp, []) = Some (Panic, pr, ([0], []))"
    using recv_empty_publish [OF empty_publish_sel reader_new_idle, of "[0xD0, 0]" "[]"] by auto
  with sys have p: "sys_exec cs_transport stream_socket (StepStack NoCut RxReady 1) sys = Panic"
    by (simp add: move_stack_def cs_transport_def cs_socket_def select_begin_def rx_begin_def after_select_def)
  with sys system_panics_only [OF stream_socket_safe cs_transport_safe _ busy_reach [OF sys(1)] p] show ?thesis by auto
qed

section \<open>A socket that is already connected\<close>

text \<open>
  C32: On a \<open>ConnectedSocketTransport\<close> no request ever gets through.  \<open>is_connected\<close> is always true, \<open>run\<close> does the MQTT
  handshake only on a transport that is not connected, and the session is marked as connected only by the handshake.
  Whatever the application, the broker and the socket do, in whatever order, the session is not connected, every call of
  \<open>publish\<close> and of \<open>subscribe\<close> that is not cancelled still waits for a connection in its first attempt, and nothing is
  subscribed.
\<close>

theorem connected_socket_never_connects:
  assumes "sys_reach A cs_transport sk TX sys"
  shows "sh_connected (nd_shared (sys_node sys)) = None \<and> sys_subscriptions sys = [] \<and>
    (\<forall>c \<in> set (sys_publishes sys). snd c = Connecting 1) \<and> (\<forall>c \<in> set (sys_subscribes sys). sc_task c = Connecting 1)"
  using sys_reach_offline [OF assms] by (simp add: sys_offline_def offline_def)

theorem connected_socket_never_connects_witness:
  "\<exists>sys. sys_run cs_transport stream_socket busy_actions (busy_new []) = Ok sys \<and> length (sys_subscribes sys) = 2 \<and>
     (\<forall>c \<in> set (sys_subscribes sys). sc_task c = Connecting 1)"
proof -
  obtain sys where sys: "sys_run cs_transport stream_socket busy_actions (busy_new []) = Ok sys" "length (sys_subscribes sys) = 2"
    using busy_run [of "[]"] by blast
  with connected_socket_never_connects [OF busy_reach [OF sys(1)]] show ?thesis by blast
qed

end
