(* ===== verification/Spec2Isabelle.thy ===== *)
theory Spec2Isabelle
  imports Codec_Properties Pubsub_Properties Reader_Properties Session_Properties Delivery_Properties
    Publish_Properties Subscribe_Properties Run_Properties Connect_Properties System_Properties
begin

text \<open>
  Verification of \<open>mqttrust\<close>, an MQTT client for embedded devices: an \<open>async\<close> crate without heap
  allocation, of two halves.  The \<^emph>\<open>client\<close> (\<open>src/client.rs\<close>) is the interface of the application:
  \<open>publish\<close>, \<open>subscribe\<close>, and subscriptions as streams of messages.  The \<^emph>\<open>stack\<close> (\<open>src/stack.rs\<close>) owns
  the connection: it connects and reconnects, writes what the client queues, reads and answers packets, and
  keeps the connection alive.  They share three things (\<open>src/lib.rs\<close>, \<open>new\<close>): a TX channel from the client
  to the stack, an RX channel from the stack to the subscriptions, and the session state (\<open>src/state.rs\<close>)
  behind a mutex.

  \<^bold>\<open>The build.\<close>  The model is of the features \<open>mqttv5\<close> and \<open>qos2\<close> with the default constants of
  \<open>build.rs\<close>.  Overflow checks are on: an arithmetic overflow, an index out of range and a failed \<open>unwrap\<close> are
  all the value \<open>Panic\<close> of the type \<open>result\<close>, next to \<open>Ok\<close> and \<open>Err\<close>.

  \<^bold>\<open>The theories\<close>, from the wire to the application.

  \<^item> \<open>Prelude\<close>: the result type, bytes and slices, big-endian numbers, UTF-8.
  \<^item> \<open>Codec_Types\<close> (\<open>error.rs\<close>, \<open>encoding/error.rs\<close>, \<open>encoding/utils.rs\<close>, \<open>encoding/packets/mod.rs\<close>): errors,
    packet identifiers, quality of service, packet types.
  \<^item> \<open>Encoder\<close>, \<open>Decoder\<close> (\<open>encoding/encoder.rs\<close>, \<open>encoding/decoder.rs\<close>): operations on a buffer with a
    position, each with a lemma that says what it writes or reads.
  \<^item> \<open>Properties\<close>, \<open>Property_Iterator\<close> (\<open>encoding/properties.rs\<close>) and \<open>Reason_Codes\<close> (\<open>encoding/reason_code.rs\<close>;
    the locale \<open>num_enum\<close> is the contract of the derived conversions).
  \<^item> \<open>Packet_Codec\<close>: the locales \<open>packet_encoder\<close> and \<open>packet_codec\<close>, what an encodable and a decodable packet
    promise; \<open>Packets_Acks\<close> and \<open>Packets_Out\<close> (\<open>encoding/packets/\<close>) model the packets and interpret them;
    \<open>Received_Packet\<close> (\<open>encoding/received_packet.rs\<close>) dispatches on the packet type.
  \<^item> \<open>Pubsub\<close> (\<open>pubsub/\<close>): the channel, a byte ring with a queue of frame headers.  \<open>Ring_Layout\<close> is the
    geometry of the ring, \<open>Pubsub_Inv\<close> the invariant of the state with its subscribers and an outstanding
    write grant, \<open>Pubsub_World\<close> the step relation over every operation with reachability.
  \<^item> \<open>Topic_Filter\<close> (\<open>topic_filter.rs\<close>), \<open>Message\<close> (\<open>message.rs\<close>), \<open>Config\<close> (\<open>config.rs\<close>).
  \<^item> \<open>Index_Containers\<close>: the contracts \<open>bounded_set\<close> and \<open>bounded_map\<close> of the containers of \<open>heapless\<close>, as
    documented there; \<open>Session\<close> (\<open>state.rs\<close>) uses them.
  \<^item> \<open>Packet_Reader\<close> (\<open>packet.rs\<close>): framing of the byte stream.
  \<^item> \<open>Stack\<close>: the node, all handlers, the branches of \<open>select\<close>, the MQTT handshake; \<open>Transports\<close>
    (\<open>broker.rs\<close>, \<open>transport/\<close>): brokers and the three transports, with the locales \<open>transport\<close> and
    \<open>reconnecting\<close>; \<open>Run\<close>: the loop of \<open>run\<close> and \<open>disconnect\<close> over any transport.
  \<^item> \<open>Client\<close>: requests as tasks, subscriptions.  \<open>Session_Spec\<close>: the abstract session and the simulation.
    \<open>Delivery\<close>: lemmas on the way of a message through the RX channel.  \<open>Requests\<close>: what the requests have in
    common, with the locale \<open>mqtt_encode\<close>, the contract of the trait \<open>MqttEncode\<close> that \<open>send\<close> relies on.
  \<^item> \<open>Stack_Steps\<close>: an iteration of \<open>run\<close> in the steps between which other tasks run, with the locale \<open>socket_handle\<close>,
    the contract of the reference to the socket; the three transports interpret it.  \<open>System\<close>: the node with all
    calls, subscriptions and messages, and an action for every move of one of them.
  \<^item> \<open>Whole_Packets\<close>, \<open>Chan_Inv\<close>, \<open>Node_Inv\<close>, \<open>Stack_Inv\<close>, \<open>System_Inv\<close>: the invariant of a channel with its
    subscribers and the bytes of its frames, of the node, and of the system, and its preservation by every action;
    \<open>Request_Safety\<close>, \<open>Stack_Safety\<close>, \<open>System_Safety\<close>: which steps can panic, and why.
  \<^item> \<open>Wire\<close>: the frame the stack is writing stays as it is whatever the client does meanwhile.  \<open>Packet_Stream\<close>: what the
    broker sees; the locale \<open>session_socket\<close> follows a socket through everything the stack writes, \<open>wire_transport\<close> through
    connecting and disconnecting, and both are interpreted on a byte stream over TCP.  \<open>Tx_Queue\<close>: the TX channel as a queue
    with one reader.  \<open>Offline\<close>: the invariant of a system over a transport that always says it is connected.

  \<^bold>\<open>State and time.\<close>  The record \<open>Node\<close> holds what both halves share and the fields of \<open>MqttStack\<close>.  An
  \<open>async\<close> function is a sequence of steps from one \<open>await\<close> to the next: \<open>request_step\<close> moves the task of a
  request, \<open>run_step\<close> is one iteration of \<open>run\<close>, \<open>poll_next\<close> one poll of a subscription; \<open>stack_step\<close> cuts an
  iteration where other tasks can see a half of it: while it connects, and while it waits for the socket with a grant
  of a channel.  The mutex of the session is never held across an \<open>await\<close>, so that a step finds it free; that of the
  TX publisher is a field of the node.  \<open>sys_reach\<close> are the states that any interleaving leads to.  What the
  environment decides is an argument: the time, the branch of \<open>select3\<close> that is ready first, how far a
  dropped \<open>recv\<close> had got, where a timeout strikes, and whether a \<open>try_lock\<close> finds its lock free.  Wakers are a
  log of calls.

  \<^bold>\<open>Parameters.\<close>  Sockets (\<open>Socket\<close>, with the contract \<open>socket_ok\<close>; \<open>stream_socket\<close> reads from a list of bytes
  and writes to another), transports in \<open>run\<close>, the backoff function, deferred payloads, the DNS resolver, the
  parser of socket addresses, \<open>TcpConnect\<close> and the TLS library.

  \<^bold>\<open>Termination.\<close>  Every definition is total except the loop of \<open>recv\<close>, which is a partial function into
  \<open>option\<close>: \<open>None\<close> is a loop that never ends.  \<open>run\<close> is driven by the list of decisions of the environment and
  gives the outcomes of its iterations.  No fuel is used.

  \<^bold>\<open>What is shown.\<close>
  \<^item> \<open>Codec_Properties\<close>: every packet survives encoding and receiving; the announced sizes, where they are enough and where not; iteration over properties.
  \<^item> \<open>Pubsub_Properties\<close>: after any sequence of operations the channel does not panic, its frames are disjoint and
    inside the buffer, and its counters cover the unread frames; readers get the published bytes in order;
    making room removes the oldest frames and no more than needed; the two ways in which a drop goes wrong, of a subscriber
    during a read and of a grant without a commit.
  \<^item> \<open>Reader_Properties\<close>: the reader frames a stream of packets that fit its buffer exactly; the three inputs
    that make it lose the frame, panic or hang.
  \<^item> \<open>Session_Properties\<close>: the session refines an abstract session of sets; its two panics; distinct
    identifiers; topic filters against their specification.
  \<^item> \<open>Delivery_Properties\<close>: a PUBLISH on the wire is acknowledged, buffered and handed to the matching
    subscription; what its acknowledgement means, with and without subscribers; a repeated QoS 2 PUBLISH is delivered twice.
  \<^item> \<open>Publish_Properties\<close>: a publish of the client is queued, written, acknowledged and completed; a reset of the
    session completes every waiting publish.
  \<^item> \<open>Subscribe_Properties\<close>: a subscribe request is queued, written and answered, tried again when the broker refuses a
    topic, and gives a subscription that listens to its filters.
  \<^item> \<open>Run_Properties\<close>: a dead connection is noticed and dropped; the iterations of a run whose attempts all fail.
  \<^item> \<open>Connect_Properties\<close>: the handshake, from a disconnected transport to a connected session, and what it means for
    the subscriptions that exist; \<open>run\<close> gives up after eleven failed attempts, on transports that closing disconnects.
  \<^item> \<open>System_Properties\<close>: the invariant of the whole system in every interleaving; the complete list of what can make it
    panic; a connection carries CONNECT and then whole packets of a client, and no frame changes while it is written; what
    is queued is written, in order, and settles the requests that wait for it; the two kinds of packets that make the reader
    panic, on any socket; on a \<open>ConnectedSocketTransport\<close> no request gets through.

  \<^bold>\<open>Not modelled.\<close>  Logging and formatting (\<open>fmt.rs\<close>, the implementations of \<open>Display\<close>, \<open>Debug\<close> and \<open>defmt::Format\<close>),
  which have no effect on the state; the v3 variants of packets and reason codes, which the modelled build leaves out; access
  to buffers for a \<open>'static\<close> lifetime, which is unsafe by contract; the contents of a granted region after a failed
  encoding, which no frame shows; the generation of constants by \<open>build.rs\<close>; the unit tests inside the sources, the fuzz
  targets and the example programs.  All other code of the crate is modelled.
\<close>

end
